(* ===== verification/Lj_Base.thy ===== *)
theory Lj_Base
  imports Main "HOL-Library.Word"
begin

text \<open>
  The prelude of the logjet development: the machine types of the Rust sources, the checked and
  saturating arithmetic of \<^verbatim>\<open>core::num\<close>, little-endian byte strings
  (\<^verbatim>\<open>to_le_bytes\<close>, \<^verbatim>\<open>from_le_bytes\<close>), decimal printing and
  parsing of \<^verbatim>\<open>u64\<close> (\<^verbatim>\<open>to_string\<close>, \<^verbatim>\<open>str::parse\<close>), and
  the generic list lemmas that the components share.

  Conventions. A \<^verbatim>\<open>uN\<close> value is an \<open>N word\<close>. A \<^verbatim>\<open>usize\<close> (a
  length, an index, a file offset) is a \<open>nat\<close>; where the source checks a
  \<^verbatim>\<open>usize\<close> for overflow the bound \<open>usize_bound\<close> is written out. A
  \<^verbatim>\<open>Result\<close> is a sum with the error on the left. A method taking
  \<^verbatim>\<open>&mut self\<close> returns its result paired with the new state, also when the result is an
  error, because the Rust caller can observe the state after a failed call.
\<close>

unbundle bit_operations_syntax

named_theorems le_simps \<open>little-endian encoding: lengths and round trips\<close>
named_theorems num_simps \<open>checked and saturating arithmetic\<close>

section \<open>Machine types\<close>

type_synonym u8 = "8 word"
type_synonym u16 = "16 word"
type_synonym u32 = "32 word"
type_synonym u64 = "64 word"
type_synonym bytes = "8 word list"

definition usize_bound :: nat where
  "usize_bound = 2 ^ 64"

section \<open>Checked and saturating arithmetic\<close>

definition checked_add :: "'a::len word \<Rightarrow> 'a word \<Rightarrow> 'a word option" where
  "checked_add a b = (if unat a + unat b < 2 ^ LENGTH('a) then Some (a + b) else None)"

definition checked_sub :: "'a::len word \<Rightarrow> 'a word \<Rightarrow> 'a word option" where
  "checked_sub a b = (if b \<le> a then Some (a - b) else None)"

definition checked_mul :: "'a::len word \<Rightarrow> 'a word \<Rightarrow> 'a word option" where
  "checked_mul a b = (if unat a * unat b < 2 ^ LENGTH('a) then Some (a * b) else None)"

definition saturating_add :: "'a::len word \<Rightarrow> 'a word \<Rightarrow> 'a word" where
  "saturating_add a b = (case checked_add a b of Some c \<Rightarrow> c | None \<Rightarrow> - 1)"

definition saturating_sub :: "'a::len word \<Rightarrow> 'a word \<Rightarrow> 'a word" where
  "saturating_sub a b = (case checked_sub a b of Some c \<Rightarrow> c | None \<Rightarrow> 0)"

definition usize_checked_add :: "nat \<Rightarrow> nat \<Rightarrow> nat option" where
  "usize_checked_add a b = (if a + b < usize_bound then Some (a + b) else None)"

definition usize_saturating_add :: "nat \<Rightarrow> nat \<Rightarrow> nat" where
  "usize_saturating_add a b = min (a + b) (usize_bound - 1)"

lemma checked_add_Some_iff [num_simps]:
  "checked_add a b = Some c \<longleftrightarrow> c = a + b \<and> unat a + unat b < 2 ^ LENGTH('a)"
  for a b :: "'a::len word"
  by (auto simp: checked_add_def)

lemma checked_add_SomeD: "checked_add a b = Some c \<Longrightarrow> unat c = unat a + unat b"
  for a b :: "'a::len word"
  by (auto simp: checked_add_def unat_word_ariths split: if_splits)

lemma checked_sub_Some_iff [num_simps]:
  "checked_sub a b = Some c \<longleftrightarrow> c = a - b \<and> b \<le> a"
  by (auto simp: checked_sub_def)

lemma checked_sub_self [simp]: "checked_sub a a = Some 0"
  by (simp add: checked_sub_def)

text \<open>A delta taken by \<open>checked_sub\<close> is undone by \<open>checked_add\<close>: the pair the writer and
  the reader use for sequence numbers and timestamps.\<close>

lemma checked_add_sub [num_simps]: "checked_sub a b = Some d \<Longrightarrow> checked_add b d = Some a"
  for a b d :: "'a::len word"
proof -
  assume "checked_sub a b = Some d"
  then have d: "d = a - b" and le: "b \<le> a" by (auto simp: num_simps)
  have "unat b + unat (a - b) = unat a"
    using le by (simp add: unat_sub word_le_nat_alt)
  then show ?thesis
    using d unsigned_less [of a] by (simp add: checked_add_def)
qed

lemma unat_saturating_add:
  "unat (saturating_add a b) = min (unat a + unat b) (2 ^ LENGTH('a) - 1)"
  for a b :: "'a::len word"
  by (auto simp: saturating_add_def checked_add_def unat_word_ariths unsigned_minus_1_eq_mask
      mask_eq_exp_minus_1 min_def)

lemma unat_saturating_sub: "unat (saturating_sub a b) = unat a - unat b"
  by (auto simp: saturating_sub_def checked_sub_def unat_sub word_le_nat_alt)

section \<open>The question mark operator\<close>

text \<open>\<open>try_st m f\<close> is Rust's \<^verbatim>\<open>let x = m?; f\<close> where \<open>m\<close> also changes the state
  \<open>s\<close>; \<open>try_r r s f\<close> is the same for a pure result \<open>r\<close> at the state \<open>s\<close>; \<open>try_from\<close>
  converts the error on the way, as \<^verbatim>\<open>From\<close> or \<^verbatim>\<open>map_err\<close> does.\<close>

definition try_st :: "('e + 'a) \<times> 's \<Rightarrow> ('a \<Rightarrow> 's \<Rightarrow> ('e + 'b) \<times> 's) \<Rightarrow> ('e + 'b) \<times> 's" where
  "try_st m f = (case fst m of Inl e \<Rightarrow> (Inl e, snd m) | Inr x \<Rightarrow> f x (snd m))"

definition try_from ::
    "('d \<Rightarrow> 'e) \<Rightarrow> ('d + 'a) \<times> 't \<Rightarrow> ('a \<Rightarrow> 't \<Rightarrow> ('e + 'b) \<times> 't) \<Rightarrow> ('e + 'b) \<times> 't" where
  "try_from c m f = (case fst m of Inl e \<Rightarrow> (Inl (c e), snd m) | Inr x \<Rightarrow> f x (snd m))"

definition try_r :: "'e + 'a \<Rightarrow> 's \<Rightarrow> ('a \<Rightarrow> ('e + 'b) \<times> 's) \<Rightarrow> ('e + 'b) \<times> 's" where
  "try_r r s f = (case r of Inl e \<Rightarrow> (Inl e, s) | Inr x \<Rightarrow> f x)"

definition and_then :: "'e + 'a \<Rightarrow> ('a \<Rightarrow> 'e + 'b) \<Rightarrow> 'e + 'b" where
  "and_then r f = (case r of Inl e \<Rightarrow> Inl e | Inr x \<Rightarrow> f x)"

definition ok_or :: "'a option \<Rightarrow> 'e \<Rightarrow> 'e + 'a" where
  "ok_or v e = (case v of None \<Rightarrow> Inl e | Some x \<Rightarrow> Inr x)"

lemma try_simps [simp]:
  "try_st (Inl e, s) f = (Inl e, s)" "try_st (Inr x, s) f = f x s"
  "try_from c (Inl e', t) g = (Inl (c e'), t)" "try_from c (Inr x, t) g = g x t"
  "try_r (Inl e) s h = (Inl e, s)" "try_r (Inr x) s h = h x"
  "and_then (Inl e) k = Inl e" "and_then (Inr x) k = k x"
  "ok_or None e = Inl e" "ok_or (Some y) e = Inr y"
  by (simp_all add: try_st_def try_from_def try_r_def and_then_def ok_or_def)

lemma try_st_Inr_iff:
  "try_st m f = (Inr y, s') \<longleftrightarrow> (\<exists>x s. m = (Inr x, s) \<and> f x s = (Inr y, s'))"
  by (cases m; cases "fst m") (auto simp: try_st_def)

lemma try_from_Inr_iff:
  "try_from c m f = (Inr y, s') \<longleftrightarrow> (\<exists>x s. m = (Inr x, s) \<and> f x s = (Inr y, s'))"
  by (cases m; cases "fst m") (auto simp: try_from_def)

lemma try_r_Inr_iff: "try_r r s f = (Inr y, s') \<longleftrightarrow> (\<exists>x. r = Inr x \<and> f x = (Inr y, s'))"
  by (cases r) auto

lemma and_then_Inr_iff: "and_then r f = Inr y \<longleftrightarrow> (\<exists>x. r = Inr x \<and> f x = Inr y)"
  by (cases r) auto

lemma ok_or_Inr_iff: "ok_or v e = Inr x \<longleftrightarrow> v = Some x"
  by (cases v) auto

lemmas try_Inr = try_st_Inr_iff try_from_Inr_iff try_r_Inr_iff and_then_Inr_iff ok_or_Inr_iff

text \<open>Unchanged parts of the state pass through a chain of calls.\<close>

lemma try_st_frame:
  assumes "P (snd m)" and "\<And>x s. m = (Inr x, s) \<Longrightarrow> P s \<Longrightarrow> P (snd (f x s))"
  shows "P (snd (try_st m f))"
  using assms by (cases m; cases "fst m") auto

lemma try_from_frame:
  assumes "P (snd m)" and "\<And>x s. m = (Inr x, s) \<Longrightarrow> P s \<Longrightarrow> P (snd (f x s))"
  shows "P (snd (try_from c m f))"
  using assms by (cases m; cases "fst m") auto

lemma try_r_frame:
  assumes "P s" and "\<And>x. r = Inr x \<Longrightarrow> P (snd (f x))"
  shows "P (snd (try_r r s f))"
  using assms by (cases r) auto

section \<open>Little-endian bytes\<close>

primrec le_bytes :: "nat \<Rightarrow> 'a::len word \<Rightarrow> bytes" where
  "le_bytes 0 w = []"
| "le_bytes (Suc n) w = (ucast w :: u8) # le_bytes n (drop_bit 8 w)"

primrec from_le :: "bytes \<Rightarrow> 'a::len word" where
  "from_le [] = 0"
| "from_le (b # bs) = (ucast b) OR (push_bit 8 (from_le bs))"

definition u16_le :: "u16 \<Rightarrow> bytes" where "u16_le w = le_bytes 2 w"
definition u32_le :: "u32 \<Rightarrow> bytes" where "u32_le w = le_bytes 4 w"
definition u64_le :: "u64 \<Rightarrow> bytes" where "u64_le w = le_bytes 8 w"

lemma length_le_bytes [simp, le_simps]: "length (le_bytes n w) = n"
  by (induction n arbitrary: w) auto

lemma length_u16_le [simp, le_simps]: "length (u16_le w) = 2"
  and length_u32_le [simp, le_simps]: "length (u32_le x) = 4"
  and length_u64_le [simp, le_simps]: "length (u64_le y) = 8"
  by (simp_all add: u16_le_def u32_le_def u64_le_def)

lemma bit_from_le_le_bytes:
  "bit (from_le (le_bytes n w) :: 'a::len word) k \<longleftrightarrow> k < 8 * n \<and> bit (w :: 'a word) k"
proof (induction n arbitrary: w k)
  case 0
  then show ?case by simp
next
  case (Suc n)
  show ?case
  proof (cases "k < 8")
    case True
    then show ?thesis by (auto simp: bit_simps dest: bit_imp_le_length)
  next
    case False
    then show ?thesis
      by (auto simp: bit_simps Suc.IH dest: bit_imp_le_length)
  qed
qed

lemma from_le_le_bytes: "LENGTH('a) \<le> 8 * n \<Longrightarrow> from_le (le_bytes n w) = (w :: 'a::len word)"
  by (rule bit_word_eqI) (auto simp: bit_from_le_le_bytes dest: bit_imp_le_length)

lemma from_le_u16_le [simp, le_simps]: "from_le (u16_le w) = w"
  and from_le_u32_le [simp, le_simps]: "from_le (u32_le x) = x"
  and from_le_u64_le [simp, le_simps]: "from_le (u64_le y) = y"
  by (simp_all add: u16_le_def u32_le_def u64_le_def from_le_le_bytes)

text \<open>Decoding is injective on byte strings of the exact width: the other half of the round trip.\<close>

lemma le_bytes_from_le:
  "8 * length bs \<le> LENGTH('a) \<Longrightarrow> le_bytes (length bs) (from_le bs :: 'a::len word) = bs"
proof (induction bs)
  case Nil
  then show ?case by simp
next
  case (Cons b bs)
  let ?r = "from_le bs :: 'a word"
  have len: "8 \<le> LENGTH('a)" using Cons.prems by simp
  have hd: "(ucast (ucast b OR push_bit 8 ?r :: 'a word) :: u8) = b"
    by (rule bit_word_eqI) (use len in \<open>auto simp: bit_simps\<close>)
  have small: "bit ?r k \<Longrightarrow> k < 8 * length bs" for k
  proof (induction bs arbitrary: k)
    case (Cons c cs)
    then show ?case
      by (auto simp: bit_simps dest!: Cons.IH dest: bit_imp_le_length)
  qed simp
  have tl: "drop_bit 8 (ucast b OR push_bit 8 ?r) = ?r"
    by (rule bit_word_eqI) (use Cons.prems small in \<open>force simp: bit_simps dest: bit_imp_le_length\<close>)
  show ?case using hd tl Cons by simp
qed

end
