(* ===== verification/Lj_Text.thy ===== *)
theory Lj_Text
  imports Lj_Base
begin

text \<open>
  The parts of \<^verbatim>\<open>core::str\<close> and \<^verbatim>\<open>core::fmt\<close> the sources use: decimal
  and hexadecimal printing, \<^verbatim>\<open>str::parse::<u64>\<close> with its three errors,
  \<^verbatim>\<open>trim\<close>, \<^verbatim>\<open>strip_prefix\<close>, \<^verbatim>\<open>strip_suffix\<close>,
  \<^verbatim>\<open>split_once\<close> and \<^verbatim>\<open>lines\<close>. A Rust string is a list of
  \<open>char\<close>, one per byte; white space is the ASCII white space of \<^verbatim>\<open>char::is_whitespace\<close>.
\<close>

named_theorems str_simps \<open>printing and parsing round trips\<close>

section \<open>Printing numbers\<close>

definition digit_char :: "nat \<Rightarrow> char" where
  "digit_char d = char_of (48 + d)"

fun show_nat :: "nat \<Rightarrow> string" where
  "show_nat n = (if n < 10 then [digit_char n] else show_nat (n div 10) @ [digit_char (n mod 10)])"

declare show_nat.simps [simp del]

definition show_u64 :: "u64 \<Rightarrow> string" where
  "show_u64 w = show_nat (unat w)"

definition hex_char :: "nat \<Rightarrow> char" where
  "hex_char d = char_of (if d < 10 then 48 + d else 87 + d)"

primrec hex_digits :: "nat \<Rightarrow> nat \<Rightarrow> string" where
  "hex_digits 0 n = []"
| "hex_digits (Suc k) n = hex_digits k (n div 16) @ [hex_char (n mod 16)]"

text \<open>The format \<^verbatim>\<open>{:#010x}\<close> of a \<^verbatim>\<open>u32\<close>: the prefix and eight digits.\<close>

definition show_hex32 :: "u32 \<Rightarrow> string" where
  "show_hex32 w = ''0x'' @ hex_digits 8 (unat w)"

section \<open>Parsing numbers\<close>

datatype parse_int_error = EmptyInt | InvalidDigit | PosOverflow

fun parse_int_error_display :: "parse_int_error \<Rightarrow> string" where
  "parse_int_error_display EmptyInt = ''cannot parse integer from empty string''"
| "parse_int_error_display InvalidDigit = ''invalid digit found in string''"
| "parse_int_error_display PosOverflow = ''number too large to fit in target type''"

definition to_digit :: "char \<Rightarrow> nat option" where
  "to_digit c = (let n = of_char c in if 48 \<le> n \<and> n \<le> (57::nat) then Some (n - 48) else None)"

text \<open>The loop of \<^verbatim>\<open>from_str_radix\<close>: at each character first the digit is decoded,
  then the multiplication and the addition are checked against the bound of the type.\<close>

fun parse_digits :: "nat \<Rightarrow> nat \<Rightarrow> string \<Rightarrow> parse_int_error + nat" where
  "parse_digits bound acc [] = Inr acc"
| "parse_digits bound acc (c # cs) =
     (case to_digit c of
        None \<Rightarrow> Inl InvalidDigit
      | Some d \<Rightarrow> if acc * 10 + d < bound then parse_digits bound (acc * 10 + d) cs
                 else Inl PosOverflow)"

definition parse_nat_below :: "nat \<Rightarrow> string \<Rightarrow> parse_int_error + nat" where
  "parse_nat_below bound s =
     (case s of
        [] \<Rightarrow> Inl EmptyInt
      | c # cs \<Rightarrow>
          if cs = [] \<and> (c = CHR ''+'' \<or> c = CHR ''-'') then Inl InvalidDigit
          else if c = CHR ''+'' then parse_digits bound 0 cs
          else parse_digits bound 0 s)"

definition parse_u64 :: "string \<Rightarrow> parse_int_error + u64" where
  "parse_u64 s = map_sum id of_nat (parse_nat_below (2 ^ 64) s)"

definition parse_usize :: "string \<Rightarrow> parse_int_error + nat" where
  "parse_usize s = parse_nat_below usize_bound s"

section \<open>Slicing strings\<close>

definition is_ws :: "char \<Rightarrow> bool" where
  "is_ws c \<longleftrightarrow> (let n = of_char c in n = (32::nat) \<or> (9 \<le> n \<and> n \<le> 13))"

definition trim_start :: "string \<Rightarrow> string" where
  "trim_start s = dropWhile is_ws s"

definition trim_end :: "string \<Rightarrow> string" where
  "trim_end s = rev (dropWhile is_ws (rev s))"

definition trim :: "string \<Rightarrow> string" where
  "trim s = trim_end (trim_start s)"

fun strip_prefix :: "'a list \<Rightarrow> 'a list \<Rightarrow> 'a list option" where
  "strip_prefix [] s = Some s"
| "strip_prefix (p # ps) [] = None"
| "strip_prefix (p # ps) (c # cs) = (if p = c then strip_prefix ps cs else None)"

definition strip_suffix :: "'a list \<Rightarrow> 'a list \<Rightarrow> 'a list option" where
  "strip_suffix p s = map_option rev (strip_prefix (rev p) (rev s))"

fun split_once :: "char \<Rightarrow> string \<Rightarrow> (string \<times> string) option" where
  "split_once d [] = None"
| "split_once d (c # cs) =
     (if c = d then Some ([], cs) else map_option (apfst ((#) c)) (split_once d cs))"

text \<open>\<^verbatim>\<open>str::lines\<close>: pieces ended by a newline, a final unterminated piece when it is
  not empty, and one trailing carriage return removed from each terminated piece.\<close>

definition strip_cr :: "string \<Rightarrow> string" where
  "strip_cr s = (case strip_suffix [CHR 0x0D] s of Some t \<Rightarrow> t | None \<Rightarrow> s)"

fun lines_from :: "string \<Rightarrow> string \<Rightarrow> string list" where
  "lines_from acc [] = (if acc = [] then [] else [acc])"
| "lines_from acc (c # cs) =
     (if c = CHR 0x0A then strip_cr acc # lines_from [] cs else lines_from (acc @ [c]) cs)"

definition lines :: "string \<Rightarrow> string list" where
  "lines s = lines_from [] s"

text \<open>\<^verbatim>\<open>is_ascii_alphabetic\<close>, \<^verbatim>\<open>to_ascii_lowercase\<close>,
  \<^verbatim>\<open>[String]::join\<close>, \<^verbatim>\<open>i64::to_string\<close>, and the \<^verbatim>\<open>{:?}\<close>
  format of a string of ASCII characters.\<close>

definition is_ascii_alphabetic :: "char \<Rightarrow> bool" where
  "is_ascii_alphabetic c \<longleftrightarrow> (let n = of_char c in (65 \<le> n \<and> n \<le> (90::nat)) \<or> (97 \<le> n \<and> n \<le> 122))"

definition to_ascii_lowercase :: "char \<Rightarrow> char" where
  "to_ascii_lowercase c = (let n = of_char c in if 65 \<le> n \<and> n \<le> (90::nat) then char_of (n + 32) else c)"

fun join :: "string \<Rightarrow> string list \<Rightarrow> string" where
  "join sep [] = []"
| "join sep [s] = s"
| "join sep (s # t # ts) = s @ sep @ join sep (t # ts)"

definition show_int :: "int \<Rightarrow> string" where
  "show_int i = (if i < 0 then CHR ''-'' # show_nat (nat (- i)) else show_nat (nat i))"

function show_hex :: "nat \<Rightarrow> string" where
  "show_hex n = (if n < 16 then [hex_char n] else show_hex (n div 16) @ [hex_char (n mod 16)])"
  by pat_completeness auto
termination by (relation "measure id") auto

declare show_hex.simps [simp del]

definition debug_char :: "char \<Rightarrow> string" where
  "debug_char c =
     (let n = of_char c :: nat in
      if n = 0 then [CHR 0x5C, CHR ''0'']
      else if n = 9 then [CHR 0x5C, CHR ''t'']
      else if n = 10 then [CHR 0x5C, CHR ''n'']
      else if n = 13 then [CHR 0x5C, CHR ''r'']
      else if n = 34 \<or> n = 92 then [CHR 0x5C, c]
      else if n < 32 \<or> n = 127 then CHR 0x5C # ''u{'' @ show_hex n @ ''}''
      else [c])"

definition debug_str :: "string \<Rightarrow> string" where
  "debug_str s = CHR 0x22 # concat (map debug_char s) @ [CHR 0x22]"

section \<open>Facts\<close>

lemma of_char_digit: "d < 10 \<Longrightarrow> of_char (digit_char d) = (48 + d :: nat)"
  by (simp add: digit_char_def)

lemma to_digit_digit_char [simp]: "d < 10 \<Longrightarrow> to_digit (digit_char d) = Some d"
  by (simp add: to_digit_def of_char_digit)

lemma to_digit_sign [simp]: "to_digit CHR ''+'' = None" "to_digit CHR ''-'' = None"
  by (simp_all add: to_digit_def)

lemma digit_char_neq_sign: "d < 10 \<Longrightarrow> digit_char d \<noteq> CHR ''+'' \<and> digit_char d \<noteq> CHR ''-''"
  by (metis option.distinct(1) to_digit_digit_char to_digit_sign)

lemma not_ws_digit_char: "d < 10 \<Longrightarrow> \<not> is_ws (digit_char d)"
  by (simp add: is_ws_def of_char_digit)

lemma parse_digits_append:
  "parse_digits b acc (xs @ ys) =
     (case parse_digits b acc xs of Inl e \<Rightarrow> Inl e | Inr v \<Rightarrow> parse_digits b v ys)"
  by (induction xs arbitrary: acc) (auto split: option.splits)

lemma parse_digits_show_nat: "n < b \<Longrightarrow> parse_digits b 0 (show_nat n) = Inr n"
proof (induction n rule: show_nat.induct)
  case (1 n)
  show ?case
  proof (cases "n < 10")
    case True
    then show ?thesis using 1(2) by (simp add: show_nat.simps)
  next
    case False
    with 1 have "parse_digits b 0 (show_nat (n div 10)) = Inr (n div 10)" by simp
    then show ?thesis
      using False 1(2) by (simp add: show_nat.simps [of n] parse_digits_append)
  qed
qed

lemma show_nat_digits: "\<exists>d ds. show_nat n = map digit_char (d # ds) \<and> (\<forall>x\<in>set (d # ds). x < 10)"
proof (induction n rule: show_nat.induct)
  case (1 n)
  show ?case
  proof (cases "n < 10")
    case True
    then show ?thesis by (intro exI [of _ n] exI [of _ "[]"]) (simp add: show_nat.simps)
  next
    case False
    with 1 obtain d ds where "show_nat (n div 10) = map digit_char (d # ds)"
      "\<forall>x\<in>set (d # ds). x < 10" by blast
    then show ?thesis using False
      by (intro exI [of _ d] exI [of _ "ds @ [n mod 10]"]) (auto simp: show_nat.simps [of n])
  qed
qed

lemma show_nat_Cons: "\<exists>d ds. show_nat n = digit_char d # ds \<and> d < 10"
  using show_nat_digits [of n] by auto

lemma parse_nat_below_show_nat [str_simps]: "n < b \<Longrightarrow> parse_nat_below b (show_nat n) = Inr n"
proof -
  assume n: "n < b"
  obtain d ds where s: "show_nat n = digit_char d # ds" and d: "d < 10"
    using show_nat_Cons by blast
  then show ?thesis
    using parse_digits_show_nat [OF n] digit_char_neq_sign [OF d]
    by (simp add: parse_nat_below_def)
qed

lemma parse_u64_show_u64 [simp, str_simps]: "parse_u64 (show_u64 w) = Inr w"
  by (simp add: parse_u64_def show_u64_def parse_nat_below_show_nat unsigned_less [of w, simplified])

lemma dropWhile_none: "\<forall>c\<in>set s. \<not> P c \<Longrightarrow> dropWhile P s = s"
  by (cases s) auto

lemma trim_no_ws: "\<forall>c\<in>set s. \<not> is_ws c \<Longrightarrow> trim s = s"
  by (simp add: trim_def trim_start_def trim_end_def dropWhile_none)

lemma show_nat_no_ws: "c \<in> set (show_nat n) \<Longrightarrow> \<not> is_ws c"
  using show_nat_digits [of n] by (auto simp: not_ws_digit_char)

lemma trim_show_u64 [simp, str_simps]: "trim (show_u64 w) = show_u64 w"
  by (rule trim_no_ws) (auto simp: show_u64_def dest: show_nat_no_ws)

lemma strip_prefix_Some_iff: "strip_prefix p s = Some r \<longleftrightarrow> s = p @ r"
  by (induction p s rule: strip_prefix.induct) auto

lemma strip_prefix_append [simp]: "strip_prefix p (p @ r) = Some r"
  by (simp add: strip_prefix_Some_iff)

lemma strip_suffix_Some_iff: "strip_suffix p s = Some r \<longleftrightarrow> s = r @ p"
  by (auto simp: strip_suffix_def strip_prefix_Some_iff rev_swap)

lemma strip_suffix_append [simp]: "strip_suffix p (r @ p) = Some r"
  by (simp add: strip_suffix_Some_iff)

lemma show_nat_inj: "show_nat m = show_nat n \<longleftrightarrow> m = n"
proof
  assume eq: "show_nat m = show_nat n"
  have m: "parse_digits (Suc (m + n)) 0 (show_nat m) = Inr m" by (rule parse_digits_show_nat) simp
  have n: "parse_digits (Suc (m + n)) 0 (show_nat n) = Inr n" by (rule parse_digits_show_nat) simp
  have "(Inr m :: parse_int_error + nat) = Inr n" by (rule trans [OF m [symmetric]]) (simp only: eq n)
  then show "m = n" by (rule Inr_inject)
qed simp

end
