(* ===== verification/Lj_Format.thy ===== *)
theory Lj_Format
  imports Lj_Text
begin

text \<open>
  The data model of the \<^verbatim>\<open>logjet\<close> crate: its error type (\<^verbatim>\<open>src/error.rs\<close>),
  record types (\<^verbatim>\<open>src/record.rs\<close>), block codecs (\<^verbatim>\<open>src/codec.rs\<close>,
  \<^verbatim>\<open>src/crc.rs\<close>) and block headers (\<^verbatim>\<open>src/format.rs\<close>).

  The compression crates and the CRC32C crate are not part of the repository. They are the fields of
  the record \<open>extern\<close>, an argument of every operation that calls them; what the code relies on
  is the predicate \<open>codecs_ok\<close>.
\<close>

section \<open>Errors\<close>

datatype io_kind =
    UnexpectedEof | InvalidData | InvalidInput | NotFound | BrokenPipe | TimedOut | OtherKind

datatype io_error = IoError (kind: io_kind) (msg: string)

datatype error =
    Io io_error
  | InvalidRecordType u8
  | UnknownCodec u8
  | UnknownVersion u8
  | HeaderTooShort u16
  | HeaderCrcMismatch u32 u32
  | BlockCrcMismatch u32 u32
  | LengthTooLarge string nat nat
  | InvalidHeader string
  | Truncated string
  | VarintTooLong
  | NumericOverflow string
  | RecordTooLarge nat nat
  | Codec string

fun error_display :: "error \<Rightarrow> string" where
  "error_display (Io e) = ''io error: '' @ msg e"
| "error_display (InvalidRecordType v) = ''invalid record type: '' @ show_nat (unat v)"
| "error_display (UnknownCodec v) = ''unknown codec: '' @ show_nat (unat v)"
| "error_display (UnknownVersion v) = ''unknown version: '' @ show_nat (unat v)"
| "error_display (HeaderTooShort v) = ''header too short: '' @ show_nat (unat v)"
| "error_display (HeaderCrcMismatch expected actual) =
     ''header crc mismatch: expected '' @ show_hex32 expected @ '', got '' @ show_hex32 actual"
| "error_display (BlockCrcMismatch expected actual) =
     ''block crc mismatch: expected '' @ show_hex32 expected @ '', got '' @ show_hex32 actual"
| "error_display (LengthTooLarge field v limit) =
     field @ '' too large: '' @ show_nat v @ '' > '' @ show_nat limit"
| "error_display (InvalidHeader m) = ''invalid header: '' @ m"
| "error_display (Truncated m) = ''truncated data: '' @ m"
| "error_display VarintTooLong = ''varint too long''"
| "error_display (NumericOverflow field) = ''numeric overflow: '' @ field"
| "error_display (RecordTooLarge encoded_len block_target_size) =
     ''record too large for block target: '' @ show_nat encoded_len @ '' > '' @ show_nat block_target_size"
| "error_display (Codec m) = ''codec error: '' @ m"

section \<open>Records\<close>

datatype record_type = Logs | Metrics | Traces | Events

fun record_type_u8 :: "record_type \<Rightarrow> u8" where
  "record_type_u8 Logs = 1"
| "record_type_u8 Metrics = 2"
| "record_type_u8 Traces = 3"
| "record_type_u8 Events = 4"

definition record_type_from_u8 :: "u8 \<Rightarrow> error + record_type" where
  "record_type_from_u8 v =
     (if v = 1 then Inr Logs else if v = 2 then Inr Metrics else if v = 3 then Inr Traces
      else if v = 4 then Inr Events else Inl (InvalidRecordType v))"

record owned_record =
  record_type :: record_type
  seq :: u64
  ts_unix_ns :: u64
  payload :: bytes

section \<open>Codecs\<close>

datatype codec = CodecNone | Lz4 | Zstd

fun codec_u8 :: "codec \<Rightarrow> u8" where
  "codec_u8 CodecNone = 0"
| "codec_u8 Lz4 = 1"
| "codec_u8 Zstd = 2"

definition codec_from_u8 :: "u8 \<Rightarrow> error + codec" where
  "codec_from_u8 v =
     (if v = 0 then Inr CodecNone else if v = 1 then Inr Lz4 else if v = 2 then Inr Zstd
      else Inl (UnknownCodec v))"

record extern =
  lz4_compress :: "bytes \<Rightarrow> bytes"
  lz4_decompress :: "bytes \<Rightarrow> nat \<Rightarrow> string + bytes"
  zstd_compress :: "bytes \<Rightarrow> nat \<Rightarrow> string + bytes"
  zstd_decompress :: "bytes \<Rightarrow> nat \<Rightarrow> string + bytes"
  crc32c :: "bytes \<Rightarrow> u32"

definition compress :: "extern \<Rightarrow> codec \<Rightarrow> bytes \<Rightarrow> error + bytes" where
  "compress X c input =
     (case c of
        CodecNone \<Rightarrow> Inr input
      | Lz4 \<Rightarrow> Inr (lz4_compress X input)
      | Zstd \<Rightarrow> (case zstd_compress X input 3 of Inl e \<Rightarrow> Inl (Codec e) | Inr out \<Rightarrow> Inr out))"

definition decompress :: "extern \<Rightarrow> codec \<Rightarrow> bytes \<Rightarrow> nat \<Rightarrow> error + bytes" where
  "decompress X c input expected_len =
     (case c of
        CodecNone \<Rightarrow>
          if length input \<noteq> expected_len then Inl (InvalidHeader ''raw payload length mismatch'')
          else Inr input
      | Lz4 \<Rightarrow>
          (case lz4_decompress X input expected_len of
             Inl e \<Rightarrow> Inl (Codec e)
           | Inr decoded \<Rightarrow>
               if length decoded \<noteq> expected_len
               then Inl (Codec (''LZ4 decompressed '' @ show_nat (length decoded) @ '' bytes, expected ''
                                 @ show_nat expected_len))
               else Inr decoded)
      | Zstd \<Rightarrow>
          (case zstd_decompress X input expected_len of Inl e \<Rightarrow> Inl (Codec e) | Inr out \<Rightarrow> Inr out))"

text \<open>What the code relies on of the two compression crates: decompressing what was compressed, with
  the original length as capacity, gives the original bytes.\<close>

definition codecs_ok :: "extern \<Rightarrow> bool" where
  "codecs_ok X \<longleftrightarrow>
     (\<forall>x. lz4_decompress X (lz4_compress X x) (length x) = Inr x) \<and>
     (\<forall>x l y. zstd_compress X x l = Inr y \<longrightarrow> zstd_decompress X y (length x) = Inr x)"

section \<open>Block headers\<close>

definition FORMAT_VERSION :: u8 where "FORMAT_VERSION = 1"

text \<open>The ASCII bytes of \<^verbatim>\<open>OTLPBLK!\<close>.\<close>

definition DEFAULT_SYNC_MARKER :: bytes where
  "DEFAULT_SYNC_MARKER = [0x4F, 0x54, 0x4C, 0x50, 0x42, 0x4C, 0x4B, 0x21]"

definition DEFAULT_BLOCK_TARGET_SIZE :: nat where "DEFAULT_BLOCK_TARGET_SIZE = 64 * 1024"
definition DEFAULT_MAX_BLOCK_SIZE :: nat where "DEFAULT_MAX_BLOCK_SIZE = 16 * 1024 * 1024"
definition BLOCK_HEADER_FIXED_LEN :: nat where "BLOCK_HEADER_FIXED_LEN = 24"
definition BLOCK_HEADER_EXT_LEN :: nat where "BLOCK_HEADER_EXT_LEN = 16"

definition BLOCK_HEADER_TOTAL_LEN :: nat where
  "BLOCK_HEADER_TOTAL_LEN = BLOCK_HEADER_FIXED_LEN + BLOCK_HEADER_EXT_LEN"

record block_header =
  bh_version :: u8
  bh_codec :: codec
  bh_flags :: u16
  bh_header_len :: u16
  bh_reserved :: u16
  bh_uncompressed_len :: u32
  bh_compressed_len :: u32
  bh_record_count :: u32
  bh_header_crc32c :: u32

record block_header_ext =
  base_seq :: u64
  base_ts_unix_ns :: u64

definition encode_without_crc :: "block_header \<Rightarrow> bytes" where
  "encode_without_crc h =
     [bh_version h] @ [codec_u8 (bh_codec h)] @ u16_le (bh_flags h) @ u16_le (bh_header_len h)
     @ u16_le (bh_reserved h) @ u32_le (bh_uncompressed_len h) @ u32_le (bh_compressed_len h)
     @ u32_le (bh_record_count h)"

definition header_encode :: "block_header \<Rightarrow> bytes" where
  "header_encode h = encode_without_crc h @ u32_le (bh_header_crc32c h)"

text \<open>\<open>slice i n bs\<close> is the array of the \<open>n\<close> bytes of \<open>bs\<close> from index \<open>i\<close>, used
  after the length check that puts every index in range.\<close>

definition slice :: "nat \<Rightarrow> nat \<Rightarrow> 'a list \<Rightarrow> 'a list" where
  "slice i n bs = take n (drop i bs)"

definition header_decode :: "bytes \<Rightarrow> error + block_header" where
  "header_decode bs =
     (if length bs < BLOCK_HEADER_FIXED_LEN then Inl (Truncated ''block header'')
      else if bs ! 0 \<noteq> FORMAT_VERSION then Inl (UnknownVersion (bs ! 0))
      else case codec_from_u8 (bs ! 1) of
             Inl e \<Rightarrow> Inl e
           | Inr c \<Rightarrow>
               Inr \<lparr>bh_version = bs ! 0, bh_codec = c,
                    bh_flags = from_le (slice 2 2 bs), bh_header_len = from_le (slice 4 2 bs),
                    bh_reserved = from_le (slice 6 2 bs),
                    bh_uncompressed_len = from_le (slice 8 4 bs),
                    bh_compressed_len = from_le (slice 12 4 bs),
                    bh_record_count = from_le (slice 16 4 bs),
                    bh_header_crc32c = from_le (slice 20 4 bs)\<rparr>)"

definition compute_header_crc :: "extern \<Rightarrow> block_header \<Rightarrow> bytes \<Rightarrow> u32" where
  "compute_header_crc X h ext_bytes = crc32c X (encode_without_crc h @ ext_bytes)"

definition ext_encode :: "block_header_ext \<Rightarrow> bytes" where
  "ext_encode e = u64_le (base_seq e) @ u64_le (base_ts_unix_ns e)"

definition ext_decode :: "bytes \<Rightarrow> error + block_header_ext" where
  "ext_decode bs =
     (if length bs < BLOCK_HEADER_EXT_LEN then Inl (Truncated ''block header extension'')
      else Inr \<lparr>base_seq = from_le (slice 0 8 bs), base_ts_unix_ns = from_le (slice 8 8 bs)\<rparr>)"

lemmas len_consts [simp] =
  BLOCK_HEADER_FIXED_LEN_def BLOCK_HEADER_EXT_LEN_def BLOCK_HEADER_TOTAL_LEN_def


section \<open>Facts\<close>

lemma record_type_from_u8_u8 [simp]: "record_type_from_u8 (record_type_u8 t) = Inr t"
  by (cases t) (simp_all add: record_type_from_u8_def)

lemma record_type_u8_from_u8: "record_type_from_u8 v = Inr t \<Longrightarrow> record_type_u8 t = v"
  by (auto simp: record_type_from_u8_def split: if_splits)

lemma codec_from_u8_u8 [simp]: "codec_from_u8 (codec_u8 c) = Inr c"
  by (cases c) (simp_all add: codec_from_u8_def)

lemma codec_u8_from_u8: "codec_from_u8 v = Inr c \<Longrightarrow> codec_u8 c = v"
  by (auto simp: codec_from_u8_def split: if_splits)

lemma decompress_compress:
  "codecs_ok X \<Longrightarrow> compress X c x = Inr y \<Longrightarrow> decompress X c y (length x) = Inr x"
  by (cases c) (auto simp: compress_def decompress_def codecs_ok_def split: sum.splits)

text \<open>A payload accepted by \<^const>\<open>decompress\<close> under the raw and the LZ4 codec has the announced
  length. The Zstd branch of the source has no such check.\<close>

lemma decompress_length:
  "decompress X c y n = Inr x \<Longrightarrow> c \<noteq> Zstd \<Longrightarrow> length x = n"
  by (cases c) (auto simp: decompress_def split: sum.splits if_splits)

lemma length_slice [simp]: "i + n \<le> length bs \<Longrightarrow> length (slice i n bs) = n"
  by (simp add: slice_def)

lemma take_slice: "take i bs @ slice i n bs = take (i + n) bs"
  by (simp add: slice_def take_add)

lemma slice_slice: "slice i m bs @ slice (i + m) n bs = slice i (m + n) bs"
  by (simp add: slice_def take_add add.commute)

lemma slice_append_left [simp]: "i + n \<le> length xs \<Longrightarrow> slice i n (xs @ ys) = slice i n xs"
  by (simp add: slice_def)

lemma slice_full [simp]: "length xs = n \<Longrightarrow> slice 0 n (xs @ ys) = xs"
  by (simp add: slice_def)

lemma le_from_le_slice [le_simps]:
  "i + 2 \<le> length bs \<Longrightarrow> u16_le (from_le (slice i 2 bs)) = slice i 2 bs"
  "i + 4 \<le> length bs \<Longrightarrow> u32_le (from_le (slice i 4 bs)) = slice i 4 bs"
  "i + 8 \<le> length bs \<Longrightarrow> u64_le (from_le (slice i 8 bs)) = slice i 8 bs"
  using le_bytes_from_le [of "slice i 2 bs", where 'a = 16]
    le_bytes_from_le [of "slice i 4 bs", where 'a = 32]
    le_bytes_from_le [of "slice i 8 bs", where 'a = 64]
  by (simp_all add: u16_le_def u32_le_def u64_le_def)

lemma length_encode_without_crc [simp]: "length (encode_without_crc h) = 20"
  by (simp add: encode_without_crc_def)

lemma length_header_encode [simp]: "length (header_encode h) = 24"
  by (simp add: header_encode_def)

lemma length_ext_encode [simp]: "length (ext_encode e) = 16"
  by (simp add: ext_encode_def)

lemma header_encode_nth:
  "(header_encode h @ rest) ! 0 = bh_version h" "(header_encode h @ rest) ! 1 = codec_u8 (bh_codec h)"
  by (simp_all add: header_encode_def encode_without_crc_def)

lemma header_encode_slices:
  "slice 2 2 (header_encode h) = u16_le (bh_flags h)"
  "slice 4 2 (header_encode h) = u16_le (bh_header_len h)"
  "slice 6 2 (header_encode h) = u16_le (bh_reserved h)"
  "slice 8 4 (header_encode h) = u32_le (bh_uncompressed_len h)"
  "slice 12 4 (header_encode h) = u32_le (bh_compressed_len h)"
  "slice 16 4 (header_encode h) = u32_le (bh_record_count h)"
  "slice 20 4 (header_encode h) = u32_le (bh_header_crc32c h)"
  by (simp_all add: slice_def header_encode_def encode_without_crc_def)

lemma header_decode_encode:
  assumes "bh_version h = FORMAT_VERSION"
  shows "header_decode (header_encode h @ rest) = Inr h"
  using assms by (simp add: header_decode_def header_encode_nth [simplified] header_encode_slices)

lemma ext_decode_encode: "ext_decode (ext_encode e @ rest) = Inr e"
  by (simp add: ext_decode_def ext_encode_def slice_def)

lemma take2: "2 \<le> length bs \<Longrightarrow> [bs ! 0] @ [bs ! 1] = take 2 bs"
  by (cases bs; cases "tl bs") auto

text \<open>A decoded header re-encodes to the very bytes it was read from, so the CRC that
  \<^const>\<open>compute_header_crc\<close> recomputes from the decoded fields covers the bytes on disk.\<close>

lemma header_decode_fields:
  assumes "header_decode bs = Inr h"
  shows "24 \<le> length bs" "bh_version h = bs ! 0" "bh_version h = FORMAT_VERSION"
    "codec_u8 (bh_codec h) = bs ! 1"
    "u16_le (bh_flags h) = slice 2 2 bs" "u16_le (bh_header_len h) = slice 4 2 bs"
    "u16_le (bh_reserved h) = slice 6 2 bs" "u32_le (bh_uncompressed_len h) = slice 8 4 bs"
    "u32_le (bh_compressed_len h) = slice 12 4 bs" "u32_le (bh_record_count h) = slice 16 4 bs"
    "u32_le (bh_header_crc32c h) = slice 20 4 bs"
  using assms by (auto simp: header_decode_def le_simps codec_u8_from_u8 split: if_splits sum.splits)

lemma encode_without_crc_decode:
  assumes "header_decode bs = Inr h"
  shows "encode_without_crc h = take 20 bs"
proof -
  note f = header_decode_fields [OF assms]
  have "encode_without_crc h = take 2 bs @ slice 2 2 bs @ slice 4 2 bs @ slice 6 2 bs @ slice 8 4 bs
      @ slice 12 4 bs @ slice 16 4 bs"
    using f take2 [of bs] by (simp add: encode_without_crc_def)
  also have "\<dots> = take 20 bs"
    by (simp add: append_assoc [symmetric] take_slice del: append_assoc)
  finally show ?thesis .
qed

lemma header_encode_decode:
  assumes "header_decode bs = Inr h"
  shows "header_encode h = take 24 bs"
  using encode_without_crc_decode [OF assms] header_decode_fields(11) [OF assms] take_slice [of 20 bs 4]
  by (simp add: header_encode_def)

section \<open>An instance of the parameters\<close>

text \<open>Codecs that copy their input and a checksum that counts bytes: an instance of the parameters on
  which the theorems are exercised.\<close>

definition identity_extern :: extern where
  "identity_extern =
     \<lparr>lz4_compress = (\<lambda>x. x), lz4_decompress = (\<lambda>x n. Inr x), zstd_compress = (\<lambda>x l. Inr x),
      zstd_decompress = (\<lambda>x n. Inr x), crc32c = (\<lambda>x. of_nat (length x))\<rparr>"

lemma identity_codecs [simp]: "codecs_ok identity_extern"
  by (simp add: codecs_ok_def identity_extern_def)

end
