(* ===== verification/Lj_Config.thy ===== *)
theory Lj_Config
  imports Complex_Main Lj_Format Lj_Text
begin

text \<open>
  The configuration of the daemon, \<^verbatim>\<open>logjetd/src/config.rs\<close>: the raw key/value document,
  the defaults and checks that turn it into a \<^verbatim>\<open>Config\<close>, and the parser of human-readable
  sizes. The YAML parser is a parameter, a function from the text of the file to a raw configuration or
  a message; the file system is a function from a path to the result of reading it, undefined where no
  file exists. An error is the text of the \<^verbatim>\<open>Box<dyn Error>\<close>.
\<close>

section \<open>Resolved configuration\<close>

datatype ingest_protocol = Wire | OtlpHttp | OtlpGrpc | Plugin

datatype buffer_limit = LimitBytes nat | LimitMessages nat

record buffer_config =
  bc_limit :: buffer_limit
  bc_keep_messages :: nat

datatype fsync_policy = FsyncNone | FsyncBlock | FsyncInterval

record file_config =
  fc_dir :: string
  fc_name :: string
  fc_segment_size_bytes :: u64
  fc_fsync :: fsync_policy
  fc_codec :: codec
  fc_max_total_bytes :: u64
  fc_block_alignment :: nat

datatype storage_config = StorageBuffer buffer_config | StorageFile file_config

record collector_config =
  co_urls :: "string list"
  co_timeout_ms :: u64
  co_ca_file :: "string option"
  co_cert_file :: "string option"
  co_key_file :: "string option"
  co_server_name :: "string option"
  co_batch_size :: nat
  co_batch_timeout_ms :: u64

datatype backpressure_mode = ModeBlock | ModeDisconnect | ModeDropNewest

record backpressure_config =
  bp_enabled :: bool
  bp_mode :: backpressure_mode
  bp_max_buffered_records :: nat

datatype upstream_mode = UpKeep | UpDrain

record upstream_config =
  up_replay_addr :: "string option"
  up_mode :: upstream_mode
  up_state_file :: "string option"
  up_retry_ms :: u64
  up_connect_timeout_ms :: u64

record tls_config =
  tls_enable :: bool
  tls_ca_file :: "string option"
  tls_cert_file :: "string option"
  tls_key_file :: "string option"
  tls_require_client_cert :: bool
  tls_server_name :: "string option"

record ingest_tls_config =
  itls_enable :: bool
  itls_ca_file :: "string option"
  itls_cert_file :: "string option"
  itls_key_file :: "string option"
  itls_require_client_cert :: bool

record ingest_limits =
  max_batch_bytes :: nat
  max_clients :: nat

datatype severity_floor = FloorTrace | FloorDebug | FloorInfo | FloorWarn | FloorError | FloorFatal

record ingest_overload_config =
  max_batches_per_second :: u64
  priority_severity_floor :: severity_floor
  report_every_ms :: u64

record daemon_config =
  dc_ingest_addr :: string
  dc_ingest_protocol :: ingest_protocol
  dc_ingest_tls :: ingest_tls_config
  dc_ingest_limits :: ingest_limits
  dc_ingest_overload :: ingest_overload_config
  dc_ingest_plugin_path :: "string option"
  dc_ingest_plugin_dir :: "string option"
  dc_ingest_plugin_name :: "string option"
  dc_ingest_plugin_env :: "string list"
  dc_replay_addr :: string
  dc_replay_max_clients :: nat
  dc_replay_client_timeout_ms :: u64
  dc_wire_compression :: bool
  dc_collector :: collector_config
  dc_backpressure :: backpressure_config
  dc_upstream :: upstream_config
  dc_tls :: tls_config
  dc_storage :: storage_config

section \<open>The raw document\<close>

datatype raw_collector_urls = One string | Many "string list"

record raw_config =
  raw_output :: "string option"
  raw_buffer_size :: "string option"
  raw_buffer_messages :: "nat option"
  raw_buffer_keep :: "nat option"
  raw_file_path :: "string option"
  raw_file_size :: "string option"
  raw_file_name :: "string option"
  raw_file_fsync :: "string option"
  raw_file_max_bytes :: "string option"
  raw_file_codec :: "string option"
  raw_file_block_alignment :: "nat option"
  raw_ingest_addr :: "string option"
  raw_ingest_protocol :: "string option"
  raw_ingest_tls_enable :: "bool option"
  raw_ingest_ca_file :: "string option"
  raw_ingest_cert_file :: "string option"
  raw_ingest_key_file :: "string option"
  raw_ingest_require_client_cert :: "bool option"
  raw_ingest_max_batch_bytes :: "nat option"
  raw_ingest_max_clients :: "nat option"
  raw_ingest_max_batches_per_second :: "u64 option"
  raw_ingest_priority_severity_floor :: "string option"
  raw_ingest_overload_report_ms :: "u64 option"
  raw_ingest_plugin_path :: "string option"
  raw_ingest_plugin_dir :: "string option"
  raw_ingest_plugin :: "string option"
  raw_ingest_use :: "string option"
  raw_ingest_plugin_env :: "string list"
  raw_replay_addr :: "string option"
  raw_replay_max_clients :: "nat option"
  raw_replay_client_timeout_ms :: "u64 option"
  raw_wire_compression :: "bool option"
  raw_collector_url :: "raw_collector_urls option"
  raw_collector_timeout_ms :: "u64 option"
  raw_collector_ca_file :: "string option"
  raw_collector_cert_file :: "string option"
  raw_collector_key_file :: "string option"
  raw_collector_server_name :: "string option"
  raw_collector_batch_size :: "nat option"
  raw_collector_batch_timeout_ms :: "u64 option"
  raw_backpressure_enabled :: "bool option"
  raw_backpressure_mode :: "string option"
  raw_backpressure_max_buffered_records :: "nat option"
  raw_upstream_replay_addr :: "string option"
  raw_upstream_mode :: "string option"
  raw_upstream_state_file :: "string option"
  raw_upstream_retry_ms :: "u64 option"
  raw_upstream_connect_timeout_ms :: "u64 option"
  raw_tls_enable :: "bool option"
  raw_tls_ca_file :: "string option"
  raw_tls_cert_file :: "string option"
  raw_tls_key_file :: "string option"
  raw_tls_require_client_cert :: "bool option"
  raw_tls_server_name :: "string option"

definition raw_config_empty :: raw_config where
  "raw_config_empty =
     \<lparr>raw_output = None,
      raw_buffer_size = None,
      raw_buffer_messages = None,
      raw_buffer_keep = None,
      raw_file_path = None,
      raw_file_size = None,
      raw_file_name = None,
      raw_file_fsync = None,
      raw_file_max_bytes = None,
      raw_file_codec = None,
      raw_file_block_alignment = None,
      raw_ingest_addr = None,
      raw_ingest_protocol = None,
      raw_ingest_tls_enable = None,
      raw_ingest_ca_file = None,
      raw_ingest_cert_file = None,
      raw_ingest_key_file = None,
      raw_ingest_require_client_cert = None,
      raw_ingest_max_batch_bytes = None,
      raw_ingest_max_clients = None,
      raw_ingest_max_batches_per_second = None,
      raw_ingest_priority_severity_floor = None,
      raw_ingest_overload_report_ms = None,
      raw_ingest_plugin_path = None,
      raw_ingest_plugin_dir = None,
      raw_ingest_plugin = None,
      raw_ingest_use = None,
      raw_ingest_plugin_env = [],
      raw_replay_addr = None,
      raw_replay_max_clients = None,
      raw_replay_client_timeout_ms = None,
      raw_wire_compression = None,
      raw_collector_url = None,
      raw_collector_timeout_ms = None,
      raw_collector_ca_file = None,
      raw_collector_cert_file = None,
      raw_collector_key_file = None,
      raw_collector_server_name = None,
      raw_collector_batch_size = None,
      raw_collector_batch_timeout_ms = None,
      raw_backpressure_enabled = None,
      raw_backpressure_mode = None,
      raw_backpressure_max_buffered_records = None,
      raw_upstream_replay_addr = None,
      raw_upstream_mode = None,
      raw_upstream_state_file = None,
      raw_upstream_retry_ms = None,
      raw_upstream_connect_timeout_ms = None,
      raw_tls_enable = None,
      raw_tls_ca_file = None,
      raw_tls_cert_file = None,
      raw_tls_key_file = None,
      raw_tls_require_client_cert = None,
      raw_tls_server_name = None\<rparr>"

section \<open>Values and sizes\<close>

definition parse_severity_floor :: "string \<Rightarrow> string + severity_floor" where
  "parse_severity_floor v =
     (if v = ''trace'' then Inr FloorTrace
      else if v = ''debug'' then Inr FloorDebug
      else if v = ''info'' then Inr FloorInfo
      else if v = ''warn'' then Inr FloorWarn
      else if v = ''error'' then Inr FloorError
      else if v = ''fatal'' then Inr FloorFatal
      else Inl (''invalid ingest.priority-severity-at-least: '' @ v))"

definition checked_size :: "u64 \<Rightarrow> nat \<Rightarrow> string \<Rightarrow> string + u64" where
  "checked_size v unit m = ok_or (checked_mul v (of_nat unit)) m"

definition parse_human_size :: "string \<Rightarrow> string + u64" where
  "parse_human_size s0 =
     (let s = trim s0;
          num_str = trim (takeWhile (\<lambda>c. \<not> is_ascii_alphabetic c) s);
          suffix = map to_ascii_lowercase (trim (dropWhile (\<lambda>c. \<not> is_ascii_alphabetic c) s))
      in and_then (map_sum (\<lambda>_. ''invalid size number: '' @ debug_str num_str) id (parse_u64 num_str)) (\<lambda>v.
         if suffix = [] then checked_size v 1024 ''size overflow (bare number treated as KiB)''
         else if suffix = ''b'' then Inr v
         else if suffix = ''kb'' then checked_size v 1000 ''size overflow''
         else if suffix = ''kib'' then checked_size v 1024 ''size overflow''
         else if suffix = ''mb'' then checked_size v 1000000 ''size overflow''
         else if suffix = ''mib'' then checked_size v 1048576 ''size overflow''
         else if suffix = ''gb'' then checked_size v 1000000000 ''size overflow''
         else if suffix = ''gib'' then checked_size v 1073741824 ''size overflow''
         else Inl (''unknown size suffix: '' @ debug_str suffix @ '' (use b, kb, kib, mb, mib, gb, gib)'')))"

text \<open>The scalars \<^verbatim>\<open>serde\<close> hands to the size visitor. A finite float is the rational it
  denotes; the cast to \<^verbatim>\<open>u64\<close> truncates and saturates, and sends \<^verbatim>\<open>NaN\<close> to
  zero.\<close>

datatype yaml_float = Finite rat | PosInf | NegInf | NotANumber

datatype yaml_scalar = YamlNone | YamlUnit | YamlI64 int | YamlU64 nat | YamlF64 yaml_float | YamlStr string

fun float_as_u64 :: "yaml_float \<Rightarrow> nat" where
  "float_as_u64 (Finite q) = min (nat \<lfloor>q\<rfloor>) (2 ^ 64 - 1)"
| "float_as_u64 PosInf = 2 ^ 64 - 1"
| "float_as_u64 NegInf = 0"
| "float_as_u64 NotANumber = 0"

fun deserialize_size_value :: "yaml_scalar \<Rightarrow> string option" where
  "deserialize_size_value YamlNone = None"
| "deserialize_size_value YamlUnit = None"
| "deserialize_size_value (YamlI64 v) = Some (show_int v)"
| "deserialize_size_value (YamlU64 v) = Some (show_nat v)"
| "deserialize_size_value (YamlF64 v) = Some (show_nat (float_as_u64 v))"
| "deserialize_size_value (YamlStr v) = Some v"

definition parse_buffer_limit :: "string option \<Rightarrow> nat option \<Rightarrow> string + buffer_limit" where
  "parse_buffer_limit sz messages =
     (case (sz, messages) of
        (Some _, Some _) \<Rightarrow> Inl ''buffer.size and buffer.messages conflict; set only one''
      | (Some s, None) \<Rightarrow>
          map_sum (\<lambda>e. ''buffer.size: '' @ e) (\<lambda>n. LimitBytes (unat n)) (parse_human_size s)
      | (None, Some n) \<Rightarrow> Inr (LimitMessages n)
      | (None, None) \<Rightarrow> Inr (LimitBytes (100 * 1024)))"

section \<open>Resolving a document\<close>

definition unwrap_or :: "'a option \<Rightarrow> 'a \<Rightarrow> 'a" where
  "unwrap_or v d = (case v of None \<Rightarrow> d | Some x \<Rightarrow> x)"

definition ingest_protocol_of :: "string option \<Rightarrow> string + ingest_protocol" where
  "ingest_protocol_of v =
     (let s = unwrap_or v ''wire'' in
      if s = ''wire'' then Inr Wire
      else if s = ''otlp-http'' then Inr OtlpHttp
      else if s = ''otlp-grpc'' then Inr OtlpGrpc
      else if s = ''plugin'' then Inr Plugin
      else Inl (''invalid ingest protocol: '' @ s))"

definition plugin_name_of :: "string option \<Rightarrow> string option \<Rightarrow> string + string option" where
  "plugin_name_of plugin alias =
     (case (plugin, alias) of
        (Some p, Some a) \<Rightarrow>
          if p \<noteq> a then Inl ''ingest.plugin and ingest.use must match when both are set'' else Inr (Some p)
      | (Some p, None) \<Rightarrow> Inr (Some p)
      | (None, Some a) \<Rightarrow> Inr (Some a)
      | (None, None) \<Rightarrow> Inr None)"

definition check :: "bool \<Rightarrow> string \<Rightarrow> string + unit" where
  "check b m = (if b then Inl m else Inr ())"

text \<open>The ingest part of \<^verbatim>\<open>Config::load\<close>, up to the limits.\<close>

record ingest_part =
  ip_protocol :: ingest_protocol
  ip_plugin_name :: "string option"
  ip_tls :: ingest_tls_config
  ip_limits :: ingest_limits
  ip_overload :: ingest_overload_config

definition load_ingest :: "raw_config \<Rightarrow> string + ingest_part" where
  "load_ingest raw =
     and_then (ingest_protocol_of (raw_ingest_protocol raw)) (\<lambda>protocol.
     and_then (plugin_name_of (raw_ingest_plugin raw) (raw_ingest_use raw)) (\<lambda>plugin_name.
     and_then (check (protocol = Plugin \<and> raw_ingest_plugin_path raw = None \<and> plugin_name = None)
       ''ingest.plugin-path or ingest.plugin is required when ingest.protocol = plugin'') (\<lambda>_.
     let tls = \<lparr>itls_enable = unwrap_or (raw_ingest_tls_enable raw) False,
                itls_ca_file = raw_ingest_ca_file raw, itls_cert_file = raw_ingest_cert_file raw,
                itls_key_file = raw_ingest_key_file raw,
                itls_require_client_cert = unwrap_or (raw_ingest_require_client_cert raw) False\<rparr>;
         limits = \<lparr>max_batch_bytes = unwrap_or (raw_ingest_max_batch_bytes raw) (1024 * 1024),
                   max_clients = unwrap_or (raw_ingest_max_clients raw) 32\<rparr>
     in and_then (parse_severity_floor (unwrap_or (raw_ingest_priority_severity_floor raw) ''error'')) (\<lambda>floor_value.
     let overload = \<lparr>max_batches_per_second = unwrap_or (raw_ingest_max_batches_per_second raw) 0,
                     priority_severity_floor = floor_value,
                     report_every_ms = unwrap_or (raw_ingest_overload_report_ms raw) 5000\<rparr>
     in and_then (check (max_batch_bytes limits = 0) ''ingest.max-batch-bytes must be greater than zero'') (\<lambda>_.
     and_then (check (max_clients limits = 0) ''ingest.max-clients must be greater than zero'') (\<lambda>_.
     Inr \<lparr>ip_protocol = protocol, ip_plugin_name = plugin_name, ip_tls = tls, ip_limits = limits,
          ip_overload = overload\<rparr>))))))"

definition load_collector :: "raw_config \<Rightarrow> string + collector_config" where
  "load_collector raw =
     (let urls = (case raw_collector_url raw of
                    Some (One url) \<Rightarrow> [url]
                  | Some (Many urls) \<Rightarrow> urls
                  | None \<Rightarrow> [''http://127.0.0.1:4318/v1/logs'']) in
      and_then (check (urls = []) ''collector.url list must not be empty'') (\<lambda>_.
      and_then (check (\<exists>url\<in>set urls. trim url = []) ''collector.url entries must not be empty'') (\<lambda>_.
      Inr \<lparr>co_urls = urls, co_timeout_ms = unwrap_or (raw_collector_timeout_ms raw) 10000,
           co_ca_file = raw_collector_ca_file raw, co_cert_file = raw_collector_cert_file raw,
           co_key_file = raw_collector_key_file raw, co_server_name = raw_collector_server_name raw,
           co_batch_size = max (unwrap_or (raw_collector_batch_size raw) 50) 1,
           co_batch_timeout_ms = unwrap_or (raw_collector_batch_timeout_ms raw) 200\<rparr>)))"

definition load_backpressure :: "raw_config \<Rightarrow> string + backpressure_config" where
  "load_backpressure raw =
     (let s = unwrap_or (raw_backpressure_mode raw) ''disconnect'' in
      and_then (if s = ''block'' then Inr ModeBlock
                else if s = ''disconnect'' then Inr ModeDisconnect
                else if s = ''drop-newest'' then Inr ModeDropNewest
                else Inl (''invalid backpressure mode: '' @ s)) (\<lambda>mode.
      let n = unwrap_or (raw_backpressure_max_buffered_records raw) 16 in
      and_then (check (n = 0) ''backpressure.max-buffered-records must be greater than zero'') (\<lambda>_.
      Inr \<lparr>bp_enabled = unwrap_or (raw_backpressure_enabled raw) False, bp_mode = mode,
           bp_max_buffered_records = n\<rparr>)))"

definition load_upstream :: "raw_config \<Rightarrow> string + upstream_config" where
  "load_upstream raw =
     (let s = unwrap_or (raw_upstream_mode raw) ''keep'' in
      and_then (if s = ''keep'' then Inr UpKeep
                else if s = ''drain'' then Inr UpDrain
                else Inl (''invalid upstream mode: '' @ s)) (\<lambda>mode.
      Inr \<lparr>up_replay_addr = raw_upstream_replay_addr raw, up_mode = mode,
           up_state_file = raw_upstream_state_file raw, up_retry_ms = unwrap_or (raw_upstream_retry_ms raw) 1000,
           up_connect_timeout_ms = unwrap_or (raw_upstream_connect_timeout_ms raw) 5000\<rparr>))"

definition load_file_storage :: "raw_config \<Rightarrow> string + file_config" where
  "load_file_storage raw =
     (let fsync_text = unwrap_or (raw_file_fsync raw) ''interval'' in
      and_then (if fsync_text = ''none'' then Inr FsyncNone
                else if fsync_text = ''block'' then Inr FsyncBlock
                else if fsync_text = ''interval'' then Inr FsyncInterval
                else Inl (''invalid file.fsync policy: '' @ fsync_text)) (\<lambda>fsync.
      let codec_text = unwrap_or (raw_file_codec raw) ''lz4'' in
      and_then (if codec_text = ''none'' then Inr CodecNone
                else if codec_text = ''lz4'' then Inr Lz4
                else if codec_text = ''zstd'' then Inr Zstd
                else Inl (''invalid file.codec: '' @ codec_text)) (\<lambda>codec.
      and_then (case raw_file_size raw of
                  Some s \<Rightarrow> map_sum (\<lambda>e. ''file.size: '' @ e) id (parse_human_size s)
                | None \<Rightarrow> Inr (100 * 1024)) (\<lambda>segment_bytes.
      and_then (case raw_file_max_bytes raw of
                  Some s \<Rightarrow> map_sum (\<lambda>e. ''file.max-bytes: '' @ e) id (parse_human_size s)
                | None \<Rightarrow> Inr 0) (\<lambda>max_total.
      Inr \<lparr>fc_dir = unwrap_or (raw_file_path raw) ''.'', fc_name = unwrap_or (raw_file_name raw) ''bar.logjet'',
           fc_segment_size_bytes = segment_bytes, fc_fsync = fsync, fc_codec = codec,
           fc_max_total_bytes = max_total,
           fc_block_alignment = unwrap_or (raw_file_block_alignment raw) 4096\<rparr>)))))"

definition load_storage :: "raw_config \<Rightarrow> string + storage_config" where
  "load_storage raw =
     (let mode = unwrap_or (raw_output raw) ''buffer'' in
      if mode = ''buffer'' then
        map_sum id (\<lambda>l. StorageBuffer \<lparr>bc_limit = l, bc_keep_messages = unwrap_or (raw_buffer_keep raw) 0\<rparr>)
          (parse_buffer_limit (raw_buffer_size raw) (raw_buffer_messages raw))
      else if mode = ''file'' then map_sum id StorageFile (load_file_storage raw)
      else Inl (''invalid output mode: '' @ mode))"

definition resolve :: "raw_config \<Rightarrow> string + daemon_config" where
  "resolve raw =
     and_then (load_ingest raw) (\<lambda>ip.
     let replay_max = unwrap_or (raw_replay_max_clients raw) 32;
         replay_timeout = unwrap_or (raw_replay_client_timeout_ms raw) 10000 in
     and_then (check (replay_max = 0) ''replay.max-clients must be greater than zero'') (\<lambda>_.
     and_then (check (replay_timeout = 0) ''replay.client-timeout-ms must be greater than zero'') (\<lambda>_.
     and_then (load_collector raw) (\<lambda>collector.
     and_then (load_backpressure raw) (\<lambda>backpressure.
     and_then (load_upstream raw) (\<lambda>upstream.
     let tls = \<lparr>tls_enable = unwrap_or (raw_tls_enable raw) False, tls_ca_file = raw_tls_ca_file raw,
                tls_cert_file = raw_tls_cert_file raw, tls_key_file = raw_tls_key_file raw,
                tls_require_client_cert = unwrap_or (raw_tls_require_client_cert raw) False,
                tls_server_name = raw_tls_server_name raw\<rparr> in
     and_then (load_storage raw) (\<lambda>storage.
     Inr \<lparr>dc_ingest_addr = unwrap_or (raw_ingest_addr raw) ''127.0.0.1:7001'',
          dc_ingest_protocol = ip_protocol ip, dc_ingest_tls = ip_tls ip, dc_ingest_limits = ip_limits ip,
          dc_ingest_overload = ip_overload ip, dc_ingest_plugin_path = raw_ingest_plugin_path raw,
          dc_ingest_plugin_dir = raw_ingest_plugin_dir raw, dc_ingest_plugin_name = ip_plugin_name ip,
          dc_ingest_plugin_env = raw_ingest_plugin_env raw,
          dc_replay_addr = unwrap_or (raw_replay_addr raw) ''0.0.0.0:7002'',
          dc_replay_max_clients = replay_max, dc_replay_client_timeout_ms = replay_timeout,
          dc_wire_compression = unwrap_or (raw_wire_compression raw) True, dc_collector = collector,
          dc_backpressure = backpressure, dc_upstream = upstream, dc_tls = tls, dc_storage = storage\<rparr>)))))))"

definition load ::
    "(string \<Rightarrow> string + raw_config) \<Rightarrow> (string \<Rightarrow> (io_error + string) option) \<Rightarrow> string \<Rightarrow> string + daemon_config"
  where
  "load yaml files path =
     and_then
       (case files path of
          Some (Inl e) \<Rightarrow> Inl (msg e)
        | Some (Inr text) \<Rightarrow> yaml text
        | None \<Rightarrow> if path = ''/etc/logjet.conf'' then Inr raw_config_empty
                  else Inl (''config file not found: '' @ path))
       resolve"

definition describe_urls :: "collector_config \<Rightarrow> string" where
  "describe_urls c = join '', '' (co_urls c)"

section \<open>Human-readable sizes\<close>

lemma trim_append_ws:
  assumes "s \<noteq> []" and "\<not> is_ws (hd s)" and "\<not> is_ws (last s)" and "\<forall>c\<in>set ws. is_ws c"
  shows "trim (s @ ws) = s"
proof -
  have "trim_start (s @ ws) = s @ ws" using assms(1,2) by (cases s) (simp_all add: trim_start_def)
  moreover have "dropWhile is_ws (rev ws @ rev s) = rev s"
  proof -
    have "dropWhile is_ws (rev ws @ rev s) = dropWhile is_ws (rev s)"
      using assms(4) by (intro dropWhile_append2) simp
    also have "\<dots> = rev s" using assms(1,3) by (cases s rule: rev_cases) simp_all
    finally show ?thesis .
  qed
  ultimately show ?thesis by (simp add: trim_def trim_end_def)
qed

lemma show_nat_ends: "\<not> is_ws (hd (show_nat n))" "\<not> is_ws (last (show_nat n))" "show_nat n \<noteq> []"
proof -
  obtain d ds where "show_nat n = digit_char d # ds" "d < 10" using show_nat_Cons by blast
  then show "show_nat n \<noteq> []" by simp
  then show "\<not> is_ws (hd (show_nat n))" "\<not> is_ws (last (show_nat n))"
    using show_nat_no_ws [of "hd (show_nat n)" n] show_nat_no_ws [of "last (show_nat n)" n] by simp_all
qed

lemma alphabetic_not_ws: "is_ascii_alphabetic c \<Longrightarrow> \<not> is_ws c"
  by (auto simp: is_ascii_alphabetic_def is_ws_def Let_def)

lemma ws_not_alphabetic: "is_ws c \<Longrightarrow> \<not> is_ascii_alphabetic c"
  using alphabetic_not_ws by blast

lemma show_nat_not_alphabetic: "c \<in> set (show_nat n) \<Longrightarrow> \<not> is_ascii_alphabetic c"
proof -
  assume c: "c \<in> set (show_nat n)"
  obtain d ds where "show_nat n = map digit_char (d # ds)" "\<forall>x\<in>set (d # ds). x < 10"
    using show_nat_digits by blast
  then obtain x where "c = digit_char x" "x < 10" using c by (auto simp del: list.map)
  then show ?thesis by (simp add: is_ascii_alphabetic_def of_char_digit)
qed

lemma lowercase_alphabetic: "is_ascii_alphabetic (to_ascii_lowercase c) \<Longrightarrow> is_ascii_alphabetic c"
  by (auto simp: is_ascii_alphabetic_def to_ascii_lowercase_def Let_def split: if_splits)

definition size_units :: "(string \<times> nat) list" where
  "size_units = [([], 1024), (''b'', 1), (''kb'', 1000), (''kib'', 1024), (''mb'', 1000000), (''mib'', 1048576),
     (''gb'', 1000000000), (''gib'', 1073741824)]"

lemma size_units_alphabetic:
  assumes "(u, k) \<in> set size_units" and "c \<in> set u"
  shows "is_ascii_alphabetic c"
proof -
  have "\<forall>(u, k)\<in>set size_units. list_all is_ascii_alphabetic u"
    by (simp add: size_units_def is_ascii_alphabetic_def)
  with assms show ?thesis by (auto simp: list_all_iff)
qed

lemma checked_size_eq:
  assumes "k < 2 ^ 64"
  shows "checked_size v k m = (if unat v * k < 2 ^ 64 then Inr (of_nat (unat v * k)) else Inl m)"
proof -
  have "unat (of_nat k :: u64) = k" using assms by (simp add: unat_of_nat)
  then show ?thesis by (simp add: checked_size_def checked_mul_def)
qed

lemma split_size:
  assumes "\<forall>c\<in>set ws. is_ws c" and "\<forall>c\<in>set sfx. is_ascii_alphabetic c" and "s = trim (show_u64 v @ ws @ sfx)"
  shows "trim (takeWhile (\<lambda>c. \<not> is_ascii_alphabetic c) s) = show_u64 v"
    and "trim (dropWhile (\<lambda>c. \<not> is_ascii_alphabetic c) s) = sfx"
proof -
  let ?n = "show_u64 v"
  note e = show_nat_ends [of "unat v", folded show_u64_def]
  have num: "\<And>c. c \<in> set (?n @ ws) \<Longrightarrow> \<not> is_ascii_alphabetic c"
    using assms(1) show_nat_not_alphabetic ws_not_alphabetic by (auto simp: show_u64_def)
  have s: "s = (if sfx = [] then ?n else ?n @ ws @ sfx)"
  proof (cases "sfx = []")
    case True
    then show ?thesis using trim_append_ws [OF e(3,1,2) assms(1)] assms(3) by simp
  next
    case False
    then have "\<not> is_ws (last (?n @ ws @ sfx))" using assms(2) alphabetic_not_ws by simp
    then show ?thesis using trim_append_ws [of "?n @ ws @ sfx" "[]"] e False assms(3) by simp
  qed
  have d: "dropWhile (\<lambda>c. \<not> is_ascii_alphabetic c) sfx = sfx" "takeWhile (\<lambda>c. \<not> is_ascii_alphabetic c) sfx = []"
    using assms(2) by (cases sfx; simp)+
  have "takeWhile (\<lambda>c. \<not> is_ascii_alphabetic c) s = (if sfx = [] then ?n else ?n @ ws)"
    using num d(2) takeWhile_append2 [of "?n @ ws" "\<lambda>c. \<not> is_ascii_alphabetic c" sfx]
      takeWhile_append2 [of ?n "\<lambda>c. \<not> is_ascii_alphabetic c" "[]"] by (simp add: s)
  then show "trim (takeWhile (\<lambda>c. \<not> is_ascii_alphabetic c) s) = ?n"
    using trim_append_ws [OF e(3,1,2)] assms(1) by simp
  have "dropWhile (\<lambda>c. \<not> is_ascii_alphabetic c) s = sfx"
    using num d(1) dropWhile_append2 [of "?n @ ws" "\<lambda>c. \<not> is_ascii_alphabetic c" sfx] 
      dropWhile_append2 [of ?n "\<lambda>c. \<not> is_ascii_alphabetic c" "[]"] by (simp add: s)
  then show "trim (dropWhile (\<lambda>c. \<not> is_ascii_alphabetic c) s) = sfx"
    using assms(2) alphabetic_not_ws trim_no_ws by simp
qed

text \<open>A decimal number followed by optional white space and a unit, in any mixture of cases, parses to the
  number times the unit, a bare number counting KiB; the product is checked and overflow is an error.\<close>

theorem parse_human_size_units:
  assumes "(unit, k) \<in> set size_units" and "map to_ascii_lowercase sfx = unit" and "\<forall>c\<in>set ws. is_ws c"
  shows "parse_human_size (show_u64 v @ ws @ sfx) =
    (if unat v * k < 2 ^ 64 then Inr (of_nat (unat v * k))
     else Inl (if unit = [] then ''size overflow (bare number treated as KiB)'' else ''size overflow''))"
proof -
  have "\<forall>c\<in>set sfx. is_ascii_alphabetic c"
  proof
    fix c assume "c \<in> set sfx"
    then have "to_ascii_lowercase c \<in> set unit" using assms(2) by auto
    from size_units_alphabetic [OF assms(1) this] show "is_ascii_alphabetic c" by (rule lowercase_alphabetic)
  qed
  note sp = split_size [OF assms(3) this refl, of v]
  have v: "unat v < 18446744073709551616" using unsigned_less [of v, where 'a = nat] by simp
  have eq: "parse_human_size (show_u64 v @ ws @ sfx) =
     (if unit = [] then checked_size v 1024 ''size overflow (bare number treated as KiB)''
      else if unit = ''b'' then Inr v
      else if unit = ''kb'' then checked_size v 1000 ''size overflow''
      else if unit = ''kib'' then checked_size v 1024 ''size overflow''
      else if unit = ''mb'' then checked_size v 1000000 ''size overflow''
      else if unit = ''mib'' then checked_size v 1048576 ''size overflow''
      else if unit = ''gb'' then checked_size v 1000000000 ''size overflow''
      else if unit = ''gib'' then checked_size v 1073741824 ''size overflow''
      else Inl (''unknown size suffix: '' @ debug_str unit @ '' (use b, kb, kib, mb, mib, gb, gib)''))"
    unfolding parse_human_size_def Let_def sp assms(2) by simp
  from assms(1) consider "unit = []" "k = 1024" | "unit = ''b''" "k = 1" | "unit = ''kb''" "k = 1000"
    | "unit = ''kib''" "k = 1024" | "unit = ''mb''" "k = 1000000" | "unit = ''mib''" "k = 1048576"
    | "unit = ''gb''" "k = 1000000000" | "unit = ''gib''" "k = 1073741824"
    by (auto simp: size_units_def)
  then show ?thesis by cases (simp_all add: eq checked_size_eq v)
qed

theorem parse_human_size_units_witness:
  "parse_human_size (show_u64 512 @ '' '' @ ''KiB'') = Inr 524288"
  using parse_human_size_units [of "''kib''" 1024 "''KiB''" "'' ''" 512]
  by (simp add: size_units_def to_ascii_lowercase_def is_ws_def char_of_def bit_0)

section \<open>What a loaded configuration satisfies\<close>

lemma check_Inr [simp]: "check b m = Inr u \<longleftrightarrow> \<not> b"
  by (simp add: check_def)

lemma load_ingest_valid:
  assumes "load_ingest raw = Inr ip"
  shows "0 < max_batch_bytes (ip_limits ip)" "0 < max_clients (ip_limits ip)"
    "ip_protocol ip = Plugin \<Longrightarrow> raw_ingest_plugin_path raw \<noteq> None \<or> ip_plugin_name ip \<noteq> None"
  using assms by (auto simp: load_ingest_def and_then_Inr_iff Let_def)

lemma load_collector_valid:
  assumes "load_collector raw = Inr co"
  shows "co_urls co \<noteq> []" "\<forall>url\<in>set (co_urls co). trim url \<noteq> []" "0 < co_batch_size co"
  using assms by (auto simp: load_collector_def and_then_Inr_iff Let_def)

lemma load_backpressure_valid: "load_backpressure raw = Inr bp \<Longrightarrow> 0 < bp_max_buffered_records bp"
  by (auto simp: load_backpressure_def and_then_Inr_iff Let_def)

text \<open>C8. Whatever the document says, a configuration that loads has passed the checks of the loader: the maximal batch
  size in bytes and the maximal number of clients of the ingest listener, the maximal number of clients and the
  client timeout of the replay listener, the batch size of the collector and the number of records buffered under
  backpressure are positive; there is at least one collector URL and no blank one; and a plugin to load is named when
  the plugin protocol is selected. The limits of the spools and the timeouts of the collector and the upstream
  connection are not checked and may be 0.\<close>

theorem loaded_config_is_valid:
  assumes "load yaml files path = Inr c"
  shows "0 < max_batch_bytes (dc_ingest_limits c) \<and> 0 < max_clients (dc_ingest_limits c) \<and>
    0 < dc_replay_max_clients c \<and> dc_replay_client_timeout_ms c \<noteq> 0 \<and>
    co_urls (dc_collector c) \<noteq> [] \<and> (\<forall>url\<in>set (co_urls (dc_collector c)). trim url \<noteq> []) \<and>
    0 < co_batch_size (dc_collector c) \<and> 0 < bp_max_buffered_records (dc_backpressure c) \<and>
    (dc_ingest_protocol c = Plugin \<longrightarrow> dc_ingest_plugin_path c \<noteq> None \<or> dc_ingest_plugin_name c \<noteq> None)"
proof -
  from assms obtain raw where "resolve raw = Inr c" by (auto simp: load_def and_then_Inr_iff)
  then obtain ip co bp where
    p: "load_ingest raw = Inr ip" "load_collector raw = Inr co" "load_backpressure raw = Inr bp"
    and c: "dc_ingest_protocol c = ip_protocol ip" "dc_ingest_limits c = ip_limits ip"
      "dc_ingest_plugin_path c = raw_ingest_plugin_path raw" "dc_ingest_plugin_name c = ip_plugin_name ip"
      "dc_collector c = co" "dc_backpressure c = bp"
      "0 < dc_replay_max_clients c" "dc_replay_client_timeout_ms c \<noteq> 0"
    by (auto simp: resolve_def and_then_Inr_iff Let_def)
  show ?thesis
    using load_ingest_valid [OF p(1)] load_collector_valid [OF p(2)] load_backpressure_valid [OF p(3)] c
    by simp
qed

theorem loaded_config_is_valid_witness:
  "\<exists>c. load (\<lambda>_. Inl ''no yaml'') (\<lambda>_. None) ''/etc/logjet.conf'' = Inr c \<and>
     0 < max_batch_bytes (dc_ingest_limits c) \<and> co_urls (dc_collector c) \<noteq> []"
proof -
  have "\<exists>c. load (\<lambda>_. Inl ''no yaml'') (\<lambda>_. None) ''/etc/logjet.conf'' = Inr c"
    by (simp add: load_def resolve_def load_ingest_def load_collector_def load_backpressure_def load_upstream_def
        load_storage_def ingest_protocol_of_def plugin_name_of_def parse_severity_floor_def parse_buffer_limit_def
        raw_config_empty_def unwrap_or_def check_def Let_def trim_def trim_end_def trim_start_def is_ws_def)
  then show ?thesis using loaded_config_is_valid by blast
qed

end
