(* ===== verification/Lj_Varint.thy ===== *)
theory Lj_Varint
  imports Lj_Format
begin

text \<open>
  The unsigned varints of the block payload: \<^verbatim>\<open>encode_varint\<close> of
  \<^verbatim>\<open>src/writer.rs\<close> and \<^verbatim>\<open>decode_varint\<close> of \<^verbatim>\<open>src/reader.rs\<close>.
  \<open>uvarint\<close> is the specification of the encoding: seven bits per byte, least significant first,
  the top bit set on every byte but the last.
\<close>

section \<open>The writer's encoder\<close>

definition u8_try_from :: "u64 \<Rightarrow> u8 option" where
  "u8_try_from v = (if v \<le> 255 then Some (ucast v) else None)"

lemma unat_drop_bit7: "unat (drop_bit 7 (v :: u64)) = unat v div 128"
  by (simp add: drop_bit_eq_div unat_div)

function encode_varint :: "u64 \<Rightarrow> bytes \<Rightarrow> error + bytes" where
  "encode_varint v out =
     (if 0x80 \<le> v then
        (case u8_try_from (v AND 0x7f) of
           None \<Rightarrow> Inl (NumericOverflow ''varint byte'')
         | Some low \<Rightarrow> encode_varint (drop_bit 7 v) (out @ [low OR 0x80]))
      else
        (case u8_try_from v of
           None \<Rightarrow> Inl (NumericOverflow ''varint final byte'')
         | Some b \<Rightarrow> Inr (out @ [b])))"
  by pat_completeness auto
termination
  by (relation "measure (\<lambda>(v, out). unat v)") (auto simp: unat_drop_bit7 word_le_nat_alt)

declare encode_varint.simps [simp del]

section \<open>The reader's decoder\<close>

function decode_varint_loop :: "bytes \<Rightarrow> nat \<Rightarrow> u64 \<Rightarrow> nat \<Rightarrow> (error + u64) \<times> nat" where
  "decode_varint_loop bs cursor v shift =
     (if cursor < length bs then
        let byte = bs ! cursor;
            cursor' = cursor + 1;
            v' = v OR push_bit shift (ucast (byte AND 0x7f))
        in if byte AND 0x80 = 0 then (Inr v', cursor')
           else if shift + 7 \<ge> 64 then (Inl VarintTooLong, cursor')
           else decode_varint_loop bs cursor' v' (shift + 7)
      else (Inl (Truncated ''varint''), cursor))"
  by pat_completeness auto
termination
  by (relation "measure (\<lambda>(bs, cursor, v, shift). length bs - cursor)") auto

declare decode_varint_loop.simps [simp del]

definition decode_varint :: "bytes \<Rightarrow> nat \<Rightarrow> (error + u64) \<times> nat" where
  "decode_varint bs cursor = decode_varint_loop bs cursor 0 0"

section \<open>The specification and the round trip\<close>

function uvarint :: "u64 \<Rightarrow> bytes" where
  "uvarint v = (if v < 0x80 then [ucast v] else (ucast (v AND 0x7f) OR 0x80) # uvarint (drop_bit 7 v))"
  by pat_completeness auto
termination
  by (relation "measure unat") (auto simp: unat_drop_bit7 word_less_nat_alt)

declare uvarint.simps [simp del]

lemma and_7f_le: "v AND 0x7f \<le> (255 :: u64)"
  by (rule order_trans [OF word_and_le1]) simp

text \<open>The two conversions of the source never fail, so its two error branches are dead.\<close>

lemma encode_varint_eq: "encode_varint v out = Inr (out @ uvarint v)"
proof (induction v out rule: encode_varint.induct)
  case (1 v out)
  show ?case
  proof (cases "0x80 \<le> v")
    case True
    then have ge: "\<not> v < 0x80" by (simp add: not_less)
    have "encode_varint (drop_bit 7 v) (out @ [ucast (v AND 0x7f) OR 0x80])
        = Inr ((out @ [ucast (v AND 0x7f) OR 0x80]) @ uvarint (drop_bit 7 v))"
      by (rule 1 [OF True]) (simp add: u8_try_from_def and_7f_le)
    then show ?thesis
      using True ge by (simp add: encode_varint.simps [of v] uvarint.simps [of v] u8_try_from_def and_7f_le)
  next
    case False
    then have "v \<le> 255" and "v < 0x80" by (simp_all add: word_le_nat_alt word_less_nat_alt)
    then show ?thesis
      using False by (simp add: encode_varint.simps [of v] uvarint.simps [of v] u8_try_from_def)
  qed
qed

lemma uvarint_nonempty [simp]: "uvarint v \<noteq> []"
  by (simp add: uvarint.simps)

lemma uvarint_0: "uvarint 0 = [0]"
  by (simp add: uvarint.simps)

lemma length_uvarint: "unat v < 2 ^ (7 * k) \<Longrightarrow> 0 < k \<Longrightarrow> length (uvarint v) \<le> k"
proof (induction v arbitrary: k rule: uvarint.induct)
  case (1 v)
  show ?case
  proof (cases "v < 0x80")
    case True
    then show ?thesis using 1(3) by (simp add: uvarint.simps)
  next
    case False
    then have ge: "128 \<le> unat v" by (simp add: word_le_nat_alt not_less)
    with 1(2) have "k \<noteq> 1" by auto
    with 1(3) obtain j where k: "k = Suc j" and j: "0 < j" by (cases k) auto
    have "unat (drop_bit 7 v) < 2 ^ (7 * j)"
      using 1(2) by (simp add: unat_drop_bit7 k power_add less_mult_imp_div_less mult.commute)
    then have "length (uvarint (drop_bit 7 v)) \<le> j" using 1(1) False j by simp
    then show ?thesis using False by (simp add: uvarint.simps [of v] k)
  qed
qed

lemma length_uvarint_10: "length (uvarint v) \<le> 10"
proof (rule length_uvarint)
  have "unat v < 2 ^ LENGTH(64)" by (rule unsigned_less)
  then show "unat v < 2 ^ (7 * 10)" by simp
qed simp

text \<open>The bit arithmetic of one step of the decoder.\<close>

lemma bit_7f: "bit (0x7f :: int) n \<longleftrightarrow> n < 7"
proof -
  have "(0x7f :: int) = mask 7" by (simp add: mask_eq_exp_minus_1)
  then show ?thesis by (simp only: bit_mask_iff) simp
qed

lemma bit_80: "bit (0x80 :: int) n \<longleftrightarrow> n = 7"
proof -
  have "(0x80 :: int) = 2 ^ 7" by simp
  then show ?thesis by (simp only: bit_exp_iff) auto
qed

lemma low7_or_80: "(ucast ((ucast (v AND 0x7f) OR 0x80 :: u8) AND 0x7f) :: u64) = v AND 0x7f"
proof -
  have "(ucast (v AND 0x7f) OR 0x80 :: u8) AND 0x7f = ucast (v AND 0x7f)"
    by (rule bit_word_eqI) (auto simp: bit_simps bit_7f bit_80)
  then show ?thesis
    by (auto intro!: bit_word_eqI simp: bit_simps bit_7f)
qed

lemma high_bit_set: "(ucast (v AND 0x7f :: u64) OR 0x80 :: u8) AND 0x80 \<noteq> 0"
proof
  assume "(ucast (v AND 0x7f :: u64) OR 0x80 :: u8) AND 0x80 = 0"
  then have "bit ((ucast (v AND 0x7f :: u64) OR 0x80 :: u8) AND 0x80) 7 = bit (0 :: u8) 7" by simp
  then show False by (simp add: bit_simps bit_80)
qed

lemma high_bit_clear:
  assumes "v < (0x80 :: u64)"
  shows "(ucast v :: u8) AND 0x80 = 0" "(ucast (ucast v AND 0x7f :: u8) :: u64) = v"
proof -
  have "unat v < 2 ^ 7" using assms by (simp add: word_less_nat_alt)
  then have "unat (take_bit 7 v) = unat v" by (simp add: unsigned_take_bit_eq take_bit_nat_eq_self)
  then have "take_bit 7 v = v" by (rule unsigned_word_eqI)
  then have hi: "bit v n \<Longrightarrow> n < 7" for n
    by (metis bit_take_bit_iff)
  show "(ucast v :: u8) AND 0x80 = 0"
    by (rule bit_word_eqI) (auto simp: bit_simps bit_80 dest: hi)
  show "(ucast (ucast v AND 0x7f :: u8) :: u64) = v"
    by (rule bit_word_eqI) (auto simp: bit_simps bit_7f dest: hi)
qed

lemma join7: "push_bit s (v AND 0x7f) OR push_bit (s + 7) (drop_bit 7 v) = push_bit s (v :: u64)"
proof (rule bit_word_eqI)
  fix n assume n: "n < LENGTH(64)"
  have "7 + (n - (s + 7)) = n - s" if "s + 7 \<le> n" using that by simp
  then show "bit (push_bit s (v AND 0x7f) OR push_bit (s + 7) (drop_bit 7 v)) n = bit (push_bit s v) n"
    using n by (cases "s + 7 \<le> n") (auto simp: bit_simps bit_7f)
qed

lemma decode_varint_loop_uvarint:
  assumes "shift < 64" and "unat v < 2 ^ (64 - shift)"
  shows "decode_varint_loop (pre @ uvarint v @ rest) (length pre) acc shift
     = (Inr (acc OR push_bit shift v), length pre + length (uvarint v))"
  using assms
proof (induction v arbitrary: pre acc shift rule: uvarint.induct)
  case (1 v)
  show ?case
  proof (cases "v < 0x80")
    case True
    then show ?thesis
      by (simp add: decode_varint_loop.simps uvarint.simps [of v] high_bit_clear)
  next
    case False
    let ?b = "ucast (v AND 0x7f) OR 0x80 :: u8"
    let ?acc = "acc OR push_bit shift (v AND 0x7f)"
    have ge: "128 \<le> unat v" using False by (simp add: word_less_nat_alt)
    have small: "shift + 7 < 64"
    proof (rule ccontr)
      assume "\<not> shift + 7 < 64"
      then have "(2::nat) ^ (64 - shift) \<le> 2 ^ 7" by (intro power_increasing) auto
      with ge 1(3) show False by simp
    qed
    define k where "k = 64 - (shift + 7)"
    have "64 - shift = k + 7" using small by (simp add: k_def)
    then have "unat (drop_bit 7 v) < 2 ^ k"
      using 1(3) by (simp add: unat_drop_bit7 power_add less_mult_imp_div_less)
    then have "unat (drop_bit 7 v) < 2 ^ (64 - (shift + 7))" by (simp add: k_def)
    from 1(1) [OF False small this, of "pre @ [?b]" ?acc]
    have "decode_varint_loop (pre @ ?b # uvarint (drop_bit 7 v) @ rest) (Suc (length pre)) ?acc (shift + 7)
        = (Inr (?acc OR push_bit (shift + 7) (drop_bit 7 v)), Suc (length pre) + length (uvarint (drop_bit 7 v)))"
      by simp
    then show ?thesis
      using False small high_bit_set [of v] join7 [of shift v]
      by (simp add: decode_varint_loop.simps [of _ "length pre"] uvarint.simps [of v] low7_or_80 or.assoc)
  qed
qed

lemma decode_varint_uvarint:
  "decode_varint (pre @ uvarint v @ rest) (length pre) = (Inr v, length pre + length (uvarint v))"
proof -
  have "unat v < 2 ^ LENGTH(64)" by (rule unsigned_less)
  then show ?thesis
    using decode_varint_loop_uvarint [of 0 v pre rest 0] by (simp add: decode_varint_def)
qed

text \<open>The decoder never leaves the buffer and never reads more than ten bytes.\<close>

lemma decode_varint_loop_bounds:
  assumes "decode_varint_loop bs cursor v shift = (r, cursor')" and "cursor \<le> length bs"
    and "shift = 7 * k" and "k \<le> 9"
  shows "cursor \<le> cursor' \<and> cursor' \<le> length bs \<and> cursor' + k \<le> cursor + 10"
  using assms
proof (induction bs cursor v shift arbitrary: k rule: decode_varint_loop.induct)
  case (1 bs cursor v shift)
  show ?case
  proof (cases "cursor < length bs")
    case False
    then show ?thesis using 1(2-) by (simp add: decode_varint_loop.simps [of bs])
  next
    case True
    let ?byte = "bs ! cursor"
    let ?v = "v OR push_bit shift (ucast (?byte AND 0x7f))"
    show ?thesis
    proof (cases "?byte AND 0x80 = 0 \<or> shift + 7 \<ge> 64")
      case True
      then show ?thesis
        using 1(2-) \<open>cursor < length bs\<close>
        by (auto simp: decode_varint_loop.simps [of bs cursor] Let_def split: if_splits)
    next
      case False
      with 1(2) \<open>cursor < length bs\<close>
      have rec: "decode_varint_loop bs (cursor + 1) ?v (shift + 7) = (r, cursor')"
        by (simp add: decode_varint_loop.simps [of bs cursor] Let_def)
      have "cursor + 1 \<le> cursor' \<and> cursor' \<le> length bs \<and> cursor' + (k + 1) \<le> cursor + 1 + 10"
        by (rule 1(1) [OF True refl refl refl]) (use False rec True 1 in auto)
      then show ?thesis by simp
    qed
  qed
qed

lemma decode_varint_bounds:
  assumes "decode_varint bs cursor = (r, cursor')" and "cursor \<le> length bs"
  shows "cursor \<le> cursor'" "cursor' \<le> length bs" "cursor' \<le> cursor + 10"
  using decode_varint_loop_bounds [of bs cursor 0 0 r cursor' 0] assms
  by (auto simp: decode_varint_def)

end
