(* ===== verification/Lj_Writer.thy ===== *)
theory Lj_Writer
  imports Lj_Varint
begin

text \<open>
  \<^verbatim>\<open>LogjetWriter\<close> of \<^verbatim>\<open>src/writer.rs\<close>: records are encoded into a
  block buffer as deltas against the block's first record, and a full block is compressed, framed,
  checksummed, padded and written to the sink.

  The sink \<^verbatim>\<open>W: Write\<close> is a type parameter of the writer; its \<^verbatim>\<open>write_all\<close>
  is an argument of the operations. The interface the writer relies on is the locale
  \<open>byte_sink\<close>: the lemmas on blocks are proved there once, for every sink, and the theory ends
  with the interpretation for \<^verbatim>\<open>Vec<u8>\<close>.
\<close>

section \<open>Configuration and state\<close>

record writer_config =
  block_target_size :: nat
  wc_codec :: codec
  wc_sync_marker :: bytes
  block_alignment :: nat

definition writer_config_default :: writer_config where
  "writer_config_default =
     \<lparr>block_target_size = DEFAULT_BLOCK_TARGET_SIZE, wc_codec = Lz4,
      wc_sync_marker = DEFAULT_SYNC_MARKER, block_alignment = 0\<rparr>"

record 'w writer =
  inner :: 'w
  config :: writer_config
  payload_buf :: bytes
  encoded_record_buf :: bytes
  compressed_buf :: bytes
  block_buf :: bytes
  block_base_seq :: "u64 option"
  block_base_ts_unix_ns :: "u64 option"
  record_count :: u32

type_synonym 'w write_all = "bytes \<Rightarrow> 'w \<Rightarrow> (io_error + unit) \<times> 'w"

definition writer_with_config :: "'w \<Rightarrow> writer_config \<Rightarrow> 'w writer" where
  "writer_with_config i c =
     \<lparr>inner = i, config = c, payload_buf = [], encoded_record_buf = [], compressed_buf = [],
      block_buf = [], block_base_seq = None, block_base_ts_unix_ns = None, record_count = 0\<rparr>"

definition writer_new :: "'w \<Rightarrow> 'w writer" where
  "writer_new i = writer_with_config i writer_config_default"

section \<open>Flushing a block\<close>

definition reset_block_state :: "'w writer \<Rightarrow> 'w writer" where
  "reset_block_state w =
     w\<lparr>payload_buf := [], encoded_record_buf := [], compressed_buf := [],
       block_base_seq := None, block_base_ts_unix_ns := None, record_count := 0\<rparr>"

text \<open>The block image built in \<^verbatim>\<open>block_buf\<close>: the sync marker, the header with its CRC,
  the extension, the compressed payload, and the CRC of everything after the marker.\<close>

definition block_header_for :: "extern \<Rightarrow> codec \<Rightarrow> nat \<Rightarrow> bytes \<Rightarrow> u32 \<Rightarrow> bytes \<Rightarrow> block_header" where
  "block_header_for X c uncompressed_len compressed rc ext_bytes =
     (let header = \<lparr>bh_version = FORMAT_VERSION, bh_codec = c, bh_flags = 0,
                    bh_header_len = of_nat BLOCK_HEADER_TOTAL_LEN, bh_reserved = 0,
                    bh_uncompressed_len = of_nat uncompressed_len,
                    bh_compressed_len = of_nat (length compressed),
                    bh_record_count = rc, bh_header_crc32c = 0\<rparr>
      in header\<lparr>bh_header_crc32c := compute_header_crc X header ext_bytes\<rparr>)"

definition block_image ::
    "extern \<Rightarrow> writer_config \<Rightarrow> u64 \<Rightarrow> u64 \<Rightarrow> u32 \<Rightarrow> nat \<Rightarrow> bytes \<Rightarrow> bytes" where
  "block_image X cfg bseq bts rc uncompressed_len compressed =
     (let ext_bytes = ext_encode \<lparr>base_seq = bseq, base_ts_unix_ns = bts\<rparr>;
          header = block_header_for X (wc_codec cfg) uncompressed_len compressed rc ext_bytes;
          body = header_encode header @ ext_bytes @ compressed
      in wc_sync_marker cfg @ body @ u32_le (crc32c X body))"

definition padding :: "writer_config \<Rightarrow> nat \<Rightarrow> bytes" where
  "padding cfg block_len =
     (if block_alignment cfg > 0 then
        let remainder = block_len mod block_alignment cfg
        in if remainder > 0 then replicate (block_alignment cfg - remainder) 0 else []
      else [])"

definition flush_block :: "extern \<Rightarrow> 'w write_all \<Rightarrow> 'w writer \<Rightarrow> (error + unit) \<times> 'w writer" where
  "flush_block X write_all w =
     (if payload_buf w = [] then (Inr (), w) else
      case block_base_seq w of
        None \<Rightarrow> (Inl (InvalidHeader ''missing block base seq''), w)
      | Some bseq \<Rightarrow>
      case block_base_ts_unix_ns w of
        None \<Rightarrow> (Inl (InvalidHeader ''missing block base ts''), w)
      | Some bts \<Rightarrow>
      case compress X (wc_codec (config w)) (payload_buf w) of
        Inl e \<Rightarrow> (Inl e, w\<lparr>compressed_buf := []\<rparr>)
      | Inr compressed \<Rightarrow>
        let w = w\<lparr>compressed_buf := compressed\<rparr> in
        if length (payload_buf w) \<ge> 2 ^ 32 then
          (Inl (LengthTooLarge ''uncompressed_len'' (length (payload_buf w)) (2 ^ 32 - 1)), w)
        else if length compressed \<ge> 2 ^ 32 then
          (Inl (LengthTooLarge ''compressed_len'' (length compressed) (2 ^ 32 - 1)), w)
        else
          let block = block_image X (config w) bseq bts (record_count w) (length (payload_buf w)) compressed;
              w = w\<lparr>block_buf := block\<rparr>
          in case write_all block (inner w) of
               (Inl e, i) \<Rightarrow> (Inl (Io e), w\<lparr>inner := i\<rparr>)
             | (Inr _, i) \<Rightarrow>
                 let w = w\<lparr>inner := i\<rparr>; pad = padding (config w) (length block)
                 in if pad = [] then (Inr (), reset_block_state w)
                    else case write_all pad (inner w) of
                           (Inl e, i) \<Rightarrow> (Inl (Io e), w\<lparr>inner := i\<rparr>)
                         | (Inr _, i) \<Rightarrow> (Inr (), reset_block_state (w\<lparr>inner := i\<rparr>)))"

section \<open>Pushing a record\<close>

definition encode_record :: "record_type \<Rightarrow> u64 \<Rightarrow> u64 \<Rightarrow> bytes \<Rightarrow> error + bytes" where
  "encode_record t seq_delta ts_delta pl =
     (case encode_varint seq_delta [record_type_u8 t] of
        Inl e \<Rightarrow> Inl e
      | Inr b \<Rightarrow>
      case encode_varint ts_delta b of
        Inl e \<Rightarrow> Inl e
      | Inr b \<Rightarrow>
      if length pl \<ge> 2 ^ 64 then Inl (NumericOverflow ''payload len'')
      else case encode_varint (of_nat (length pl)) b of
        Inl e \<Rightarrow> Inl e
      | Inr b \<Rightarrow> Inr (b @ pl))"

text \<open>The end of \<^verbatim>\<open>push\<close>, after a possible flush: append the encoded record, count it, and
  flush when the target size is reached.\<close>

definition push_append :: "extern \<Rightarrow> 'w write_all \<Rightarrow> 'w writer \<Rightarrow> (error + unit) \<times> 'w writer" where
  "push_append X write_all w =
     (let w = w\<lparr>payload_buf := payload_buf w @ encoded_record_buf w\<rparr>
      in case checked_add (record_count w) 1 of
           None \<Rightarrow> (Inl (NumericOverflow ''record_count''), w)
         | Some n \<Rightarrow>
             let w = w\<lparr>record_count := n\<rparr>
             in if length (payload_buf w) \<ge> block_target_size (config w)
                then flush_block X write_all w else (Inr (), w))"

text \<open>The start of \<^verbatim>\<open>push\<close>: the base of the open block, or the record itself when it
  opens a block.\<close>

definition open_block :: "u64 \<Rightarrow> u64 \<Rightarrow> 'w writer \<Rightarrow> 'w writer \<times> u64 \<times> u64" where
  "open_block sq ts w =
     (case (block_base_seq w, block_base_ts_unix_ns w) of
        (Some bseq, Some bts) \<Rightarrow> (w, bseq, bts)
      | _ \<Rightarrow> (w\<lparr>block_base_seq := Some sq, block_base_ts_unix_ns := Some ts\<rparr>, sq, ts))"

definition push ::
    "extern \<Rightarrow> 'w write_all \<Rightarrow> record_type \<Rightarrow> u64 \<Rightarrow> u64 \<Rightarrow> bytes \<Rightarrow> 'w writer \<Rightarrow> (error + unit) \<times> 'w writer"
  where
  "push X write_all t sq ts pl w =
     (let (w, bseq, bts) = open_block sq ts (w\<lparr>encoded_record_buf := []\<rparr>) in
      case checked_sub sq bseq of
        None \<Rightarrow> (Inl (InvalidHeader ''sequence must be monotonic within block''), w)
      | Some seq_delta \<Rightarrow>
      case checked_sub ts bts of
        None \<Rightarrow> (Inl (InvalidHeader ''timestamp must be monotonic within block''), w)
      | Some ts_delta \<Rightarrow>
      case encode_record t seq_delta ts_delta pl of
        Inl e \<Rightarrow> (Inl e, w)
      | Inr enc \<Rightarrow>
      let w = w\<lparr>encoded_record_buf := enc\<rparr> in
      case usize_checked_add (length (payload_buf w)) (length enc) of
        None \<Rightarrow> (Inl (NumericOverflow ''payload buf growth''), w)
      | Some projected \<Rightarrow>
      if payload_buf w \<noteq> [] \<and> projected > block_target_size (config w) then
        (case flush_block X write_all w of
           (Inl e, w) \<Rightarrow> (Inl e, w)
         | (Inr _, w) \<Rightarrow>
             let w = w\<lparr>block_base_seq := Some sq, block_base_ts_unix_ns := Some ts,
                      encoded_record_buf := []\<rparr>
             in case encode_record t 0 0 pl of
                  Inl e \<Rightarrow> (Inl e, w)
                | Inr enc \<Rightarrow> push_append X write_all (w\<lparr>encoded_record_buf := enc\<rparr>))
      else push_append X write_all w)"

definition into_inner :: "extern \<Rightarrow> 'w write_all \<Rightarrow> 'w writer \<Rightarrow> error + 'w" where
  "into_inner X write_all w =
     (case flush_block X write_all w of (Inl e, _) \<Rightarrow> Inl e | (Inr _, w) \<Rightarrow> Inr (inner w))"

definition pending_bytes :: "'w writer \<Rightarrow> nat" where
  "pending_bytes w = length (payload_buf w)"

text \<open>\<^verbatim>\<open>Write for Vec<u8>\<close>.\<close>

definition vec_write_all :: "bytes write_all" where
  "vec_write_all bs v = (Inr (), v @ bs)"

section \<open>What the writer has stored: records, blocks, files\<close>

text \<open>The encoding of a record against a block base, and of a list of records.\<close>

definition record_bytes :: "u64 \<Rightarrow> u64 \<Rightarrow> owned_record \<Rightarrow> bytes" where
  "record_bytes b t r =
     record_type_u8 (record_type r) # uvarint (seq r - b) @ uvarint (ts_unix_ns r - t)
     @ uvarint (of_nat (length (payload r))) @ payload r"

definition records_bytes :: "u64 \<Rightarrow> u64 \<Rightarrow> owned_record list \<Rightarrow> bytes" where
  "records_bytes b t rs = concat (map (record_bytes b t) rs)"

definition deltas_ok :: "u64 \<Rightarrow> u64 \<Rightarrow> owned_record list \<Rightarrow> bool" where
  "deltas_ok b t rs \<longleftrightarrow> (\<forall>r\<in>set rs. b \<le> seq r \<and> t \<le> ts_unix_ns r \<and> length (payload r) < 2 ^ 64)"

text \<open>\<open>holds L w rs\<close>: the unflushed block of \<open>w\<close> is the encoding of the records \<open>rs\<close> and
  takes at most \<open>L\<close> bytes.\<close>

definition holds :: "nat \<Rightarrow> 'w writer \<Rightarrow> owned_record list \<Rightarrow> bool" where
  "holds L w rs \<longleftrightarrow>
     unat (record_count w) = length rs \<and> length (payload_buf w) \<le> L \<and>
     (if rs = [] then payload_buf w = []
      else \<exists>b t. block_base_seq w = Some b \<and> block_base_ts_unix_ns w = Some t \<and> deltas_ok b t rs \<and>
                 payload_buf w = records_bytes b t rs)"

text \<open>\<open>is_block X cfg L rs img\<close>: \<open>img\<close> is a block image that stores exactly \<open>rs\<close>.\<close>

definition is_block :: "extern \<Rightarrow> writer_config \<Rightarrow> nat \<Rightarrow> owned_record list \<Rightarrow> bytes \<Rightarrow> bool" where
  "is_block X cfg L rs img \<longleftrightarrow>
     (\<exists>b t compressed.
        rs \<noteq> [] \<and> deltas_ok b t rs \<and> length rs < 2 ^ 32 \<and>
        length (records_bytes b t rs) < 2 ^ 32 \<and> length (records_bytes b t rs) \<le> L \<and>
        compress X (wc_codec cfg) (records_bytes b t rs) = Inr compressed \<and> length compressed < 2 ^ 32 \<and>
        img = block_image X cfg b t (of_nat (length rs)) (length (records_bytes b t rs)) compressed)"

definition file_image :: "writer_config \<Rightarrow> bytes list \<Rightarrow> bytes" where
  "file_image cfg imgs = concat (map (\<lambda>img. img @ padding cfg (length img)) imgs)"

definition log_file :: "extern \<Rightarrow> writer_config \<Rightarrow> nat \<Rightarrow> owned_record list list \<Rightarrow> bytes \<Rightarrow> bool" where
  "log_file X cfg L rss out \<longleftrightarrow>
     (\<exists>imgs. list_all2 (is_block X cfg L) rss imgs \<and> out = file_image cfg imgs)"

text \<open>The abstraction of a writer: what it has appended to its sink since \<open>c0\<close>, followed by what its
  block buffer holds, is the list \<open>rs\<close> of records.\<close>

definition writer_log ::
    "extern \<Rightarrow> nat \<Rightarrow> ('w \<Rightarrow> bytes) \<Rightarrow> bytes \<Rightarrow> 'w writer \<Rightarrow> owned_record list \<Rightarrow> bool" where
  "writer_log X L contents c0 w rs \<longleftrightarrow>
     (\<exists>rss out pend. log_file X (config w) L rss out \<and> contents (inner w) = c0 @ out \<and>
        holds L w pend \<and> rs = concat rss @ pend)"

section \<open>Facts\<close>

lemma records_bytes_simps [simp]:
  "records_bytes b t [] = []"
  "records_bytes b t (r # rs) = record_bytes b t r @ records_bytes b t rs"
  "records_bytes b t (rs @ rs') = records_bytes b t rs @ records_bytes b t rs'"
  by (simp_all add: records_bytes_def)

lemma record_bytes_nonempty [simp]: "record_bytes b t r \<noteq> []"
  by (simp add: record_bytes_def)

lemma records_bytes_empty_iff [simp]: "records_bytes b t rs = [] \<longleftrightarrow> rs = []"
  by (cases rs) auto

lemma length_record_bytes: "length (record_bytes b t r) \<le> 31 + length (payload r)"
  using length_uvarint_10 [of "seq r - b"] length_uvarint_10 [of "ts_unix_ns r - t"]
    length_uvarint_10 [of "of_nat (length (payload r))"]
  by (simp add: record_bytes_def)

lemma length_records_bytes:
  "length (records_bytes b t rs) \<le> (\<Sum>r\<leftarrow>rs. 31 + length (payload r))"
  by (induction rs) (auto intro: add_mono length_record_bytes)

lemma length_le_records_bytes: "length rs \<le> length (records_bytes b t rs)"
proof (induction rs)
  case (Cons r rs)
  then show ?case by (simp add: record_bytes_def)
qed simp

lemma encode_record_eq:
  assumes "length pl < 2 ^ 64"
  shows "encode_record t sd td pl
     = Inr (record_type_u8 t # uvarint sd @ uvarint td @ uvarint (of_nat (length pl)) @ pl)"
  using assms by (simp add: encode_record_def encode_varint_eq)

lemma encode_record_Inr:
  assumes "encode_record (record_type r) (seq r - b) (ts_unix_ns r - t) (payload r) = Inr enc"
  shows "enc = record_bytes b t r" "length (payload r) < 2 ^ 64"
  using assms by (auto simp: encode_record_def encode_varint_eq record_bytes_def split: if_splits)

lemma holds_Nil [simp]: "holds L w [] \<longleftrightarrow> payload_buf w = [] \<and> record_count w = 0"
  by (auto simp: holds_def unat_eq_0)

lemma holds_new [simp]: "holds L (writer_with_config i c) []"
  by (simp add: writer_with_config_def)

lemma log_file_Nil [simp]: "log_file X cfg L [] []"
  by (simp add: log_file_def file_image_def)

lemma log_file_append:
  assumes "log_file X cfg L rss out" and "log_file X cfg L rss' out'"
  shows "log_file X cfg L (rss @ rss') (out @ out')"
proof -
  from assms obtain imgs imgs' where
    "list_all2 (is_block X cfg L) rss imgs" "out = file_image cfg imgs"
    "list_all2 (is_block X cfg L) rss' imgs'" "out' = file_image cfg imgs'"
    by (auto simp: log_file_def)
  then show ?thesis
    unfolding log_file_def
    by (intro exI [of _ "imgs @ imgs'"]) (simp add: list_all2_appendI file_image_def)
qed

lemma log_file_block: "is_block X cfg L rs img \<Longrightarrow> log_file X cfg L [rs] (img @ padding cfg (length img))"
  by (auto simp: log_file_def file_image_def intro!: exI [of _ "[img]"])

lemma writer_log_new:
  "contents i = c0 \<Longrightarrow> writer_log X L contents c0 (writer_with_config i c) []"
  unfolding writer_log_def by (intro exI [of _ "[]"]) (simp add: writer_with_config_def)

section \<open>The branches of push\<close>

lemma open_block_frame:
  assumes "open_block sq ts w = (w1, b, t)"
  shows "config w1 = config w" "inner w1 = inner w" "payload_buf w1 = payload_buf w"
    "record_count w1 = record_count w" "block_base_seq w1 = Some b" "block_base_ts_unix_ns w1 = Some t"
  using assms by (auto simp: open_block_def split: option.splits)

lemma open_block_holds:
  assumes "holds L w pend" and "open_block sq ts (w\<lparr>encoded_record_buf := e\<rparr>) = (w1, b, t)"
  shows "payload_buf w1 = records_bytes b t pend" "unat (record_count w1) = length pend"
    "deltas_ok b t pend"
  using assms by (auto simp: holds_def deltas_ok_def open_block_def split: if_splits option.splits)

definition must_flush_first :: "u64 \<Rightarrow> u64 \<Rightarrow> owned_record \<Rightarrow> 'w writer \<Rightarrow> bool" where
  "must_flush_first b t r w \<longleftrightarrow>
     payload_buf w \<noteq> [] \<and>
     length (payload_buf w) + length (record_bytes b t r) > block_target_size (config w)"

definition rebase :: "owned_record \<Rightarrow> 'w writer \<Rightarrow> 'w writer" where
  "rebase r w =
     w\<lparr>block_base_seq := Some (seq r), block_base_ts_unix_ns := Some (ts_unix_ns r),
       encoded_record_buf := record_bytes (seq r) (ts_unix_ns r) r\<rparr>"

lemma push_accepts:
  fixes r :: owned_record
  assumes "open_block (seq r) (ts_unix_ns r) (w\<lparr>encoded_record_buf := []\<rparr>) = (w1, b, t)"
    and "push X write_all (record_type r) (seq r) (ts_unix_ns r) (payload r) w = (Inr u, w')"
  shows "b \<le> seq r" "t \<le> ts_unix_ns r" "length (payload r) < 2 ^ 64"
  using assms
  by (auto simp: push_def Let_def num_simps dest: encode_record_Inr(2) [simplified] split: option.splits sum.splits)

lemma push_accepted:
  assumes op: "open_block (seq r) (ts_unix_ns r) (w\<lparr>encoded_record_buf := []\<rparr>) = (w1, b, t)"
    and run: "push X write_all (record_type r) (seq r) (ts_unix_ns r) (payload r) w = (Inr u, w')"
  shows "(if must_flush_first b t r w1
          then case flush_block X write_all (w1\<lparr>encoded_record_buf := record_bytes b t r\<rparr>) of
                 (Inl e, w3) \<Rightarrow> (Inl e, w3)
               | (Inr _, w3) \<Rightarrow> push_append X write_all (rebase r w3)
          else push_append X write_all (w1\<lparr>encoded_record_buf := record_bytes b t r\<rparr>)) = (Inr u, w')"
proof -
  note r = push_accepts [OF op run]
  have "checked_sub (seq r) b = Some (seq r - b)" "checked_sub (ts_unix_ns r) t = Some (ts_unix_ns r - t)"
    using r by (auto simp: num_simps)
  moreover have "encode_record (record_type r) (seq r - b) (ts_unix_ns r - t) (payload r)
      = Inr (record_bytes b t r)"
    "encode_record (record_type r) 0 0 (payload r) = Inr (record_bytes (seq r) (ts_unix_ns r) r)"
    using r by (simp_all add: encode_record_eq record_bytes_def)
  ultimately show ?thesis
    using run op
    by (auto simp: push_def must_flush_first_def rebase_def Let_def usize_checked_add_def
        split: option.splits if_splits sum.splits prod.splits)
qed

text \<open>A record below the base of the open block is refused, and the writer is left as it was apart
  from its scratch buffer.\<close>

lemma push_refuses:
  assumes "block_base_seq w = Some b" and "block_base_ts_unix_ns w = Some t"
    and "sq < b \<or> ts < t"
  shows "push X write_all ty sq ts pl w =
     (Inl (InvalidHeader (if sq < b then ''sequence must be monotonic within block''
                          else ''timestamp must be monotonic within block'')),
      w\<lparr>encoded_record_buf := []\<rparr>)"
  using assms by (auto simp: push_def open_block_def checked_sub_def Let_def)

section \<open>The sink interface\<close>

text \<open>What the writer relies on of \<^verbatim>\<open>Write::write_all\<close>: success appends the bytes, failure
  appends some prefix of them.\<close>

locale byte_sink =
  fixes write_all :: "'w write_all"
    and contents :: "'w \<Rightarrow> bytes"
  assumes write_ok: "write_all bs s = (Inr u, s') \<Longrightarrow> contents s' = contents s @ bs"
    and write_err: "write_all bs s = (Inl e, s') \<Longrightarrow> \<exists>k. contents s' = contents s @ take k bs"
begin

lemma flush_block_stores:
  assumes "holds L w rs" and "flush_block X write_all w = (Inr u, w')"
  shows "\<exists>rss out. concat rss = rs \<and> log_file X (config w) L rss out \<and>
           contents (inner w') = contents (inner w) @ out \<and> holds L w' [] \<and> config w' = config w"
proof (cases "rs = []")
  case True
  with assms have "w' = w" by (simp add: flush_block_def)
  with True assms show ?thesis by (intro exI [of _ "[]"]) simp
next
  case False
  with assms(1) obtain b t where hb: "block_base_seq w = Some b" "block_base_ts_unix_ns w = Some t"
    "deltas_ok b t rs" "payload_buf w = records_bytes b t rs" "length (records_bytes b t rs) \<le> L"
    and n: "unat (record_count w) = length rs"
    by (auto simp: holds_def)
  have n': "record_count w = of_nat (length rs)" "length rs < 2 ^ 32"
    using n unsigned_less [of "record_count w"] by (simp_all flip: n)
  from assms(2) False hb obtain compressed where
    c: "compress X (wc_codec (config w)) (records_bytes b t rs) = Inr compressed"
    "length compressed < 2 ^ 32" "length (records_bytes b t rs) < 2 ^ 32"
    by (auto simp: flush_block_def Let_def split: sum.splits if_splits)
  let ?img = "block_image X (config w) b t (record_count w) (length (records_bytes b t rs)) compressed"
  have blk: "is_block X (config w) L rs ?img"
    using False hb c n' by (auto simp: is_block_def)
  have "contents (inner w') = contents (inner w) @ ?img @ padding (config w) (length ?img)"
    "holds L w' []" "config w' = config w"
    using assms(2) False hb c
    by (auto simp: flush_block_def Let_def reset_block_state_def dest!: write_ok
        split: sum.splits if_splits prod.splits)
  then show ?thesis
    using log_file_block [OF blk] by (intro exI [of _ "[rs]"]) auto
qed


lemma flush_block_log:
  assumes "writer_log X L contents c0 w rs" and "flush_block X write_all w = (Inr u, w')"
  shows "writer_log X L contents c0 w' rs \<and> holds L w' [] \<and> config w' = config w"
proof -
  from assms(1) obtain rss out pend where wl: "log_file X (config w) L rss out"
    "contents (inner w) = c0 @ out" "holds L w pend" "rs = concat rss @ pend"
    by (auto simp: writer_log_def)
  from flush_block_stores [OF wl(3) assms(2)] obtain rss' out' where
    fl: "concat rss' = pend" "log_file X (config w) L rss' out'"
    "contents (inner w') = contents (inner w) @ out'" "holds L w' []" "config w' = config w"
    by blast
  have "log_file X (config w') L (rss @ rss') (out @ out')"
    using log_file_append [OF wl(1) fl(2)] fl(5) by simp
  then show ?thesis
    unfolding writer_log_def using wl fl
    by (intro conjI exI [of _ "rss @ rss'"] exI [of _ "out @ out'"] exI [of _ "[]"]) simp_all
qed

lemma push_append_log:
  assumes log: "log_file X (config w) L rss out" "contents (inner w) = c0 @ out"
    and base: "block_base_seq w = Some b" "block_base_ts_unix_ns w = Some t"
    and pend: "payload_buf w = records_bytes b t pend" "unat (record_count w) = length pend"
    and ok: "deltas_ok b t (pend @ [r])" and enc: "encoded_record_buf w = record_bytes b t r"
    and small: "length (payload_buf w) + length (record_bytes b t r) \<le> L"
    and run: "push_append X write_all w = (Inr u, w')"
  shows "writer_log X L contents c0 w' (concat rss @ pend @ [r]) \<and> config w' = config w"
proof -
  let ?w = "w\<lparr>payload_buf := payload_buf w @ record_bytes b t r, record_count := record_count w + 1\<rparr>"
  from run have ovf: "unat (record_count w) + 1 < 2 ^ 32"
    by (auto simp: push_append_def checked_add_def Let_def split: if_splits)
  have "unat (record_count w + 1) = Suc (length pend)"
    using ovf pend(2) by (simp add: unat_word_ariths)
  then have "holds L ?w (pend @ [r])"
    using base pend ok small by (simp add: holds_def)
  then have wl: "writer_log X L contents c0 ?w (concat rss @ pend @ [r])"
    unfolding writer_log_def using log
    by (intro exI [of _ rss] exI [of _ out] exI [of _ "pend @ [r]"]) simp
  show ?thesis
  proof (cases "block_target_size (config w) \<le> length (payload_buf ?w)")
    case True
    then have "flush_block X write_all ?w = (Inr u, w')"
      using run ovf enc by (simp add: push_append_def checked_add_def Let_def)
    from flush_block_log [OF wl this] show ?thesis by simp
  next
    case False
    then have "w' = ?w"
      using run ovf enc by (simp add: push_append_def checked_add_def Let_def)
    then show ?thesis using wl by simp
  qed
qed

lemma push_log:
  assumes wl: "writer_log X L contents c0 w rs"
    and L: "block_target_size (config w) \<le> L" "31 + length (payload r) \<le> L"
    and run: "push X write_all (record_type r) (seq r) (ts_unix_ns r) (payload r) w = (Inr u, w')"
  shows "writer_log X L contents c0 w' (rs @ [r]) \<and> config w' = config w"
proof -
  from wl obtain rss out pend where log: "log_file X (config w) L rss out"
    "contents (inner w) = c0 @ out" and h: "holds L w pend" and rs: "rs = concat rss @ pend"
    by (auto simp: writer_log_def)
  obtain w1 b t where op: "open_block (seq r) (ts_unix_ns r) (w\<lparr>encoded_record_buf := []\<rparr>) = (w1, b, t)"
    by (metis surj_pair)
  note w1 = open_block_frame [OF op] and pend = open_block_holds [OF h op]
    and r = push_accepts [OF op run] and run' = push_accepted [OF op run]
  let ?w2 = "w1\<lparr>encoded_record_buf := record_bytes b t r\<rparr>"
  show ?thesis
  proof (cases "must_flush_first b t r w1")
    case True
    with run' obtain v w3 where fl: "flush_block X write_all ?w2 = (Inr v, w3)"
      and ap: "push_append X write_all (rebase r w3) = (Inr u, w')"
      by (auto split: prod.splits sum.splits)
    have "holds L ?w2 pend" using h pend w1 by (auto simp: holds_def)
    then have "writer_log X L contents c0 ?w2 rs"
      unfolding writer_log_def using log rs w1
      by (intro exI [of _ rss] exI [of _ out] exI [of _ pend]) simp
    from flush_block_log [OF this fl] obtain rss' out' where
      l3: "log_file X (config w) L rss' out'" "contents (inner w3) = c0 @ out'" "rs = concat rss'"
        "holds L w3 []" "config w3 = config w"
      using w1 by (auto simp: writer_log_def holds_def split: if_splits)
    have "writer_log X L contents c0 w' (concat rss' @ [] @ [r]) \<and> config w' = config (rebase r w3)"
      by (rule push_append_log [OF _ _ _ _ _ _ _ _ _ ap])
        (use l3 r L length_record_bytes [of "seq r" "ts_unix_ns r" r] in
          \<open>auto simp: deltas_ok_def rebase_def\<close>)
    then show ?thesis using l3 by (simp add: rebase_def)
  next
    case False
    have "length (payload_buf w1) + length (record_bytes b t r) \<le> L"
      using False L w1 length_record_bytes [of b t r] by (auto simp: must_flush_first_def)
    then have "writer_log X L contents c0 w' (concat rss @ pend @ [r]) \<and> config w' = config ?w2"
      by (intro push_append_log [where b = b and t = t])
        (use False run' log w1 pend r in \<open>auto simp: deltas_ok_def\<close>)
    then show ?thesis using rs w1 by simp
  qed
qed

end

interpretation vec: byte_sink vec_write_all id
  by unfold_locales (auto simp: vec_write_all_def)

end
