(* ===== verification/Lj_Reader.thy ===== *)
theory Lj_Reader
  imports Lj_Writer
begin

text \<open>
  \<^verbatim>\<open>LogjetReader\<close> of \<^verbatim>\<open>src/reader.rs\<close>: a sequential scan for sync
  markers, the validation of one block, the decoding of its records, and resynchronisation after a
  block that does not validate.

  The source \<^verbatim>\<open>R: Read + Seek\<close> is the record \<open>dev\<close>: the bytes of the file, a position,
  and a fault map that says which offsets fail to read and how, so that the branch that propagates
  I/O errors is not empty. The loops are total functions; their termination proofs are the fact that
  every iteration moves the position forward.
\<close>

section \<open>The byte source\<close>

record dev =
  data :: bytes
  pos :: nat
  faults :: "nat \<Rightarrow> io_error option"

definition dev_of :: "bytes \<Rightarrow> dev" where
  "dev_of bs = \<lparr>data = bs, pos = 0, faults = (\<lambda>_. None)\<rparr>"

definition seek :: "nat \<Rightarrow> dev \<Rightarrow> dev" where
  "seek p d = d\<lparr>pos := p\<rparr>"

text \<open>\<^verbatim>\<open>Read::read\<close> into a one-byte buffer: \<open>None\<close> stands for a return value of zero.\<close>

definition read_byte :: "dev \<Rightarrow> (io_error + u8 option) \<times> dev" where
  "read_byte d =
     (if pos d < length (data d) then
        (case faults d (pos d) of
           Some e \<Rightarrow> (Inl e, d)
         | None \<Rightarrow> (Inr (Some (data d ! pos d)), d\<lparr>pos := pos d + 1\<rparr>))
      else (Inr None, d))"

primrec first_fault :: "(nat \<Rightarrow> io_error option) \<Rightarrow> nat \<Rightarrow> nat \<Rightarrow> io_error option" where
  "first_fault f p 0 = None"
| "first_fault f p (Suc n) = (case f p of Some e \<Rightarrow> Some e | None \<Rightarrow> first_fault f (Suc p) n)"

definition unexpected_eof :: io_error where
  "unexpected_eof = IoError UnexpectedEof ''failed to fill whole buffer''"

definition read_exact :: "nat \<Rightarrow> dev \<Rightarrow> (io_error + bytes) \<times> dev" where
  "read_exact n d =
     (case first_fault (faults d) (pos d) (min n (length (data d) - pos d)) of
        Some e \<Rightarrow> (Inl e, d)
      | None \<Rightarrow>
          if pos d + n \<le> length (data d) then (Inr (slice (pos d) n (data d)), d\<lparr>pos := pos d + n\<rparr>)
          else (Inl unexpected_eof, d\<lparr>pos := max (pos d) (length (data d))\<rparr>))"

section \<open>Configuration and state\<close>

record reader_config =
  rc_sync_marker :: bytes
  max_compressed_len :: nat
  max_uncompressed_len :: nat

definition reader_config_default :: reader_config where
  "reader_config_default =
     \<lparr>rc_sync_marker = DEFAULT_SYNC_MARKER, max_compressed_len = DEFAULT_MAX_BLOCK_SIZE,
      max_uncompressed_len = DEFAULT_MAX_BLOCK_SIZE\<rparr>"

record reader_stats =
  blocks_ok :: u64
  blocks_bad :: u64
  bytes_skipped :: u64
  records_ok :: u64
  total_compressed_bytes :: u64
  total_uncompressed_bytes :: u64

definition reader_stats_default :: reader_stats where
  "reader_stats_default =
     \<lparr>blocks_ok = 0, blocks_bad = 0, bytes_skipped = 0, records_ok = 0, total_compressed_bytes = 0,
      total_uncompressed_bytes = 0\<rparr>"

record reader =
  r_inner :: dev
  r_config :: reader_config
  r_stats :: reader_stats
  pending :: "owned_record list"

definition reader_with_config :: "dev \<Rightarrow> reader_config \<Rightarrow> reader" where
  "reader_with_config d c = \<lparr>r_inner = d, r_config = c, r_stats = reader_stats_default, pending = []\<rparr>"

definition reader_new :: "dev \<Rightarrow> reader" where
  "reader_new d = reader_with_config d reader_config_default"

section \<open>Finding the next sync marker\<close>

function find_sync_loop :: "bytes \<Rightarrow> nat \<Rightarrow> nat \<Rightarrow> nat \<Rightarrow> dev \<Rightarrow> (error + nat option) \<times> dev" where
  "find_sync_loop marker start matched offset d =
     (case read_byte d of
        (Inl e, d) \<Rightarrow> (Inl (Io e), d)
      | (Inr None, d) \<Rightarrow> (Inr None, d)
      | (Inr (Some candidate), d) \<Rightarrow>
          if candidate = marker ! matched then
            if matched + 1 = length marker then
              let sync_start = start + offset + 1 - length marker
              in (Inr (Some sync_start), seek sync_start d)
            else find_sync_loop marker start (matched + 1) (offset + 1) d
          else
            find_sync_loop marker start (if candidate = marker ! 0 then 1 else 0) (offset + 1) d)"
  by pat_completeness auto
termination
  by (relation "measure (\<lambda>(m, s, k, offset, d). length (data d) - pos d)")
    (auto simp: read_byte_def split: if_splits option.splits)

declare find_sync_loop.simps [simp del]

definition find_next_sync :: "bytes \<Rightarrow> dev \<Rightarrow> (error + nat option) \<times> dev" where
  "find_next_sync marker d = find_sync_loop marker (pos d) 0 0 d"

section \<open>Decoding the records of a block\<close>

definition validate_length :: "string \<Rightarrow> nat \<Rightarrow> nat \<Rightarrow> error + unit" where
  "validate_length field v limit = (if v > limit then Inl (LengthTooLarge field v limit) else Inr ())"

definition parse_record :: "bytes \<Rightarrow> block_header_ext \<Rightarrow> nat \<Rightarrow> (error + owned_record) \<times> nat" where
  "parse_record pl ext cursor =
     (if cursor \<ge> length pl then (Inl (Truncated ''record_type''), cursor) else
      try_r (record_type_from_u8 (pl ! cursor)) cursor (\<lambda>ty.
      try_st (decode_varint pl (cursor + 1)) (\<lambda>seq_delta cursor.
      try_st (decode_varint pl cursor) (\<lambda>ts_delta cursor.
      try_st (decode_varint pl cursor) (\<lambda>payload_len cursor.
      try_r (ok_or (usize_checked_add cursor (unat payload_len)) (NumericOverflow ''record payload end''))
        cursor (\<lambda>record_end.
      if record_end > length pl then (Inl (Truncated ''record payload''), cursor) else
      try_r (ok_or (checked_add (base_seq ext) seq_delta) (NumericOverflow ''record seq'')) cursor (\<lambda>sq.
      try_r (ok_or (checked_add (base_ts_unix_ns ext) ts_delta) (NumericOverflow ''record ts'')) cursor (\<lambda>ts.
      (Inr \<lparr>record_type = ty, seq = sq, ts_unix_ns = ts,
            payload = slice cursor (unat payload_len) pl\<rparr>, record_end)))))))))"

primrec parse_records_loop ::
    "nat \<Rightarrow> bytes \<Rightarrow> block_header_ext \<Rightarrow> nat \<Rightarrow> owned_record list \<Rightarrow> error + owned_record list" where
  "parse_records_loop 0 pl ext cursor records =
     (if cursor \<noteq> length pl then Inl (InvalidHeader ''payload has trailing bytes'') else Inr records)"
| "parse_records_loop (Suc n) pl ext cursor records =
     (case parse_record pl ext cursor of
        (Inl e, _) \<Rightarrow> Inl e
      | (Inr rec, cursor) \<Rightarrow> parse_records_loop n pl ext cursor (records @ [rec]))"

definition parse_records :: "bytes \<Rightarrow> u32 \<Rightarrow> block_header_ext \<Rightarrow> error + owned_record list" where
  "parse_records pl count ext = parse_records_loop (unat count) pl ext 0 []"

section \<open>Reading one block\<close>

definition stat_add :: "string \<Rightarrow> u64 \<Rightarrow> u64 \<Rightarrow> error + u64" where
  "stat_add field a b = (case checked_add a b of None \<Rightarrow> Inl (NumericOverflow field) | Some c \<Rightarrow> Inr c)"

text \<open>The I/O part of \<^verbatim>\<open>try_read_block_at\<close>: everything up to the block CRC. It yields the
  header, the extension and the compressed payload.\<close>

definition read_frame ::
    "extern \<Rightarrow> reader_config \<Rightarrow> nat \<Rightarrow> dev \<Rightarrow> (error + block_header \<times> block_header_ext \<times> bytes) \<times> dev" where
  "read_frame X cfg sync_start d =
     try_from Io (read_exact 8 (seek sync_start d)) (\<lambda>sync d.
     if sync \<noteq> rc_sync_marker cfg then (Inl (InvalidHeader ''sync mismatch''), d) else
     try_from Io (read_exact BLOCK_HEADER_FIXED_LEN d) (\<lambda>fixed d.
     try_r (header_decode fixed) d (\<lambda>header.
     if unat (bh_header_len header) < BLOCK_HEADER_TOTAL_LEN
     then (Inl (HeaderTooShort (bh_header_len header)), d) else
     let ext_len = unat (bh_header_len header) - BLOCK_HEADER_FIXED_LEN in
     if ext_len < BLOCK_HEADER_EXT_LEN
     then (Inl (InvalidHeader ''missing required header extension''), d) else
     try_r (validate_length ''compressed_len'' (unat (bh_compressed_len header)) (max_compressed_len cfg)) d (\<lambda>_.
     try_r (validate_length ''uncompressed_len'' (unat (bh_uncompressed_len header)) (max_uncompressed_len cfg)) d (\<lambda>_.
     try_from Io (read_exact ext_len d) (\<lambda>ext_bytes d.
     let expected_header_crc = compute_header_crc X header ext_bytes in
     if expected_header_crc \<noteq> bh_header_crc32c header
     then (Inl (HeaderCrcMismatch (bh_header_crc32c header) expected_header_crc), d) else
     try_r (ext_decode (take BLOCK_HEADER_EXT_LEN ext_bytes)) d (\<lambda>ext.
     try_from Io (read_exact (unat (bh_compressed_len header)) d) (\<lambda>compressed d.
     try_from Io (read_exact 4 d) (\<lambda>block_crc_bytes d.
     let expected_block_crc = from_le block_crc_bytes;
         actual_block_crc = crc32c X (fixed @ ext_bytes @ compressed) in
     if expected_block_crc \<noteq> actual_block_crc
     then (Inl (BlockCrcMismatch expected_block_crc actual_block_crc), d)
     else (Inr (header, ext, compressed), d))))))))))"

definition try_read_block_at :: "extern \<Rightarrow> nat \<Rightarrow> reader \<Rightarrow> (error + owned_record list) \<times> reader" where
  "try_read_block_at X sync_start r =
     (case read_frame X (r_config r) sync_start (r_inner r) of
        (Inl e, d) \<Rightarrow> (Inl e, r\<lparr>r_inner := d\<rparr>)
      | (Inr (header, ext, compressed), d) \<Rightarrow>
      let r = r\<lparr>r_inner := d\<rparr> in
      try_r (stat_add ''total_compressed_bytes'' (total_compressed_bytes (r_stats r))
             (ucast (bh_compressed_len header))) r (\<lambda>tc.
      let r = r\<lparr>r_stats := (r_stats r)\<lparr>total_compressed_bytes := tc\<rparr>\<rparr> in
      try_r (stat_add ''total_uncompressed_bytes'' (total_uncompressed_bytes (r_stats r))
             (ucast (bh_uncompressed_len header))) r (\<lambda>tu.
      let r = r\<lparr>r_stats := (r_stats r)\<lparr>total_uncompressed_bytes := tu\<rparr>\<rparr> in
      try_r (decompress X (bh_codec header) compressed (unat (bh_uncompressed_len header))) r (\<lambda>pl.
      (parse_records pl (bh_record_count header) ext, r)))))"

section \<open>Frame and progress facts\<close>

text \<open>No operation changes the bytes or the fault map of the source.\<close>

definition same_file :: "dev \<Rightarrow> dev \<Rightarrow> bool" where
  "same_file d d' \<longleftrightarrow> data d' = data d \<and> faults d' = faults d"

lemma same_file_refl [simp]: "same_file d d"
  by (simp add: same_file_def)

lemma same_file_seek [simp]: "same_file d (seek p e) \<longleftrightarrow> same_file d e"
  by (simp add: same_file_def seek_def)

lemma same_file_trans: "same_file a b \<Longrightarrow> same_file b c \<Longrightarrow> same_file a c"
  by (simp add: same_file_def)

lemma read_exact_frame: "same_file d e \<Longrightarrow> same_file d (snd (read_exact n e))"
  by (auto simp: read_exact_def same_file_def split: option.splits)

lemma read_frame_frame: "same_file d (snd (read_frame X cfg p d))"
  unfolding read_frame_def Let_def
  by (auto intro!: read_exact_frame try_from_frame [where P = "same_file d"] try_r_frame [where P = "same_file d"])

lemma try_read_block_at_frame:
  assumes "try_read_block_at X p r = (res, r')"
  shows "same_file (r_inner r) (r_inner r')" "r_config r' = r_config r" "pending r' = pending r"
proof -
  obtain x d where f: "read_frame X (r_config r) p (r_inner r) = (x, d)" by (metis surj_pair)
  have "same_file (r_inner r) d" using read_frame_frame [of "r_inner r" X "r_config r" p] f by simp
  then show "same_file (r_inner r) (r_inner r')" "r_config r' = r_config r" "pending r' = pending r"
    using assms f
    by (auto simp: try_read_block_at_def Let_def try_r_def split: sum.splits prod.splits)
qed

lemma find_sync_loop_progress:
  assumes "find_sync_loop marker start matched offset d = (res, d')"
    and "start + offset = pos d" and "matched \<le> offset"
  shows "same_file d d' \<and>
    (\<forall>s. res = Inr (Some s) \<longrightarrow> start \<le> s \<and> s < length (data d) \<and> pos d' = s \<and> pos d < length (data d))"
  using assms
proof (induction marker start matched offset d rule: find_sync_loop.induct)
  case (1 marker start matched offset d)
  show ?case
  proof (cases "\<exists>c. read_byte d = (Inr (Some c), d\<lparr>pos := pos d + 1\<rparr>)")
    case False
    then show ?thesis using 1(3)
      by (auto simp: find_sync_loop.simps [of _ _ _ _ d] read_byte_def split: if_splits option.splits)
  next
    case True
    then obtain c where c: "read_byte d = (Inr (Some c), d\<lparr>pos := pos d + 1\<rparr>)" by blast
    then have lt: "pos d < length (data d)"
      by (auto simp: read_byte_def split: if_splits)
    let ?d = "d\<lparr>pos := pos d + 1\<rparr>"
    have sf: "same_file d d' \<longleftrightarrow> same_file ?d d'" by (simp add: same_file_def)
    consider (hit) "c = marker ! matched" "matched + 1 = length marker"
      | (more) "c = marker ! matched" "matched + 1 \<noteq> length marker"
      | (miss) "c \<noteq> marker ! matched" by blast
    then show ?thesis
    proof cases
      case hit
      then show ?thesis using 1(3-) c lt
        by (auto simp: find_sync_loop.simps [of _ _ _ _ d] Let_def seek_def same_file_def)
    next
      case more
      with 1(3) c have "find_sync_loop marker start (matched + 1) (offset + 1) ?d = (res, d')"
        by (simp add: find_sync_loop.simps [of _ _ _ _ d])
      from 1(1) [OF c [symmetric] refl refl more this] 1(4,5) lt sf show ?thesis by auto
    next
      case miss
      with 1(3) c have
        "find_sync_loop marker start (if c = marker ! 0 then 1 else 0) (offset + 1) ?d = (res, d')"
        by (simp add: find_sync_loop.simps [of _ _ _ _ d])
      from 1(2) [OF c [symmetric] refl refl miss this] 1(4,5) lt sf show ?thesis by auto
    qed
  qed
qed

lemma find_next_sync_progress:
  assumes "find_next_sync marker d = (res, d')"
  shows "same_file d d'"
    and "res = Inr (Some s) \<Longrightarrow> pos d \<le> s \<and> s < length (data d) \<and> pos d' = s \<and> pos d < length (data d)"
  using find_sync_loop_progress [of marker "pos d" 0 0 d res d'] assms
  by (auto simp: find_next_sync_def)

section \<open>Scanning\<close>

definition stats_upd :: "(reader_stats \<Rightarrow> reader_stats) \<Rightarrow> reader \<Rightarrow> reader" where
  "stats_upd f r = r\<lparr>r_stats := f (r_stats r)\<rparr>"

definition accept_block :: "nat \<Rightarrow> nat \<Rightarrow> owned_record list \<Rightarrow> reader \<Rightarrow> (error + bool) \<times> reader" where
  "accept_block scan_origin sync_start records r =
     try_r (stat_add ''blocks_ok'' (blocks_ok (r_stats r)) 1) r (\<lambda>n.
     let r = stats_upd (\<lambda>s. s\<lparr>blocks_ok := n\<rparr>) r in
     try_r (stat_add ''bytes_skipped'' (bytes_skipped (r_stats r)) (of_nat (sync_start - scan_origin))) r (\<lambda>n.
     (Inr True, (stats_upd (\<lambda>s. s\<lparr>bytes_skipped := n\<rparr>) r)\<lparr>pending := pending r @ records\<rparr>)))"

definition end_of_input :: "nat \<Rightarrow> reader \<Rightarrow> (error + bool) \<times> reader" where
  "end_of_input scan_origin r =
     (let eof = length (data (r_inner r)); r = r\<lparr>r_inner := seek eof (r_inner r)\<rparr> in
     try_r (stat_add ''bytes_skipped'' (bytes_skipped (r_stats r)) (of_nat (eof - scan_origin))) r (\<lambda>n.
     (Inr False, stats_upd (\<lambda>s. s\<lparr>bytes_skipped := n\<rparr>) r)))"

definition is_hard_io :: "error \<Rightarrow> bool" where
  "is_hard_io e = (case e of Io i \<Rightarrow> kind i \<noteq> UnexpectedEof | _ \<Rightarrow> False)"

function scan_loop :: "extern \<Rightarrow> nat \<Rightarrow> reader \<Rightarrow> (error + bool) \<times> reader" where
  "scan_loop X scan_origin r =
     (case find_next_sync (rc_sync_marker (r_config r)) (r_inner r) of
        (Inl e, d) \<Rightarrow> (Inl e, r\<lparr>r_inner := d\<rparr>)
      | (Inr None, d) \<Rightarrow> end_of_input scan_origin (r\<lparr>r_inner := d\<rparr>)
      | (Inr (Some sync_start), d) \<Rightarrow>
          (case try_read_block_at X sync_start (r\<lparr>r_inner := d\<rparr>) of
             (Inr records, r) \<Rightarrow> accept_block scan_origin sync_start records r
           | (Inl e, r) \<Rightarrow>
               if is_hard_io e then (Inl e, r) else
               (case stat_add ''blocks_bad'' (blocks_bad (r_stats r)) 1 of
                  Inl e \<Rightarrow> (Inl e, r)
                | Inr n \<Rightarrow>
                    scan_loop X scan_origin
                      ((stats_upd (\<lambda>s. s\<lparr>blocks_bad := n\<rparr>) r)\<lparr>r_inner := seek (sync_start + 1) (r_inner r)\<rparr>))))"
  by pat_completeness auto
termination
proof (relation "measure (\<lambda>(X, p, r). length (data (r_inner r)) - pos (r_inner r))", goal_cases)
  case 1
  show ?case by simp
next
  case (2 X scan_origin r a d opt s b r' e n)
  from 2 find_next_sync_progress [of "rc_sync_marker (r_config r)" "r_inner r" a d]
    try_read_block_at_frame(1) [of X s "r\<lparr>r_inner := d\<rparr>" b r']
  show ?case by (auto simp: same_file_def seek_def stats_upd_def)
qed

declare scan_loop.simps [simp del]

definition scan_next_block :: "extern \<Rightarrow> reader \<Rightarrow> (error + bool) \<times> reader" where
  "scan_next_block X r = scan_loop X (pos (r_inner r)) r"

lemma read_exact_Inr_iff:
  "read_exact n d = (Inr bs, d') \<longleftrightarrow>
     pos d + n \<le> length (data d) \<and> first_fault (faults d) (pos d) n = None \<and>
     bs = slice (pos d) n (data d) \<and> d' = d\<lparr>pos := pos d + n\<rparr>"
  by (auto simp: read_exact_def min_def split: option.splits if_splits)

lemma read_frame_pos:
  assumes "read_frame X cfg s d = (Inr (h, e, c), d')"
  shows "pos d' = s + 8 + unat (bh_header_len h) + unat (bh_compressed_len h) + 4"
    "pos d' \<le> length (data d)" "40 \<le> unat (bh_header_len h)"
  using assms unfolding read_frame_def Let_def
  by (auto simp: try_Inr seek_def read_exact_Inr_iff split: if_splits)

lemma try_read_block_at_Inr:
  assumes "try_read_block_at X s r = (Inr recs, r')"
  obtains h e c tc tu pl where
    "read_frame X (r_config r) s (r_inner r) = (Inr (h, e, c), r_inner r')"
    "checked_add (total_compressed_bytes (r_stats r)) (ucast (bh_compressed_len h)) = Some tc"
    "checked_add (total_uncompressed_bytes (r_stats r)) (ucast (bh_uncompressed_len h)) = Some tu"
    "r_stats r' = (r_stats r)\<lparr>total_compressed_bytes := tc, total_uncompressed_bytes := tu\<rparr>"
    "decompress X (bh_codec h) c (unat (bh_uncompressed_len h)) = Inr pl"
    "parse_records pl (bh_record_count h) e = Inr recs"
  using assms
  by (auto simp: try_read_block_at_def Let_def try_Inr stat_add_def split: sum.splits prod.splits option.splits)

lemma try_read_block_at_pos:
  assumes "try_read_block_at X s r = (Inr recs, r')"
  shows "s < pos (r_inner r') \<and> pos (r_inner r') \<le> length (data (r_inner r))"
proof -
  from assms obtain h e c where "read_frame X (r_config r) s (r_inner r) = (Inr (h, e, c), r_inner r')"
    by (rule try_read_block_at_Inr)
  from read_frame_pos [OF this] show ?thesis by simp
qed

text \<open>The outcomes of one iteration of the scan: every proof about \<^const>\<open>scan_loop\<close> goes through
  these cases. In the last one the loop goes on one byte after the rejected marker.\<close>

lemma scan_loop_cases [consumes 0, case_names find_err eof accept stop retry]:
  obtains
    e d where "find_next_sync (rc_sync_marker (r_config r)) (r_inner r) = (Inl e, d)"
      "scan_loop X p r = (Inl e, r\<lparr>r_inner := d\<rparr>)"
  | d where "find_next_sync (rc_sync_marker (r_config r)) (r_inner r) = (Inr None, d)"
      "scan_loop X p r = end_of_input p (r\<lparr>r_inner := d\<rparr>)"
  | s d recs r1 where "find_next_sync (rc_sync_marker (r_config r)) (r_inner r) = (Inr (Some s), d)"
      "try_read_block_at X s (r\<lparr>r_inner := d\<rparr>) = (Inr recs, r1)"
      "scan_loop X p r = accept_block p s recs r1"
  | s d e e' r1 where "find_next_sync (rc_sync_marker (r_config r)) (r_inner r) = (Inr (Some s), d)"
      "try_read_block_at X s (r\<lparr>r_inner := d\<rparr>) = (Inl e, r1)"
      "is_hard_io e \<and> e' = e \<or> stat_add ''blocks_bad'' (blocks_bad (r_stats r1)) 1 = Inl e'"
      "scan_loop X p r = (Inl e', r1)"
  | s d e r1 n where "find_next_sync (rc_sync_marker (r_config r)) (r_inner r) = (Inr (Some s), d)"
      "try_read_block_at X s (r\<lparr>r_inner := d\<rparr>) = (Inl e, r1)" "\<not> is_hard_io e"
      "stat_add ''blocks_bad'' (blocks_bad (r_stats r1)) 1 = Inr n"
      "scan_loop X p r =
         scan_loop X p ((stats_upd (\<lambda>st. st\<lparr>blocks_bad := n\<rparr>) r1)\<lparr>r_inner := seek (s + 1) (r_inner r1)\<rparr>)"
proof -
  obtain f d where f: "find_next_sync (rc_sync_marker (r_config r)) (r_inner r) = (f, d)"
    by (metis surj_pair)
  show thesis
  proof (cases "\<exists>s. f = Inr (Some s)")
    case False
    then show thesis using f that(1,2) by (cases f) (auto simp: scan_loop.simps [of _ _ r])
  next
    case True
    then obtain s where s: "f = Inr (Some s)" by blast
    obtain t r1 where t: "try_read_block_at X s (r\<lparr>r_inner := d\<rparr>) = (t, r1)" by (metis surj_pair)
    show thesis
    proof (cases t)
      case (Inr recs)
      then show thesis using that(3) f s t by (simp add: scan_loop.simps [of _ _ r])
    next
      case (Inl e)
      note run = f [unfolded s] t [unfolded Inl]
      show thesis
      proof (cases "is_hard_io e")
        case True
        then show thesis using that(4) [OF run, of e] run by (simp add: scan_loop.simps [of _ _ r])
      next
        case False
        then show thesis using that(4) [OF run] that(5) [OF run False] run
          by (cases "stat_add ''blocks_bad'' (blocks_bad (r_stats r1)) 1")
            (auto simp add: scan_loop.simps [of _ _ r])
      qed
    qed
  qed
qed

lemma scan_loop_progress:
  assumes "scan_loop X p r = (res, r')"
  shows "same_file (r_inner r) (r_inner r') \<and> r_config r' = r_config r \<and>
    (res = Inr True \<longrightarrow> pos (r_inner r) < pos (r_inner r') \<and> pos (r_inner r') \<le> length (data (r_inner r)))"
  using assms
proof (induction "length (data (r_inner r)) - pos (r_inner r)" arbitrary: r rule: less_induct)
  case less
  show ?case
  proof (cases rule: scan_loop_cases [of r X p])
    case (find_err e d)
    then show ?thesis using less.prems find_next_sync_progress(1) by auto
  next
    case (eof d)
    then show ?thesis using less.prems find_next_sync_progress(1) [OF eof(1)]
      by (auto simp: end_of_input_def try_r_def Let_def stats_upd_def split: sum.splits)
  next
    case (accept s d recs r1)
    then show ?thesis
      using less.prems find_next_sync_progress [OF accept(1)] try_read_block_at_frame [OF accept(2)]
        try_read_block_at_pos [OF accept(2)]
      by (auto simp: accept_block_def try_r_def Let_def stats_upd_def same_file_def split: sum.splits)
  next
    case (stop s d e e' r1)
    then show ?thesis
      using less.prems find_next_sync_progress(1) [OF stop(1)] try_read_block_at_frame [OF stop(2)]
      by (auto simp: same_file_def)
  next
    case (retry s d e r1 n)
    let ?r = "(stats_upd (\<lambda>st. st\<lparr>blocks_bad := n\<rparr>) r1)\<lparr>r_inner := seek (s + 1) (r_inner r1)\<rparr>"
    note fr = find_next_sync_progress [OF retry(1)] try_read_block_at_frame [OF retry(2)]
    have "length (data (r_inner ?r)) - pos (r_inner ?r) < length (data (r_inner r)) - pos (r_inner r)"
      using fr by (auto simp: same_file_def seek_def stats_upd_def)
    from less.hyps [OF this] less.prems retry(5) show ?thesis
      using fr by (auto simp: same_file_def seek_def stats_upd_def)
  qed
qed

lemma scan_next_block_progress:
  assumes "scan_next_block X r = (res, r')"
  shows "same_file (r_inner r) (r_inner r')" "r_config r' = r_config r"
    "res = Inr True \<Longrightarrow> pos (r_inner r) < pos (r_inner r') \<and> pos (r_inner r') \<le> length (data (r_inner r))"
  using scan_loop_progress [of X "pos (r_inner r)" r res r'] assms by (auto simp: scan_next_block_def)

section \<open>Reading records\<close>

function next_record :: "extern \<Rightarrow> reader \<Rightarrow> (error + owned_record option) \<times> reader" where
  "next_record X r =
     (case pending r of
        rec # rest \<Rightarrow>
          (let r = r\<lparr>pending := rest\<rparr> in
           try_r (stat_add ''records_ok'' (records_ok (r_stats r)) 1) r (\<lambda>n.
           (Inr (Some rec), stats_upd (\<lambda>s. s\<lparr>records_ok := n\<rparr>) r)))
      | [] \<Rightarrow>
          (case scan_next_block X r of
             (Inl e, r) \<Rightarrow> (Inl e, r)
           | (Inr False, r) \<Rightarrow> (Inr None, r)
           | (Inr True, r) \<Rightarrow> next_record X r))"
  by pat_completeness auto
termination
proof (relation "measure (\<lambda>(X, r). length (data (r_inner r)) - pos (r_inner r))", goal_cases)
  case (2 X r res r' b)
  from 2 scan_next_block_progress [of X r res r'] show ?case by (auto simp: same_file_def)
qed simp

declare next_record.simps [simp del]


lemma next_record_progress:
  assumes "next_record X r = (res, r')"
  shows "same_file (r_inner r) (r_inner r') \<and> r_config r' = r_config r \<and>
    (\<forall>x. res = Inr (Some x) \<longrightarrow>
       (pos (r_inner r) < pos (r_inner r') \<and> pos (r_inner r') \<le> length (data (r_inner r))) \<or>
       (pos (r_inner r') = pos (r_inner r) \<and> length (pending r') < length (pending r)))"
  using assms
proof (induction X r rule: next_record.induct)
  case (1 X r)
  show ?case
  proof (cases "pending r")
    case (Cons x xs)
    then show ?thesis using 1(2)
      by (auto simp: next_record.simps [of _ r] try_r_def stats_upd_def Let_def split: sum.splits)
  next
    case Nil
    obtain b r1 where sc: "scan_next_block X r = (b, r1)" by (metis surj_pair)
    note sp = scan_next_block_progress [OF sc]
    show ?thesis
    proof (cases "b = Inr True")
      case True
      then have "next_record X r1 = (res, r')"
        using 1(2) Nil sc by (simp add: next_record.simps [of _ r])
      from 1(1) [OF Nil sc [symmetric] True _ this] sp True show ?thesis
        by (auto simp: same_file_def)
    next
      case False
      then show ?thesis using 1(2) Nil sc sp
        by (auto simp: next_record.simps [of _ r] split: sum.splits bool.splits)
    qed
  qed
qed

text \<open>The loop \<^verbatim>\<open>while let Some(record) = reader.next_record()?\<close> that every consumer of a
  file runs, collecting the records it sees.\<close>

function read_records :: "extern \<Rightarrow> reader \<Rightarrow> (error + owned_record list) \<times> reader" where
  "read_records X r =
     (case next_record X r of
        (Inl e, r) \<Rightarrow> (Inl e, r)
      | (Inr None, r) \<Rightarrow> (Inr [], r)
      | (Inr (Some x), r) \<Rightarrow> apfst (map_sum id ((#) x)) (read_records X r))"
  by pat_completeness auto
termination
proof (relation "measures [\<lambda>(X, r). length (data (r_inner r)) - pos (r_inner r), \<lambda>(X, r). length (pending r)]",
    goal_cases)
  case (2 X r res r' b x)
  from 2 next_record_progress [of X r res r'] show ?case by (auto simp: same_file_def)
qed simp

declare read_records.simps [simp del]

end
