(* ===== verification/Lj_Scan.thy ===== *)
theory Lj_Scan imports Lj_Reader
begin

text \<open>
  What the scan of \<^verbatim>\<open>LogjetReader\<close> finds. The byte-wise search for the sync marker is
  compared with the first occurrence of the marker; \<^verbatim>\<open>scan_next_block\<close> and the loop over
  \<^verbatim>\<open>next_record\<close> are compared with a reference that looks for the first offset where a
  block validates.
\<close>

section \<open>The sync search against its specification\<close>

definition occurs :: "bytes \<Rightarrow> bytes \<Rightarrow> nat \<Rightarrow> bool" where
  "occurs marker bs q \<longleftrightarrow> q + length marker \<le> length bs \<and> slice q (length marker) bs = marker"

text \<open>The marker's first byte does not occur again in it. The default marker has this property; a
  configured marker need not.\<close>

definition first_unique :: "bytes \<Rightarrow> bool" where
  "first_unique marker \<longleftrightarrow> marker \<noteq> [] \<and> hd marker \<notin> set (tl marker)"

definition first_sync :: "bytes \<Rightarrow> bytes \<Rightarrow> nat \<Rightarrow> nat option" where
  "first_sync marker bs p = find (occurs marker bs) [p..<length bs]"

definition no_faults :: "dev \<Rightarrow> bool" where
  "no_faults d \<longleftrightarrow> faults d = (\<lambda>_. None)"

lemma first_unique_nth:
  "first_unique marker \<longleftrightarrow> marker \<noteq> [] \<and> (\<forall>i. 0 < i \<and> i < length marker \<longrightarrow> marker ! i \<noteq> marker ! 0)"
  by (cases marker) (auto simp: first_unique_def in_set_conv_nth gr0_conv_Suc)

lemma nth_slice: "i < n \<Longrightarrow> q + n \<le> length bs \<Longrightarrow> slice q n bs ! i = bs ! (q + i)"
  by (simp add: slice_def)

lemma occurs_nth: "occurs m bs q \<Longrightarrow> i < length m \<Longrightarrow> bs ! (q + i) = m ! i"
  by (metis nth_slice occurs_def)

lemma occursI: "q + length m \<le> length bs \<Longrightarrow> (\<And>i. i < length m \<Longrightarrow> bs ! (q + i) = m ! i) \<Longrightarrow> occurs m bs q"
  by (auto simp: occurs_def slice_def intro!: nth_equalityI)

text \<open>What one position of the search knows: the last \<open>matched\<close> bytes are a prefix of the marker, and
  no marker starts at or after \<open>start\<close> and before them.\<close>

definition sync_inv :: "bytes \<Rightarrow> nat \<Rightarrow> nat \<Rightarrow> dev \<Rightarrow> bool" where
  "sync_inv m start matched d \<longleftrightarrow>
     start + matched \<le> pos d \<and> pos d \<le> length (data d) \<and> matched < length m \<and>
     (\<forall>i<matched. data d ! (pos d - matched + i) = m ! i) \<and>
     (\<forall>q. start \<le> q \<and> q + matched < pos d \<longrightarrow> \<not> occurs m (data d) q)"

lemma sync_inv_hit:
  assumes "sync_inv m start k d" and "pos d < length (data d)" and "data d ! pos d = m ! k"
    and "k + 1 = length m"
  shows "occurs m (data d) (pos d - k)"
proof (rule occursI)
  show "pos d - k + length m \<le> length (data d)" using assms by (auto simp: sync_inv_def)
  fix i assume "i < length m"
  then have "i < k \<or> i = k" using assms(4) by auto
  then show "data d ! (pos d - k + i) = m ! i"
    using assms by (auto simp: sync_inv_def)
qed

lemma sync_inv_more:
  assumes "sync_inv m start k d" and "pos d < length (data d)" and "data d ! pos d = m ! k"
    and "k + 1 \<noteq> length m"
  shows "sync_inv m start (k + 1) (d\<lparr>pos := pos d + 1\<rparr>)"
proof -
  have "data d ! (pos d - k + i) = m ! i" if "i < k + 1" for i
    using assms that by (cases "i = k") (auto simp: sync_inv_def)
  then show ?thesis using assms by (auto simp: sync_inv_def)
qed

lemma sync_inv_miss:
  assumes inv: "sync_inv m start k d" and lt: "pos d < length (data d)" and ne: "data d ! pos d \<noteq> m ! k"
    and u: "first_unique m" and start: "start \<le> pos d"
  shows "sync_inv m start (if data d ! pos d = m ! 0 then 1 else 0) (d\<lparr>pos := pos d + 1\<rparr>)"
proof -
  have no: "\<not> occurs m (data d) q" if q: "start \<le> q" "q < pos d" for q
  proof
    assume o: "occurs m (data d) q"
    with inv q have ge: "pos d - k \<le> q" by (force simp: sync_inv_def not_less)
    show False
    proof (cases "q = pos d - k")
      case True
      with occurs_nth [OF o, of k] inv ne show False by (auto simp: sync_inv_def)
    next
      case False
      let ?i = "q - (pos d - k)"
      have i: "0 < ?i" "?i < k" using False ge q inv by (auto simp: sync_inv_def)
      then have "data d ! q = m ! ?i" using inv ge by (force simp: sync_inv_def)
      moreover have "data d ! q = m ! 0" using occurs_nth [OF o, of 0] u by (simp add: first_unique_nth)
      moreover have "?i < length m" using i inv by (simp add: sync_inv_def)
      then have "m ! ?i \<noteq> m ! 0" using u i(1) unfolding first_unique_nth by blast
      ultimately show False by simp
    qed
  qed
  have "\<not> occurs m (data d) (pos d)" if "data d ! pos d \<noteq> m ! 0"
    using occurs_nth [of m "data d" "pos d" 0] that u by (auto simp: first_unique_nth)
  moreover have "1 < length m" if "data d ! pos d = m ! 0"
    using that inv ne by (cases k) (auto simp: sync_inv_def)
  ultimately show ?thesis
    using no lt u start by (auto simp: sync_inv_def first_unique_nth less_Suc_eq)
qed

lemma find_sync_loop_spec:
  assumes "sync_inv m start k d" and "start + offset = pos d" and "k \<le> offset"
    and "no_faults d" and "first_unique m"
  shows "\<exists>p. find_sync_loop m start k offset d = (Inr (first_sync m (data d) start), d\<lparr>pos := p\<rparr>)"
  using assms
proof (induction m start k offset d rule: find_sync_loop.induct)
  case (1 m start k offset d)
  show ?case
  proof (cases "pos d < length (data d)")
    case False
    have "first_sync m (data d) start = None"
      using 1(3,4) False
      by (force simp: first_sync_def find_None_iff sync_inv_def occurs_def)
    then show ?thesis using False by (auto simp: find_sync_loop.simps [of _ _ _ _ d] read_byte_def intro!: exI [of _ "pos d"])
  next
    case lt: True
    let ?c = "data d ! pos d" and ?d = "d\<lparr>pos := pos d + 1\<rparr>"
    have rb: "read_byte d = (Inr (Some ?c), ?d)"
      using lt 1(6) by (simp add: read_byte_def no_faults_def)
    note inv = 1(3)
    consider (hit) "?c = m ! k" "k + 1 = length m" | (more) "?c = m ! k" "k + 1 \<noteq> length m"
      | (miss) "?c \<noteq> m ! k" by blast
    then show ?thesis
    proof cases
      case hit
      have "first_sync m (data d) start = Some (pos d - k)"
        using sync_inv_hit [OF inv lt hit] inv lt 1(4)
        by (auto simp: first_sync_def find_Some_iff sync_inv_def intro!: exI [of _ "pos d - k - start"])
      then show ?thesis using hit rb 1(4,5)
        by (auto simp: find_sync_loop.simps [of _ _ _ _ d] seek_def Let_def)
    next
      case more
      have "\<exists>p. find_sync_loop m start (k + 1) (offset + 1) ?d
          = (Inr (first_sync m (data ?d) start), ?d\<lparr>pos := p\<rparr>)"
        by (rule 1(1) [OF rb [symmetric] refl refl more sync_inv_more [OF inv lt more]])
          (use 1 in \<open>auto simp: no_faults_def\<close>)
      then show ?thesis using more rb by (simp add: find_sync_loop.simps [of _ _ _ _ d])
    next
      case miss
      have "\<exists>p. find_sync_loop m start (if ?c = m ! 0 then 1 else 0) (offset + 1) ?d
          = (Inr (first_sync m (data ?d) start), ?d\<lparr>pos := p\<rparr>)"
        by (rule 1(2) [OF rb [symmetric] refl refl miss sync_inv_miss [OF inv lt miss]])
          (use 1 in \<open>auto simp: no_faults_def\<close>)
      then show ?thesis using miss rb by (simp add: find_sync_loop.simps [of _ _ _ _ d])
    qed
  qed
qed


lemma find_next_sync_spec:
  assumes "first_unique m" and "no_faults d"
  shows "fst (find_next_sync m d) = Inr (first_sync m (data d) (pos d))"
proof (cases "pos d \<le> length (data d)")
  case True
  then have "sync_inv m (pos d) 0 d" using assms(1) by (auto simp: sync_inv_def first_unique_nth)
  from find_sync_loop_spec [OF this, of 0] show ?thesis
    using assms by (auto simp: find_next_sync_def)
next
  case False
  then show ?thesis
    by (simp add: find_next_sync_def find_sync_loop.simps [of _ _ _ _ d] read_byte_def first_sync_def)
qed

section \<open>The blocks a scan accepts\<close>

text \<open>The reference for reading a file: the block at an offset, if one validates there, and the list of
  the blocks accepted from an offset on, each with its start, its end and its records. The next block is
  the first marker at or after the end of the last one whose block validates.\<close>

definition block_at :: "extern \<Rightarrow> reader_config \<Rightarrow> bytes \<Rightarrow> nat \<Rightarrow> (nat \<times> owned_record list) option" where
  "block_at X cfg bs q =
     (case read_frame X cfg q (dev_of bs) of
        (Inl _, _) \<Rightarrow> None
      | (Inr (h, ext, c), d) \<Rightarrow>
          (case and_then (decompress X (bh_codec h) c (unat (bh_uncompressed_len h)))
                  (\<lambda>pl. parse_records pl (bh_record_count h) ext) of
             Inl _ \<Rightarrow> None
           | Inr records \<Rightarrow> Some (pos d, records)))"

definition next_block ::
    "extern \<Rightarrow> reader_config \<Rightarrow> bytes \<Rightarrow> nat \<Rightarrow> (nat \<times> nat \<times> owned_record list) option" where
  "next_block X cfg bs p =
     (case find (\<lambda>q. occurs (rc_sync_marker cfg) bs q \<and> block_at X cfg bs q \<noteq> None) [p..<length bs] of
        None \<Rightarrow> None
      | Some q \<Rightarrow> map_option (Pair q) (block_at X cfg bs q))"

lemma block_at_bounds:
  assumes "block_at X cfg bs q = Some (e, recs)"
  shows "q + 52 \<le> e" "e \<le> length bs"
proof -
  from assms obtain h ext c d where "read_frame X cfg q (dev_of bs) = (Inr (h, ext, c), d)" "pos d = e"
    by (auto simp: block_at_def split: sum.splits prod.splits)
  from read_frame_pos [OF this(1)] this(2) show "q + 52 \<le> e" "e \<le> length bs"
    by (auto simp: dev_of_def)
qed

lemma next_block_bounds:
  assumes "next_block X cfg bs p = Some (q, e, recs)"
  shows "p \<le> q" "q + 52 \<le> e" "e \<le> length bs" "block_at X cfg bs q = Some (e, recs)"
proof -
  from assms have f: "find (\<lambda>q. occurs (rc_sync_marker cfg) bs q \<and> block_at X cfg bs q \<noteq> None) [p..<length bs] = Some q"
    and b: "block_at X cfg bs q = Some (e, recs)"
    by (auto simp: next_block_def split: option.splits)
  from f have "q \<in> set [p..<length bs]" by (auto simp: find_Some_iff)
  then show "p \<le> q" "q + 52 \<le> e" "e \<le> length bs" "block_at X cfg bs q = Some (e, recs)"
    using b block_at_bounds [OF b] by auto
qed

function blocks_from ::
    "extern \<Rightarrow> reader_config \<Rightarrow> bytes \<Rightarrow> nat \<Rightarrow> (nat \<times> nat \<times> owned_record list) list" where
  "blocks_from X cfg bs p =
     (case next_block X cfg bs p of None \<Rightarrow> [] | Some (q, e, recs) \<Rightarrow> (q, e, recs) # blocks_from X cfg bs e)"
  by pat_completeness auto
termination
proof (relation "measure (\<lambda>(X, cfg, bs, p). length bs - p)", goal_cases)
  case (2 X cfg bs p t q u e recs)
  then show ?case using next_block_bounds [of X cfg bs p q e recs] by auto
qed simp

declare blocks_from.simps [simp del]

text \<open>On a source without faults, reading a block from a reader is \<^const>\<open>block_at\<close>, up to overflow of
  the byte counters.\<close>

lemma read_frame_dev_of:
  assumes "no_faults d"
  shows "read_frame X cfg q d = read_frame X cfg q (dev_of (data d))"
proof -
  have "seek q d = seek q (dev_of (data d))"
    using assms by (simp add: seek_def dev_of_def no_faults_def)
  then show ?thesis unfolding read_frame_def by (rule arg_cong)
qed

section \<open>Soft errors\<close>

text \<open>On a source without faults no operation returns an I/O error other than an early end of file, so
  the scan never stops at a bad block.\<close>

definition soft :: "dev \<Rightarrow> (error + 'a) \<times> dev \<Rightarrow> bool" where
  "soft d m \<longleftrightarrow> same_file d (snd m) \<and> (\<forall>e. fst m = Inl e \<longrightarrow> \<not> is_hard_io e)"

lemma soft_pair [simp]:
  "soft d (Inr x, e) \<longleftrightarrow> same_file d e"
  "soft d (Inl err, e) \<longleftrightarrow> same_file d e \<and> \<not> is_hard_io err"
  by (auto simp: soft_def)

lemma first_fault_None [simp]: "first_fault (\<lambda>_. None) p n = None"
  by (induction n arbitrary: p) simp_all

lemma soft_read_exact:
  assumes "no_faults d" and "same_file d e" and "\<And>x e'. same_file d e' \<Longrightarrow> soft d (k x e')"
  shows "soft d (try_from Io (read_exact n e) k)"
  using assms by (auto simp: read_exact_def no_faults_def same_file_def is_hard_io_def unexpected_eof_def)

lemma soft_try_r:
  assumes "same_file d e" and "\<And>err. m = Inl err \<Longrightarrow> \<not> is_hard_io err" and "\<And>x. soft d (k x)"
  shows "soft d (try_r m e k)"
  using assms by (cases m) auto

lemma header_decode_soft: "header_decode bs = Inl e \<Longrightarrow> \<not> is_hard_io e"
  by (auto simp: header_decode_def codec_from_u8_def is_hard_io_def Let_def and_then_def split: if_splits sum.splits)

lemma ext_decode_soft: "ext_decode bs = Inl e \<Longrightarrow> \<not> is_hard_io e"
  by (auto simp: ext_decode_def is_hard_io_def split: if_splits)

lemma validate_length_soft: "validate_length f v l = Inl e \<Longrightarrow> \<not> is_hard_io e"
  by (auto simp: validate_length_def is_hard_io_def split: if_splits)

lemma is_hard_io_simps [simp]:
  "\<not> is_hard_io (InvalidHeader m)" "\<not> is_hard_io (HeaderTooShort n)"
  "\<not> is_hard_io (HeaderCrcMismatch a b)" "\<not> is_hard_io (BlockCrcMismatch a b)"
  "\<not> is_hard_io (Truncated m)" "\<not> is_hard_io (NumericOverflow m)" "\<not> is_hard_io (Codec m)"
  "\<not> is_hard_io VarintTooLong" "\<not> is_hard_io (InvalidRecordType t)"
  by (simp_all add: is_hard_io_def)

lemma read_frame_soft: "no_faults d \<Longrightarrow> soft d (read_frame X cfg q d)"
  unfolding read_frame_def Let_def
  by (auto intro!: soft_read_exact soft_try_r)
    (blast dest: header_decode_soft ext_decode_soft validate_length_soft)+

lemma decode_varint_loop_soft: "fst (decode_varint_loop bs c v s) = Inl e \<Longrightarrow> \<not> is_hard_io e"
proof (induction bs c v s rule: decode_varint_loop.induct)
  case (1 bs c v s)
  then show ?case by (auto simp: decode_varint_loop.simps [of bs c v s] Let_def split: if_splits)
qed

lemma parse_record_soft: "fst (parse_record pl ext c) = Inl e \<Longrightarrow> \<not> is_hard_io e"
  using decode_varint_loop_soft
  by (auto simp: parse_record_def try_st_def try_r_def ok_or_def decode_varint_def record_type_from_u8_def
      split: if_splits sum.splits option.splits)

lemma parse_records_loop_soft: "parse_records_loop n pl ext c rs = Inl e \<Longrightarrow> \<not> is_hard_io e"
proof (induction n arbitrary: c rs)
  case (Suc n)
  then show ?case using parse_record_soft [of pl ext c e]
    by (auto split: prod.splits sum.splits)
qed (auto split: if_splits)

lemma decompress_soft: "decompress X c inp n = Inl e \<Longrightarrow> \<not> is_hard_io e"
  by (auto simp: decompress_def split: codec.splits sum.splits if_splits)

lemma try_read_block_at_soft:
  assumes "no_faults (r_inner r)" and "try_read_block_at X s r = (Inl e, r')"
  shows "\<not> is_hard_io e"
proof -
  have "soft (r_inner r) (read_frame X (r_config r) s (r_inner r))"
    using assms(1) by (rule read_frame_soft)
  with assms(2) show ?thesis
    by (auto simp: try_read_block_at_def Let_def try_r_def stat_add_def parse_records_def
        dest: decompress_soft parse_records_loop_soft split: sum.splits prod.splits option.splits)
qed

section \<open>Reading a block without overflow\<close>

lemma stat_add_room: "unat a + unat b < 2 ^ 64 \<Longrightarrow> stat_add f a b = Inr (a + b)"
  by (simp add: stat_add_def checked_add_def)

lemma unat_plus_room: "unat (a :: u64) + unat b < 2 ^ 64 \<Longrightarrow> unat (a + b) = unat a + unat b"
  by (simp add: unat_word_ariths)

lemma parse_records_length: "parse_records pl n ext = Inr recs \<Longrightarrow> length recs = unat n"
proof -
  have "parse_records_loop k pl ext c rs = Inr recs \<Longrightarrow> length recs = length rs + k" for k c rs
    by (induction k arbitrary: c rs) (fastforce split: if_splits prod.splits sum.splits)+
  from this [of "unat n" 0 "[]"] show "parse_records pl n ext = Inr recs \<Longrightarrow> length recs = unat n"
    by (simp add: parse_records_def)
qed


lemma find_upt_Some_iff:
  "find P [p..<n] = Some s \<longleftrightarrow> p \<le> s \<and> s < n \<and> P s \<and> (\<forall>q. p \<le> q \<and> q < s \<longrightarrow> \<not> P q)"
proof (induction "n - p" arbitrary: p)
  case (Suc k)
  then have "[p..<n] = p # [Suc p..<n]" by (simp add: upt_conv_Cons)
  moreover have "find P [Suc p..<n] = Some s \<longleftrightarrow>
      Suc p \<le> s \<and> s < n \<and> P s \<and> (\<forall>q. Suc p \<le> q \<and> q < s \<longrightarrow> \<not> P q)"
    using Suc by simp
  moreover have "(\<forall>q. p \<le> q \<and> q < s \<longrightarrow> \<not> P q) \<longleftrightarrow>
      (p < s \<longrightarrow> \<not> P p) \<and> (\<forall>q. Suc p \<le> q \<and> q < s \<longrightarrow> \<not> P q)"
    by (auto simp: Suc_le_eq) (metis le_neq_implies_less)
  ultimately show ?case using Suc(2) by (auto simp: Suc_le_eq le_eq_less_or_eq)
qed simp

lemma find_upt_None_iff: "find P [p..<n] = None \<longleftrightarrow> (\<forall>q. p \<le> q \<and> q < n \<longrightarrow> \<not> P q)"
  by (auto simp: find_None_iff)

lemma next_block_None_iff:
  "next_block X cfg bs p = None \<longleftrightarrow>
     (\<forall>q. p \<le> q \<and> occurs (rc_sync_marker cfg) bs q \<and> q < length bs \<longrightarrow> block_at X cfg bs q = None)"
  by (auto simp: next_block_def find_upt_None_iff find_upt_Some_iff simp del: not_None_eq split: option.splits)

lemma next_block_Some_iff:
  "next_block X cfg bs p = Some (q, e, recs) \<longleftrightarrow>
     p \<le> q \<and> q < length bs \<and> occurs (rc_sync_marker cfg) bs q \<and> block_at X cfg bs q = Some (e, recs) \<and>
     (\<forall>q'. p \<le> q' \<and> q' < q \<and> occurs (rc_sync_marker cfg) bs q' \<longrightarrow> block_at X cfg bs q' = None)"
proof -
  have "next_block X cfg bs p = Some (q, e, recs) \<longleftrightarrow>
      find (\<lambda>q. occurs (rc_sync_marker cfg) bs q \<and> block_at X cfg bs q \<noteq> None) [p..<length bs] = Some q \<and>
      block_at X cfg bs q = Some (e, recs)"
    by (auto simp: next_block_def split: option.splits)
  then show ?thesis unfolding find_upt_Some_iff by auto
qed

lemma next_block_none:
  "first_sync (rc_sync_marker cfg) bs p = None \<Longrightarrow> next_block X cfg bs p = None"
  by (auto simp: next_block_None_iff first_sync_def find_upt_None_iff)

lemma next_block_hit:
  assumes "first_sync (rc_sync_marker cfg) bs p = Some s" and "block_at X cfg bs s = Some (e, recs)"
  shows "next_block X cfg bs p = Some (s, e, recs)"
  using assms by (auto simp: next_block_Some_iff first_sync_def find_upt_Some_iff)

lemma find_append_none: "(\<And>x. x \<in> set xs \<Longrightarrow> \<not> P x) \<Longrightarrow> find P (xs @ ys) = find P ys"
  by (induction xs) auto

lemma next_block_skip:
  assumes "first_sync (rc_sync_marker cfg) bs p = Some s" and "block_at X cfg bs s = None"
  shows "next_block X cfg bs p = next_block X cfg bs (s + 1)"
proof -
  let ?P = "\<lambda>q. occurs (rc_sync_marker cfg) bs q \<and> block_at X cfg bs q \<noteq> None"
  have s: "p \<le> s" "s < length bs" "\<And>q. p \<le> q \<Longrightarrow> q < s \<Longrightarrow> \<not> occurs (rc_sync_marker cfg) bs q"
    using assms(1) by (auto simp: first_sync_def find_upt_Some_iff)
  obtain k where k: "length bs = s + 1 + k"
    using s(2) by (metis add.assoc add.commute less_natE plus_1_eq_Suc)
  have split: "[p..<length bs] = [p..<s + 1] @ [s + 1..<length bs]"
    unfolding k using s(1) by (intro upt_add_eq_append) simp
  have none: "\<not> ?P q" if "q \<in> set [p..<s + 1]" for q
    using that s assms(2) by (cases "q = s") auto
  have "find ?P [p..<length bs] = find ?P [s + 1..<length bs]"
    unfolding split by (rule find_append_none) (rule none)
  then show ?thesis by (simp add: next_block_def)
qed

lemma unat_u32_u64 [simp]: "unat (ucast (x :: u32) :: u64) = unat x"
proof -
  have "unat x < 2 ^ 32" using unsigned_less [of x, where 'a = nat] by simp
  then show ?thesis by (simp add: unsigned_ucast_eq take_bit_nat_eq_self)
qed

lemma parse_records_count: "parse_records pl n ext = Inr recs \<Longrightarrow> length recs < 2 ^ 32"
  using unsigned_less [of n, where 'a = nat] by (simp add: parse_records_length)

text \<open>Reading the block at a marker is \<^const>\<open>block_at\<close>, as long as the byte counters have room.\<close>

lemma try_read_block_at_spec:
  fixes r :: reader
  defines "st \<equiv> r_stats r"
  assumes nf: "no_faults (r_inner r)" and s: "s < 2 ^ 32"
    and tc: "unat (total_compressed_bytes st) \<le> s * 2 ^ 32"
    and tu: "unat (total_uncompressed_bytes st) \<le> s * 2 ^ 32"
    and run: "try_read_block_at X s r = (res, r')"
  shows "case block_at X (r_config r) (data (r_inner r)) s of
           None \<Rightarrow> \<exists>e. res = Inl e
         | Some (e, recs) \<Rightarrow> res = Inr recs \<and> pos (r_inner r') = e \<and> length recs < 2 ^ 32"
    and "\<exists>x y. r_stats r' = st\<lparr>total_compressed_bytes := x, total_uncompressed_bytes := y\<rparr> \<and>
           unat x \<le> (s + 1) * 2 ^ 32 \<and> unat y \<le> (s + 1) * 2 ^ 32"
proof -
  obtain m d where f: "read_frame X (r_config r) s (r_inner r) = (m, d)" by (metis surj_pair)
  then have f': "read_frame X (r_config r) s (dev_of (data (r_inner r))) = (m, d)"
    using read_frame_dev_of [OF nf] by simp
  have c: "unat (ucast (bh_compressed_len h) :: u64) < 2 ^ 32"
      "unat (ucast (bh_uncompressed_len h) :: u64) < 2 ^ 32" for h
    using unsigned_less [of "bh_compressed_len h", where 'a = nat]
      unsigned_less [of "bh_uncompressed_len h", where 'a = nat]
    by simp_all
  have room: "unat (total_compressed_bytes st) + unat (ucast (bh_compressed_len h) :: u64) < 2 ^ 64"
      "unat (total_uncompressed_bytes st) + unat (ucast (bh_uncompressed_len h) :: u64) < 2 ^ 64" for h
    using s tc tu c [of h] by simp_all
  note sa = stat_add_room [OF room(1), unfolded st_def] stat_add_room [OF room(2), unfolded st_def]
  show "case block_at X (r_config r) (data (r_inner r)) s of
           None \<Rightarrow> \<exists>e. res = Inl e
         | Some (e, recs) \<Rightarrow> res = Inr recs \<and> pos (r_inner r') = e \<and> length recs < 2 ^ 32"
    using run f' f
    by (auto simp: sa try_read_block_at_def block_at_def Let_def and_then_def try_r_def st_def
        dest: parse_records_count [simplified] split: sum.splits prod.splits)
  show "\<exists>x y. r_stats r' = st\<lparr>total_compressed_bytes := x, total_uncompressed_bytes := y\<rparr> \<and>
           unat x \<le> (s + 1) * 2 ^ 32 \<and> unat y \<le> (s + 1) * 2 ^ 32"
  proof (cases m)
    case (Inl e)
    then have "r_stats r' = st\<lparr>total_compressed_bytes := total_compressed_bytes st,
        total_uncompressed_bytes := total_uncompressed_bytes st\<rparr>"
      using run f by (auto simp: try_read_block_at_def st_def)
    with tc tu show ?thesis by (intro exI conjI) (assumption, simp_all)
  next
    case (Inr hec)
    then obtain h x y where h: "m = Inr (h, x, y)" by (cases hec) auto
    have "r_stats r' = st\<lparr>total_compressed_bytes := total_compressed_bytes st + ucast (bh_compressed_len h),
        total_uncompressed_bytes := total_uncompressed_bytes st + ucast (bh_uncompressed_len h)\<rparr>"
      using run f h
      by (auto simp: sa try_read_block_at_def Let_def try_r_def st_def split: sum.splits)
    then show ?thesis
      using tc tu c [of h] unat_plus_room [OF room(1) [of h]] unat_plus_room [OF room(2) [of h]]
      by (intro exI conjI) (assumption, simp_all)
  qed
qed


section \<open>The scan finds the next block\<close>

definition room :: "nat \<Rightarrow> reader_stats \<Rightarrow> bool" where
  "room p st \<longleftrightarrow> unat (blocks_ok st) \<le> p \<and> unat (blocks_bad st) \<le> p \<and>
     unat (total_compressed_bytes st) \<le> p * 2 ^ 32 \<and> unat (total_uncompressed_bytes st) \<le> p * 2 ^ 32"

lemma room_mono: "room p st \<Longrightarrow> p \<le> q \<Longrightarrow> room q st"
  unfolding room_def by (meson le_trans mult_le_mono1)

text \<open>The effect of a scan: the position, the queued records, and the exact change of the counters.\<close>

definition scanned :: "reader \<Rightarrow> reader \<Rightarrow> nat \<Rightarrow> nat \<Rightarrow> nat \<Rightarrow> owned_record list \<Rightarrow> bool" where
  "scanned r r' e n k recs \<longleftrightarrow>
     same_file (r_inner r) (r_inner r') \<and> r_config r' = r_config r \<and> pos (r_inner r') = e \<and>
     pending r' = pending r @ recs \<and> room e (r_stats r') \<and>
     unat (blocks_ok (r_stats r')) = unat (blocks_ok (r_stats r)) + n \<and>
     unat (bytes_skipped (r_stats r')) = unat (bytes_skipped (r_stats r)) + k \<and>
     records_ok (r_stats r') = records_ok (r_stats r)"

lemma end_of_input_spec:
  assumes "room p (r_stats r)" and "p \<le> length (data (r_inner r))"
    and "unat (bytes_skipped (r_stats r)) \<le> p" and "length (data (r_inner r)) < 2 ^ 32"
  shows "\<exists>r'. end_of_input origin r = (Inr False, r') \<and>
    scanned r r' (length (data (r_inner r))) 0 (length (data (r_inner r)) - origin) []"
proof -
  let ?n = "of_nat (length (data (r_inner r)) - origin) :: u64"
  have n: "unat ?n = length (data (r_inner r)) - origin"
    using assms(4) by (simp add: unat_of_nat)
  have "unat (bytes_skipped (r_stats r)) + unat ?n < 2 ^ 64" using assms n by simp
  from stat_add_room [OF this] unat_plus_room [OF this] n room_mono [OF assms(1,2)]
  show ?thesis
    by (simp add: end_of_input_def Let_def stats_upd_def scanned_def seek_def same_file_def room_def)
qed

lemma accept_block_spec:
  assumes "room p (r_stats r)" and "p < e" and "pos (r_inner r) = e" and "e < 2 ^ 32"
    and "unat (bytes_skipped (r_stats r)) \<le> e" and "q < e"
  shows "\<exists>r'. accept_block origin q recs r = (Inr True, r') \<and> scanned r r' e 1 (q - origin) recs"
proof -
  let ?n = "of_nat (q - origin) :: u64"
  have n: "unat ?n = q - origin" using assms by (simp add: unat_of_nat)
  have k: "unat (bytes_skipped (r_stats r)) + unat ?n < 2 ^ 64" using assms n by simp
  have bo: "unat (blocks_ok (r_stats r)) < e" using assms by (auto simp: room_def)
  then have b: "unat (blocks_ok (r_stats r)) + unat (1 :: u64) < 2 ^ 64" using assms(4) by simp
  from stat_add_room [OF k] unat_plus_room [OF k] stat_add_room [OF b] unat_plus_room [OF b] n bo
    room_mono [OF assms(1), of e] assms
  show ?thesis
    by (simp add: accept_block_def Let_def stats_upd_def scanned_def room_def)
qed

text \<open>The situation of the loop: a source without faults, a marker that can be searched for, and room
  in the counters.\<close>

definition scan_ok :: "nat \<Rightarrow> reader \<Rightarrow> bool" where
  "scan_ok origin r \<longleftrightarrow>
     no_faults (r_inner r) \<and> first_unique (rc_sync_marker (r_config r)) \<and>
     length (data (r_inner r)) < 2 ^ 32 \<and> origin \<le> pos (r_inner r) \<and>
     pos (r_inner r) \<le> length (data (r_inner r)) \<and>
     room (pos (r_inner r)) (r_stats r) \<and> unat (bytes_skipped (r_stats r)) \<le> origin"

lemma candidate:
  assumes ok: "scan_ok origin r"
    and find: "find_next_sync (rc_sync_marker (r_config r)) (r_inner r) = (Inr (Some s), d)"
    and run: "try_read_block_at X s (r\<lparr>r_inner := d\<rparr>) = (res, r1)"
  shows "first_sync (rc_sync_marker (r_config r)) (data (r_inner r)) (pos (r_inner r)) = Some s"
    and "pos (r_inner r) \<le> s" and "s < length (data (r_inner r))"
    and "same_file (r_inner r) (r_inner r1)" and "r_config r1 = r_config r" and "pending r1 = pending r"
    and "case block_at X (r_config r) (data (r_inner r)) s of
           None \<Rightarrow> \<exists>e. res = Inl e
         | Some (e, recs) \<Rightarrow> res = Inr recs \<and> pos (r_inner r1) = e"
    and "\<exists>x y. r_stats r1 = (r_stats r)\<lparr>total_compressed_bytes := x, total_uncompressed_bytes := y\<rparr> \<and>
           unat x \<le> (s + 1) * 2 ^ 32 \<and> unat y \<le> (s + 1) * 2 ^ 32"
    and "res = Inl e \<Longrightarrow> \<not> is_hard_io e"
proof -
  have f: "same_file (r_inner r) d" "pos (r_inner r) \<le> s" "s < length (data (r_inner r))"
    using find_next_sync_progress [OF find] by auto
  have nf: "no_faults (r_inner (r\<lparr>r_inner := d\<rparr>))"
    using ok f by (simp add: scan_ok_def no_faults_def same_file_def)
  have "room s (r_stats r)" using room_mono [of _ _ s] ok f by (auto simp: scan_ok_def)
  then have tot: "unat (total_compressed_bytes (r_stats (r\<lparr>r_inner := d\<rparr>))) \<le> s * 2 ^ 32"
      "unat (total_uncompressed_bytes (r_stats (r\<lparr>r_inner := d\<rparr>))) \<le> s * 2 ^ 32"
    by (simp_all add: room_def)
  have s32: "s < 2 ^ 32" using ok f by (simp add: scan_ok_def)
  show "first_sync (rc_sync_marker (r_config r)) (data (r_inner r)) (pos (r_inner r)) = Some s"
    using find_next_sync_spec [of "rc_sync_marker (r_config r)" "r_inner r"] ok find
    by (simp add: scan_ok_def)
  show "pos (r_inner r) \<le> s" "s < length (data (r_inner r))" by fact+
  show "same_file (r_inner r) (r_inner r1)" "r_config r1 = r_config r" "pending r1 = pending r"
    using try_read_block_at_frame [OF run] f(1) by (auto simp: same_file_def)
  show "case block_at X (r_config r) (data (r_inner r)) s of
           None \<Rightarrow> \<exists>e. res = Inl e
         | Some (e, recs) \<Rightarrow> res = Inr recs \<and> pos (r_inner r1) = e"
    using try_read_block_at_spec(1) [OF nf s32 tot run] f(1)
    by (auto simp: same_file_def split: option.splits)
  show "\<exists>x y. r_stats r1 = (r_stats r)\<lparr>total_compressed_bytes := x, total_uncompressed_bytes := y\<rparr> \<and>
           unat x \<le> (s + 1) * 2 ^ 32 \<and> unat y \<le> (s + 1) * 2 ^ 32"
    using try_read_block_at_spec(2) [OF nf s32 tot run] by simp
  show "res = Inl e \<Longrightarrow> \<not> is_hard_io e"
    using try_read_block_at_soft [OF nf] run by simp
qed

lemma scan_loop_spec:
  assumes "scan_ok origin r"
  shows "case next_block X (r_config r) (data (r_inner r)) (pos (r_inner r)) of
      None \<Rightarrow> \<exists>r'. scan_loop X origin r = (Inr False, r') \<and>
        scanned r r' (length (data (r_inner r))) 0 (length (data (r_inner r)) - origin) []
    | Some (q, e, recs) \<Rightarrow> \<exists>r'. scan_loop X origin r = (Inr True, r') \<and> scanned r r' e 1 (q - origin) recs"
  using assms
proof (induction "length (data (r_inner r)) - pos (r_inner r)" arbitrary: r rule: less_induct)
  case less
  note ok = less.prems
  have sync: "fst (find_next_sync (rc_sync_marker (r_config r)) (r_inner r)) =
      Inr (first_sync (rc_sync_marker (r_config r)) (data (r_inner r)) (pos (r_inner r)))"
    using find_next_sync_spec ok by (simp add: scan_ok_def)
  show ?case
  proof (cases rule: scan_loop_cases [of r X origin])
    case (find_err e d)
    then show ?thesis using sync by simp
  next
    case (eof d)
    have "next_block X (r_config r) (data (r_inner r)) (pos (r_inner r)) = None"
      using eof(1) sync by (intro next_block_none) simp
    moreover have sf: "same_file (r_inner r) d" using find_next_sync_progress(1) [OF eof(1)] .
    ultimately show ?thesis
      using eof end_of_input_spec [of "pos (r_inner r)" "r\<lparr>r_inner := d\<rparr>" origin] ok
      by (auto simp: same_file_def scanned_def scan_ok_def)
  next
    case (accept s d recs r1)
    note c = candidate [OF ok accept(1,2)]
    have b: "block_at X (r_config r) (data (r_inner r)) s = Some (pos (r_inner r1), recs)"
      using c(7) by (auto split: option.splits)
    from c(8) have "room (s + 1) (r_stats r1)"
      using ok c(2) by (auto simp: room_def scan_ok_def)
    moreover have "unat (bytes_skipped (r_stats r1)) \<le> pos (r_inner r1)"
      using c(8,2) block_at_bounds(1) [OF b] ok by (auto simp: scan_ok_def)
    ultimately have "\<exists>r'. accept_block origin s recs r1 = (Inr True, r') \<and>
        scanned r1 r' (pos (r_inner r1)) 1 (s - origin) recs"
      using block_at_bounds [OF b] ok by (intro accept_block_spec [of "s + 1"]) (auto simp: scan_ok_def)
    then have "\<exists>r'. scan_loop X origin r = (Inr True, r') \<and> scanned r r' (pos (r_inner r1)) 1 (s - origin) recs"
      using c(4-6,8) accept(3) by (auto simp: scanned_def same_file_def)
    then show ?thesis using next_block_hit [OF c(1) b] by simp
  next
    case (stop s d e e' r1)
    note c = candidate [OF ok stop(1,2)]
    have "unat (blocks_bad (r_stats r1)) + unat (1 :: u64) < 2 ^ 64"
      using c(8) ok by (auto simp: scan_ok_def room_def)
    then show ?thesis using stop(3) c(9) stat_add_room by auto
  next
    case (retry s d e r1 n)
    note c = candidate [OF ok retry(1,2)]
    let ?r = "(stats_upd (\<lambda>st. st\<lparr>blocks_bad := n\<rparr>) r1)\<lparr>r_inner := seek (s + 1) (r_inner r1)\<rparr>"
    have b: "block_at X (r_config r) (data (r_inner r)) s = None"
      using c(7) by (auto split: option.splits)
    have bb: "unat (blocks_bad (r_stats r1)) + unat (1 :: u64) < 2 ^ 64"
      using c(8) ok by (auto simp: scan_ok_def room_def)
    have n: "unat n = unat (blocks_bad (r_stats r)) + 1"
      using retry(4) stat_add_room [OF bb] unat_plus_room [OF bb] c(8) by auto
    have ok': "scan_ok origin ?r"
      using ok c(2-8) n by (auto simp: scan_ok_def room_def stats_upd_def seek_def same_file_def no_faults_def)
    have "length (data (r_inner ?r)) - pos (r_inner ?r) < length (data (r_inner r)) - pos (r_inner r)"
      using c(2-4) by (auto simp: seek_def same_file_def)
    from less.hyps [OF this ok'] show ?thesis
      using c(4-6,8) next_block_skip [OF c(1) b] retry(5)
      by (auto simp: seek_def same_file_def stats_upd_def scanned_def split: option.splits)
  qed
qed

section \<open>Reading a whole file\<close>

definition reader_ok :: "reader \<Rightarrow> bool" where
  "reader_ok r \<longleftrightarrow> scan_ok (pos (r_inner r)) r \<and>
     unat (records_ok (r_stats r)) + length (pending r) \<le> pos (r_inner r) * 2 ^ 32"

lemma block_at_count: "block_at X cfg bs q = Some (e, recs) \<Longrightarrow> length recs < 2 ^ 32"
  by (auto simp: block_at_def and_then_def dest: parse_records_count [simplified] split: sum.splits prod.splits)

lemma scan_next_block_spec:
  assumes "reader_ok r"
  shows "case next_block X (r_config r) (data (r_inner r)) (pos (r_inner r)) of
      None \<Rightarrow> \<exists>r'. scan_next_block X r = (Inr False, r') \<and>
        scanned r r' (length (data (r_inner r))) 0 (length (data (r_inner r)) - pos (r_inner r)) []
    | Some (q, e, recs) \<Rightarrow> \<exists>r'. scan_next_block X r = (Inr True, r') \<and>
        scanned r r' e 1 (q - pos (r_inner r)) recs \<and> reader_ok r'"
proof (cases "next_block X (r_config r) (data (r_inner r)) (pos (r_inner r))")
  case None
  then show ?thesis using assms scan_loop_spec [of "pos (r_inner r)" r X]
    by (simp add: scan_next_block_def reader_ok_def)
next
  case (Some t)
  then obtain q e recs where t: "t = (q, e, recs)" by (cases t) auto
  have "scan_ok (pos (r_inner r)) r" using assms by (simp add: reader_ok_def)
  from scan_loop_spec [OF this, of X] Some t obtain r' where
    r': "scan_next_block X r = (Inr True, r')" "scanned r r' e 1 (q - pos (r_inner r)) recs"
    by (auto simp: scan_next_block_def)
  note b = next_block_bounds [OF Some [unfolded t]]
  have "length recs < 2 ^ 32" using block_at_count [OF b(4)] .
  then have "reader_ok r'"
    using assms r'(2) b by (auto simp: reader_ok_def scan_ok_def scanned_def same_file_def no_faults_def)
  with r' Some t show ?thesis by auto
qed

lemma next_record_pop:
  assumes "reader_ok r" and "pending r = x # xs"
  shows "\<exists>n. next_record X r = (Inr (Some x), r\<lparr>pending := xs, r_stats := (r_stats r)\<lparr>records_ok := n\<rparr>\<rparr>) \<and>
    unat n = unat (records_ok (r_stats r)) + 1"
proof -
  have "pos (r_inner r) < 2 ^ 32" using assms by (simp add: reader_ok_def scan_ok_def)
  then have "unat (records_ok (r_stats r)) + unat (1 :: u64) < 2 ^ 64"
    using assms by (auto simp: reader_ok_def)
  from stat_add_room [OF this] unat_plus_room [OF this] assms(2) show ?thesis
    by (intro exI [of _ "records_ok (r_stats r) + 1"]) (simp add: next_record.simps [of X r] Let_def stats_upd_def)
qed

lemma read_records_drain:
  assumes "reader_ok r"
  shows "\<exists>n. read_records X r = apfst (map_sum id ((@) (pending r)))
           (read_records X (r\<lparr>pending := [], r_stats := (r_stats r)\<lparr>records_ok := n\<rparr>\<rparr>)) \<and>
         reader_ok (r\<lparr>pending := [], r_stats := (r_stats r)\<lparr>records_ok := n\<rparr>\<rparr>) \<and>
         unat n = unat (records_ok (r_stats r)) + length (pending r)"
  using assms
proof (induction "pending r" arbitrary: r)
  case Nil
  then have r: "r\<lparr>pending := [], r_stats := (r_stats r)\<lparr>records_ok := records_ok (r_stats r)\<rparr>\<rparr> = r"
    by (cases r) simp
  have id: "apfst (map_sum id ((@) [])) y = y" for y :: "(error + owned_record list) \<times> reader"
    by (cases y; cases "fst y") auto
  show ?case
    unfolding Nil(1) [symmetric]
    by (intro exI [of _ "records_ok (r_stats r)"])
      (use Nil(2) in \<open>simp only: r id list.size add_0_right simp_thms\<close>)
next
  case (Cons x xs)
  from next_record_pop [OF Cons(3) Cons(2) [symmetric]] obtain n where
    n: "next_record X r = (Inr (Some x), r\<lparr>pending := xs, r_stats := (r_stats r)\<lparr>records_ok := n\<rparr>\<rparr>)"
    "unat n = unat (records_ok (r_stats r)) + 1" by blast
  let ?r = "r\<lparr>pending := xs, r_stats := (r_stats r)\<lparr>records_ok := n\<rparr>\<rparr>"
  have "reader_ok ?r" using Cons(2,3) n(2) 
    by (auto simp: reader_ok_def scan_ok_def room_def simp flip: Cons(2))
  from Cons(1) [OF _ this] obtain m where
    m: "read_records X ?r = apfst (map_sum id ((@) xs)) (read_records X (?r\<lparr>pending := [], r_stats := (r_stats ?r)\<lparr>records_ok := m\<rparr>\<rparr>))"
    "reader_ok (?r\<lparr>pending := [], r_stats := (r_stats ?r)\<lparr>records_ok := m\<rparr>\<rparr>)"
    "unat m = unat n + length xs" by auto
  have "map_sum id ((#) x) (map_sum id ((@) xs) y) = map_sum id ((@) (x # xs)) y" for y :: "error + owned_record list"
    by (cases y) auto
  then show ?case
    using n m by (intro exI [of _ m]) (simp add: read_records.simps [of X r] apfst_def map_prod_def split_beta flip: Cons(2))
qed


definition block_records :: "(nat \<times> nat \<times> owned_record list) list \<Rightarrow> owned_record list" where
  "block_records bl = concat (map (\<lambda>(q, e, recs). recs) bl)"

definition block_span :: "(nat \<times> nat \<times> owned_record list) list \<Rightarrow> nat" where
  "block_span bl = sum_list (map (\<lambda>(q, e, recs). e - q) bl)"

lemma read_records_scan:
  assumes "reader_ok r" and "pending r = []"
  shows "case next_block X (r_config r) (data (r_inner r)) (pos (r_inner r)) of
      None \<Rightarrow> \<exists>r'. read_records X r = (Inr [], r') \<and>
        scanned r r' (length (data (r_inner r))) 0 (length (data (r_inner r)) - pos (r_inner r)) []
    | Some (q, e, recs) \<Rightarrow> \<exists>r'. read_records X r = read_records X r' \<and>
        scanned r r' e 1 (q - pos (r_inner r)) recs \<and> reader_ok r'"
proof (cases "next_block X (r_config r) (data (r_inner r)) (pos (r_inner r))")
  case None
  then show ?thesis using scan_next_block_spec [OF assms(1), of X] assms(2)
    by (auto simp: read_records.simps [of X r] next_record.simps [of X r])
next
  case (Some t)
  then obtain q e recs r' where t: "t = (q, e, recs)" "scan_next_block X r = (Inr True, r')"
    "scanned r r' e 1 (q - pos (r_inner r)) recs" "reader_ok r'"
    using scan_next_block_spec [OF assms(1), of X] by (cases t) auto
  then have "next_record X r = next_record X r'"
    using assms(2) by (simp add: next_record.simps [of X r])
  then have "read_records X r = read_records X r'"
    by (simp add: read_records.simps [of X r] read_records.simps [of X r'])
  with t Some show ?thesis by auto
qed

definition all_read ::
    "extern \<Rightarrow> reader \<Rightarrow> (nat \<times> nat \<times> owned_record list) list \<Rightarrow> reader \<Rightarrow> bool" where
  "all_read X r bl r' \<longleftrightarrow>
     read_records X r = (Inr (pending r @ block_records bl), r') \<and>
     unat (blocks_ok (r_stats r')) = unat (blocks_ok (r_stats r)) + length bl \<and>
     unat (records_ok (r_stats r')) = unat (records_ok (r_stats r)) + length (pending r @ block_records bl) \<and>
     unat (bytes_skipped (r_stats r')) + block_span bl =
       unat (bytes_skipped (r_stats r)) + (length (data (r_inner r)) - pos (r_inner r))"

lemma read_records_spec:
  assumes "reader_ok r"
  shows "\<exists>r'. all_read X r (blocks_from X (r_config r) (data (r_inner r)) (pos (r_inner r))) r'"
  using assms
proof (induction "length (data (r_inner r)) - pos (r_inner r)" arbitrary: r rule: less_induct)
  case less
  from read_records_drain [OF less.prems, of X] obtain n where
    n: "read_records X r = apfst (map_sum id ((@) (pending r)))
          (read_records X (r\<lparr>pending := [], r_stats := (r_stats r)\<lparr>records_ok := n\<rparr>\<rparr>))"
    "reader_ok (r\<lparr>pending := [], r_stats := (r_stats r)\<lparr>records_ok := n\<rparr>\<rparr>)"
    "unat n = unat (records_ok (r_stats r)) + length (pending r)" by blast
  let ?r = "r\<lparr>pending := [], r_stats := (r_stats r)\<lparr>records_ok := n\<rparr>\<rparr>"
  note sc = read_records_scan [OF n(2), of X]
  show ?case
  proof (cases "next_block X (r_config r) (data (r_inner r)) (pos (r_inner r))")
    case None
    then show ?thesis using sc n
      by (auto simp: all_read_def blocks_from.simps [of X "r_config r"] scanned_def block_records_def block_span_def)
  next
    case (Some t)
    then obtain q e recs r1 where t: "t = (q, e, recs)" "read_records X ?r = read_records X r1"
      "scanned ?r r1 e 1 (q - pos (r_inner r)) recs" "reader_ok r1"
      using sc by (cases t) auto
    note b = next_block_bounds [OF Some [unfolded t(1)]]
    have r1: "data (r_inner r1) = data (r_inner r)" "r_config r1 = r_config r" "pos (r_inner r1) = e"
      "pending r1 = recs"
      using t(3) by (auto simp: scanned_def same_file_def)
    have "length (data (r_inner r1)) - pos (r_inner r1) < length (data (r_inner r)) - pos (r_inner r)"
      using b r1 by auto
    from less.hyps [OF this t(4)] r1 obtain r' where
      r': "all_read X r1 (blocks_from X (r_config r) (data (r_inner r)) e) r'" by auto
    have "all_read X r ((q, e, recs) # blocks_from X (r_config r) (data (r_inner r)) e) r'"
      using r' n t(2,3) b r1 by (auto simp: all_read_def scanned_def block_records_def block_span_def)
    then show ?thesis using Some t(1) by (auto simp: blocks_from.simps [of X "r_config r" _ "pos (r_inner r)"])
  qed
qed

lemma reader_ok_new:
  assumes "first_unique (rc_sync_marker cfg)" and "length bs < 2 ^ 32"
  shows "reader_ok (reader_with_config (dev_of bs) cfg)"
  using assms by (simp add: reader_ok_def scan_ok_def reader_with_config_def dev_of_def no_faults_def room_def reader_stats_default_def)

lemma read_file_spec:
  assumes "first_unique (rc_sync_marker cfg)" and "length bs < 2 ^ 32"
  shows "\<exists>r'. read_records X (reader_with_config (dev_of bs) cfg) = (Inr (block_records (blocks_from X cfg bs 0)), r') \<and>
    unat (blocks_ok (r_stats r')) = length (blocks_from X cfg bs 0) \<and>
    unat (records_ok (r_stats r')) = length (block_records (blocks_from X cfg bs 0)) \<and>
    unat (bytes_skipped (r_stats r')) + block_span (blocks_from X cfg bs 0) = length bs"
  using read_records_spec [OF reader_ok_new [OF assms], of X]
  by (simp add: all_read_def reader_with_config_def dev_of_def reader_stats_default_def)

section \<open>What can stop a scan\<close>

lemma scan_loop_errors:
  "scan_loop X p r = (Inl e, r') \<Longrightarrow> (\<exists>io. e = Io io) \<or> (\<exists>f. e = NumericOverflow f)"
proof (induction "length (data (r_inner r)) - pos (r_inner r)" arbitrary: r rule: less_induct)
  case less
  have num: "stat_add f a b = Inl e \<Longrightarrow> \<exists>f. e = NumericOverflow f" for f a b
    by (auto simp: stat_add_def split: option.splits)
  show ?case
  proof (cases rule: scan_loop_cases [of r X p])
    case (find_err e' d)
    have "find_sync_loop m s k off d0 = (Inl e', d) \<Longrightarrow> \<exists>io. e' = Io io" for m s k off d0
      by (induction m s k off d0 rule: find_sync_loop.induct)
        (subst (asm) (3) find_sync_loop.simps, auto simp: Let_def split: sum.splits option.splits prod.splits if_splits)
    with find_err less.prems show ?thesis by (auto simp: find_next_sync_def)
  next
    case (eof d)
    then show ?thesis using less.prems num
      by (auto simp: end_of_input_def try_r_def Let_def split: sum.splits)
  next
    case (accept s d recs r1)
    then show ?thesis using less.prems num
      by (auto simp: accept_block_def try_r_def Let_def split: sum.splits)
  next
    case (stop s d e' e'' r1)
    then show ?thesis using less.prems num by (auto simp: is_hard_io_def split: error.splits)
  next
    case (retry s d e' r1 n)
    let ?r = "(stats_upd (\<lambda>st. st\<lparr>blocks_bad := n\<rparr>) r1)\<lparr>r_inner := seek (s + 1) (r_inner r1)\<rparr>"
    note fr = find_next_sync_progress [OF retry(1)] try_read_block_at_frame [OF retry(2)]
    have "length (data (r_inner ?r)) - pos (r_inner ?r) < length (data (r_inner r)) - pos (r_inner r)"
      using fr by (auto simp: same_file_def seek_def stats_upd_def)
    from less.hyps [OF this] less.prems retry(5) show ?thesis by simp
  qed
qed

lemma accepted_frame:
  assumes "read_frame X cfg s d = (Inr (h, e, c), d')"
  shows "slice s 8 (data d) = rc_sync_marker cfg"
    and "header_decode (slice (s + 8) 24 (data d)) = Inr h" and "40 \<le> unat (bh_header_len h)"
    and "unat (bh_compressed_len h) \<le> max_compressed_len cfg"
    and "unat (bh_uncompressed_len h) \<le> max_uncompressed_len cfg"
    and "bh_header_crc32c h = crc32c X (slice (s + 8) 20 (data d) @ slice (s + 32) (unat (bh_header_len h) - 24) (data d))"
    and "from_le (slice (s + 8 + unat (bh_header_len h) + unat (bh_compressed_len h)) 4 (data d))
      = crc32c X (slice (s + 8) (unat (bh_header_len h) + unat (bh_compressed_len h)) (data d))"
    and "c = slice (s + 8 + unat (bh_header_len h)) (unat (bh_compressed_len h)) (data d)"
proof -
  let ?hl = "unat (bh_header_len h)" and ?cl = "unat (bh_compressed_len h)"
  have f: "slice s 8 (data d) = rc_sync_marker cfg" "header_decode (slice (s + 8) 24 (data d)) = Inr h"
      "40 \<le> ?hl" "?cl \<le> max_compressed_len cfg" "unat (bh_uncompressed_len h) \<le> max_uncompressed_len cfg"
      "bh_header_crc32c h = compute_header_crc X h (slice (s + 32) (?hl - 24) (data d))"
      "c = slice (s + 8 + ?hl) ?cl (data d)"
      "from_le (slice (s + 8 + ?hl + ?cl) 4 (data d))
        = crc32c X (slice (s + 8) 24 (data d) @ slice (s + 32) (?hl - 24) (data d) @ c)"
    using assms unfolding read_frame_def Let_def
    by (auto simp: try_Inr seek_def read_exact_Inr_iff validate_length_def add.assoc split: if_splits)
  show "slice s 8 (data d) = rc_sync_marker cfg" "header_decode (slice (s + 8) 24 (data d)) = Inr h" "40 \<le> ?hl"
    "?cl \<le> max_compressed_len cfg" "unat (bh_uncompressed_len h) \<le> max_uncompressed_len cfg"
    "c = slice (s + 8 + ?hl) ?cl (data d)" by fact+
  have "encode_without_crc h = slice (s + 8) 20 (data d)"
    using encode_without_crc_decode [OF f(2)] by (simp add: slice_def)
  then show "bh_header_crc32c h = crc32c X (slice (s + 8) 20 (data d) @ slice (s + 32) (?hl - 24) (data d))"
    using f(6) by (simp add: compute_header_crc_def)
  have "slice (s + 8) 24 (data d) @ slice (s + 8 + 24) (?hl - 24) (data d) @ slice (s + 8 + 24 + (?hl - 24)) ?cl (data d)
      = slice (s + 8) (24 + ((?hl - 24) + ?cl)) (data d)"
    by (simp only: slice_slice)
  then show "from_le (slice (s + 8 + ?hl + ?cl) 4 (data d)) = crc32c X (slice (s + 8) (?hl + ?cl) (data d))"
    using f(3,7,8) by (simp add: add.assoc)
qed

lemma block_at_marker:
  assumes "block_at X cfg bs q = Some x"
  shows "slice q 8 bs = rc_sync_marker cfg" "q + 8 \<le> length bs"
  using assms
  by (auto simp: block_at_def read_frame_def try_from_def seek_def dev_of_def read_exact_def
      split: prod.splits sum.splits if_splits option.splits)

end
