(* ===== verification/Lj_Roundtrip.thy ===== *)
theory Lj_Roundtrip imports Lj_Scan
begin

text \<open>
  The writer of \<^verbatim>\<open>src/writer.rs\<close> against the reader of \<^verbatim>\<open>src/reader.rs\<close>: the
  reader's decoding of a record, a block and a file is the inverse of the writer's encoding. The theory
  also shows that pushing records in order to a sink that accepts every write does not fail, inside the
  locale \<open>reliable_sink\<close>, which extends the sink interface of the writer.
\<close>

section \<open>Records\<close>

lemma decode_varint_at:
  "bs = pre @ uvarint v @ rest \<Longrightarrow> c = length pre \<Longrightarrow> decode_varint bs c = (Inr v, c + length (uvarint v))"
  using decode_varint_uvarint by simp

lemma parse_record_bytes:
  fixes r :: owned_record
  assumes le: "b \<le> seq r" "t \<le> ts_unix_ns r"
    and len: "length (pre @ record_bytes b t r @ post) < 2 ^ 64"
  shows "parse_record (pre @ record_bytes b t r @ post) \<lparr>base_seq = b, base_ts_unix_ns = t\<rparr> (length pre)
    = (Inr r, length pre + length (record_bytes b t r))"
proof -
  let ?ty = "record_type_u8 (record_type r)" and ?s = "uvarint (seq r - b)" and ?t = "uvarint (ts_unix_ns r - t)"
    and ?l = "uvarint (of_nat (length (payload r)))"
  define bs where "bs = pre @ record_bytes b t r @ post"
  have bs: "bs = pre @ [?ty] @ ?s @ ?t @ ?l @ payload r @ post"
    by (simp add: bs_def record_bytes_def)
  have d: "decode_varint bs (length pre + 1) = (Inr (seq r - b), length pre + 1 + length ?s)"
    "decode_varint bs (length pre + 1 + length ?s) = (Inr (ts_unix_ns r - t), length pre + 1 + length ?s + length ?t)"
    "decode_varint bs (length pre + 1 + length ?s + length ?t)
      = (Inr (of_nat (length (payload r))), length pre + 1 + length ?s + length ?t + length ?l)"
    using decode_varint_at [of bs "pre @ [?ty]" "seq r - b" "?t @ ?l @ payload r @ post"]
      decode_varint_at [of bs "pre @ [?ty] @ ?s" "ts_unix_ns r - t" "?l @ payload r @ post"]
      decode_varint_at [of bs "pre @ [?ty] @ ?s @ ?t" "of_nat (length (payload r))" "payload r @ post"]
    by (simp_all add: bs add.assoc)
  have ca: "checked_add b (seq r - b) = Some (seq r)" "checked_add t (ts_unix_ns r - t) = Some (ts_unix_ns r)"
    using le by (auto intro!: checked_add_sub simp: num_simps)
  have n: "unat (of_nat (length (payload r)) :: u64) = length (payload r)"
    using len by (simp add: record_bytes_def unat_of_nat)
  have "slice (length pre + 1 + length ?s + length ?t + length ?l) (length (payload r)) bs = payload r"
    by (simp add: bs slice_def)
  moreover have "usize_checked_add (length pre + 1 + length ?s + length ?t + length ?l) (length (payload r))
      = Some (length pre + length (record_bytes b t r))"
    using len by (simp add: usize_checked_add_def usize_bound_def record_bytes_def)
  moreover have "length pre + length (record_bytes b t r) \<le> length bs" by (simp add: bs_def)
  moreover have "bs ! length pre = ?ty" "length pre < length bs" by (simp_all add: bs)
  ultimately show ?thesis
    unfolding bs_def [symmetric]
    using d n ca by (simp add: parse_record_def)
qed

lemma parse_records_loop_bytes:
  assumes "deltas_ok b t rs" and "length (pre @ records_bytes b t rs) < 2 ^ 64"
  shows "parse_records_loop (length rs) (pre @ records_bytes b t rs) \<lparr>base_seq = b, base_ts_unix_ns = t\<rparr>
    (length pre) acc = Inr (acc @ rs)"
  using assms
proof (induction rs arbitrary: pre acc)
  case (Cons r rs)
  have p: "parse_record (pre @ record_bytes b t r @ records_bytes b t rs) \<lparr>base_seq = b, base_ts_unix_ns = t\<rparr> (length pre)
      = (Inr r, length pre + length (record_bytes b t r))"
    using Cons.prems by (intro parse_record_bytes) (auto simp: deltas_ok_def)
  have "parse_records_loop (length rs) ((pre @ record_bytes b t r) @ records_bytes b t rs)
      \<lparr>base_seq = b, base_ts_unix_ns = t\<rparr> (length (pre @ record_bytes b t r)) (acc @ [r]) = Inr ((acc @ [r]) @ rs)"
    using Cons.prems by (intro Cons.IH) (auto simp: deltas_ok_def)
  then show ?case using p by simp
qed simp

lemma parse_records_bytes:
  assumes "deltas_ok b t rs" and "length (records_bytes b t rs) < 2 ^ 64" and "length rs < 2 ^ 32"
  shows "parse_records (records_bytes b t rs) (of_nat (length rs)) \<lparr>base_seq = b, base_ts_unix_ns = t\<rparr> = Inr rs"
  using parse_records_loop_bytes [OF assms(1), of "[]" "[]"] assms(2,3)
  by (simp add: parse_records_def unat_of_nat)

section \<open>Blocks\<close>

lemma read_exact_chunk:
  assumes "no_faults d" and "data d = pre @ chunk @ post" and "pos d = length pre" and "n = length chunk"
  shows "read_exact n d = (Inr chunk, d\<lparr>pos := length pre + n\<rparr>)"
  using assms by (simp add: read_exact_def no_faults_def slice_def)


lemma read_frame_image:
  assumes nf: "no_faults d" and img: "img = block_image X wc b t rc ulen cm"
    and data: "data d = pre @ img @ post"
    and marker: "length (wc_sync_marker wc) = 8" "rc_sync_marker cfg = wc_sync_marker wc"
    and len: "length cm < 2 ^ 32" "ulen < 2 ^ 32" "length cm \<le> max_compressed_len cfg" "ulen \<le> max_uncompressed_len cfg"
  shows "\<exists>h. read_frame X cfg (length pre) d
      = (Inr (h, \<lparr>base_seq = b, base_ts_unix_ns = t\<rparr>, cm), d\<lparr>pos := length pre + length img\<rparr>) \<and>
    bh_codec h = wc_codec wc \<and> unat (bh_uncompressed_len h) = ulen \<and> bh_record_count h = rc"
proof -
  let ?ext = "\<lparr>base_seq = b, base_ts_unix_ns = t\<rparr>" and ?m = "wc_sync_marker wc"
  let ?E = "ext_encode ?ext"
  define h where "h = block_header_for X (wc_codec wc) ulen cm rc ?E"
  let ?H = "header_encode h"
  let ?C = "u32_le (crc32c X (?H @ ?E @ cm))"
  have h: "bh_version h = FORMAT_VERSION" "bh_codec h = wc_codec wc" "unat (bh_header_len h) = 40"
    "unat (bh_uncompressed_len h) = ulen" "unat (bh_compressed_len h) = length cm" "bh_record_count h = rc"
    "bh_header_crc32c h = compute_header_crc X h ?E"
    using len by (simp_all add: h_def block_header_for_def Let_def unat_of_nat compute_header_crc_def encode_without_crc_def)
  have im: "img = ?m @ ?H @ ?E @ cm @ ?C"
    by (simp add: img block_image_def Let_def h_def)
  have nf': "no_faults (d\<lparr>pos := p\<rparr>)" for p using nf by (simp add: no_faults_def)
  let ?p = "length pre"
  have r1: "read_exact 8 (seek ?p d) = (Inr ?m, d\<lparr>pos := ?p + 8\<rparr>)"
    using read_exact_chunk [OF nf' [of ?p], of pre ?m "?H @ ?E @ cm @ ?C @ post" 8] data im marker by (simp add: seek_def)
  have r2: "read_exact 24 (d\<lparr>pos := ?p + 8\<rparr>) = (Inr ?H, d\<lparr>pos := ?p + 32\<rparr>)"
    using read_exact_chunk [OF nf' [of "?p + 8"], of "pre @ ?m" ?H "?E @ cm @ ?C @ post" 24] data im marker by simp
  have r3: "read_exact 16 (d\<lparr>pos := ?p + 32\<rparr>) = (Inr ?E, d\<lparr>pos := ?p + 48\<rparr>)"
    using read_exact_chunk [OF nf' [of "?p + 32"], of "pre @ ?m @ ?H" ?E "cm @ ?C @ post" 16] data im marker by simp
  have r4: "read_exact (length cm) (d\<lparr>pos := ?p + 48\<rparr>) = (Inr cm, d\<lparr>pos := ?p + 48 + length cm\<rparr>)"
    using read_exact_chunk [OF nf' [of "?p + 48"], of "pre @ ?m @ ?H @ ?E" cm "?C @ post" "length cm"] data im marker by simp
  have r5: "read_exact 4 (d\<lparr>pos := ?p + 48 + length cm\<rparr>) = (Inr ?C, d\<lparr>pos := ?p + length img\<rparr>)"
    using read_exact_chunk [OF nf' [of "?p + 48 + length cm"], of "pre @ ?m @ ?H @ ?E @ cm" ?C post 4] data im marker
    by (simp add: add.assoc)
  have dec: "header_decode ?H = Inr h" "ext_decode (take 16 ?E) = Inr ?ext"
    using header_decode_encode [OF h(1), of "[]"] ext_decode_encode [of ?ext "[]"] by simp_all
  have "read_frame X cfg ?p d = (Inr (h, ?ext, cm), d\<lparr>pos := ?p + length img\<rparr>)"
    using r1 r2 r3 r4 r5 dec h marker len
    by (simp add: read_frame_def Let_def validate_length_def le_simps)
  then show ?thesis using h by blast
qed

lemma block_at_image:
  assumes cod: "codecs_ok X" and blk: "is_block X wc L rs img" and bs: "bs = pre @ img @ post"
    and marker: "length (wc_sync_marker wc) = 8" "rc_sync_marker cfg = wc_sync_marker wc"
    and lim: "L \<le> max_uncompressed_len cfg" "length img \<le> 52 + max_compressed_len cfg"
  shows "block_at X cfg bs (length pre) = Some (length pre + length img, rs)"
proof -
  from blk obtain b t cm where
    b: "deltas_ok b t rs" "length rs < 2 ^ 32" "length (records_bytes b t rs) < 2 ^ 32"
      "length (records_bytes b t rs) \<le> L" "compress X (wc_codec wc) (records_bytes b t rs) = Inr cm"
      "length cm < 2 ^ 32"
    and img: "img = block_image X wc b t (of_nat (length rs)) (length (records_bytes b t rs)) cm"
    by (auto simp: is_block_def)
  have "length img = 52 + length cm" using marker by (simp add: img block_image_def Let_def)
  with lim b obtain h where "read_frame X cfg (length pre) (dev_of bs)
      = (Inr (h, \<lparr>base_seq = b, base_ts_unix_ns = t\<rparr>, cm), (dev_of bs)\<lparr>pos := length pre + length img\<rparr>)"
    and "bh_codec h = wc_codec wc" "unat (bh_uncompressed_len h) = length (records_bytes b t rs)"
      "bh_record_count h = of_nat (length rs)"
    using read_frame_image [OF _ img _ marker b(6,3), of "dev_of bs" pre post] bs
    by (auto simp: no_faults_def dev_of_def)
  moreover have "parse_records (records_bytes b t rs) (of_nat (length rs)) \<lparr>base_seq = b, base_ts_unix_ns = t\<rparr> = Inr rs"
    using parse_records_bytes b by simp
  ultimately show ?thesis
    using decompress_compress [OF cod b(5)] by (simp add: block_at_def)
qed


section \<open>Files\<close>

lemma padding_zeros: "padding wc n = replicate (length (padding wc n)) 0"
  by (simp add: padding_def Let_def)

lemma padding_aligned [simp]: "block_alignment wc = 0 \<Longrightarrow> padding wc n = []"
  by (simp add: padding_def)

lemma no_marker_in_zeros:
  assumes "bs = pre @ replicate k 0 @ post" and "length pre \<le> q" and "q < length pre + k"
    and "m \<noteq> []" and "hd m \<noteq> 0"
  shows "\<not> occurs m bs q"
proof
  assume "occurs m bs q"
  then have "bs ! q = hd m" using occurs_nth [of m bs q 0] assms(4) by (simp add: hd_conv_nth)
  moreover have "bs ! q = 0" using assms(1-3) by (auto simp: nth_append)
  ultimately show False using assms(5) by simp
qed

text \<open>What the reader must agree on with the writer: the marker, and limits that admit every block.\<close>

definition compatible :: "writer_config \<Rightarrow> nat \<Rightarrow> reader_config \<Rightarrow> bool" where
  "compatible wc L cfg \<longleftrightarrow>
     rc_sync_marker cfg = wc_sync_marker wc \<and> length (wc_sync_marker wc) = 8 \<and>
     first_unique (wc_sync_marker wc) \<and> (block_alignment wc = 0 \<or> hd (wc_sync_marker wc) \<noteq> 0) \<and>
     L \<le> max_uncompressed_len cfg"

lemma next_block_file:
  assumes cod: "codecs_ok X" and com: "compatible wc L cfg" and k: "k = 0 \<or> block_alignment wc \<noteq> 0"
    and blk: "is_block X wc L rs img" and lim: "length img \<le> 52 + max_compressed_len cfg"
    and bs: "bs = pre @ replicate k 0 @ img @ post"
  shows "next_block X cfg bs (length pre) = Some (length pre + k, length pre + k + length img, rs)"
proof -
  have b: "block_at X cfg bs (length pre + k) = Some (length pre + k + length img, rs)"
    using block_at_image [OF cod blk, of bs "pre @ replicate k 0" post cfg] com lim bs
    by (simp add: compatible_def)
  have len: "length img \<ge> 8" "take 8 img = wc_sync_marker wc"
    using blk com by (auto simp: is_block_def block_image_def Let_def compatible_def)
  have "occurs (rc_sync_marker cfg) bs (length pre + k)"
    using len com by (simp add: occurs_def slice_def bs compatible_def)
  moreover have "\<not> occurs (rc_sync_marker cfg) bs q" if "length pre \<le> q" "q < length pre + k" for q
    using no_marker_in_zeros [OF bs that, of "rc_sync_marker cfg"] com k that
    by (auto simp: compatible_def first_unique_def)
  ultimately show ?thesis
    using b len by (auto simp: next_block_Some_iff bs)
qed

lemma blocks_from_jump:
  assumes "p \<le> p'" and "\<And>q. p \<le> q \<Longrightarrow> q < p' \<Longrightarrow> occurs (rc_sync_marker cfg) bs q \<Longrightarrow> block_at X cfg bs q = None"
  shows "blocks_from X cfg bs p = blocks_from X cfg bs p'"
proof -
  let ?P = "\<lambda>q. occurs (rc_sync_marker cfg) bs q \<and> block_at X cfg bs q \<noteq> None"
  have "find ?P [p..<length bs] = find ?P [p'..<length bs]"
  proof (cases "p' \<le> length bs")
    case True
    then have "[p..<length bs] = [p..<p'] @ [p'..<length bs]"
      using assms(1) upt_add_eq_append [of p p' "length bs - p'"] by simp
    then show ?thesis using assms(2) by (simp only:) (rule find_append_none, auto)
  next
    case False
    then show ?thesis using assms(2) by (simp add: find_None_iff)
  qed
  then have "next_block X cfg bs p = next_block X cfg bs p'" by (simp add: next_block_def)
  then show ?thesis by (simp add: blocks_from.simps [of X cfg bs p] blocks_from.simps [of X cfg bs p'])
qed

lemma blocks_from_end: "blocks_from X cfg bs (length bs) = []"
  by (simp add: blocks_from.simps [of X cfg bs "length bs"] next_block_def)

lemma blocks_from_zeros:
  assumes com: "compatible wc L cfg" and k: "k = 0 \<or> block_alignment wc \<noteq> 0"
    and bs: "bs = pre @ replicate k 0 @ post"
  shows "blocks_from X cfg bs (length pre) = blocks_from X cfg bs (length pre + k)"
  using no_marker_in_zeros [OF bs, of _ "rc_sync_marker cfg"] com k
  by (intro blocks_from_jump) (auto simp: compatible_def first_unique_def)

lemma blocks_from_file:
  assumes cod: "codecs_ok X" and com: "compatible wc L cfg"
  shows "list_all2 (is_block X wc L) rss imgs \<Longrightarrow> (\<forall>img\<in>set imgs. length img \<le> 52 + max_compressed_len cfg)
    \<Longrightarrow> k = 0 \<or> block_alignment wc \<noteq> 0
    \<Longrightarrow> bs = pre @ replicate k 0 @ file_image wc imgs @ tail
    \<Longrightarrow> \<exists>bl. blocks_from X cfg bs (length pre)
               = bl @ blocks_from X cfg bs (length pre + k + length (file_image wc imgs)) \<and>
             block_records bl = concat rss \<and> length bl = length rss \<and> block_span bl = sum_list (map length imgs)"
proof (induction rss imgs arbitrary: pre k rule: list_all2_induct)
  case Nil
  then show ?case using blocks_from_zeros [OF com Nil.prems(2), of bs pre tail]
    by (intro exI [of _ "[]"]) (simp add: file_image_def block_records_def block_span_def)
next
  case (Cons rs rss img imgs)
  let ?pad = "padding wc (length img)" and ?pre = "pre @ replicate k 0 @ img"
  have bs: "bs = pre @ replicate k 0 @ img @ ?pad @ file_image wc imgs @ tail"
    using Cons.prems by (simp add: file_image_def)
  have nb: "next_block X cfg bs (length pre) = Some (length pre + k, length ?pre, rs)"
    using next_block_file [OF cod com _ Cons.hyps(1) _ bs] Cons.prems by simp
  have bs': "bs = ?pre @ replicate (length ?pad) 0 @ file_image wc imgs @ tail"
    using padding_zeros [of wc "length img"] by (simp add: bs)
  have pad: "length ?pad = 0 \<or> block_alignment wc \<noteq> 0" by (cases "block_alignment wc = 0") simp_all
  from Cons.IH [OF _ pad bs'] Cons.prems(1) obtain bl where
    bl: "blocks_from X cfg bs (length ?pre)
          = bl @ blocks_from X cfg bs (length ?pre + length ?pad + length (file_image wc imgs))"
      "block_records bl = concat rss" "length bl = length rss" "block_span bl = sum_list (map length imgs)"
    by auto
  have "length pre + k + length (file_image wc (img # imgs)) = length ?pre + length ?pad + length (file_image wc imgs)"
    by (simp add: file_image_def)
  moreover have "length ?pre - (length pre + k) = length img" by simp
  ultimately show ?case using nb bl
    by (intro exI [of _ "(length pre + k, length ?pre, rs) # bl"])
      (simp add: blocks_from.simps [of X cfg bs "length pre"] block_records_def block_span_def del: length_append)
qed

section \<open>Writing never fails\<close>

text \<open>A writer that can go on: a buffer of at most \<open>L\<close> bytes that has a base and counts no more records
  than it has bytes.\<close>

definition ready :: "nat \<Rightarrow> 'w writer \<Rightarrow> bool" where
  "ready L w \<longleftrightarrow> length (payload_buf w) \<le> L \<and> unat (record_count w) \<le> length (payload_buf w) \<and>
     (payload_buf w \<noteq> [] \<longrightarrow> block_base_seq w \<noteq> None \<and> block_base_ts_unix_ns w \<noteq> None)"

definition bases_le :: "'w writer \<Rightarrow> owned_record \<Rightarrow> bool" where
  "bases_le w r \<longleftrightarrow> (case (block_base_seq w, block_base_ts_unix_ns w) of
     (Some b, Some t) \<Rightarrow> b \<le> seq r \<and> t \<le> ts_unix_ns r | _ \<Rightarrow> True)"

definition record_le :: "owned_record \<Rightarrow> owned_record \<Rightarrow> bool" where
  "record_le r r' \<longleftrightarrow> seq r \<le> seq r' \<and> ts_unix_ns r \<le> ts_unix_ns r'"

definition codec_total :: "extern \<Rightarrow> codec \<Rightarrow> nat \<Rightarrow> nat \<Rightarrow> bool" where
  "codec_total X c L M \<longleftrightarrow> (\<forall>x. length x \<le> L \<longrightarrow> (\<exists>y. compress X c x = Inr y \<and> length y \<le> M))"

lemma bases_le_trans: "bases_le w r \<Longrightarrow> record_le r r' \<Longrightarrow> bases_le w r'"
  by (auto simp: bases_le_def record_le_def split: option.splits)

lemma bases_le_open:
  assumes "bases_le w r" and "open_block (seq r) (ts_unix_ns r) (w\<lparr>encoded_record_buf := e\<rparr>) = (w1, b, t)"
  shows "b \<le> seq r" "t \<le> ts_unix_ns r"
  using assms by (auto simp: bases_le_def open_block_def split: option.splits)

locale reliable_sink = byte_sink +
  assumes write_total: "\<exists>s'. write_all bs s = (Inr (), s')"
begin

lemma flush_block_total:
  assumes "ready L w" and "L < 2 ^ 32" and "codec_total X (wc_codec (config w)) L M" and "M < 2 ^ 32"
  shows "\<exists>w'. flush_block X write_all w = (Inr (), w') \<and> payload_buf w' = [] \<and> record_count w' = 0 \<and>
    config w' = config w \<and> (\<forall>r. bases_le w r \<longrightarrow> bases_le w' r)"
proof (cases "payload_buf w = []")
  case True
  then show ?thesis using assms(1) by (simp add: flush_block_def ready_def unat_eq_0)
next
  case False
  then obtain b t where bt: "block_base_seq w = Some b" "block_base_ts_unix_ns w = Some t"
    using assms(1) by (auto simp: ready_def)
  obtain y where y: "compress X (wc_codec (config w)) (payload_buf w) = Inr y" "length y \<le> M"
    using assms(1,3) by (auto simp: codec_total_def ready_def)
  let ?block = "block_image X (config w) b t (record_count w) (length (payload_buf w)) y"
  obtain s1 where s1: "write_all ?block (inner w) = (Inr (), s1)" using write_total by blast
  obtain s2 where s2: "write_all (padding (config w) (length ?block)) s1 = (Inr (), s2)"
    using write_total by blast
  show ?thesis
    using False bt y s1 s2 assms by (simp add: flush_block_def Let_def reset_block_state_def bases_le_def ready_def)
qed

lemma push_append_total:
  assumes "unat (record_count w) \<le> length (payload_buf w)" and "encoded_record_buf w \<noteq> []"
    and "length (payload_buf w) + length (encoded_record_buf w) \<le> L" and L: "L < 2 ^ 32"
    and "block_base_seq w = Some b" "block_base_ts_unix_ns w = Some t" "b \<le> seq r" "t \<le> ts_unix_ns r"
    and C: "codec_total X (wc_codec (config w)) L M" "M < 2 ^ 32"
  shows "\<exists>w'. push_append X write_all w = (Inr (), w') \<and> ready L w' \<and> config w' = config w \<and> bases_le w' r"
proof -
  let ?w = "w\<lparr>payload_buf := payload_buf w @ encoded_record_buf w, record_count := record_count w + 1\<rparr>"
  have l: "0 < length (encoded_record_buf w)" using assms(2) by simp
  have rc: "unat (record_count w) + 1 < 2 ^ 32"
    using assms(1,3) L l by linarith
  then have rc': "unat (record_count w + 1) = unat (record_count w) + 1"
    by (simp add: unat_word_ariths)
  have "Suc (unat (record_count w)) \<le> length (payload_buf w) + length (encoded_record_buf w)"
    using assms(1) l by linarith
  then have ready: "ready L ?w" using assms rc' by (simp add: ready_def)
  have bl: "bases_le ?w r" using assms by (simp add: bases_le_def)
  have pa: "push_append X write_all w =
      (if length (payload_buf ?w) \<ge> block_target_size (config w) then flush_block X write_all ?w else (Inr (), ?w))"
    using rc by (simp add: push_append_def checked_add_def Let_def)
  show ?thesis
  proof (cases "length (payload_buf ?w) \<ge> block_target_size (config w)")
    case True
    with pa flush_block_total [OF ready L, of X M] C bl show ?thesis by (auto simp: ready_def)
  next
    case False
    with pa ready bl show ?thesis by simp
  qed
qed

lemma push_total:
  assumes ready: "ready L w" and bl: "bases_le w r" and L: "L < 2 ^ 32" "31 + length (payload r) \<le> L"
    and target: "block_target_size (config w) \<le> L"
    and C: "codec_total X (wc_codec (config w)) L M" "M < 2 ^ 32"
  shows "\<exists>w'. push X write_all (record_type r) (seq r) (ts_unix_ns r) (payload r) w = (Inr (), w') \<and>
    ready L w' \<and> config w' = config w \<and> bases_le w' r"
proof -
  obtain w1 b t where op: "open_block (seq r) (ts_unix_ns r) (w\<lparr>encoded_record_buf := []\<rparr>) = (w1, b, t)"
    by (metis surj_pair)
  note f = open_block_frame [OF op] and le = bases_le_open [OF bl op]
  let ?w2 = "w1\<lparr>encoded_record_buf := record_bytes b t r\<rparr>"
  have lr: "length (record_bytes b t r) \<le> L" "length (record_bytes (seq r) (ts_unix_ns r) r) \<le> L"
    using length_record_bytes [of b t r] length_record_bytes [of "seq r" "ts_unix_ns r" r] L by linarith+
  have enc: "encode_record (record_type r) (seq r - b) (ts_unix_ns r - t) (payload r) = Inr (record_bytes b t r)"
    "encode_record (record_type r) 0 0 (payload r) = Inr (record_bytes (seq r) (ts_unix_ns r) r)"
    using L by (simp_all add: encode_record_eq record_bytes_def)
  have sub: "checked_sub (seq r) b = Some (seq r - b)" "checked_sub (ts_unix_ns r) t = Some (ts_unix_ns r - t)"
    using le by (simp_all add: num_simps)
  have proj: "usize_checked_add (length (payload_buf w1)) (length (record_bytes b t r))
      = Some (length (payload_buf w1) + length (record_bytes b t r))"
    using ready f lr L by (simp add: usize_checked_add_def usize_bound_def ready_def)
  have r2: "ready L ?w2" using ready f by (simp add: ready_def)
  show ?thesis
  proof (cases "must_flush_first b t r w1")
    case True
    obtain w3 where w3: "flush_block X write_all ?w2 = (Inr (), w3)" "payload_buf w3 = []" "record_count w3 = 0"
        "config w3 = config w"
      using flush_block_total [OF r2 L(1), of X M] C f by auto
    obtain w' where w': "push_append X write_all (rebase r w3) = (Inr (), w')" "ready L w'"
        "config w' = config (rebase r w3)" "bases_le w' r"
      using push_append_total [of "rebase r w3" L "seq r" "ts_unix_ns r" r X M] w3 lr L C by (auto simp: rebase_def)
    show ?thesis
      using True op sub enc proj w3(1,4) w' by (simp add: push_def must_flush_first_def Let_def rebase_def)
  next
    case False
    have "length (payload_buf w1) + length (record_bytes b t r) \<le> L"
      using False lr target f by (auto simp: must_flush_first_def)
    then obtain w' where w': "push_append X write_all ?w2 = (Inr (), w')" "ready L w'"
        "config w' = config ?w2" "bases_le w' r"
      using push_append_total [of ?w2 L b t r X M] ready f L C le by (auto simp: ready_def)
    show ?thesis
      using False op sub enc proj w' f by (auto simp: push_def must_flush_first_def Let_def)
  qed
qed

end

interpretation vecr: reliable_sink vec_write_all id
  by unfold_locales (auto simp: vec_write_all_def)

section \<open>Writing a log and reading it back\<close>

text \<open>The two client loops: push every record and close the writer.\<close>

primrec push_all :: "extern \<Rightarrow> 'w write_all \<Rightarrow> owned_record list \<Rightarrow> 'w writer \<Rightarrow> (error + unit) \<times> 'w writer" where
  "push_all X write_all [] w = (Inr (), w)"
| "push_all X write_all (r # rs) w =
     try_st (push X write_all (record_type r) (seq r) (ts_unix_ns r) (payload r) w)
       (\<lambda>_ w. push_all X write_all rs w)"

definition write_log :: "extern \<Rightarrow> writer_config \<Rightarrow> owned_record list \<Rightarrow> error + bytes" where
  "write_log X cfg rs =
     (case push_all X vec_write_all rs (writer_with_config [] cfg) of
        (Inl e, _) \<Rightarrow> Inl e
      | (Inr _, w) \<Rightarrow> into_inner X vec_write_all w)"

context byte_sink
begin

lemma push_all_log:
  assumes "writer_log X L contents c0 w rs0" and "block_target_size (config w) \<le> L"
    and "\<forall>r\<in>set rs. 31 + length (payload r) \<le> L" and "push_all X write_all rs w = (Inr u, w')"
  shows "writer_log X L contents c0 w' (rs0 @ rs) \<and> config w' = config w"
  using assms
proof (induction rs arbitrary: w rs0)
  case (Cons r rs)
  from Cons.prems(4) obtain v w1 where
    p: "push X write_all (record_type r) (seq r) (ts_unix_ns r) (payload r) w = (Inr v, w1)"
    "push_all X write_all rs w1 = (Inr u, w')" by (auto simp: try_Inr)
  have w1: "writer_log X L contents c0 w1 (rs0 @ [r]) \<and> config w1 = config w"
    by (rule push_log [OF Cons.prems(1,2) _ p(1)]) (use Cons.prems(3) in simp)
  show ?case using Cons.IH [of w1 "rs0 @ [r]"] w1 p(2) Cons.prems by simp
qed simp

end

context reliable_sink
begin

lemma push_all_total:
  assumes "ready L w" and "\<forall>r\<in>set rs. bases_le w r \<and> 31 + length (payload r) \<le> L" and "sorted_wrt record_le rs"
    and "L < 2 ^ 32" and "block_target_size (config w) \<le> L"
    and "codec_total X (wc_codec (config w)) L M" and "M < 2 ^ 32"
  shows "\<exists>w'. push_all X write_all rs w = (Inr (), w') \<and> ready L w' \<and> config w' = config w"
  using assms
proof (induction rs arbitrary: w)
  case (Cons r rs)
  then obtain w1 where w1: "push X write_all (record_type r) (seq r) (ts_unix_ns r) (payload r) w = (Inr (), w1)"
      "ready L w1" "config w1 = config w" "bases_le w1 r"
    using push_total [of L w r X M] by auto
  have "\<forall>r'\<in>set rs. bases_le w1 r'" using Cons.prems(3) w1(4) by (auto intro: bases_le_trans)
  then show ?case using Cons.IH [OF w1(2)] Cons.prems w1 by auto
qed simp

end

lemma write_log_log:
  assumes "write_log X wc rs = Inr out" and "block_target_size wc \<le> L"
    and "\<forall>r\<in>set rs. 31 + length (payload r) \<le> L"
  shows "\<exists>rss. log_file X wc L rss out \<and> concat rss = rs"
proof -
  let ?w = "writer_with_config [] wc"
  from assms(1) obtain u v w w' where
    w: "push_all X vec_write_all rs ?w = (Inr u, w)" "flush_block X vec_write_all w = (Inr v, w')" "out = inner w'"
    by (auto simp: write_log_def into_inner_def split: prod.splits sum.splits)
  have wl: "writer_log X L id [] w ([] @ rs) \<and> config w = wc"
    using vec.push_all_log [OF writer_log_new [OF refl], where rs = rs, OF _ _ w(1)] assms
    by (simp add: writer_with_config_def)
  have "writer_log X L id [] w' rs \<and> holds L w' [] \<and> config w' = wc"
    using vec.flush_block_log [OF conjunct1 [OF wl] w(2)] wl by simp
  then show ?thesis using w(3) by (auto simp: writer_log_def holds_def split: if_splits)
qed

lemma write_log_total:
  assumes "codec_total X (wc_codec wc) L M" and "L < 2 ^ 32" and "M < 2 ^ 32" and "block_target_size wc \<le> L"
    and "\<forall>r\<in>set rs. 31 + length (payload r) \<le> L" and "sorted_wrt record_le rs"
  shows "\<exists>out. write_log X wc rs = Inr out"
proof -
  let ?w = "writer_with_config [] wc"
  have "ready L ?w" "bases_le ?w r" for r by (simp_all add: writer_with_config_def ready_def bases_le_def)
  then obtain w where w: "push_all X vec_write_all rs ?w = (Inr (), w)" "ready L w" "config w = wc"
    using vecr.push_all_total [of L ?w rs X M] assms by (auto simp: writer_with_config_def)
  then obtain w' where w': "flush_block X vec_write_all w = (Inr (), w')"
    using vecr.flush_block_total [OF w(2) assms(2), of X M] assms by auto
  then show ?thesis using w by (simp add: write_log_def into_inner_def)
qed

lemma is_block_length:
  assumes "is_block X wc L rs img" and "codec_total X (wc_codec wc) L M" and "length (wc_sync_marker wc) = 8"
  shows "length img \<le> 52 + M"
proof -
  from assms(1) obtain b t cm where "compress X (wc_codec wc) (records_bytes b t rs) = Inr cm"
    "length (records_bytes b t rs) \<le> L"
    "img = block_image X wc b t (of_nat (length rs)) (length (records_bytes b t rs)) cm"
    by (auto simp: is_block_def)
  moreover from this assms(2) have "length cm \<le> M" by (fastforce simp: codec_total_def)
  ultimately show ?thesis using assms(3) by (simp add: block_image_def Let_def)
qed

lemma images_bounded:
  assumes "list_all2 (is_block X wc L) rss imgs" and "codec_total X (wc_codec wc) L M" and "compatible wc L cfg"
    and "M \<le> max_compressed_len cfg"
  shows "\<forall>img\<in>set imgs. length img \<le> 52 + max_compressed_len cfg"
proof
  fix img assume "img \<in> set imgs"
  with assms(1) obtain rs where "is_block X wc L rs img" by (auto simp: list_all2_conv_all_nth in_set_conv_nth)
  from is_block_length [OF this assms(2)] assms(3,4) show "length img \<le> 52 + max_compressed_len cfg"
    by (simp add: compatible_def)
qed

text \<open>A file of whole blocks reads as their records.\<close>

lemma log_file_reads:
  assumes "codecs_ok X" and "codec_total X (wc_codec wc) L M" and "compatible wc L cfg" and "M \<le> max_compressed_len cfg"
    and "log_file X wc L rss out" and "length out < 2 ^ 32"
  shows "\<exists>r'. read_records X (reader_with_config (dev_of out) cfg) = (Inr (concat rss), r')"
proof -
  from assms(5) obtain imgs where i: "list_all2 (is_block X wc L) rss imgs" "out = file_image wc imgs"
    by (auto simp: log_file_def)
  obtain bl where "blocks_from X cfg out 0 = bl" "block_records bl = concat rss"
    using blocks_from_file [OF assms(1,3) i(1) images_bounded [OF i(1) assms(2-4)], of 0 out "[]" "[]"] i(2)
    by (auto simp: blocks_from_end)
  then show ?thesis using read_file_spec [of cfg out X] assms(3,6) by (auto simp: compatible_def)
qed

text \<open>The blocks of one written log, read at its offset in a larger file.\<close>

lemma blocks_from_log:
  assumes cod: "codecs_ok X" and tot: "codec_total X (wc_codec wc) L M" and com: "compatible wc L cfg"
    and lim: "M \<le> max_compressed_len cfg" "block_target_size wc \<le> L" "\<forall>r\<in>set rs. 31 + length (payload r) \<le> L"
    and out: "write_log X wc rs = Inr out"
  shows "\<exists>bl. blocks_from X cfg (pre @ out @ tail) (length pre)
      = bl @ blocks_from X cfg (pre @ out @ tail) (length pre + length out) \<and>
    block_records bl = rs \<and> (block_alignment wc = 0 \<longrightarrow> block_span bl = length out)"
proof -
  from write_log_log [OF out lim(2,3)] obtain rss imgs where
    i: "concat rss = rs" "list_all2 (is_block X wc L) rss imgs" "out = file_image wc imgs"
    by (auto simp: log_file_def)
  note len = images_bounded [OF i(2) tot com lim(1)]
  have "sum_list (map length imgs) = length out" if "block_alignment wc = 0"
    using that i(3) by (simp add: file_image_def length_concat comp_def)
  then show ?thesis
    using blocks_from_file [OF cod com i(2) len, of 0 "pre @ out @ tail" pre tail] i by auto
qed

lemma log_file_length:
  assumes "codec_total X (wc_codec wc) L M" and "length (wc_sync_marker wc) = 8" and "block_alignment wc = 0"
  shows "list_all2 (is_block X wc L) rss imgs \<Longrightarrow> length (file_image wc imgs) \<le> length (concat rss) * (52 + M)"
proof (induction rss imgs rule: list_all2_induct)
  case (Cons rs rss img imgs)
  have "length img \<le> 52 + M" by (rule is_block_length [OF Cons.hyps(1) assms(1,2)])
  moreover have "1 \<le> length rs" using Cons.hyps(1) by (cases rs) (auto simp: is_block_def)
  then have "1 * (52 + M) \<le> length rs * (52 + M)" by (rule mult_le_mono1)
  ultimately show ?case using Cons.IH assms(3) by (simp add: file_image_def algebra_simps)
qed (simp add: file_image_def)

section \<open>A concrete log\<close>

definition sample_records :: "owned_record list" where
  "sample_records =
     [\<lparr>record_type = Logs, seq = 1, ts_unix_ns = 10, payload = [1, 2, 3]\<rparr>,
      \<lparr>record_type = Traces, seq = 2, ts_unix_ns = 12, payload = []\<rparr>]"

lemma identity_total [simp]: "codec_total identity_extern c L L"
  by (cases c) (auto simp: codec_total_def compress_def identity_extern_def)

lemma sample_records_simps:
  "length sample_records = 2" "sorted_wrt record_le sample_records"
  "\<forall>r\<in>set sample_records. length (payload r) \<le> 3"
  "\<forall>r\<in>set sample_records. 31 + length (payload r) \<le> 65536"
  by (simp_all add: sample_records_def record_le_def)

lemma default_compatible [simp]: "compatible writer_config_default 65536 reader_config_default"
  by (simp add: compatible_def writer_config_default_def reader_config_default_def DEFAULT_SYNC_MARKER_def
      first_unique_def DEFAULT_MAX_BLOCK_SIZE_def)

lemma default_config_simps:
  "block_target_size writer_config_default = 65536" "wc_codec writer_config_default = Lz4"
  "block_alignment writer_config_default = 0" "max_compressed_len reader_config_default = 16777216"
  by (simp_all add: writer_config_default_def reader_config_default_def DEFAULT_MAX_BLOCK_SIZE_def
      DEFAULT_BLOCK_TARGET_SIZE_def)

lemma default_log:
  assumes "sorted_wrt record_le rs" and "\<forall>r\<in>set rs. 31 + length (payload r) \<le> 65536"
  obtains out where "write_log identity_extern writer_config_default rs = Inr out" "length out \<le> length rs * 65588"
proof -
  have t: "codec_total identity_extern (wc_codec writer_config_default) 65536 65536" by simp
  obtain out where out: "write_log identity_extern writer_config_default rs = Inr out"
    using write_log_total [OF t, of rs] assms by (auto simp: default_config_simps)
  obtain rss imgs where i: "concat rss = rs" "out = file_image writer_config_default imgs"
    "list_all2 (is_block identity_extern writer_config_default 65536) rss imgs"
    using write_log_log [OF out, of 65536] assms(2) by (auto simp: default_config_simps log_file_def)
  have "length out \<le> length (concat rss) * (52 + 65536)"
    unfolding i(2) using default_compatible
    by (intro log_file_length [OF t _ _ i(3)]) (simp_all add: compatible_def default_config_simps)
  then show thesis using out that by (simp add: i(1))
qed

lemma sample_log:
  obtains out where "write_log identity_extern writer_config_default sample_records = Inr out" "length out < 200000"
  by (rule default_log [of sample_records]) (use sample_records_simps in auto)

end
