(* ===== verification/Lj_Protocol.thy ===== *)
theory Lj_Protocol
  imports Lj_Roundtrip Lj_Text
begin

text \<open>
  The wire protocol of \<^verbatim>\<open>logjetd/src/protocol.rs\<close>: records with a header, an optionally
  compressed payload and a CRC, and the request, hello and acknowledgement of a replay session. A
  connection is read through \<open>dev\<close> of \<open>Lj_Reader\<close>: the bytes the peer sends, up to its end of
  stream, with a fault map.

  The locale \<open>framed_message\<close> is the contract of a message format; all four formats are interpreted
  in it.
\<close>

section \<open>Constants and messages\<close>

definition WIRE_MAGIC :: bytes where
  "WIRE_MAGIC = [0x4C, 0x4A, 0x4E, 0x45, 0x54, 0x56, 0x30, 0x31]"
definition WIRE_VERSION :: u8 where "WIRE_VERSION = 1"
definition REPLAY_REQUEST_MAGIC :: bytes where
  "REPLAY_REQUEST_MAGIC = [0x4C, 0x4A, 0x52, 0x50, 0x4C, 0x30, 0x30, 0x31]"
definition REPLAY_REQUEST_VERSION :: u8 where "REPLAY_REQUEST_VERSION = 1"
definition REPLAY_HELLO_MAGIC :: bytes where
  "REPLAY_HELLO_MAGIC = [0x4C, 0x4A, 0x52, 0x50, 0x48, 0x30, 0x30, 0x31]"
definition REPLAY_HELLO_VERSION :: u8 where "REPLAY_HELLO_VERSION = 1"
definition REPLAY_ACK_MAGIC :: bytes where
  "REPLAY_ACK_MAGIC = [0x4C, 0x4A, 0x52, 0x50, 0x41, 0x30, 0x30, 0x31]"
definition REPLAY_ACK_VERSION :: u8 where "REPLAY_ACK_VERSION = 1"

text \<open>\<^verbatim>\<open>WireRecord\<close> has the fields of \<^verbatim>\<open>OwnedRecord\<close>; the code converts
  between the two field by field.\<close>

type_synonym wire_record = owned_record

record replay_request =
  from_seq :: u64
  consume :: bool

record replay_ack =
  ack_seq :: u64

record replay_hello =
  hello_stream_id :: u64
  hello_first_seq :: u64
  hello_last_seq :: u64

definition invalid_data :: "string \<Rightarrow> io_error" where
  "invalid_data m = IoError InvalidData m"

section \<open>Records on the wire\<close>

definition decode_wire_payload :: "extern \<Rightarrow> u8 \<Rightarrow> bytes \<Rightarrow> io_error + bytes" where
  "decode_wire_payload X c wire_payload =
     (if c = 0 then Inr wire_payload
      else if c = 1 then
        (if length wire_payload < 4
         then Inl (invalid_data ''LZ4 wire payload too short for uncompressed length'')
         else
           let uncompressed_len = unat (from_le (slice 0 4 wire_payload) :: u32)
           in map_sum (\<lambda>e. invalid_data (''LZ4 decompress failed: '' @ e)) id
                (lz4_decompress X (drop 4 wire_payload) uncompressed_len))
      else Inl (invalid_data (''unknown wire codec: '' @ show_nat (unat c))))"

definition crc_mismatch_message :: "u32 \<Rightarrow> u32 \<Rightarrow> string" where
  "crc_mismatch_message expected_crc actual_crc =
     ''wire record CRC32C mismatch: expected '' @ show_hex32 expected_crc @ '', got '' @ show_hex32 actual_crc"

definition read_record_body :: "extern \<Rightarrow> nat \<Rightarrow> dev \<Rightarrow> (io_error + wire_record) \<times> dev" where
  "read_record_body X max_payload_len d =
     try_st (read_exact 24 d) (\<lambda>header d.
     let version = header ! 0 in
     if version \<noteq> WIRE_VERSION
     then (Inl (invalid_data (''unsupported wire protocol version: '' @ show_nat (unat version))), d) else
     try_r (map_sum (\<lambda>e. invalid_data (''invalid wire record type: '' @ error_display e)) id
             (record_type_from_u8 (header ! 1))) d (\<lambda>ty.
     let payload_len = unat (from_le (slice 20 4 header) :: u32) in
     if payload_len > max_payload_len
     then (Inl (invalid_data (''wire payload too large: '' @ show_nat payload_len @ '' > '' @ show_nat max_payload_len)), d)
     else
     try_st (read_exact payload_len d) (\<lambda>wire_payload d.
     try_st (read_exact 4 d) (\<lambda>crc_bytes d.
     let expected_crc = from_le crc_bytes; actual_crc = crc32c X (header @ wire_payload) in
     if actual_crc \<noteq> expected_crc then (Inl (invalid_data (crc_mismatch_message expected_crc actual_crc)), d) else
     try_r (decode_wire_payload X (header ! 2) wire_payload) d (\<lambda>pl.
     (Inr \<lparr>record_type = ty, seq = from_le (slice 4 8 header), ts_unix_ns = from_le (slice 12 8 header),
           payload = pl\<rparr>, d))))))"

definition read_record_with_limit :: "extern \<Rightarrow> nat \<Rightarrow> dev \<Rightarrow> (io_error + wire_record option) \<times> dev" where
  "read_record_with_limit X max_payload_len d =
     (case read_exact 8 d of
        (Inl e, d) \<Rightarrow> if kind e = UnexpectedEof then (Inr None, d) else (Inl e, d)
      | (Inr magic, d) \<Rightarrow>
          if magic \<noteq> WIRE_MAGIC then (Inl (invalid_data ''invalid wire protocol magic''), d)
          else try_st (read_record_body X max_payload_len d) (\<lambda>r d. (Inr (Some r), d)))"

definition read_record :: "extern \<Rightarrow> dev \<Rightarrow> (io_error + wire_record option) \<times> dev" where
  "read_record X d = read_record_with_limit X (usize_bound - 1) d"

definition payload_too_large :: io_error where
  "payload_too_large = IoError InvalidInput ''payload too large for wire protocol''"

definition wire_codec :: "extern \<Rightarrow> bool \<Rightarrow> bytes \<Rightarrow> io_error + (u8 \<times> bytes)" where
  "wire_codec X compress_it pl =
     (if compress_it then
        let compressed = lz4_compress X pl
        in if length compressed < length pl then
             if length pl \<ge> 2 ^ 32 then Inl payload_too_large
             else Inr (1, u32_le (of_nat (length pl)) @ compressed)
           else Inr (0, pl)
      else Inr (0, pl))"

definition wire_header :: "wire_record \<Rightarrow> u8 \<Rightarrow> u32 \<Rightarrow> bytes" where
  "wire_header r c payload_len =
     [WIRE_VERSION, record_type_u8 (record_type r), c, 0] @ u64_le (seq r) @ u64_le (ts_unix_ns r)
     @ u32_le payload_len"

definition wire_image :: "extern \<Rightarrow> wire_record \<Rightarrow> bool \<Rightarrow> io_error + bytes" where
  "wire_image X r compress_it =
     and_then (wire_codec X compress_it (payload r)) (\<lambda>(c, wire_payload).
     if length wire_payload \<ge> 2 ^ 32 then Inl payload_too_large else
     let body = wire_header r c (of_nat (length wire_payload)) @ wire_payload
     in Inr (WIRE_MAGIC @ body @ u32_le (crc32c X body)))"

definition write_record ::
    "extern \<Rightarrow> 'w write_all \<Rightarrow> wire_record \<Rightarrow> bool \<Rightarrow> 'w \<Rightarrow> (io_error + unit) \<times> 'w" where
  "write_record X write_all r compress_it w =
     try_r (wire_image X r compress_it) w (\<lambda>buf. write_all buf w)"

section \<open>Replay control messages\<close>

definition read_replay_request :: "dev \<Rightarrow> (io_error + replay_request) \<times> dev" where
  "read_replay_request d =
     try_st (read_exact 8 d) (\<lambda>magic d.
     if magic \<noteq> REPLAY_REQUEST_MAGIC then (Inl (invalid_data ''invalid replay request magic''), d) else
     try_st (read_exact 16 d) (\<lambda>header d.
     let version = header ! 0 in
     if version \<noteq> REPLAY_REQUEST_VERSION
     then (Inl (invalid_data (''unsupported replay request version: '' @ show_nat (unat version))), d)
     else (Inr \<lparr>from_seq = from_le (slice 8 8 header), consume = (header ! 1 AND 1 \<noteq> 0)\<rparr>, d)))"

definition replay_request_bytes :: "replay_request \<Rightarrow> bytes" where
  "replay_request_bytes q =
     REPLAY_REQUEST_MAGIC @ [REPLAY_REQUEST_VERSION, of_bool (consume q)] @ replicate 6 0 @ u64_le (from_seq q)"

definition write_replay_request :: "'w write_all \<Rightarrow> replay_request \<Rightarrow> 'w \<Rightarrow> (io_error + unit) \<times> 'w" where
  "write_replay_request write_all q w = write_all (replay_request_bytes q) w"

definition read_replay_hello :: "dev \<Rightarrow> (io_error + replay_hello) \<times> dev" where
  "read_replay_hello d =
     try_st (read_exact 8 d) (\<lambda>magic d.
     if magic \<noteq> REPLAY_HELLO_MAGIC then (Inl (invalid_data ''invalid replay hello magic''), d) else
     try_st (read_exact 32 d) (\<lambda>header d.
     let version = header ! 0 in
     if version \<noteq> REPLAY_HELLO_VERSION
     then (Inl (invalid_data (''unsupported replay hello version: '' @ show_nat (unat version))), d)
     else (Inr \<lparr>hello_stream_id = from_le (slice 8 8 header), hello_first_seq = from_le (slice 16 8 header),
                hello_last_seq = from_le (slice 24 8 header)\<rparr>, d)))"

definition replay_hello_bytes :: "replay_hello \<Rightarrow> bytes" where
  "replay_hello_bytes h =
     REPLAY_HELLO_MAGIC @ [REPLAY_HELLO_VERSION] @ replicate 7 0 @ u64_le (hello_stream_id h)
     @ u64_le (hello_first_seq h) @ u64_le (hello_last_seq h)"

definition write_replay_hello :: "'w write_all \<Rightarrow> replay_hello \<Rightarrow> 'w \<Rightarrow> (io_error + unit) \<times> 'w" where
  "write_replay_hello write_all h w = write_all (replay_hello_bytes h) w"

definition read_replay_ack :: "dev \<Rightarrow> (io_error + replay_ack) \<times> dev" where
  "read_replay_ack d =
     try_st (read_exact 8 d) (\<lambda>magic d.
     if magic \<noteq> REPLAY_ACK_MAGIC then (Inl (invalid_data ''invalid replay ack magic''), d) else
     try_st (read_exact 16 d) (\<lambda>header d.
     let version = header ! 0 in
     if version \<noteq> REPLAY_ACK_VERSION
     then (Inl (invalid_data (''unsupported replay ack version: '' @ show_nat (unat version))), d)
     else (Inr \<lparr>ack_seq = from_le (slice 8 8 header)\<rparr>, d)))"

definition replay_ack_bytes :: "replay_ack \<Rightarrow> bytes" where
  "replay_ack_bytes a = REPLAY_ACK_MAGIC @ [REPLAY_ACK_VERSION] @ replicate 7 0 @ u64_le (ack_seq a)"

definition write_replay_ack :: "'w write_all \<Rightarrow> replay_ack \<Rightarrow> 'w \<Rightarrow> (io_error + unit) \<times> 'w" where
  "write_replay_ack write_all a w = write_all (replay_ack_bytes a) w"


section \<open>The framing interface\<close>

text \<open>What a peer relies on of a message format: a valid message read from the bytes its writer produced
  is that message, and the reader stops right after it.\<close>

fun read_n :: "(dev \<Rightarrow> (io_error + 'm) \<times> dev) \<Rightarrow> nat \<Rightarrow> dev \<Rightarrow> (io_error + 'm list) \<times> dev" where
  "read_n rd 0 d = (Inr [], d)"
| "read_n rd (Suc n) d = try_st (rd d) (\<lambda>x d. try_st (read_n rd n d) (\<lambda>xs d. (Inr (x # xs), d)))"

locale framed_message =
  fixes ok :: "'m \<Rightarrow> bool"
    and encode :: "'m \<Rightarrow> bytes"
    and rd :: "dev \<Rightarrow> (io_error + 'm) \<times> dev"
  assumes read_encode: "ok x \<Longrightarrow> no_faults d \<Longrightarrow> data d = pre @ encode x @ post \<Longrightarrow> pos d = length pre \<Longrightarrow>
    rd d = (Inr x, d\<lparr>pos := length pre + length (encode x)\<rparr>)"
begin

lemma read_all:
  assumes "\<forall>x\<in>set xs. ok x" and "no_faults d" and "data d = pre @ concat (map encode xs) @ post"
    and "pos d = length pre"
  shows "read_n rd (length xs) d = (Inr xs, d\<lparr>pos := length pre + length (concat (map encode xs))\<rparr>)"
  using assms
proof (induction xs arbitrary: d pre)
  case Nil
  then show ?case by (cases d) simp
next
  case (Cons x xs)
  let ?d = "d\<lparr>pos := length (pre @ encode x)\<rparr>"
  have "rd d = (Inr x, ?d)"
    using read_encode [of x d pre "concat (map encode xs) @ post"] Cons.prems by simp
  moreover have "read_n rd (length xs) ?d
      = (Inr xs, ?d\<lparr>pos := length (pre @ encode x) + length (concat (map encode xs))\<rparr>)"
    using Cons.prems by (intro Cons.IH) (auto simp: no_faults_def)
  ultimately show ?case by (simp add: add.assoc)
qed

text \<open>No encoded message is a prefix of a different one, so a stream of messages has one reading.\<close>

lemma prefix_free:
  assumes "ok x" and "ok y" and "encode x @ s = encode y @ t"
  shows "x = y \<and> s = t"
proof -
  have "rd (dev_of (encode x @ s)) = (Inr x, (dev_of (encode x @ s))\<lparr>pos := length (encode x)\<rparr>)"
    using read_encode [OF assms(1), of "dev_of (encode x @ s)" "[]" s] by (simp add: dev_of_def no_faults_def)
  moreover have "rd (dev_of (encode y @ t)) = (Inr y, (dev_of (encode y @ t))\<lparr>pos := length (encode y)\<rparr>)"
    using read_encode [OF assms(2), of "dev_of (encode y @ t)" "[]" t] by (simp add: dev_of_def no_faults_def)
  ultimately have "x = y" using assms(3) by simp
  with assms(3) show ?thesis by simp
qed

end

lemmas magic_defs = WIRE_MAGIC_def REPLAY_REQUEST_MAGIC_def REPLAY_HELLO_MAGIC_def REPLAY_ACK_MAGIC_def
  WIRE_VERSION_def REPLAY_REQUEST_VERSION_def REPLAY_HELLO_VERSION_def REPLAY_ACK_VERSION_def

lemma read_exact_two:
  assumes "no_faults d" and "data d = pre @ (a @ b) @ post" and "pos d = length pre"
    and "m = length a" and "n = length b"
  shows "read_exact m d = (Inr a, d\<lparr>pos := length pre + m\<rparr>)"
    "read_exact n (d\<lparr>pos := length pre + m\<rparr>) = (Inr b, d\<lparr>pos := length pre + length (a @ b)\<rparr>)"
proof -
  have nf: "no_faults (d\<lparr>pos := p\<rparr>)" for p using assms(1) by (simp add: no_faults_def)
  show "read_exact m d = (Inr a, d\<lparr>pos := length pre + m\<rparr>)"
    using read_exact_chunk [OF assms(1), of pre a "b @ post" m] assms by simp
  show "read_exact n (d\<lparr>pos := length pre + m\<rparr>) = (Inr b, d\<lparr>pos := length pre + length (a @ b)\<rparr>)"
    using read_exact_chunk [OF nf [of "length pre + m"], of "pre @ a" b post n] assms by (simp add: add.assoc)
qed

interpretation request: framed_message "\<lambda>_. True" replay_request_bytes read_replay_request
proof
  fix x :: replay_request and d pre post
  assume d: "no_faults d" "data d = pre @ replay_request_bytes x @ post" "pos d = length pre"
  let ?b = "[REPLAY_REQUEST_VERSION, of_bool (consume x)] @ replicate 6 0 @ u64_le (from_seq x)"
  note r = read_exact_two [OF d(1) d(2) [unfolded replay_request_bytes_def] d(3) refl refl]
  show "read_replay_request d = (Inr x, d\<lparr>pos := length pre + length (replay_request_bytes x)\<rparr>)"
    using r by (simp add: read_replay_request_def replay_request_bytes_def magic_defs slice_def eval_nat_numeral)
qed


interpretation hello: framed_message "\<lambda>_. True" replay_hello_bytes read_replay_hello
proof
  fix x :: replay_hello and d pre post
  assume d: "no_faults d" "data d = pre @ replay_hello_bytes x @ post" "pos d = length pre"
  note r = read_exact_two [OF d(1) d(2) [unfolded replay_hello_bytes_def] d(3) refl refl]
  show "read_replay_hello d = (Inr x, d\<lparr>pos := length pre + length (replay_hello_bytes x)\<rparr>)"
    using r by (simp add: read_replay_hello_def replay_hello_bytes_def magic_defs slice_def eval_nat_numeral)
qed

interpretation ack: framed_message "\<lambda>_. True" replay_ack_bytes read_replay_ack
proof
  fix x :: replay_ack and d pre post
  assume d: "no_faults d" "data d = pre @ replay_ack_bytes x @ post" "pos d = length pre"
  note r = read_exact_two [OF d(1) d(2) [unfolded replay_ack_bytes_def] d(3) refl refl]
  show "read_replay_ack d = (Inr x, d\<lparr>pos := length pre + length (replay_ack_bytes x)\<rparr>)"
    using r by (simp add: read_replay_ack_def replay_ack_bytes_def magic_defs slice_def eval_nat_numeral)
qed

section \<open>Records round trip\<close>

text \<open>The payload part of an encoded record.\<close>

definition wire_payload_of :: "extern \<Rightarrow> bool \<Rightarrow> wire_record \<Rightarrow> bytes" where
  "wire_payload_of X c r = (case wire_codec X c (payload r) of Inl _ \<Rightarrow> [] | Inr (_, wp) \<Rightarrow> wp)"

definition wire_bytes :: "extern \<Rightarrow> bool \<Rightarrow> wire_record \<Rightarrow> bytes" where
  "wire_bytes X c r = (case wire_image X r c of Inl _ \<Rightarrow> [] | Inr b \<Rightarrow> b)"

definition sendable :: "extern \<Rightarrow> bool \<Rightarrow> nat \<Rightarrow> wire_record \<Rightarrow> bool" where
  "sendable X c limit r \<longleftrightarrow> codecs_ok X \<and> length (payload r) < 2 ^ 32 \<and>
     length (wire_payload_of X c r) < 2 ^ 32 \<and> length (wire_payload_of X c r) \<le> limit"

definition expect_record :: "extern \<Rightarrow> nat \<Rightarrow> dev \<Rightarrow> (io_error + wire_record) \<times> dev" where
  "expect_record X limit d =
     try_st (read_record_with_limit X limit d) (\<lambda>r d. (ok_or r unexpected_eof, d))"

lemma length_wire_header [simp]: "length (wire_header r c n) = 24"
  by (simp add: wire_header_def)

lemma wire_header_fields:
  fixes r :: wire_record
  shows "wire_header r c n ! 0 = WIRE_VERSION" "wire_header r c n ! 1 = record_type_u8 (record_type r)"
    "wire_header r c n ! 2 = c" "slice 4 8 (wire_header r c n) = u64_le (seq r)"
    "slice 12 8 (wire_header r c n) = u64_le (ts_unix_ns r)" "slice 20 4 (wire_header r c n) = u32_le n"
  by (simp_all add: wire_header_def slice_def)

lemma wire_codec_round_trip:
  assumes "codecs_ok X" and "wire_codec X c pl = Inr (k, wp)" and "length pl < 2 ^ 32"
  shows "decode_wire_payload X k wp = Inr pl"
  using assms
  by (auto simp: wire_codec_def decode_wire_payload_def Let_def codecs_ok_def slice_def le_simps unat_of_nat
      split: if_splits)

lemma sendable_image:
  assumes "sendable X c limit r"
  shows "\<exists>k. wire_codec X c (payload r) = Inr (k, wire_payload_of X c r) \<and>
    wire_bytes X c r = WIRE_MAGIC @ (wire_header r k (of_nat (length (wire_payload_of X c r))) @ wire_payload_of X c r)
      @ u32_le (crc32c X (wire_header r k (of_nat (length (wire_payload_of X c r))) @ wire_payload_of X c r))"
  using assms
  by (cases "wire_codec X c (payload r)")
    (auto simp: sendable_def wire_bytes_def wire_image_def wire_payload_of_def Let_def wire_codec_def split: if_splits)

interpretation wire: framed_message "sendable X c limit" "wire_bytes X c" "expect_record X limit" for X c limit
proof
  fix x :: wire_record and d pre post
  assume ok: "sendable X c limit x" and d: "no_faults d" "data d = pre @ wire_bytes X c x @ post" "pos d = length pre"
  let ?w = "wire_payload_of X c x"
  obtain k where k: "wire_codec X c (payload x) = Inr (k, ?w)"
    and im: "wire_bytes X c x = WIRE_MAGIC @ (wire_header x k (of_nat (length ?w)) @ ?w)
      @ u32_le (crc32c X (wire_header x k (of_nat (length ?w)) @ ?w))"
    using sendable_image [OF ok] by blast
  let ?H = "wire_header x k (of_nat (length ?w))"
  let ?C = "u32_le (crc32c X (?H @ ?w))"
  have nf: "no_faults (d\<lparr>pos := p\<rparr>)" for p using d(1) by (simp add: no_faults_def)
  let ?p = "length pre"
  have m: "length WIRE_MAGIC = 8" by (simp add: WIRE_MAGIC_def)
  have r1: "read_exact 8 d = (Inr WIRE_MAGIC, d\<lparr>pos := ?p + 8\<rparr>)"
    using read_exact_chunk [OF d(1), of pre WIRE_MAGIC "?H @ ?w @ ?C @ post" 8] d im m by simp
  have r2: "read_exact 24 (d\<lparr>pos := ?p + 8\<rparr>) = (Inr ?H, d\<lparr>pos := ?p + 32\<rparr>)"
    using read_exact_chunk [OF nf [of "?p + 8"], of "pre @ WIRE_MAGIC" ?H "?w @ ?C @ post" 24] d im m by simp
  have r3: "read_exact (length ?w) (d\<lparr>pos := ?p + 32\<rparr>) = (Inr ?w, d\<lparr>pos := ?p + 32 + length ?w\<rparr>)"
    using read_exact_chunk [OF nf [of "?p + 32"], of "pre @ WIRE_MAGIC @ ?H" ?w "?C @ post" "length ?w"] d im m by simp
  have r4: "read_exact 4 (d\<lparr>pos := ?p + 32 + length ?w\<rparr>) = (Inr ?C, d\<lparr>pos := ?p + length (wire_bytes X c x)\<rparr>)"
    using read_exact_chunk [OF nf [of "?p + 32 + length ?w"], of "pre @ WIRE_MAGIC @ ?H @ ?w" ?C post 4] d im m
    by (simp add: add.assoc)
  have dec: "decode_wire_payload X k ?w = Inr (payload x)"
    using wire_codec_round_trip [OF _ k] ok by (simp add: sendable_def)
  have n: "unat (of_nat (length ?w) :: u32) = length ?w" using ok by (simp add: sendable_def unat_of_nat)
  have "read_record_body X limit (d\<lparr>pos := ?p + 8\<rparr>) = (Inr x, d\<lparr>pos := ?p + length (wire_bytes X c x)\<rparr>)"
    using r2 r3 r4 dec n ok
    by (simp add: read_record_body_def wire_header_fields [simplified] Let_def le_simps sendable_def)
  then show "expect_record X limit d = (Inr x, d\<lparr>pos := ?p + length (wire_bytes X c x)\<rparr>)"
    using r1 by (simp add: expect_record_def read_record_with_limit_def)
qed

section \<open>Streams of records\<close>

primrec write_records ::
    "extern \<Rightarrow> 'w write_all \<Rightarrow> bool \<Rightarrow> wire_record list \<Rightarrow> 'w \<Rightarrow> (io_error + unit) \<times> 'w" where
  "write_records X write_all c [] w = (Inr (), w)"
| "write_records X write_all c (r # rs) w =
     try_st (write_record X write_all r c w) (\<lambda>_ w. write_records X write_all c rs w)"

lemma write_records_bytes:
  assumes "\<forall>r\<in>set rs. sendable X c limit r"
  shows "write_records X vec_write_all c rs w = (Inr (), w @ concat (map (wire_bytes X c) rs))"
  using assms
proof (induction rs arbitrary: w)
  case (Cons r rs)
  then have "wire_image X r c = Inr (wire_bytes X c r)"
    using sendable_image [of X c limit r]
    by (auto simp: wire_bytes_def wire_image_def sendable_def Let_def split: sum.splits)
  then show ?case using Cons by (simp add: write_record_def vec_write_all_def)
qed simp

lemma read_exact_eof:
  assumes "no_faults d" and "length (data d) < pos d + n"
  shows "read_exact n d = (Inl unexpected_eof, d\<lparr>pos := max (pos d) (length (data d))\<rparr>)"
  using assms by (simp add: read_exact_def no_faults_def)

lemma read_record_eof:
  assumes "no_faults d" and "length (data d) < pos d + 8"
  shows "fst (read_record_with_limit X limit d) = Inr None"
  using read_exact_eof [OF assms] by (simp add: read_record_with_limit_def unexpected_eof_def)

lemma expect_record_Inr:
  "expect_record X limit d = (Inr r, d') \<longleftrightarrow> read_record_with_limit X limit d = (Inr (Some r), d')"
  by (auto simp: expect_record_def try_Inr)

text \<open>C7. A list of records written to a connection, compressed or not, is read back record by record,
  and after the last one the reader sees the end of the stream. The LZ4 codec is assumed to invert
  itself; each record has a payload below 4 GiB and an encoded payload within the reader's limit.\<close>

theorem wire_stream_round_trip:
  assumes "\<forall>r\<in>set rs. sendable X c limit r"
  shows "\<exists>w. write_records X vec_write_all c rs [] = (Inr (), w) \<and>
    read_n (expect_record X limit) (length rs) (dev_of w) = (Inr rs, (dev_of w)\<lparr>pos := length w\<rparr>) \<and>
    fst (read_record_with_limit X limit ((dev_of w)\<lparr>pos := length w\<rparr>)) = Inr None"
proof -
  let ?w = "concat (map (wire_bytes X c) rs)"
  have "read_n (expect_record X limit) (length rs) (dev_of ?w) = (Inr rs, (dev_of ?w)\<lparr>pos := length ?w\<rparr>)"
    using wire.read_all [OF assms, of "dev_of ?w" "[]" "[]"] by (simp add: dev_of_def no_faults_def)
  moreover have "fst (read_record_with_limit X limit ((dev_of ?w)\<lparr>pos := length ?w\<rparr>)) = Inr None"
    by (rule read_record_eof) (simp_all add: dev_of_def no_faults_def)
  ultimately show ?thesis using write_records_bytes [OF assms, of "[]"] by simp
qed

theorem wire_stream_round_trip_witness:
  "\<exists>w. write_records identity_extern vec_write_all True
       [\<lparr>record_type = Logs, seq = 1, ts_unix_ns = 2, payload = [3, 4]\<rparr>] [] = (Inr (), w) \<and>
    read_n (expect_record identity_extern 10) 1 (dev_of w)
      = (Inr [\<lparr>record_type = Logs, seq = 1, ts_unix_ns = 2, payload = [3, 4]\<rparr>], (dev_of w)\<lparr>pos := length w\<rparr>)"
proof -
  let ?rs = "[\<lparr>record_type = Logs, seq = 1, ts_unix_ns = 2, payload = [3, 4]\<rparr>] :: wire_record list"
  have "\<forall>r\<in>set ?rs. sendable identity_extern True 10 r"
    by (simp add: sendable_def wire_payload_of_def wire_codec_def codecs_ok_def Let_def identity_extern_def)
  from wire_stream_round_trip [OF this] show ?thesis by auto
qed

lemma map_sum_Inr_iff: "map_sum f id x = Inr y \<longleftrightarrow> x = Inr y"
  by (cases x) auto

lemma read_record_body_Inr:
  assumes "read_record_body X limit d = (Inr r, d')"
  obtains h n wp where "h = slice (pos d) 24 (data d)" "n = unat (from_le (slice 20 4 h) :: u32)"
    "wp = slice (pos d + 24) n (data d)" "pos d + 24 + n + 4 \<le> length (data d)" "n \<le> limit"
    "from_le (slice (pos d + 24 + n) 4 (data d)) = crc32c X (h @ wp)"
    "record_type_from_u8 (h ! 1) = Inr (record_type r)" "seq r = from_le (slice 4 8 h)"
    "ts_unix_ns r = from_le (slice 12 8 h)" "decode_wire_payload X (h ! 2) wp = Inr (payload r)"
    "pos d' = pos d + 28 + n"
  using assms unfolding read_record_body_def Let_def
  by (auto simp: try_Inr read_exact_Inr_iff map_sum_Inr_iff split: if_splits)

text \<open>What a reader accepts is authentic and bounded: the magic and the CRC over header and payload
  match, the payload on the wire is within the limit, the fields of the record are those of the header,
  and the reader stops after the CRC.\<close>

theorem accepted_wire_record:
  assumes "read_record_with_limit X limit d = (Inr (Some r), d')"
  shows "\<exists>h n. h = slice (pos d + 8) 24 (data d) \<and> n = unat (from_le (slice 20 4 h) :: u32) \<and>
    slice (pos d) 8 (data d) = WIRE_MAGIC \<and> n \<le> limit \<and>
    from_le (slice (pos d + 32 + n) 4 (data d)) = crc32c X (slice (pos d + 8) (24 + n) (data d)) \<and>
    record_type_from_u8 (h ! 1) = Inr (record_type r) \<and> seq r = from_le (slice 4 8 h) \<and>
    ts_unix_ns r = from_le (slice 12 8 h) \<and>
    decode_wire_payload X (h ! 2) (slice (pos d + 32) n (data d)) = Inr (payload r) \<and>
    pos d' = pos d + 36 + n"
proof -
  from assms have m: "slice (pos d) 8 (data d) = WIRE_MAGIC"
    and b: "read_record_body X limit (d\<lparr>pos := pos d + 8\<rparr>) = (Inr r, d')"
    by (auto simp: read_record_with_limit_def try_Inr read_exact_def split: option.splits if_splits)
  from b obtain h n wp where h: "h = slice (pos d + 8) 24 (data d)" "n = unat (from_le (slice 20 4 h) :: u32)"
    "wp = slice (pos d + 32) n (data d)" "n \<le> limit"
    "from_le (slice (pos d + 32 + n) 4 (data d)) = crc32c X (h @ wp)"
    "record_type_from_u8 (h ! 1) = Inr (record_type r)" "seq r = from_le (slice 4 8 h)"
    "ts_unix_ns r = from_le (slice 12 8 h)" "decode_wire_payload X (h ! 2) wp = Inr (payload r)"
    "pos d' = pos d + 36 + n"
    by (rule read_record_body_Inr) (auto simp: numeral_eq_Suc)
  have "h @ wp = slice (pos d + 8) (24 + n) (data d)"
    unfolding h(1,3) using slice_slice [of "pos d + 8" 24 "data d" n] by (simp add: add.commute)
  with m h show ?thesis by (intro exI [of _ h] exI [of _ n]) simp
qed

theorem accepted_wire_record_witness:
  "\<exists>d d' h. read_record_with_limit identity_extern 10 d
      = (Inr (Some \<lparr>record_type = Logs, seq = 1, ts_unix_ns = 2, payload = [3, 4]\<rparr>), d') \<and>
    h = slice (pos d + 8) 24 (data d) \<and> from_le (slice 4 8 h) = (1 :: u64)"
proof -
  let ?r = "\<lparr>record_type = Logs, seq = 1, ts_unix_ns = 2, payload = [3, 4]\<rparr> :: wire_record"
  have "sendable identity_extern True 10 ?r"
    by (simp add: sendable_def wire_payload_of_def wire_codec_def codecs_ok_def Let_def identity_extern_def)
  from wire.read_encode [OF this, of "dev_of (wire_bytes identity_extern True ?r)" "[]" "[]"]
  have "read_record_with_limit identity_extern 10 (dev_of (wire_bytes identity_extern True ?r))
      = (Inr (Some ?r), (dev_of (wire_bytes identity_extern True ?r))\<lparr>pos := length (wire_bytes identity_extern True ?r)\<rparr>)"
    by (simp add: expect_record_Inr dev_of_def no_faults_def)
  with accepted_wire_record [OF this] show ?thesis by fastforce
qed

lemma oversize_refused:
  assumes "codecs_ok X" and "length (payload r) < 2 ^ 32" and "length (wire_payload_of X c r) < 2 ^ 32"
    and "limit < length (wire_payload_of X c r)"
  shows "read_record_with_limit X limit (dev_of (wire_bytes X c r @ rest)) =
    (Inl (invalid_data (''wire payload too large: '' @ show_nat (length (wire_payload_of X c r)) @ '' > '' @ show_nat limit)),
     (dev_of (wire_bytes X c r @ rest))\<lparr>pos := 32\<rparr>)"
proof -
  let ?w = "wire_payload_of X c r" and ?d = "dev_of (wire_bytes X c r @ rest)"
  have "sendable X c (length ?w) r" using assms by (simp add: sendable_def)
  from sendable_image [OF this] obtain k where im: "wire_bytes X c r =
      WIRE_MAGIC @ (wire_header r k (of_nat (length ?w)) @ ?w) @ u32_le (crc32c X (wire_header r k (of_nat (length ?w)) @ ?w))"
    by blast
  let ?H = "wire_header r k (of_nat (length ?w))"
  have m: "length WIRE_MAGIC = 8" by (simp add: WIRE_MAGIC_def)
  have nf: "no_faults (?d\<lparr>pos := p\<rparr>)" "no_faults ?d" for p by (simp_all add: no_faults_def dev_of_def)
  have r1: "read_exact 8 ?d = (Inr WIRE_MAGIC, ?d\<lparr>pos := 8\<rparr>)"
    using read_exact_chunk [OF nf(2), of "[]" WIRE_MAGIC _ 8] im m by (simp add: dev_of_def)
  have r2: "read_exact 24 (?d\<lparr>pos := 8\<rparr>) = (Inr ?H, ?d\<lparr>pos := 32\<rparr>)"
    using read_exact_chunk [OF nf(1) [of 8], of WIRE_MAGIC ?H _ 24] im m by (simp add: dev_of_def)
  have "unat (of_nat (length ?w) :: u32) = length ?w" using assms by (simp add: unat_of_nat)
  then show ?thesis
    using r1 r2 assms(4)
    by (simp add: read_record_with_limit_def read_record_body_def wire_header_fields [simplified] Let_def le_simps)
qed


text \<open>The limit of the reader is checked on the encoded payload, before anything of it is read: a record
  whose encoded payload exceeds it is refused with the announced error, and one whose encoded payload is
  within it is accepted whatever the length of its decompressed payload.\<close>

theorem wire_limit_is_on_encoded_payload:
  assumes "codecs_ok X" and "length (payload r) < 2 ^ 32" and "length (wire_payload_of X c r) < 2 ^ 32"
  shows "read_record_with_limit X limit (dev_of (wire_bytes X c r @ rest)) =
    (if length (wire_payload_of X c r) \<le> limit
     then (Inr (Some r), (dev_of (wire_bytes X c r @ rest))\<lparr>pos := length (wire_bytes X c r)\<rparr>)
     else (Inl (invalid_data (''wire payload too large: '' @ show_nat (length (wire_payload_of X c r)) @ '' > ''
                 @ show_nat limit)),
           (dev_of (wire_bytes X c r @ rest))\<lparr>pos := 32\<rparr>))"
proof (cases "length (wire_payload_of X c r) \<le> limit")
  case True
  then have "sendable X c limit r" using assms by (simp add: sendable_def)
  from wire.read_encode [OF this, of "dev_of (wire_bytes X c r @ rest)" "[]" rest] True show ?thesis
    by (simp add: expect_record_Inr dev_of_def no_faults_def)
next
  case False
  then show ?thesis using oversize_refused [OF assms] by simp
qed

definition zero_run_extern :: extern where
  "zero_run_extern = identity_extern
     \<lparr>lz4_compress := (\<lambda>x. if x = replicate 100 0 then [0] else 1 # x),
      lz4_decompress := (\<lambda>x n. if x = [0] then Inr (replicate 100 0) else Inr (tl x))\<rparr>"

theorem wire_limit_is_on_encoded_payload_witness:
  "fst (read_record_with_limit zero_run_extern 8 (dev_of (wire_bytes zero_run_extern True
     \<lparr>record_type = Logs, seq = 1, ts_unix_ns = 2, payload = replicate 100 0\<rparr> @ [])))
   = Inr (Some \<lparr>record_type = Logs, seq = 1, ts_unix_ns = 2, payload = replicate 100 0\<rparr>)"
proof -
  let ?r = "\<lparr>record_type = Logs, seq = 1, ts_unix_ns = 2, payload = replicate 100 0\<rparr> :: wire_record"
  have "codecs_ok zero_run_extern"
    by (auto simp: codecs_ok_def zero_run_extern_def identity_extern_def)
  moreover have "wire_payload_of zero_run_extern True ?r = u32_le 100 @ [0]"
    by (simp add: wire_payload_of_def wire_codec_def zero_run_extern_def Let_def)
  ultimately show ?thesis
    using wire_limit_is_on_encoded_payload [of zero_run_extern ?r True 8 "[]"] by simp
qed

text \<open>The three control messages of a replay session are read back from the bytes their writers send, with
  the reader right after them.\<close>

theorem replay_control_round_trip:
  "read_replay_request (dev_of (replay_request_bytes q @ rest))
     = (Inr q, (dev_of (replay_request_bytes q @ rest))\<lparr>pos := 24\<rparr>) \<and>
   read_replay_hello (dev_of (replay_hello_bytes h @ rest))
     = (Inr h, (dev_of (replay_hello_bytes h @ rest))\<lparr>pos := 40\<rparr>) \<and>
   read_replay_ack (dev_of (replay_ack_bytes a @ rest))
     = (Inr a, (dev_of (replay_ack_bytes a @ rest))\<lparr>pos := 24\<rparr>)"
  using request.read_encode [of "dev_of (replay_request_bytes q @ rest)" "[]" q rest]
    hello.read_encode [of "dev_of (replay_hello_bytes h @ rest)" "[]" h rest]
    ack.read_encode [of "dev_of (replay_ack_bytes a @ rest)" "[]" a rest]
  by (simp add: dev_of_def no_faults_def replay_request_bytes_def replay_hello_bytes_def replay_ack_bytes_def
      magic_defs)

end
