(* ===== verification/Lj_Fs.thy ===== *)
theory Lj_Fs
  imports Lj_Protocol
begin

text \<open>
  The part of the operating system the file spool uses: one directory of regular files, and
  \<^verbatim>\<open>BufWriter<File>\<close> over a file opened for append. A directory is a list of named files in
  the order \<^verbatim>\<open>read_dir\<close> happens to list them. Operations fail where a file does not exist;
  other I/O errors of the disk are not modelled. The sink carries the directory it writes to, so that the
  writer of \<open>Lj_Writer\<close> can run over it; it is an interpretation of \<open>reliable_sink\<close>.
\<close>

section \<open>Directories\<close>

type_synonym dir = "(string \<times> bytes) list"

definition fs_read :: "dir \<Rightarrow> string \<Rightarrow> bytes option" where
  "fs_read d name = map_of d name"

definition not_found :: io_error where
  "not_found = IoError NotFound ''No such file or directory (os error 2)''"

fun fs_put :: "string \<Rightarrow> bytes \<Rightarrow> dir \<Rightarrow> dir" where
  "fs_put name bs [] = [(name, bs)]"
| "fs_put name bs ((n, b) # d) = (if n = name then (n, bs) # d else (n, b) # fs_put name bs d)"

definition fs_append :: "string \<Rightarrow> bytes \<Rightarrow> dir \<Rightarrow> dir" where
  "fs_append name bs d = fs_put name ((case fs_read d name of None \<Rightarrow> [] | Some b \<Rightarrow> b) @ bs) d"

text \<open>\<^verbatim>\<open>OpenOptions::new().create(true).append(true).open\<close>.\<close>

definition fs_open_append :: "string \<Rightarrow> dir \<Rightarrow> dir" where
  "fs_open_append name d = fs_append name [] d"

definition fs_delete :: "string \<Rightarrow> dir \<Rightarrow> dir" where
  "fs_delete name d = filter (\<lambda>(n, b). n \<noteq> name) d"

definition fs_remove_file :: "string \<Rightarrow> dir \<Rightarrow> (io_error + unit) \<times> dir" where
  "fs_remove_file name d = (if fs_read d name = None then (Inl not_found, d) else (Inr (), fs_delete name d))"

definition fs_metadata_len :: "string \<Rightarrow> dir \<Rightarrow> io_error + nat" where
  "fs_metadata_len name d = (case fs_read d name of None \<Rightarrow> Inl not_found | Some b \<Rightarrow> Inr (length b))"

text \<open>\<^verbatim>\<open>read_to_string\<close>: a file of ASCII bytes.\<close>

definition to_text :: "string \<Rightarrow> bytes" where
  "to_text s = map (\<lambda>c. of_nat (of_char c)) s"

definition of_text :: "bytes \<Rightarrow> string" where
  "of_text bs = map (\<lambda>b. char_of (unat b)) bs"

definition fs_read_to_string :: "string \<Rightarrow> dir \<Rightarrow> io_error + string" where
  "fs_read_to_string name d =
     (case fs_read d name of
        None \<Rightarrow> Inl not_found
      | Some b \<Rightarrow> if \<forall>x\<in>set b. x < 0x80 then Inr (of_text b)
                  else Inl (invalid_data ''stream did not contain valid UTF-8''))"

section \<open>Buffered append\<close>

record disk_writer =
  dw_dir :: dir
  dw_file :: string
  dw_buf :: bytes

definition BUF_CAPACITY :: nat where "BUF_CAPACITY = 8192"

definition dw_flush :: "disk_writer \<Rightarrow> disk_writer" where
  "dw_flush w =
     (if dw_buf w = [] then w else w\<lparr>dw_dir := fs_append (dw_file w) (dw_buf w) (dw_dir w), dw_buf := []\<rparr>)"

definition dw_write_all :: "disk_writer write_all" where
  "dw_write_all bs w =
     (let spare = BUF_CAPACITY - length (dw_buf w) in
      if length bs < spare then (Inr (), w\<lparr>dw_buf := dw_buf w @ bs\<rparr>)
      else
        let w = (if length bs > spare then dw_flush w else w) in
        if length bs \<ge> BUF_CAPACITY then (Inr (), w\<lparr>dw_dir := fs_append (dw_file w) bs (dw_dir w)\<rparr>)
        else (Inr (), w\<lparr>dw_buf := dw_buf w @ bs\<rparr>))"

definition dw_contents :: "disk_writer \<Rightarrow> bytes" where
  "dw_contents w = (case fs_read (dw_dir w) (dw_file w) of None \<Rightarrow> [] | Some b \<Rightarrow> b) @ dw_buf w"

section \<open>Facts\<close>

lemma fs_read_put [simp]: "fs_read (fs_put name bs d) n = (if n = name then Some bs else fs_read d n)"
  by (induction d) (auto simp: fs_read_def)

lemma fs_read_append:
  "fs_read (fs_append name bs d) n =
     (if n = name then Some ((case fs_read d name of None \<Rightarrow> [] | Some b \<Rightarrow> b) @ bs) else fs_read d n)"
  by (simp add: fs_append_def)

lemma fs_read_delete [simp]: "fs_read (fs_delete name d) n = (if n = name then None else fs_read d n)"
  by (induction d) (auto simp: fs_read_def fs_delete_def)

lemma names_put: "map fst (fs_put name bs d) = (if fs_read d name = None then map fst d @ [name] else map fst d)"
  by (induction d) (auto simp: fs_read_def)

lemma fs_read_None_iff: "fs_read d n = None \<longleftrightarrow> n \<notin> fst ` set d"
  by (simp add: fs_read_def map_of_eq_None_iff)

lemma distinct_names_put: "distinct (map fst d) \<Longrightarrow> distinct (map fst (fs_put name bs d))"
  using fs_read_None_iff [of d name] by (auto simp: names_put)

lemma names_delete: "map fst (fs_delete name d) = filter (\<lambda>n. n \<noteq> name) (map fst d)"
  by (induction d) (auto simp: fs_delete_def)

lemma distinct_names_delete: "distinct (map fst d) \<Longrightarrow> distinct (map fst (fs_delete name d))"
  by (simp add: names_delete)

lemma to_text_ascii:
  assumes "\<forall>c\<in>set s. of_char c < (128 :: nat)"
  shows "\<forall>x\<in>set (to_text s). x < 0x80" "of_text (to_text s) = s"
proof -
  have u: "unat (of_nat (of_char c) :: u8) = of_char c" for c
    by (simp only: unat_of_nat) simp
  show "of_text (to_text s) = s" by (simp add: of_text_def to_text_def u comp_def)
  show "\<forall>x\<in>set (to_text s). x < 0x80"
    using assms by (auto simp: to_text_def word_less_nat_alt u)
qed

lemma full_spare: "(8192 :: nat) \<le> 8192 - length xs \<longleftrightarrow> xs = []"
  by (cases xs) auto

interpretation disk: reliable_sink dw_write_all dw_contents
proof
  fix bs s u s'
  assume "dw_write_all bs s = (Inr u, s')"
  then show "dw_contents s' = dw_contents s @ bs"
    by (auto simp: dw_write_all_def dw_contents_def dw_flush_def fs_read_append BUF_CAPACITY_def full_spare Let_def split: if_splits option.splits)
qed (auto simp: dw_write_all_def Let_def split: if_splits)

end
