(* ===== verification/Lj_Buffer_Spool.thy ===== *)
theory Lj_Buffer_Spool
  imports Lj_Replay_Store Lj_Config
begin

text \<open>
  \<^verbatim>\<open>BufferSpool\<close> of \<^verbatim>\<open>logjetd/src/spool.rs\<close>: records in memory, bounded by bytes or
  by messages counted after a kept prefix, replayed through a cursor that remembers an index and the last
  sequence number. The stream id, drawn from clock and process id, is an argument of the constructor.
\<close>

section \<open>State and operations\<close>

record buffer_spool =
  bs_stream_id :: u64
  bs_limit :: buffer_limit
  bs_keep_messages :: nat
  bs_records :: "wire_record list"
  bs_tail_bytes :: nat

record buffer_replay_cursor =
  bc_next_index :: nat
  bc_last_seq :: u64

definition record_size :: "wire_record \<Rightarrow> nat" where
  "record_size r =
     usize_saturating_add (usize_saturating_add (usize_saturating_add (usize_saturating_add 1 8) 8) 4) (length (payload r))"

definition buffer_new :: "u64 \<Rightarrow> buffer_config \<Rightarrow> buffer_spool" where
  "buffer_new stream_id c =
     \<lparr>bs_stream_id = stream_id, bs_limit = bc_limit c, bs_keep_messages = bc_keep_messages c, bs_records = [],
      bs_tail_bytes = 0\<rparr>"

definition tail_len :: "buffer_spool \<Rightarrow> nat" where
  "tail_len s = length (bs_records s) - bs_keep_messages s"

definition over_limit :: "buffer_spool \<Rightarrow> bool" where
  "over_limit s = (case bs_limit s of
     LimitBytes max_bytes \<Rightarrow> bs_tail_bytes s > max_bytes
   | LimitMessages max_messages \<Rightarrow> tail_len s > max_messages)"

definition remove_at :: "nat \<Rightarrow> 'a list \<Rightarrow> 'a list" where
  "remove_at i xs = take i xs @ drop (Suc i) xs"

function enforce_limits :: "buffer_spool \<Rightarrow> buffer_spool" where
  "enforce_limits s =
     (if over_limit s \<and> length (bs_records s) > bs_keep_messages s then
        let drop_index = bs_keep_messages s; record = bs_records s ! drop_index in
        enforce_limits (s\<lparr>bs_records := remove_at drop_index (bs_records s),
                         bs_tail_bytes := bs_tail_bytes s - record_size record\<rparr>)
      else s)"
  by pat_completeness auto
termination
  by (relation "measure (\<lambda>s. length (bs_records s))") (auto simp: remove_at_def)

declare enforce_limits.simps [simp del]

definition buffer_append :: "wire_record \<Rightarrow> buffer_spool \<Rightarrow> buffer_spool" where
  "buffer_append r s =
     (let was_tail = length (bs_records s) \<ge> bs_keep_messages s;
          n = record_size r;
          s = s\<lparr>bs_records := bs_records s @ [r]\<rparr>;
          s = (if was_tail then s\<lparr>bs_tail_bytes := usize_saturating_add (bs_tail_bytes s) n\<rparr> else s)
      in enforce_limits s)"

text \<open>\<^verbatim>\<open>iter().position\<close>.\<close>

fun position :: "('a \<Rightarrow> bool) \<Rightarrow> 'a list \<Rightarrow> nat option" where
  "position P [] = None"
| "position P (x # xs) = (if P x then Some 0 else map_option Suc (position P xs))"

definition buffer_replay_cursor_after :: "buffer_spool \<Rightarrow> u64 \<Rightarrow> buffer_replay_cursor" where
  "buffer_replay_cursor_after s n =
     \<lparr>bc_next_index = (case position (\<lambda>r. seq r > n) (bs_records s) of Some i \<Rightarrow> i | None \<Rightarrow> length (bs_records s)),
      bc_last_seq = n\<rparr>"

definition nth_opt :: "'a list \<Rightarrow> nat \<Rightarrow> 'a option" where
  "nth_opt xs i = (if i < length xs then Some (xs ! i) else None)"

definition index_still_aligned :: "buffer_spool \<Rightarrow> buffer_replay_cursor \<Rightarrow> bool" where
  "index_still_aligned s c =
     (if bc_next_index c = 0 then True
      else case nth_opt (bs_records s) (bc_next_index c - 1) of Some r \<Rightarrow> seq r \<le> bc_last_seq c | None \<Rightarrow> False)"

definition buffer_next_for_cursor ::
    "buffer_spool \<Rightarrow> buffer_replay_cursor \<Rightarrow> wire_record option \<times> buffer_replay_cursor" where
  "buffer_next_for_cursor s c =
     (case (if index_still_aligned s c then nth_opt (bs_records s) (bc_next_index c) else None) of
        Some r \<Rightarrow>
          if seq r > bc_last_seq c
          then (Some r, \<lparr>bc_next_index = bc_next_index c + 1, bc_last_seq = seq r\<rparr>)
          else (case position (\<lambda>r. seq r > bc_last_seq c) (bs_records s) of
                  None \<Rightarrow> (None, c)
                | Some i \<Rightarrow> (Some (bs_records s ! i), \<lparr>bc_next_index = i + 1, bc_last_seq = seq (bs_records s ! i)\<rparr>))
      | None \<Rightarrow>
          (case position (\<lambda>r. seq r > bc_last_seq c) (bs_records s) of
             None \<Rightarrow> (None, c)
           | Some i \<Rightarrow> (Some (bs_records s ! i), \<lparr>bc_next_index = i + 1, bc_last_seq = seq (bs_records s ! i)\<rparr>)))"

definition recalculate_tail_bytes :: "buffer_spool \<Rightarrow> buffer_spool" where
  "recalculate_tail_bytes s =
     s\<lparr>bs_tail_bytes := sum_list (map record_size (drop (bs_keep_messages s) (bs_records s)))\<rparr>"

definition buffer_consume_through :: "u64 \<Rightarrow> buffer_spool \<Rightarrow> buffer_spool" where
  "buffer_consume_through n s =
     recalculate_tail_bytes (s\<lparr>bs_records := dropWhile (\<lambda>r. seq r \<le> n) (bs_records s)\<rparr>)"

definition buffer_sequence_bounds :: "buffer_spool \<Rightarrow> (u64 \<times> u64) option" where
  "buffer_sequence_bounds s =
     (case bs_records s of [] \<Rightarrow> None | r # _ \<Rightarrow> Some (seq r, seq (last (bs_records s))))"

section \<open>The byte counter\<close>

definition tail_size :: "buffer_spool \<Rightarrow> nat" where
  "tail_size s = sum_list (map record_size (drop (bs_keep_messages s) (bs_records s)))"

lemma remove_at_tail:
  assumes "k < length xs"
  shows "drop k (remove_at k xs) = drop (Suc k) xs" "take k (remove_at k xs) = take k xs"
    "length (remove_at k xs) = length xs - 1" "drop k xs = xs ! k # drop (Suc k) xs"
  using assms by (auto simp: remove_at_def Cons_nth_drop_Suc min_def)

text \<open>One pass of the limit: the oldest records after the kept prefix go first, and only as long as the spool
  is over its limit.\<close>

definition after_drop :: "buffer_spool \<Rightarrow> nat \<Rightarrow> buffer_spool" where
  "after_drop s j = s\<lparr>bs_records := take (bs_keep_messages s) (bs_records s) @ drop (bs_keep_messages s + j) (bs_records s),
     bs_tail_bytes := sum_list (map record_size (drop (bs_keep_messages s + j) (bs_records s)))\<rparr>"

lemma after_drop_0: "bs_tail_bytes s = tail_size s \<Longrightarrow> after_drop s 0 = s"
  by (simp add: after_drop_def tail_size_def)

lemma after_drop_step:
  assumes "bs_keep_messages s < length (bs_records s)"
  shows "after_drop (s\<lparr>bs_records := remove_at (bs_keep_messages s) (bs_records s), bs_tail_bytes := n\<rparr>) j
    = after_drop s (Suc j)"
proof -
  note ra = remove_at_tail [OF assms]
  have "drop (bs_keep_messages s + j) (remove_at (bs_keep_messages s) (bs_records s))
      = drop (bs_keep_messages s + Suc j) (bs_records s)"
    using ra(1) by (metis add.commute add_Suc_right drop_drop add_Suc)
  then show ?thesis using ra(2) by (simp add: after_drop_def)
qed

lemma tail_size_after_drop: "bs_tail_bytes (after_drop s j) = tail_size (after_drop s j)"
  by (simp add: after_drop_def tail_size_def min_def)

lemma enforce_limits_spec:
  assumes "bs_tail_bytes s = tail_size s"
  shows "\<exists>j. enforce_limits s = after_drop s j \<and> (\<forall>i<j. over_limit (after_drop s i)) \<and>
    (\<not> over_limit (after_drop s j) \<or> length (bs_records (after_drop s j)) \<le> bs_keep_messages s)"
  using assms
proof (induction s rule: enforce_limits.induct)
  case (1 s)
  let ?k = "bs_keep_messages s"
  show ?case
  proof (cases "over_limit s \<and> length (bs_records s) > ?k")
    case False
    then show ?thesis using after_drop_0 [OF 1(2)] by (intro exI [of _ 0]) (auto simp: enforce_limits.simps [of s])
  next
    case True
    let ?s = "s\<lparr>bs_records := remove_at ?k (bs_records s), bs_tail_bytes := bs_tail_bytes s - record_size (bs_records s ! ?k)\<rparr>"
    have eq: "enforce_limits s = enforce_limits ?s" using True by (simp add: enforce_limits.simps [of s] Let_def)
    have "bs_tail_bytes ?s = tail_size ?s"
      using True remove_at_tail [of ?k "bs_records s"] 1(2) by (simp add: tail_size_def)
    from 1(1) [OF True refl refl this] obtain j where
      j: "enforce_limits ?s = after_drop ?s j" "\<forall>i<j. over_limit (after_drop ?s i)"
      "\<not> over_limit (after_drop ?s j) \<or> length (bs_records (after_drop ?s j)) \<le> bs_keep_messages ?s" by blast
    have st: "after_drop ?s i = after_drop s (Suc i)" for i using after_drop_step True by blast
    have "over_limit (after_drop s i)" if "i < Suc j" for i
      using that j(2) st after_drop_0 [OF 1(2)] True by (cases i) auto
    then show ?thesis using j st eq by (intro exI [of _ "Suc j"]) auto
  qed
qed

text \<open>Appending never saturates while the records fit in memory.\<close>

definition total_size :: "wire_record list \<Rightarrow> nat" where
  "total_size rs = sum_list (map record_size rs)"

lemma record_size_eq: "length (payload r) + 21 < usize_bound \<Longrightarrow> record_size r = 21 + length (payload r)"
  by (simp add: record_size_def usize_saturating_add_def usize_bound_def)

lemma append_tail_size:
  assumes "bs_tail_bytes s = tail_size s" and "total_size (bs_records s @ [r]) < usize_bound"
  defines "s1 \<equiv> (if length (bs_records s) \<ge> bs_keep_messages s
      then s\<lparr>bs_records := bs_records s @ [r], bs_tail_bytes := usize_saturating_add (bs_tail_bytes s) (record_size r)\<rparr>
      else s\<lparr>bs_records := bs_records s @ [r]\<rparr>)"
  shows "bs_tail_bytes s1 = tail_size s1"
proof (cases "length (bs_records s) \<ge> bs_keep_messages s")
  case True
  have "tail_size s \<le> total_size (bs_records s)"
    unfolding tail_size_def total_size_def
    by (metis append_take_drop_id le_add2 map_append sum_list_append)
  then have "tail_size s + record_size r < usize_bound" using assms(2) by (simp add: total_size_def)
  then show ?thesis using True assms(1) by (simp add: s1_def usize_saturating_add_def tail_size_def)
next
  case False
  then show ?thesis using assms(1) by (simp add: s1_def tail_size_def)
qed

lemma buffer_append_spec:
  assumes "bs_tail_bytes s = tail_size s" and "total_size (bs_records s @ [r]) < usize_bound"
  shows "\<exists>j. let s' = s\<lparr>bs_records := bs_records s @ [r]\<rparr> in
    buffer_append r s = after_drop s' j \<and> (\<forall>i<j. over_limit (after_drop s' i)) \<and>
    (\<not> over_limit (after_drop s' j) \<or> length (bs_records (after_drop s' j)) \<le> bs_keep_messages s)"
proof -
  let ?s = "if length (bs_records s) \<ge> bs_keep_messages s
      then s\<lparr>bs_records := bs_records s @ [r], bs_tail_bytes := usize_saturating_add (bs_tail_bytes s) (record_size r)\<rparr>
      else s\<lparr>bs_records := bs_records s @ [r]\<rparr>"
  have ap: "buffer_append r s = enforce_limits ?s" by (simp add: buffer_append_def Let_def)
  have ad: "after_drop ?s j = after_drop (s\<lparr>bs_records := bs_records s @ [r]\<rparr>) j" for j
    by (simp add: after_drop_def)
  have k: "bs_keep_messages ?s = bs_keep_messages s" by simp
  from enforce_limits_spec [OF append_tail_size [OF assms]] show ?thesis
    unfolding ap [symmetric] ad k Let_def .
qed

section \<open>Cursors\<close>

lemma position_Some:
  "position P xs = Some i \<Longrightarrow> i < length xs \<and> P (xs ! i) \<and> filter P xs = xs ! i # filter P (drop (Suc i) xs)"
  by (induction xs arbitrary: i) (auto split: if_splits)

lemma position_None: "position P xs = None \<Longrightarrow> filter P xs = []"
  by (induction xs) (auto split: if_splits)

lemma sorted_filter_at:
  assumes "seq_sorted rs" and "i < length rs" and "n < seq (rs ! i)" and "i = 0 \<or> seq (rs ! (i - 1)) \<le> n"
  shows "after n rs = rs ! i # after n (drop (Suc i) rs)"
proof -
  have "\<not> n < seq (rs ! j)" if "j < i" for j
  proof (cases "j = i - 1")
    case True
    then show ?thesis using assms(4) that by auto
  next
    case False
    then have "seq (rs ! j) < seq (rs ! (i - 1))"
      using assms(1,2) that by (auto simp: seq_sorted_def sorted_wrt_iff_nth_less)
    moreover have "seq (rs ! (i - 1)) \<le> n" using assms(4) that by auto
    ultimately show ?thesis by auto
  qed
  then have "filter (\<lambda>r. n < seq r) (take i rs) = []"
    using assms(2) by (auto simp: filter_empty_conv in_set_conv_nth)
  then have "filter (\<lambda>r. n < seq r) rs = filter (\<lambda>r. n < seq r) (drop i rs)"
    by (metis append_Nil append_take_drop_id filter_append)
  also have "drop i rs = rs ! i # drop (Suc i) rs" using assms(2) by (simp add: Cons_nth_drop_Suc)
  finally show ?thesis using assms(3) by (simp add: after_def)
qed

lemma buffer_next_spec:
  assumes "seq_sorted (bs_records s)"
  shows "case after (bc_last_seq c) (bs_records s) of
      [] \<Rightarrow> buffer_next_for_cursor s c = (None, c)
    | r # _ \<Rightarrow> \<exists>c'. buffer_next_for_cursor s c = (Some r, c') \<and> bc_last_seq c' = seq r"
proof (cases "index_still_aligned s c \<and> bc_next_index c < length (bs_records s) \<and>
    bc_last_seq c < seq (bs_records s ! bc_next_index c)")
  case True
  then have "after (bc_last_seq c) (bs_records s)
      = bs_records s ! bc_next_index c # after (bc_last_seq c) (drop (Suc (bc_next_index c)) (bs_records s))"
    by (intro sorted_filter_at [OF assms]) (auto simp: index_still_aligned_def nth_opt_def split: if_splits)
  with True show ?thesis by (simp add: buffer_next_for_cursor_def nth_opt_def)
next
  case False
  then have "buffer_next_for_cursor s c = (case position (\<lambda>r. seq r > bc_last_seq c) (bs_records s) of
             None \<Rightarrow> (None, c)
           | Some i \<Rightarrow> (Some (bs_records s ! i), \<lparr>bc_next_index = i + 1, bc_last_seq = seq (bs_records s ! i)\<rparr>))"
    by (auto simp: buffer_next_for_cursor_def nth_opt_def split: option.splits)
  then show ?thesis
    by (cases "position (\<lambda>r. seq r > bc_last_seq c) (bs_records s)")
      (auto simp: after_def dest: position_None position_Some)
qed

interpretation buffer: replay_store "\<lambda>s. seq_sorted (bs_records s)" bs_records buffer_replay_cursor_after
  "\<lambda>s c. apfst Inr (buffer_next_for_cursor s c)" bc_last_seq "\<lambda>_ _. True"
proof
  fix s :: buffer_spool and c :: buffer_replay_cursor
  assume "seq_sorted (bs_records s)"
  from buffer_next_spec [OF this, of c] show "case after (bc_last_seq c) (bs_records s) of
      [] \<Rightarrow> \<exists>c'. apfst Inr (buffer_next_for_cursor s c) = (Inr None, c')
    | r # _ \<Rightarrow> \<exists>c'. apfst Inr (buffer_next_for_cursor s c) = (Inr (Some r), c') \<and> bc_last_seq c' = seq r \<and> True"
    by (auto split: list.splits)
qed (simp_all add: buffer_replay_cursor_after_def)

section \<open>Invariant\<close>

definition buffer_ok :: "buffer_spool \<Rightarrow> bool" where
  "buffer_ok s \<longleftrightarrow> bs_tail_bytes s = tail_size s \<and> seq_sorted (bs_records s)"

lemma buffer_new_ok: "buffer_ok (buffer_new i c)"
  by (simp add: buffer_ok_def buffer_new_def tail_size_def seq_sorted_def)

lemma seq_sorted_after_drop:
  "seq_sorted (bs_records s) \<Longrightarrow> seq_sorted (bs_records (after_drop s j))"
proof -
  assume a: "seq_sorted (bs_records s)"
  let ?k = "bs_keep_messages s"
  have t: "seq_sorted (take ?k (bs_records s) @ drop ?k (bs_records s))" using a by simp
  have "set (drop (?k + j) (bs_records s)) \<subseteq> set (drop ?k (bs_records s))"
    by (rule set_drop_subset_set_drop) simp
  then show ?thesis
    using t a by (auto simp: seq_sorted_def sorted_wrt_append after_drop_def sorted_wrt_drop sorted_wrt_take
        simp del: append_take_drop_id)
qed

lemma buffer_append_ok:
  assumes "buffer_ok s" and "\<forall>r'\<in>set (bs_records s). seq r' < seq r" and "total_size (bs_records s @ [r]) < usize_bound"
  shows "buffer_ok (buffer_append r s)"
proof -
  from buffer_append_spec [of s r] assms obtain j where
    j: "buffer_append r s = after_drop (s\<lparr>bs_records := bs_records s @ [r]\<rparr>) j"
    by (auto simp: buffer_ok_def Let_def)
  have "seq_sorted (bs_records (s\<lparr>bs_records := bs_records s @ [r]\<rparr>))"
    using assms by (simp add: buffer_ok_def seq_sorted_def sorted_wrt_append)
  then show ?thesis unfolding j buffer_ok_def using seq_sorted_after_drop tail_size_after_drop by blast
qed

lemma buffer_consume_ok: "buffer_ok s \<Longrightarrow> buffer_ok (buffer_consume_through n s)"
  by (simp add: buffer_ok_def buffer_consume_through_def recalculate_tail_bytes_def tail_size_def seq_sorted_def
      sorted_wrt_dropWhile)

lemma buffer_consume_records:
  assumes "seq_sorted (bs_records s)"
  shows "bs_records (buffer_consume_through n s) = after n (bs_records s)"
proof -
  have "seq_sorted rs \<Longrightarrow> dropWhile (\<lambda>r. seq r \<le> n) rs = filter (\<lambda>r. n < seq r) rs" for rs
  proof (induction rs)
    case (Cons r rs)
    show ?case
    proof (cases "seq r \<le> n")
      case True
      then show ?thesis using Cons by (simp add: seq_sorted_def)
    next
      case False
      then have "\<forall>r'\<in>set rs. n < seq r'" using Cons.prems by (auto simp: seq_sorted_def)
      then show ?thesis using False by (simp add: not_le)
    qed
  qed simp
  then show ?thesis using assms by (simp add: buffer_consume_through_def recalculate_tail_bytes_def after_def)
qed


section \<open>Replaying a spool in any order\<close>

text \<open>Clients may number their records in any order. What a replay sends is then the records that exceed every record
  sent before.\<close>

primrec running_maxima :: "u64 \<Rightarrow> wire_record list \<Rightarrow> wire_record list" where
  "running_maxima n [] = []"
| "running_maxima n (r # rs) = (if n < seq r then r # running_maxima (seq r) rs else running_maxima n rs)"

lemma running_maxima_skip: "\<forall>r\<in>set xs. seq r \<le> n \<Longrightarrow> running_maxima n (xs @ ys) = running_maxima n ys"
  by (induction xs) (auto simp: not_less)

lemma running_maxima_sorted: "seq_sorted rs \<Longrightarrow> running_maxima n rs = after n rs"
proof (induction rs arbitrary: n)
  case (Cons r rs)
  have "after (seq r) rs = rs" "n < seq r \<Longrightarrow> after n rs = rs"
    using Cons.prems by (auto simp: after_def seq_sorted_def filter_id_conv)
  then show ?case using Cons by (auto simp: after_def seq_sorted_def)
qed (simp add: after_def)

definition passed :: "wire_record list \<Rightarrow> buffer_replay_cursor \<Rightarrow> bool" where
  "passed rs c \<longleftrightarrow> (\<forall>r\<in>set (take (bc_next_index c) rs). seq r \<le> bc_last_seq c)"

lemma position_first:
  "position P xs = Some i \<Longrightarrow> i < length xs \<and> P (xs ! i) \<and> (\<forall>x\<in>set (take i xs). \<not> P x)"
  by (induction xs arbitrary: i) (auto split: if_splits)

lemma position_eq_None: "position P xs = None \<longleftrightarrow> (\<forall>x\<in>set xs. \<not> P x)"
  by (induction xs) auto

lemma position_unique:
  "i < length xs \<Longrightarrow> P (xs ! i) \<Longrightarrow> \<forall>x\<in>set (take i xs). \<not> P x \<Longrightarrow> position P xs = Some i"
proof (induction xs arbitrary: i)
  case (Cons x xs)
  then show ?case by (cases i) auto
qed simp

text \<open>A cursor that has passed only smaller records finds the first record above its last one, by index or by
  search.\<close>

lemma buffer_next_passed:
  assumes "passed (bs_records s) c"
  shows "buffer_next_for_cursor s c =
    (case position (\<lambda>r. seq r > bc_last_seq c) (bs_records s) of
       None \<Rightarrow> (None, c)
     | Some i \<Rightarrow> (Some (bs_records s ! i), \<lparr>bc_next_index = i + 1, bc_last_seq = seq (bs_records s ! i)\<rparr>))"
proof (cases "index_still_aligned s c \<and> bc_next_index c < length (bs_records s) \<and>
    bc_last_seq c < seq (bs_records s ! bc_next_index c)")
  case True
  have "position (\<lambda>r. seq r > bc_last_seq c) (bs_records s) = Some (bc_next_index c)"
    by (rule position_unique) (use True assms in \<open>auto simp: passed_def not_less\<close>)
  with True show ?thesis by (simp add: buffer_next_for_cursor_def nth_opt_def)
qed (auto simp: buffer_next_for_cursor_def nth_opt_def split: option.splits)

lemma buffer_replay_maxima:
  assumes "passed (bs_records s) c" and "length (running_maxima (bc_last_seq c) (bs_records s)) < fuel"
  shows "fst (replay_n (\<lambda>s c. apfst Inr (buffer_next_for_cursor s c)) fuel s c)
    = Inr (running_maxima (bc_last_seq c) (bs_records s))"
  using assms
proof (induction fuel arbitrary: c)
  case (Suc fuel)
  let ?n = "bc_last_seq c" and ?rs = "bs_records s"
  show ?case
  proof (cases "position (\<lambda>r. seq r > ?n) ?rs")
    case None
    then have "running_maxima ?n ?rs = []"
      using running_maxima_skip [of ?rs ?n "[]"] by (simp add: position_eq_None not_less)
    then show ?thesis using None by (simp add: buffer_next_passed [OF Suc.prems(1)])
  next
    case (Some i)
    let ?r = "?rs ! i" and ?c = "\<lparr>bc_next_index = i + 1, bc_last_seq = seq (?rs ! i)\<rparr>"
    note i = position_first [OF Some]
    have sp: "?rs = take i ?rs @ ?r # drop (Suc i) ?rs" using i by (simp add: id_take_nth_drop)
    have le: "\<forall>x\<in>set (take i ?rs). seq x \<le> ?n" using i by (auto simp: not_less)
    have le': "\<forall>x\<in>set (take (i + 1) ?rs). seq x \<le> seq ?r"
      using le i by (auto simp: take_Suc_conv_app_nth intro: order_trans [OF _ less_imp_le])
    have m: "running_maxima ?n ?rs = ?r # running_maxima (seq ?r) (drop (Suc i) ?rs)"
      by (subst sp) (use running_maxima_skip [OF le, of "?r # drop (Suc i) ?rs"] i in simp)
    have "running_maxima (seq ?r) ?rs = running_maxima (seq ?r) (drop (Suc i) ?rs)"
      using running_maxima_skip [OF le', of "drop (Suc i) ?rs"] by simp
    with m have m': "running_maxima ?n ?rs = ?r # running_maxima (bc_last_seq ?c) ?rs" by simp
    have "fst (replay_n (\<lambda>s c. apfst Inr (buffer_next_for_cursor s c)) fuel s ?c) = Inr (running_maxima (bc_last_seq ?c) ?rs)"
      by (rule Suc.IH) (use le' m' Suc.prems(2) in \<open>simp_all add: passed_def\<close>)
    then show ?thesis using Some m' by (simp add: buffer_next_passed [OF Suc.prems(1)])
  qed
qed simp

lemma passed_start: "passed (bs_records s) (buffer_replay_cursor_after s m)"
  by (auto simp: passed_def buffer_replay_cursor_after_def position_eq_None not_less split: option.splits
      dest: position_first)

lemma length_running_maxima: "length (running_maxima n rs) \<le> length rs"
  by (induction rs arbitrary: n) (auto intro: le_SucI)

section \<open>Reachable spools\<close>

text \<open>The histories of a memory spool: records arrive in any order and are consumed from the front. The history
  \<open>h\<close> is the list of all records appended so far.\<close>

inductive buffer_reach :: "u64 \<Rightarrow> buffer_config \<Rightarrow> wire_record list \<Rightarrow> buffer_spool \<Rightarrow> bool" for i c where
  buffer_start: "buffer_reach i c [] (buffer_new i c)"
| buffer_push: "buffer_reach i c h s \<Longrightarrow> total_size (bs_records s @ [r]) < usize_bound \<Longrightarrow>
    buffer_reach i c (h @ [r]) (buffer_append r s)"
| buffer_drop: "buffer_reach i c h s \<Longrightarrow> buffer_reach i c h (buffer_consume_through m s)"

definition within_limit :: "buffer_spool \<Rightarrow> bool" where
  "within_limit s \<longleftrightarrow> \<not> over_limit s \<or> length (bs_records s) \<le> bs_keep_messages s"

lemma tail_after_consume:
  assumes "bs_tail_bytes s = tail_size s" and "within_limit s"
  shows "within_limit (buffer_consume_through n s)"
proof -
  let ?rs = "bs_records s" and ?k = "bs_keep_messages s" and ?d = "dropWhile (\<lambda>r. seq r \<le> n) (bs_records s)"
  obtain m where m: "?d = drop m ?rs" by (metis dropWhile_eq_drop)
  have "sum_list (map record_size (drop ?k ?d)) \<le> sum_list (map record_size (drop ?k ?rs))"
    unfolding m drop_drop using add.commute [of ?k m]
    by (metis append_take_drop_id drop_drop le_add2 map_append sum_list_append)
  moreover have "length ?d \<le> length ?rs" by (simp add: m)
  ultimately show ?thesis
    using assms
    by (auto simp: within_limit_def over_limit_def tail_len_def tail_size_def
        buffer_consume_through_def recalculate_tail_bytes_def split: buffer_limit.splits)
qed

text \<open>The elements of the first list occur in the second one, in the same order.\<close>

inductive subsequence :: "'a list \<Rightarrow> 'a list \<Rightarrow> bool" where
  subsequence_Nil: "subsequence [] ys"
| subsequence_skip: "subsequence xs ys \<Longrightarrow> subsequence xs (y # ys)"
| subsequence_take: "subsequence xs ys \<Longrightarrow> subsequence (y # xs) (y # ys)"

lemma subsequence_refl [simp]: "subsequence xs xs"
  by (induction xs) (auto intro: subsequence.intros)

lemma subsequence_prepend: "subsequence xs ys \<Longrightarrow> subsequence xs (zs @ ys)"
  by (induction zs) (auto intro: subsequence.intros)

lemma subsequence_append: "subsequence xs ys \<Longrightarrow> subsequence us vs \<Longrightarrow> subsequence (xs @ us) (ys @ vs)"
  by (induction rule: subsequence.induct) (auto intro: subsequence.intros subsequence_prepend)

lemma subsequence_drop: "subsequence (drop n xs) xs"
  using subsequence_prepend [OF subsequence_refl, of "drop n xs" "take n xs"] by simp

lemma subsequence_trans: "subsequence ys zs \<Longrightarrow> subsequence xs ys \<Longrightarrow> subsequence xs zs"
proof (induction arbitrary: xs rule: subsequence.induct)
  case (subsequence_Nil ys)
  then show ?case by (auto intro: subsequence.intros elim: subsequence.cases)
next
  case (subsequence_take ys zs z)
  from subsequence_take.prems show ?case
    by (cases rule: subsequence.cases) (auto intro: subsequence.intros subsequence_take.IH)
qed (auto intro: subsequence.intros)

lemma subsequence_after_drop: "subsequence (bs_records (after_drop s j)) (bs_records s)"
proof -
  have "drop (k + j) rs = drop j (drop k rs)" for k and rs :: "wire_record list" by (simp add: add.commute)
  then have "subsequence (take k rs @ drop (k + j) rs) (take k rs @ drop k rs)" for k and rs :: "wire_record list"
    by (metis subsequence_append subsequence_refl subsequence_drop)
  then show ?thesis by (simp add: after_drop_def)
qed

lemma buffer_reach_inv:
  assumes "buffer_reach i c h s"
  shows "bs_tail_bytes s = tail_size s \<and> within_limit s \<and> subsequence (bs_records s) h \<and>
    bs_limit s = bc_limit c \<and> bs_keep_messages s = bc_keep_messages c"
  using assms
proof induction
  case buffer_start
  then show ?case by (simp add: within_limit_def) (simp add: buffer_new_def tail_size_def)
next
  case (buffer_push h s r)
  let ?s = "s\<lparr>bs_records := bs_records s @ [r]\<rparr>"
  from buffer_append_spec [of s r] buffer_push obtain j where
    j: "buffer_append r s = after_drop ?s j"
    "\<not> over_limit (buffer_append r s) \<or> length (bs_records (buffer_append r s)) \<le> bs_keep_messages s"
    by (auto simp: Let_def)
  have "subsequence (bs_records ?s) (h @ [r])" using buffer_push.IH by (simp add: subsequence_append)
  then have "subsequence (bs_records (buffer_append r s)) (h @ [r])"
    unfolding j(1) using subsequence_trans subsequence_after_drop by blast
  moreover have "bs_tail_bytes (buffer_append r s) = tail_size (buffer_append r s)"
    unfolding j(1) by (rule tail_size_after_drop)
  moreover have "bs_keep_messages (buffer_append r s) = bs_keep_messages s" "bs_limit (buffer_append r s) = bs_limit s"
    unfolding j(1) by (simp_all add: after_drop_def)
  ultimately show ?case using buffer_push j(2) by (auto simp: within_limit_def)
next
  case (buffer_drop h s m)
  have "subsequence (bs_records (buffer_consume_through m s)) (bs_records s)"
    by (simp add: buffer_consume_through_def recalculate_tail_bytes_def dropWhile_eq_drop subsequence_drop)
  then show ?case
    using buffer_drop.IH tail_after_consume [of s m]
    by (auto simp: buffer_consume_through_def recalculate_tail_bytes_def tail_size_def intro: subsequence_trans)
qed

section \<open>Properties\<close>

text \<open>C9. Appending to the memory spool adds the record at the end and then drops the oldest records after the
  kept prefix, one at a time and only while the spool is over its limit; the kept prefix is never touched.\<close>

theorem buffer_append_drops_oldest_tail:
  assumes "bs_tail_bytes s = tail_size s" and "total_size (bs_records s @ [r]) < usize_bound"
  shows "\<exists>j. bs_records (buffer_append r s)
      = take (bs_keep_messages s) (bs_records s @ [r]) @ drop (bs_keep_messages s + j) (bs_records s @ [r]) \<and>
    bs_tail_bytes (buffer_append r s) = tail_size (buffer_append r s) \<and>
    (\<forall>i<j. over_limit (after_drop (s\<lparr>bs_records := bs_records s @ [r]\<rparr>) i)) \<and>
    (\<not> over_limit (buffer_append r s) \<or> length (bs_records (buffer_append r s)) \<le> bs_keep_messages s)"
proof -
  from buffer_append_spec [OF assms] obtain j where
    j: "buffer_append r s = after_drop (s\<lparr>bs_records := bs_records s @ [r]\<rparr>) j"
    "\<forall>i<j. over_limit (after_drop (s\<lparr>bs_records := bs_records s @ [r]\<rparr>) i)"
    "\<not> over_limit (buffer_append r s) \<or> length (bs_records (buffer_append r s)) \<le> bs_keep_messages s"
    by (auto simp: Let_def)
  have "bs_tail_bytes (buffer_append r s) = tail_size (buffer_append r s)"
    unfolding j(1) by (rule tail_size_after_drop)
  moreover have "bs_records (buffer_append r s)
      = take (bs_keep_messages s) (bs_records s @ [r]) @ drop (bs_keep_messages s + j) (bs_records s @ [r])"
    unfolding j(1) by (simp add: after_drop_def)
  ultimately show ?thesis using j(2,3) by blast
qed

theorem buffer_append_drops_oldest_tail_witness:
  "\<exists>j. bs_records (buffer_append \<lparr>record_type = Logs, seq = 7, ts_unix_ns = 0, payload = [1]\<rparr>
       (buffer_new 5 \<lparr>bc_limit = LimitMessages 0, bc_keep_messages = 0\<rparr>))
     = drop j [\<lparr>record_type = Logs, seq = 7, ts_unix_ns = 0, payload = [1]\<rparr>]"
  using buffer_append_drops_oldest_tail [of "buffer_new 5 \<lparr>bc_limit = LimitMessages 0, bc_keep_messages = 0\<rparr>"
      "\<lparr>record_type = Logs, seq = 7, ts_unix_ns = 0, payload = [1]\<rparr>"]
  by (auto simp: buffer_new_def tail_size_def total_size_def record_size_def usize_saturating_add_def usize_bound_def)

text \<open>C10. Every memory spool that can be reached by appending records, with sequence numbers in any order, and
  consuming has an exact byte counter, is within its limit or holds no more than the kept prefix, and holds
  only appended records, each append at most once and in the order of arrival.\<close>

theorem buffer_spool_invariant:
  assumes "buffer_reach i c h s"
  shows "bs_tail_bytes s = sum_list (map record_size (drop (bc_keep_messages c) (bs_records s))) \<and>
    subsequence (bs_records s) h \<and>
    (case bc_limit c of
       LimitBytes b \<Rightarrow> bs_tail_bytes s \<le> b \<or> length (bs_records s) \<le> bc_keep_messages c
     | LimitMessages k \<Rightarrow> length (bs_records s) \<le> bc_keep_messages c + k)"
  using buffer_reach_inv [OF assms]
  by (auto simp: within_limit_def over_limit_def tail_len_def tail_size_def split: buffer_limit.splits)

definition memory_record :: "u64 \<Rightarrow> wire_record" where
  "memory_record n = \<lparr>record_type = Logs, seq = n, ts_unix_ns = 0, payload = [1]\<rparr>"

lemma memory_record_size [simp]: "record_size (memory_record n) = 22"
  by (simp add: memory_record_def record_size_def usize_saturating_add_def usize_bound_def)

lemma memory_record_seq [simp]: "seq (memory_record n) = n"
  by (simp add: memory_record_def)

theorem buffer_spool_invariant_witness:
  "let s = buffer_append (memory_record 5) (buffer_append (memory_record 9)
       (buffer_new 5 \<lparr>bc_limit = LimitMessages 1, bc_keep_messages = 0\<rparr>))
   in length (bs_records s) \<le> 1 \<and> subsequence (bs_records s) [memory_record 9, memory_record 5]"
proof -
  let ?c = "\<lparr>bc_limit = LimitMessages 1, bc_keep_messages = 0\<rparr>"
  have r: "buffer_reach 5 ?c ([] @ [memory_record 9]) (buffer_append (memory_record 9) (buffer_new 5 ?c))"
    by (rule buffer_push [OF buffer_start]) (simp add: buffer_new_def total_size_def usize_bound_def)
  have "buffer_reach 5 ?c (([] @ [memory_record 9]) @ [memory_record 5])
      (buffer_append (memory_record 5) (buffer_append (memory_record 9) (buffer_new 5 ?c)))"
    by (rule buffer_push [OF r])
      (simp add: buffer_append_def buffer_new_def enforce_limits.simps over_limit_def tail_len_def total_size_def
        usize_bound_def)
  from buffer_spool_invariant [OF this] show ?thesis by simp
qed

text \<open>C11. A replay session on a memory spool that asks for everything after \<open>m\<close> receives, whatever the order of the
  stored sequence numbers, exactly the records above \<open>m\<close> that also exceed every record sent before, in order and
  once; the same holds of the records left after consuming through \<open>k\<close>. When the stored numbers are in strictly
  growing order, these are exactly the records above \<open>m\<close>, and after consuming exactly those above both.\<close>

theorem buffer_replay_is_exact:
  assumes "length (bs_records s) < fuel"
  shows "let replay = (\<lambda>s. fst (replay_n (\<lambda>s c. apfst Inr (buffer_next_for_cursor s c)) fuel s (buffer_replay_cursor_after s m)))
    in replay s = Inr (running_maxima m (bs_records s)) \<and>
    replay (buffer_consume_through k s) = Inr (running_maxima m (dropWhile (\<lambda>r. seq r \<le> k) (bs_records s))) \<and>
    (sorted_wrt (\<lambda>r r'. seq r < seq r') (bs_records s) \<longrightarrow>
       replay s = Inr (filter (\<lambda>r. m < seq r) (bs_records s)) \<and>
       replay (buffer_consume_through k s) = Inr (filter (\<lambda>r. m < seq r \<and> k < seq r) (bs_records s)))"
proof -
  let ?k = "buffer_consume_through k s"
    and ?replay = "\<lambda>s. fst (replay_n (\<lambda>s c. apfst Inr (buffer_next_for_cursor s c)) fuel s (buffer_replay_cursor_after s m))"
  have rp: "?replay t = Inr (running_maxima m (bs_records t))" if "length (bs_records t) < fuel" for t
    using buffer_replay_maxima [OF passed_start, of t m fuel] that le_less_trans [OF length_running_maxima that]
    by (simp add: buffer_replay_cursor_after_def)
  have rs: "bs_records ?k = dropWhile (\<lambda>r. seq r \<le> k) (bs_records s)"
    by (simp add: buffer_consume_through_def recalculate_tail_bytes_def)
  have "length (bs_records ?k) < fuel" unfolding rs by (rule le_less_trans [OF length_dropWhile_le assms(1)])
  moreover have "running_maxima m (bs_records ?k) = filter (\<lambda>r. m < seq r \<and> k < seq r) (bs_records s)"
    if "seq_sorted (bs_records s)"
    using running_maxima_sorted [of "bs_records ?k" m] buffer_consume_records [OF that, of k] that
    by (simp add: after_def seq_sorted_def sorted_wrt_filter conj_commute)
  ultimately show ?thesis
    using rp [OF assms(1)] rp [of ?k] rs running_maxima_sorted [of "bs_records s" m] by (simp add: Let_def seq_sorted_def after_def)
qed

theorem buffer_replay_is_exact_witness:
  "let replay = (\<lambda>s m. fst (replay_n (\<lambda>s c. apfst Inr (buffer_next_for_cursor s c)) 4 s (buffer_replay_cursor_after s m)));
       spool = (\<lambda>ns. (buffer_new 5 \<lparr>bc_limit = LimitMessages 3, bc_keep_messages = 1\<rparr>)\<lparr>bs_records := map memory_record ns\<rparr>)
   in replay (spool [1, 9, 5]) 0 = Inr (map memory_record [1, 9]) \<and>
      replay (spool [1, 2, 3]) 1 = Inr (map memory_record [2, 3]) \<and>
      replay (buffer_consume_through 2 (spool [1, 2, 3])) 1 = Inr [memory_record 3]"
proof -
  let ?s = "\<lambda>ns. (buffer_new 5 \<lparr>bc_limit = LimitMessages 3, bc_keep_messages = 1\<rparr>)\<lparr>bs_records := map memory_record ns\<rparr>"
  show ?thesis
    using buffer_replay_is_exact [of "?s [1, 9, 5]" 4 0] buffer_replay_is_exact [of "?s [1, 2, 3]" 4 1 2]
    by (simp add: Let_def word_less_nat_alt)
qed

end
