(* ===== verification/Lj_File_Spool.thy ===== *)
theory Lj_File_Spool
  imports Lj_Fs Lj_Buffer_Spool
begin

text \<open>
  \<^verbatim>\<open>FileSpool\<close> of \<^verbatim>\<open>logjetd/src/spool.rs\<close>: a directory of segment files, the
  last one open for append through a \<open>LogjetWriter\<close> and a \<open>BufWriter\<close>, rotation by size,
  retention by total size, and consumption through a persisted sequence number. Paths are file names
  inside the one directory of the spool, which travels inside the sink of the active writer. Preallocation
  and \<^verbatim>\<open>fsync\<close> do not change what a file contains and have no counterpart.
\<close>

section \<open>Segments\<close>

record segment_info =
  si_id :: u64
  si_path :: string

definition derive_base_stem :: "string \<Rightarrow> string" where
  "derive_base_stem file_name = (case strip_suffix ''.logjet'' file_name of Some s \<Rightarrow> s | None \<Rightarrow> file_name)"

definition parse_segment_id :: "string \<Rightarrow> string \<Rightarrow> u64 option" where
  "parse_segment_id name base_stem =
     (if name = base_stem @ ''.logjet'' then Some 0
      else
        let p = base_stem @ ''-''; suf = ''.logjet'' in
        if strip_prefix p name = None \<or> strip_suffix suf name = None then None
        else
          let v = take (length name - length p - length suf) (drop (length p) name)
          in case parse_u64 v of Inl _ \<Rightarrow> None | Inr n \<Rightarrow> Some n)"

definition segment_path :: "string \<Rightarrow> u64 \<Rightarrow> string" where
  "segment_path base_stem n =
     (if n = 0 then base_stem @ ''.logjet'' else base_stem @ ''-'' @ show_u64 n @ ''.logjet'')"

definition list_segments :: "dir \<Rightarrow> string \<Rightarrow> segment_info list" where
  "list_segments d base_stem =
     sort_key si_id (List.map_filter (\<lambda>(name, _).
       map_option (\<lambda>n. \<lparr>si_id = n, si_path = name\<rparr>) (parse_segment_id name base_stem)) d)"

definition to_io_error :: "error \<Rightarrow> io_error" where
  "to_io_error e = IoError InvalidData (error_display e)"

text \<open>\<^verbatim>\<open>while let Some(record) = reader.next_record()?\<close> up to the first record a predicate
  selects.\<close>

function find_record :: "extern \<Rightarrow> (owned_record \<Rightarrow> bool) \<Rightarrow> reader \<Rightarrow> error + owned_record option" where
  "find_record X P r =
     (case next_record X r of
        (Inl e, _) \<Rightarrow> Inl e
      | (Inr None, _) \<Rightarrow> Inr None
      | (Inr (Some x), r) \<Rightarrow> if P x then Inr (Some x) else find_record X P r)"
  by pat_completeness auto
termination
proof (relation "measures [\<lambda>(X, P, r). length (data (r_inner r)) - pos (r_inner r), \<lambda>(X, P, r). length (pending r)]",
    goal_cases)
  case (2 X P r res r' b x)
  from 2 next_record_progress [of X r res r'] show ?case by (auto simp: same_file_def)
qed simp

declare find_record.simps [simp del]

definition open_segment :: "dir \<Rightarrow> string \<Rightarrow> io_error + reader" where
  "open_segment d path =
     (case fs_read d path of
        None \<Rightarrow> Inl not_found
      | Some b \<Rightarrow> Inr (reader_with_config (dev_of b) reader_config_default))"

definition segment_records :: "extern \<Rightarrow> dir \<Rightarrow> string \<Rightarrow> io_error + owned_record list" where
  "segment_records X d path =
     and_then (open_segment d path) (\<lambda>r. map_sum to_io_error id (fst (read_records X r)))"

definition segment_max_seq :: "extern \<Rightarrow> dir \<Rightarrow> string \<Rightarrow> io_error + u64 option" where
  "segment_max_seq X d path =
     map_sum id (\<lambda>rs. if rs = [] then None else Some (seq (last rs))) (segment_records X d path)"

section \<open>State\<close>

record file_spool =
  fsp_base_stem :: string
  fsp_state_path :: string
  fsp_stream_id :: u64
  fsp_active_segment_id :: u64
  fsp_active_segment_path :: string
  fsp_active_writer :: "disk_writer writer"
  fsp_active_size_bytes :: nat
  fsp_segment_target_bytes :: nat
  fsp_fsync :: fsync_policy
  fsp_codec :: codec
  fsp_block_alignment :: nat
  fsp_max_total_bytes :: nat
  fsp_consumed_through_seq :: u64

record file_replay_cursor =
  fc_next_segment_id_hint :: u64
  fc_last_seq :: u64

definition spool_dir :: "file_spool \<Rightarrow> dir" where
  "spool_dir s = dw_dir (inner (fsp_active_writer s))"

definition set_sink :: "disk_writer \<Rightarrow> file_spool \<Rightarrow> file_spool" where
  "set_sink i s = s\<lparr>fsp_active_writer := (fsp_active_writer s)\<lparr>inner := i\<rparr>\<rparr>"

definition set_dir :: "dir \<Rightarrow> file_spool \<Rightarrow> file_spool" where
  "set_dir d s = set_sink ((inner (fsp_active_writer s))\<lparr>dw_dir := d\<rparr>) s"

section \<open>The active segment\<close>

definition spool_flush_block :: "extern \<Rightarrow> file_spool \<Rightarrow> (io_error + unit) \<times> file_spool" where
  "spool_flush_block X s =
     (case flush_block X dw_write_all (fsp_active_writer s) of
        (Inl e, w) \<Rightarrow> (Inl (to_io_error e), s\<lparr>fsp_active_writer := w\<rparr>)
      | (Inr _, w) \<Rightarrow> (Inr (), s\<lparr>fsp_active_writer := w\<rparr>))"

text \<open>\<^verbatim>\<open>inner_mut().flush()\<close>.\<close>

definition sink_flush :: "file_spool \<Rightarrow> file_spool" where
  "sink_flush s = set_sink (dw_flush (inner (fsp_active_writer s))) s"

definition refresh_active_size :: "file_spool \<Rightarrow> (io_error + unit) \<times> file_spool" where
  "refresh_active_size s =
     try_r (fs_metadata_len (fsp_active_segment_path s) (spool_dir s)) s (\<lambda>n.
     (Inr (), s\<lparr>fsp_active_size_bytes := n\<rparr>))"

definition segment_writer_config :: "codec \<Rightarrow> nat \<Rightarrow> writer_config" where
  "segment_writer_config c a = writer_config_default\<lparr>wc_codec := c, block_alignment := a\<rparr>"

text \<open>Opening the file at \<^verbatim>\<open>active_segment_path\<close> and replacing the active writer. The old
  \<^verbatim>\<open>BufWriter\<close> is dropped by the assignment and flushes what it still holds.\<close>

definition start_segment :: "file_spool \<Rightarrow> file_spool" where
  "start_segment s =
     (let old = inner (fsp_active_writer s);
          d = fs_open_append (fsp_active_segment_path s) (dw_dir old);
          d = (if dw_buf old = [] then d else fs_append (dw_file old) (dw_buf old) d)
      in s\<lparr>fsp_active_writer :=
             writer_with_config \<lparr>dw_dir = d, dw_file = fsp_active_segment_path s, dw_buf = []\<rparr>
               (segment_writer_config (fsp_codec s) (fsp_block_alignment s)),
           fsp_active_size_bytes := 0\<rparr>)"

definition segment_id_overflow :: io_error where
  "segment_id_overflow = invalid_data ''segment id overflow''"

definition next_segment :: "file_spool \<Rightarrow> (io_error + unit) \<times> file_spool" where
  "next_segment s =
     try_r (ok_or (checked_add (fsp_active_segment_id s) 1) segment_id_overflow) s (\<lambda>n.
     (Inr (), start_segment (s\<lparr>fsp_active_segment_id := n, fsp_active_segment_path := segment_path (fsp_base_stem s) n\<rparr>)))"

section \<open>Retention, rotation and append\<close>

primrec retention_loop :: "segment_info list \<Rightarrow> nat \<Rightarrow> file_spool \<Rightarrow> (io_error + unit) \<times> file_spool" where
  "retention_loop [] excess s = (Inr (), s)"
| "retention_loop (segment # segments) excess s =
     (if excess = 0 \<or> si_id segment = fsp_active_segment_id s then (Inr (), s)
      else
        let sz = (case fs_metadata_len (si_path segment) (spool_dir s) of Inl _ \<Rightarrow> 0 | Inr n \<Rightarrow> n) in
        case fs_remove_file (si_path segment) (spool_dir s) of
          (Inl e, d) \<Rightarrow> (Inl e, set_dir d s)
        | (Inr _, d) \<Rightarrow> retention_loop segments (excess - sz) (set_dir d s))"

definition total_bytes :: "segment_info list \<Rightarrow> dir \<Rightarrow> nat" where
  "total_bytes segments d =
     sum_list (List.map_filter (\<lambda>segment. case fs_metadata_len (si_path segment) d of Inl _ \<Rightarrow> None | Inr n \<Rightarrow> Some n) segments)"

definition enforce_retention :: "file_spool \<Rightarrow> (io_error + unit) \<times> file_spool" where
  "enforce_retention s =
     (if fsp_max_total_bytes s = 0 then (Inr (), s)
      else
        let segments = list_segments (spool_dir s) (fsp_base_stem s);
            total = total_bytes segments (spool_dir s)
        in if total \<le> fsp_max_total_bytes s then (Inr (), s)
           else retention_loop segments (total - fsp_max_total_bytes s) s)"

definition rotate_segment :: "extern \<Rightarrow> file_spool \<Rightarrow> (io_error + unit) \<times> file_spool" where
  "rotate_segment X s =
     try_st (spool_flush_block X s) (\<lambda>_ s.
     try_st (refresh_active_size (sink_flush s)) (\<lambda>_ s.
     try_st (next_segment s) (\<lambda>_ s.
     enforce_retention s)))"

definition file_append :: "extern \<Rightarrow> wire_record \<Rightarrow> file_spool \<Rightarrow> (io_error + unit) \<times> file_spool" where
  "file_append X record s =
     try_st (if fsp_active_size_bytes s \<ge> fsp_segment_target_bytes s \<and> fsp_active_size_bytes s > 0
             then rotate_segment X s else (Inr (), s)) (\<lambda>_ s.
     case push X dw_write_all (record_type record) (seq record) (ts_unix_ns record) (payload record) (fsp_active_writer s) of
       (Inl e, w) \<Rightarrow> (Inl (to_io_error e), s\<lparr>fsp_active_writer := w\<rparr>)
     | (Inr _, w) \<Rightarrow>
         try_st (refresh_active_size (s\<lparr>fsp_active_writer := w\<rparr>)) (\<lambda>_ s.
         let effective_size = fsp_active_size_bytes s + pending_bytes (fsp_active_writer s) in
         if effective_size \<ge> fsp_segment_target_bytes s then rotate_segment X s else (Inr (), s)))"

definition flush_pending :: "extern \<Rightarrow> file_spool \<Rightarrow> (io_error + unit) \<times> file_spool" where
  "flush_pending X s =
     try_st (spool_flush_block X s) (\<lambda>_ s. refresh_active_size (sink_flush s))"

definition fsync_if_interval :: "file_spool \<Rightarrow> (io_error + unit) \<times> file_spool" where
  "fsync_if_interval s = (if fsp_fsync s = FsyncInterval then (Inr (), sink_flush s) else (Inr (), s))"

definition drop_spool :: "extern \<Rightarrow> file_spool \<Rightarrow> dir" where
  "drop_spool X s =
     (case spool_flush_block X s of
        (Inl _, s) \<Rightarrow> dw_dir (dw_flush (inner (fsp_active_writer s)))
      | (Inr _, s) \<Rightarrow> spool_dir (sink_flush s))"

section \<open>Consumption\<close>

definition advance_empty_active_segment :: "extern \<Rightarrow> file_spool \<Rightarrow> (io_error + unit) \<times> file_spool" where
  "advance_empty_active_segment X s =
     try_st (spool_flush_block X s) (\<lambda>_ s.
     let old_path = fsp_active_segment_path s in
     try_st (next_segment s) (\<lambda>_ s.
     if fs_read (spool_dir s) old_path \<noteq> None
     then (case fs_remove_file old_path (spool_dir s) of
             (Inl e, d) \<Rightarrow> (Inl e, set_dir d s)
           | (Inr _, d) \<Rightarrow> (Inr (), set_dir d s))
     else (Inr (), s)))"

primrec cleanup_loop :: "extern \<Rightarrow> segment_info list \<Rightarrow> file_spool \<Rightarrow> (io_error + unit) \<times> file_spool" where
  "cleanup_loop X [] s = (Inr (), s)"
| "cleanup_loop X (segment # segments) s =
     try_r (segment_max_seq X (spool_dir s) (si_path segment)) s (\<lambda>m.
     case m of
       None \<Rightarrow> cleanup_loop X segments s
     | Some max_seq \<Rightarrow>
         if max_seq > fsp_consumed_through_seq s then cleanup_loop X segments s
         else if si_id segment = fsp_active_segment_id s
         then try_st (advance_empty_active_segment X s) (\<lambda>_ s. cleanup_loop X segments s)
         else (case fs_remove_file (si_path segment) (spool_dir s) of
                 (Inl e, d) \<Rightarrow> (Inl e, set_dir d s)
               | (Inr _, d) \<Rightarrow> cleanup_loop X segments (set_dir d s)))"

definition cleanup_consumed_segments :: "extern \<Rightarrow> file_spool \<Rightarrow> (io_error + unit) \<times> file_spool" where
  "cleanup_consumed_segments X s = cleanup_loop X (list_segments (spool_dir s) (fsp_base_stem s)) s"

definition write_consumed_state :: "string \<Rightarrow> u64 \<Rightarrow> dir \<Rightarrow> dir" where
  "write_consumed_state path n d = fs_put path (to_text (show_u64 n)) d"

definition parse_stored_u64 :: "string \<Rightarrow> string \<Rightarrow> io_error + u64" where
  "parse_stored_u64 m text =
     map_sum (\<lambda>e. invalid_data (m @ parse_int_error_display e)) id (parse_u64 (trim text))"

definition read_consumed_state :: "string \<Rightarrow> dir \<Rightarrow> io_error + u64" where
  "read_consumed_state path d =
     (if fs_read d path = None then Inr 0
      else and_then (fs_read_to_string path d) (parse_stored_u64 ''invalid consumed state: ''))"

definition read_or_create_stream_id :: "u64 \<Rightarrow> string \<Rightarrow> dir \<Rightarrow> (io_error + u64) \<times> dir" where
  "read_or_create_stream_id generated path d =
     (if fs_read d path \<noteq> None
      then (and_then (fs_read_to_string path d) (parse_stored_u64 ''invalid stream id: ''), d)
      else (Inr generated, fs_put path (to_text (show_u64 generated)) d))"

definition file_consume_through :: "extern \<Rightarrow> u64 \<Rightarrow> file_spool \<Rightarrow> (io_error + unit) \<times> file_spool" where
  "file_consume_through X n s =
     (if n \<le> fsp_consumed_through_seq s then (Inr (), s)
      else
        let s = s\<lparr>fsp_consumed_through_seq := n\<rparr>;
            s = set_dir (write_consumed_state (fsp_state_path s) n (spool_dir s)) s
        in cleanup_consumed_segments X s)"

section \<open>Opening\<close>

definition choose_active :: "dir \<Rightarrow> segment_info list \<Rightarrow> string \<Rightarrow> nat \<Rightarrow> io_error + u64 \<times> string \<times> nat" where
  "choose_active d segments base_stem target =
     (case segments of
        [] \<Rightarrow> Inr (0, segment_path base_stem 0, 0)
      | seg # segs \<Rightarrow>
          let segment = last (seg # segs) in
          and_then (fs_metadata_len (si_path segment) d) (\<lambda>sz.
          if sz < target then Inr (si_id segment, si_path segment, sz)
          else and_then (ok_or (checked_add (si_id segment) 1) segment_id_overflow) (\<lambda>n.
               Inr (n, segment_path base_stem n, 0))))"

definition file_spool_open ::
    "extern \<Rightarrow> u64 \<Rightarrow> file_config \<Rightarrow> dir \<Rightarrow> (io_error + file_spool) \<times> dir" where
  "file_spool_open X generated cfg d =
     (let base_stem = derive_base_stem (fc_name cfg);
          state_path = base_stem @ ''.state'';
          target = unat (fc_segment_size_bytes cfg);
          segments = list_segments d base_stem
      in try_r (read_consumed_state state_path d) d (\<lambda>consumed.
         try_st (read_or_create_stream_id generated (base_stem @ ''.stream-id'') d) (\<lambda>stream_id d.
         try_r (choose_active d segments base_stem target) d (\<lambda>(active_id, path, sz).
         let d = fs_open_append path d;
             s = \<lparr>fsp_base_stem = base_stem, fsp_state_path = state_path, fsp_stream_id = stream_id,
                  fsp_active_segment_id = active_id, fsp_active_segment_path = path,
                  fsp_active_writer = writer_with_config \<lparr>dw_dir = d, dw_file = path, dw_buf = []\<rparr>
                    (segment_writer_config (fc_codec cfg) (fc_block_alignment cfg)),
                  fsp_active_size_bytes = sz, fsp_segment_target_bytes = target, fsp_fsync = fc_fsync cfg,
                  fsp_codec = fc_codec cfg, fsp_block_alignment = fc_block_alignment cfg,
                  fsp_max_total_bytes = unat (fc_max_total_bytes cfg), fsp_consumed_through_seq = consumed\<rparr>
         in (case cleanup_consumed_segments X s of
               (Inl e, s) \<Rightarrow> (Inl e, drop_spool X s)
             | (Inr _, s) \<Rightarrow> (Inr s, spool_dir s))))))"

section \<open>Replay\<close>

definition file_replay_cursor_after :: "file_spool \<Rightarrow> u64 \<Rightarrow> file_replay_cursor" where
  "file_replay_cursor_after s n = \<lparr>fc_next_segment_id_hint = 0, fc_last_seq = n\<rparr>"

primrec next_in_segments ::
    "extern \<Rightarrow> dir \<Rightarrow> u64 \<Rightarrow> segment_info list \<Rightarrow> file_replay_cursor \<Rightarrow> (io_error + wire_record option) \<times> file_replay_cursor"
  where
  "next_in_segments X d floor_seq [] c = (Inr None, c)"
| "next_in_segments X d floor_seq (segment # segments) c =
     (if si_id segment < fc_next_segment_id_hint c then next_in_segments X d floor_seq segments c
      else
        try_r (open_segment d (si_path segment)) c (\<lambda>r.
        try_r (map_sum to_io_error id (find_record X (\<lambda>x. \<not> seq x \<le> floor_seq) r)) c (\<lambda>found.
        case found of
          Some x \<Rightarrow> (Inr (Some x), \<lparr>fc_next_segment_id_hint = si_id segment, fc_last_seq = seq x\<rparr>)
        | None \<Rightarrow> next_in_segments X d floor_seq segments (c\<lparr>fc_next_segment_id_hint := si_id segment\<rparr>))))"

definition file_next_for_cursor ::
    "extern \<Rightarrow> file_spool \<Rightarrow> file_replay_cursor \<Rightarrow> (io_error + wire_record option) \<times> file_replay_cursor" where
  "file_next_for_cursor X s c =
     next_in_segments X (spool_dir s) (max (fc_last_seq c) (fsp_consumed_through_seq s))
       (list_segments (spool_dir s) (fsp_base_stem s)) c"

primrec bounds_loop ::
    "extern \<Rightarrow> dir \<Rightarrow> u64 \<Rightarrow> segment_info list \<Rightarrow> (u64 option \<times> u64 option) \<Rightarrow> io_error + (u64 option \<times> u64 option)" where
  "bounds_loop X d consumed [] b = Inr b"
| "bounds_loop X d consumed (segment # segments) b =
     and_then (segment_records X d (si_path segment)) (\<lambda>rs.
     bounds_loop X d consumed segments
       (fold (\<lambda>x (first_seq, last_seq).
          if seq x \<le> consumed then (first_seq, last_seq)
          else (if first_seq = None then Some (seq x) else first_seq, Some (seq x))) rs b))"

definition file_sequence_bounds :: "extern \<Rightarrow> file_spool \<Rightarrow> io_error + (u64 \<times> u64) option" where
  "file_sequence_bounds X s =
     map_sum id (\<lambda>b. case b of (Some f, Some l) \<Rightarrow> Some (f, l) | _ \<Rightarrow> None)
       (bounds_loop X (spool_dir s) (fsp_consumed_through_seq s) (list_segments (spool_dir s) (fsp_base_stem s)) (None, None))"

end
