(* ===== verification/Lj_File_Replay.thy ===== *)
theory Lj_File_Replay
  imports Lj_File_Spool
begin

text \<open>
  Reading the segments of a file spool. The listing of a directory is ordered by segment number; what a segment
  file holds is the reference reading \<open>file_records\<close> of its bytes; and the spool is an interpretation of the
  \<open>replay_store\<close> interface, so that a replay session over the directory is exact.
\<close>

section \<open>Names and listings\<close>

lemma strip_suffix_none_iff: "strip_suffix p s \<noteq> None \<longleftrightarrow> (\<exists>r. s = r @ p)"
  using strip_suffix_Some_iff [of p s] by (metis not_Some_eq)

lemma parse_segment_path [simp]: "parse_segment_id (segment_path stem n) stem = Some n"
proof (cases "n = 0")
  case False
  have "strip_suffix ''.logjet'' ((stem @ ''-'' @ show_u64 n) @ ''.logjet'') = Some (stem @ ''-'' @ show_u64 n)"
    by (rule strip_suffix_append)
  moreover have "strip_prefix (stem @ ''-'') ((stem @ ''-'') @ (show_u64 n @ ''.logjet'')) = Some (show_u64 n @ ''.logjet'')"
    by (rule strip_prefix_append)
  ultimately show ?thesis using False by (simp add: parse_segment_id_def segment_path_def)
qed (simp add: parse_segment_id_def segment_path_def)

lemma segment_path_inj: "segment_path stem m = segment_path stem n \<Longrightarrow> m = n"
  by (metis option.inject parse_segment_path)

lemma in_list_segments:
  "seg \<in> set (list_segments d stem) \<longleftrightarrow> (si_path seg \<in> fst ` set d \<and> parse_segment_id (si_path seg) stem = Some (si_id seg))"
  by (cases seg) (force simp: list_segments_def List.map_filter_def image_iff split: option.splits)

lemma list_segments_sorted: "sorted (map si_id (list_segments d stem))"
  by (simp add: list_segments_def)

lemma list_segments_exists: "seg \<in> set (list_segments d stem) \<Longrightarrow> fs_read d (si_path seg) \<noteq> None"
  by (simp add: in_list_segments fs_read_None_iff)

text \<open>Adding content to a listed file, or a file that is no segment, does not change the listing.\<close>

lemma list_segments_names: "map fst d = map fst d' \<Longrightarrow> list_segments d stem = list_segments d' stem"
proof -
  have e: "List.map_filter (\<lambda>(name, _). map_option (\<lambda>n. \<lparr>si_id = n, si_path = name\<rparr>) (parse_segment_id name stem)) e
      = List.map_filter (\<lambda>name. map_option (\<lambda>n. \<lparr>si_id = n, si_path = name\<rparr>) (parse_segment_id name stem)) (map fst e)" for e :: dir
    by (induction e) (auto simp: List.map_filter_def)
  show "map fst d = map fst d' \<Longrightarrow> ?thesis" by (simp only: list_segments_def e)
qed

section \<open>Reading a segment\<close>

definition file_records :: "extern \<Rightarrow> bytes \<Rightarrow> owned_record list" where
  "file_records X bs = block_records (blocks_from X reader_config_default bs 0)"

lemma default_first_unique [simp]: "first_unique (rc_sync_marker reader_config_default)"
  by (simp add: reader_config_default_def DEFAULT_SYNC_MARKER_def first_unique_def)

lemma segment_records_spec:
  assumes "fs_read d path = Some bs" and "length bs < 2 ^ 32"
  shows "segment_records X d path = Inr (file_records X bs)"
  using read_file_spec [OF default_first_unique assms(2), of X] assms(1)
  by (auto simp: segment_records_def open_segment_def file_records_def)

lemma map_sum_Inr: "map_sum f g x = Inr y \<longleftrightarrow> (\<exists>z. x = Inr z \<and> y = g z)"
  by (cases x) auto

lemma find_record_read:
  "read_records X r = (Inr rs, r') \<Longrightarrow> find_record X P r = Inr (List.find P rs)"
proof (induction X P r arbitrary: rs r' rule: find_record.induct)
  case (1 X P r)
  show ?case
    using 1 by (subst find_record.simps) (auto simp: read_records.simps [of X r] apfst_def map_prod_def map_sum_Inr split: prod.splits sum.splits option.splits)
qed

lemma find_record_spec:
  assumes "fs_read d path = Some bs" and "length bs < 2 ^ 32" and "open_segment d path = Inr r"
  shows "find_record X P r = Inr (List.find P (file_records X bs))"
  using read_file_spec [OF default_first_unique assms(2), of X] assms(1,3)
  by (auto simp: open_segment_def file_records_def intro: find_record_read)

section \<open>Replaying the directory\<close>

text \<open>What the segments of a directory hold, in the order of their numbers.\<close>

definition segment_contents :: "extern \<Rightarrow> dir \<Rightarrow> segment_info \<Rightarrow> owned_record list" where
  "segment_contents X d seg = file_records X (the (fs_read d (si_path seg)))"

definition disk_records :: "extern \<Rightarrow> dir \<Rightarrow> string \<Rightarrow> owned_record list" where
  "disk_records X d stem = concat (map (segment_contents X d) (list_segments d stem))"

definition readable :: "dir \<Rightarrow> segment_info list \<Rightarrow> bool" where
  "readable d segs \<longleftrightarrow> (\<forall>seg\<in>set segs. \<exists>bs. fs_read d (si_path seg) = Some bs \<and> length bs < 2 ^ 32)"

lemma find_append: "List.find P (xs @ ys) = (case List.find P xs of None \<Rightarrow> List.find P ys | Some x \<Rightarrow> Some x)"
  by (induction xs) auto

lemma next_in_segments_spec:
  assumes "readable d segs" and "sorted (map si_id segs)"
  shows "case List.find (\<lambda>x. \<not> seq x \<le> n) (concat (map (segment_contents X d) (filter (\<lambda>seg. fc_next_segment_id_hint c \<le> si_id seg) segs))) of
      None \<Rightarrow> \<exists>h. next_in_segments X d n segs c = (Inr None, c\<lparr>fc_next_segment_id_hint := h\<rparr>)
    | Some x \<Rightarrow> \<exists>seg\<in>set segs. fc_next_segment_id_hint c \<le> si_id seg \<and> x \<in> set (segment_contents X d seg) \<and>
        next_in_segments X d n segs c = (Inr (Some x), \<lparr>fc_next_segment_id_hint = si_id seg, fc_last_seq = seq x\<rparr>)"
  using assms
proof (induction segs arbitrary: c)
  case Nil
  show ?case by (simp, rule exI [of _ "fc_next_segment_id_hint c"]) simp
next
  case (Cons seg segs)
  note IH = Cons.IH [of c] Cons.IH [of "c\<lparr>fc_next_segment_id_hint := si_id seg\<rparr>"]
  have rd: "readable d segs" "sorted (map si_id segs)" using Cons.prems by (auto simp: readable_def)
  show ?case
  proof (cases "si_id seg < fc_next_segment_id_hint c")
    case True
    then show ?thesis using IH(1) rd by (auto split: option.splits)
  next
    case False
    then have le: "fc_next_segment_id_hint c \<le> si_id seg" by simp
    obtain bs where bs: "fs_read d (si_path seg) = Some bs" "length bs < 2 ^ 32" using Cons.prems(1) by (auto simp: readable_def)
    obtain r where r: "open_segment d (si_path seg) = Inr r" using bs by (simp add: open_segment_def)
    note f = find_record_spec [OF bs r, of X]
    have c: "segment_contents X d seg = file_records X bs" using bs by (simp add: segment_contents_def)
    have all: "filter (\<lambda>s. fc_next_segment_id_hint c \<le> si_id s) segs = segs" "filter (\<lambda>s. si_id seg \<le> si_id s) segs = segs"
      using False Cons.prems(2) by (auto simp: filter_id_conv)
    show ?thesis
    proof (cases "List.find (\<lambda>x. \<not> seq x \<le> n) (file_records X bs)")
      case (Some x)
      then have "x \<in> set (file_records X bs)" by (auto simp: find_Some_iff)
      then show ?thesis using Some False le r f c by (simp add: find_append)
    next
      case None
      then have step: "next_in_segments X d n (seg # segs) c = next_in_segments X d n segs (c\<lparr>fc_next_segment_id_hint := si_id seg\<rparr>)"
        using False r f by simp
      have le': "seg' \<in> set segs \<Longrightarrow> fc_next_segment_id_hint c \<le> si_id seg'" for seg'
        using all(1) by (simp add: filter_id_conv)
      show ?thesis
      proof (cases "List.find (\<lambda>x. \<not> seq x \<le> n) (concat (map (segment_contents X d) segs))")
        case (Some x)
        then obtain seg' where "seg' \<in> set segs" "x \<in> set (segment_contents X d seg')"
            "next_in_segments X d n segs (c\<lparr>fc_next_segment_id_hint := si_id seg\<rparr>)
              = (Inr (Some x), \<lparr>fc_next_segment_id_hint = si_id seg', fc_last_seq = seq x\<rparr>)"
          using IH(2) rd all by auto
        then show ?thesis using Some None c le step all le' by (auto simp: find_append simp del: next_in_segments.simps)
      next
        case None': None
        then obtain h where "next_in_segments X d n segs (c\<lparr>fc_next_segment_id_hint := si_id seg\<rparr>) = (Inr None, c\<lparr>fc_next_segment_id_hint := h\<rparr>)"
          using IH(2) rd all by auto
        then show ?thesis using None' None c le step all by (auto simp: find_append simp del: next_in_segments.simps)
      qed
    qed
  qed
qed

lemma parse_state_file: "x \<noteq> ''logjet'' \<Longrightarrow> parse_segment_id (stem @ CHR ''.'' # x) stem = None"
  using strip_prefix_Some_iff [of "stem @ ''-''" "stem @ CHR ''.'' # x"]
  by (cases "strip_prefix (stem @ ''-'') (stem @ CHR ''.'' # x)") (auto simp: parse_segment_id_def)

lemma file_records_Nil [simp]: "file_records X [] = []"
  using blocks_from_end [of X reader_config_default "[]"] by (simp add: file_records_def block_records_def)

lemma segment_max_seq_spec:
  assumes "readable d segs" and "seg \<in> set segs"
  shows "segment_max_seq X d (si_path seg) =
    Inr (if segment_contents X d seg = [] then None else Some (seq (last (segment_contents X d seg))))"
  using assms segment_records_spec [of d "si_path seg" _ X]
  by (auto simp: readable_def segment_max_seq_def segment_contents_def)

lemma segment_config_simps [simp]:
  "wc_codec (segment_writer_config c a) = c" "block_target_size (segment_writer_config c a) = DEFAULT_BLOCK_TARGET_SIZE"
  by (simp_all add: segment_writer_config_def writer_config_default_def)

lemma segment_compatible: "L \<le> DEFAULT_MAX_BLOCK_SIZE \<Longrightarrow> compatible (segment_writer_config c a) L reader_config_default"
  by (simp add: compatible_def segment_writer_config_def writer_config_default_def reader_config_default_def
      DEFAULT_SYNC_MARKER_def first_unique_def)

text \<open>A file that is a log of whole blocks reads as the records of those blocks.\<close>

lemma log_file_records:
  assumes "codecs_ok X" and "codec_total X c L M" and "L \<le> DEFAULT_MAX_BLOCK_SIZE" and "M \<le> DEFAULT_MAX_BLOCK_SIZE"
    and "log_file X (segment_writer_config c a) L rss bs"
  shows "file_records X bs = concat rss"
proof -
  let ?wc = "segment_writer_config c a"
  note com = segment_compatible [OF assms(3), of c a]
  from assms(5) obtain imgs where i: "list_all2 (is_block X ?wc L) rss imgs" "bs = file_image ?wc imgs"
    by (auto simp: log_file_def)
  have "\<forall>img\<in>set imgs. length img \<le> 52 + max_compressed_len reader_config_default"
    by (rule images_bounded [OF i(1) _ com, of M]) (use assms(2,4) in \<open>simp_all add: reader_config_default_def\<close>)
  from blocks_from_file [OF assms(1) com i(1) this, of 0 bs "[]" "[]"] i(2)
  show ?thesis by (auto simp: file_records_def blocks_from_end)
qed

text \<open>A cursor is in step with the directory when the segments its hint skips hold nothing above it.\<close>

definition file_ok :: "extern \<Rightarrow> file_spool \<Rightarrow> bool" where
  "file_ok X s \<longleftrightarrow> readable (spool_dir s) (list_segments (spool_dir s) (fsp_base_stem s)) \<and>
     seq_sorted (disk_records X (spool_dir s) (fsp_base_stem s))"

definition file_stored :: "extern \<Rightarrow> file_spool \<Rightarrow> owned_record list" where
  "file_stored X s = after (fsp_consumed_through_seq s) (disk_records X (spool_dir s) (fsp_base_stem s))"

definition file_cursor_ok :: "extern \<Rightarrow> file_spool \<Rightarrow> file_replay_cursor \<Rightarrow> bool" where
  "file_cursor_ok X s c \<longleftrightarrow>
     (\<forall>seg\<in>set (list_segments (spool_dir s) (fsp_base_stem s)). si_id seg < fc_next_segment_id_hint c \<longrightarrow>
        (\<forall>x\<in>set (segment_contents X (spool_dir s) seg). seq x \<le> max (fc_last_seq c) (fsp_consumed_through_seq s)))"

lemma after_after: "after m (after n rs) = after (max m n) rs"
  by (auto simp: after_def intro: filter_cong)

lemma seq_sorted_after: "seq_sorted rs \<Longrightarrow> seq_sorted (after n rs)"
  by (simp add: seq_sorted_def after_def sorted_wrt_filter)

lemma find_filter: "List.find P xs = (case filter P xs of [] \<Rightarrow> None | x # _ \<Rightarrow> Some x)"
  by (induction xs) auto

lemma sorted_concat_earlier:
  assumes "seq_sorted (concat (map f segs))" and "sorted (map si_id segs)" and "seg \<in> set segs" "seg' \<in> set segs"
    and "si_id seg < si_id seg'" and "x \<in> set (f seg)" "y \<in> set (f seg')"
  shows "seq x < seq y"
  using assms
  by (induction segs) (auto simp: seq_sorted_def sorted_wrt_append)

lemma file_next_spec:
  assumes "file_ok X s" and "file_cursor_ok X s c"
  shows "case after (fc_last_seq c) (file_stored X s) of
      [] \<Rightarrow> \<exists>c'. file_next_for_cursor X s c = (Inr None, c')
    | r # _ \<Rightarrow> \<exists>c'. file_next_for_cursor X s c = (Inr (Some r), c') \<and> fc_last_seq c' = seq r \<and> file_cursor_ok X s c'"
proof -
  let ?d = "spool_dir s" and ?segs = "list_segments (spool_dir s) (fsp_base_stem s)"
  let ?n = "max (fc_last_seq c) (fsp_consumed_through_seq s)"
  let ?P = "\<lambda>x. \<not> seq x \<le> ?n"
  have srt: "seq_sorted (concat (map (segment_contents X ?d) ?segs))" and rd: "readable ?d ?segs"
    using assms(1) by (simp_all add: file_ok_def disk_records_def)
  have skip: "filter ?P (concat (map (segment_contents X ?d) (filter (\<lambda>seg. fc_next_segment_id_hint c \<le> si_id seg) segs)))
      = filter ?P (concat (map (segment_contents X ?d) segs))" if "set segs \<subseteq> set ?segs" for segs
    using that assms(2)
  proof (induction segs)
    case (Cons seg segs)
    then have "filter ?P (segment_contents X ?d seg) = []" if "\<not> fc_next_segment_id_hint c \<le> si_id seg"
      using that by (auto simp: file_cursor_ok_def filter_empty_conv)
    with Cons show ?case by (simp add: filter_concat [symmetric])
  qed simp
  have aft: "after (fc_last_seq c) (file_stored X s) = filter ?P (concat (map (segment_contents X ?d) ?segs))"
    by (simp add: file_stored_def after_after disk_records_def) (simp add: after_def not_le)
  have cur: "file_cursor_ok X s \<lparr>fc_next_segment_id_hint = si_id seg, fc_last_seq = seq x\<rparr>"
    if "seg \<in> set ?segs" "x \<in> set (segment_contents X ?d seg)" for seg x
    using sorted_concat_earlier [OF srt list_segments_sorted _ that(1) _ _ that(2)]
    by (fastforce simp: file_cursor_ok_def le_max_iff_disj)
  show ?thesis
    using next_in_segments_spec [OF rd list_segments_sorted, of X ?n c] cur
    by (auto simp: aft find_filter skip [OF order_refl] file_next_for_cursor_def split: list.splits)
qed

interpretation filespool: replay_store "file_ok X" "file_stored X" file_replay_cursor_after "file_next_for_cursor X"
  fc_last_seq "file_cursor_ok X" for X
proof
  show "seq_sorted (file_stored X s)" if "file_ok X s" for s
    using that by (simp add: file_ok_def file_stored_def seq_sorted_after)
qed (simp_all add: file_next_spec file_replay_cursor_after_def file_cursor_ok_def)

section \<open>Replay is exact\<close>

text \<open>A directory with one small log, for the concrete instances.\<close>

definition sample_spool :: "bytes \<Rightarrow> file_spool" where
  "sample_spool bs =
     \<lparr>fsp_base_stem = ''a'', fsp_state_path = ''a.state'', fsp_stream_id = 7, fsp_active_segment_id = 0,
      fsp_active_segment_path = ''a.logjet'',
      fsp_active_writer = writer_with_config \<lparr>dw_dir = [(''a.logjet'', bs)], dw_file = ''a.logjet'', dw_buf = []\<rparr>
        (segment_writer_config CodecNone 0),
      fsp_active_size_bytes = length bs, fsp_segment_target_bytes = 1000000, fsp_fsync = FsyncNone,
      fsp_codec = CodecNone, fsp_block_alignment = 0, fsp_max_total_bytes = 0, fsp_consumed_through_seq = 0\<rparr>"

lemma sample_spool_segments:
  "spool_dir (sample_spool bs) = [(''a.logjet'', bs)]"
  "list_segments [(''a.logjet'', bs)] ''a'' = [\<lparr>si_id = 0, si_path = ''a.logjet''\<rparr>]"
  "fs_read [(''a.logjet'', bs)] ''a.logjet'' = Some bs"
  by (simp_all add: sample_spool_def spool_dir_def writer_with_config_def list_segments_def map_filter_simps parse_segment_id_def fs_read_def)

lemma small_log:
  assumes "sorted_wrt record_le rs" and "\<forall>r\<in>set rs. length (payload r) \<le> 3" and "length rs \<le> 2"
  obtains bs rss where "log_file identity_extern (segment_writer_config CodecNone 0) 65536 rss bs" "concat rss = rs"
    "length bs < 2 ^ 32" "file_records identity_extern bs = rs"
proof -
  let ?wc = "segment_writer_config CodecNone 0"
  have t: "codec_total identity_extern (wc_codec ?wc) 65536 65536" by simp
  have p: "\<forall>r\<in>set rs. 31 + length (payload r) \<le> 65536" using assms(2) by fastforce
  obtain bs where bs: "write_log identity_extern ?wc rs = Inr bs"
    using write_log_total [OF t, of rs] assms(1) p by (auto simp: DEFAULT_BLOCK_TARGET_SIZE_def)
  obtain rss where l: "log_file identity_extern ?wc 65536 rss bs" "concat rss = rs"
    using write_log_log [OF bs, of 65536] p by (auto simp: DEFAULT_BLOCK_TARGET_SIZE_def)
  then obtain imgs where i: "bs = file_image ?wc imgs" "list_all2 (is_block identity_extern ?wc 65536) rss imgs"
    by (auto simp: log_file_def)
  have "length bs \<le> length (concat rss) * (52 + 65536)"
    unfolding i(1) using segment_compatible [of 65536 CodecNone 0]
    by (intro log_file_length [OF t _ _ i(2)]) (simp_all add: compatible_def segment_writer_config_def writer_config_default_def DEFAULT_MAX_BLOCK_SIZE_def)
  also have "\<dots> \<le> 2 * (52 + 65536)" using assms(3) l(2) by (intro mult_le_mono1) simp
  finally have "length bs < 2 ^ 32" by simp
  moreover have "file_records identity_extern bs = rs"
    using log_file_records [OF identity_codecs identity_total _ _ l(1)] l(2) by (simp add: DEFAULT_MAX_BLOCK_SIZE_def)
  ultimately show thesis using that l by blast
qed

lemma sample_spool_ok:
  assumes "file_records identity_extern bs = rs" and "length bs < 2 ^ 32" and "seq_sorted rs"
  shows "file_ok identity_extern (sample_spool bs)"
    and "disk_records identity_extern (spool_dir (sample_spool bs)) (fsp_base_stem (sample_spool bs)) = rs"
  using assms by (simp_all add: file_ok_def sample_spool_segments readable_def disk_records_def segment_contents_def)
    (simp_all add: sample_spool_def sample_spool_segments readable_def disk_records_def segment_contents_def)

text \<open>C12. A replay session over the segment files delivers exactly the records of the directory that are above
  both the starting point and what was consumed, in the order of the segments, each once, and then reports the
  end. The directory may span any number of segments; its files are below 4 GiB and its records ordered by
  sequence number.\<close>

theorem file_replay_is_exact:
  assumes "file_ok X s"
    and "length (disk_records X (spool_dir s) (fsp_base_stem s)) < k"
  shows "\<exists>c. replay_n (file_next_for_cursor X) k s (file_replay_cursor_after s n)
    = (Inr (after (max n (fsp_consumed_through_seq s)) (disk_records X (spool_dir s) (fsp_base_stem s))), c)"
proof -
  have "length (file_stored X s) < k"
    using assms(2) by (simp add: file_stored_def after_def le_less_trans [OF length_filter_le])
  from filespool.replay_from [OF assms(1) this, of n] show ?thesis by (simp add: file_stored_def after_after)
qed

theorem file_replay_is_exact_witness:
  "\<exists>s c. file_ok identity_extern s \<and>
     replay_n (file_next_for_cursor identity_extern) 3 s (file_replay_cursor_after s 1) = (Inr [sample_records ! 1], c)"
proof -
  obtain bs where bs: "length bs < 2 ^ 32" "file_records identity_extern bs = sample_records"
    by (rule small_log [of sample_records]) (simp_all add: sample_records_simps)
  have srt: "seq_sorted sample_records" by (simp add: seq_sorted_def sample_records_def)
  note ok = sample_spool_ok [OF bs(2,1) srt]
  have "after 1 sample_records = [sample_records ! 1]" by (simp add: after_def sample_records_def)
  moreover have "fsp_consumed_through_seq (sample_spool bs) = 0" by (simp add: sample_spool_def)
  ultimately show ?thesis
    using file_replay_is_exact [OF ok(1), of 3 1] ok by (auto simp: sample_records_simps)
qed

end
