(* ===== verification/Lj_File_Append.thy ===== *)
theory Lj_File_Append
  imports Lj_File_Replay
begin

text \<open>
  Writing to a file spool. \<open>spool_holds\<close> is the abstraction of the closed segments, the active file, the
  \<^verbatim>\<open>BufWriter\<close> and the open block as one list of records; append adds one record at its end, and
  flushing and rotation do not change it. A spool that was flushed has all of it on disk.
\<close>

section \<open>What a writer leaves alone\<close>

text \<open>A property of the sink that every write preserves holds across the operations of the writer.\<close>

locale sink_invariant =
  fixes write_all :: "'w write_all"
    and I :: "'w \<Rightarrow> bool"
  assumes write_inv: "I s \<Longrightarrow> I (snd (write_all bs s))"
begin

lemma write_inv': "I s \<Longrightarrow> write_all bs s = (r, s') \<Longrightarrow> I s'"
  using write_inv [of s bs] by simp

lemma flush_block_inv: "I (inner w) \<Longrightarrow> flush_block X write_all w = (r, w') \<Longrightarrow> I (inner w')"
  by (auto simp: flush_block_def Let_def reset_block_state_def intro: write_inv' split: if_splits option.splits sum.splits prod.splits)

lemma push_append_inv: "I (inner w) \<Longrightarrow> push_append X write_all w = (r, w') \<Longrightarrow> I (inner w')"
  by (auto simp: push_append_def Let_def intro: flush_block_inv [rotated] split: if_splits option.splits)

lemma push_inv:
  assumes "I (inner w)" and "push X write_all t sq ts pl w = (r, w')"
  shows "I (inner w')"
proof -
  obtain w1 b u where op: "open_block sq ts (w\<lparr>encoded_record_buf := []\<rparr>) = (w1, b, u)" by (metis surj_pair)
  have i: "I (inner w1)" using assms(1) open_block_frame(2) [OF op] by simp
  have fl: "flush_block X write_all (w1\<lparr>encoded_record_buf := e\<rparr>) = (q, w2) \<Longrightarrow> I (inner w2)" for e q w2
    using flush_block_inv [of "w1\<lparr>encoded_record_buf := e\<rparr>" X q w2] i by simp
  have pa: "push_append X write_all (w2\<lparr>block_base_seq := bs, block_base_ts_unix_ns := bt, encoded_record_buf := e\<rparr>) = (r, w')
      \<Longrightarrow> I (inner w2) \<Longrightarrow> I (inner w')" for w2 bs bt e
    using push_append_inv [of "w2\<lparr>block_base_seq := bs, block_base_ts_unix_ns := bt, encoded_record_buf := e\<rparr>" X r w'] by simp
  have pa1: "push_append X write_all (w1\<lparr>encoded_record_buf := e\<rparr>) = (r, w') \<Longrightarrow> I (inner w')" for e
    using push_append_inv [of "w1\<lparr>encoded_record_buf := e\<rparr>" X r w'] i by simp
  show ?thesis
    using assms(2) i op by (auto simp: push_def Let_def dest: fl pa pa1 split: if_splits option.splits sum.splits prod.splits)
qed

end

text \<open>A \<^verbatim>\<open>BufWriter\<close> touches the file it was opened on and no other.\<close>

definition only_file :: "dir \<Rightarrow> string \<Rightarrow> disk_writer \<Rightarrow> bool" where
  "only_file d f i \<longleftrightarrow> fs_read d f \<noteq> None \<and> dw_file i = f \<and> map fst (dw_dir i) = map fst d \<and>
     (\<forall>n. n \<noteq> f \<longrightarrow> fs_read (dw_dir i) n = fs_read d n)"

lemma only_file_append:
  assumes "only_file d f i"
  shows "only_file d f (i\<lparr>dw_dir := fs_append f bs (dw_dir i), dw_buf := b\<rparr>)"
proof -
  have "fs_read (dw_dir i) f \<noteq> None"
    using assms by (metis fs_read_None_iff list.set_map only_file_def)
  then show ?thesis using assms by (auto simp: only_file_def fs_append_def names_put)
qed

lemma only_file_simps [simp]:
  "only_file d f (i\<lparr>dw_buf := b\<rparr>) = only_file d f i"
  by (simp add: only_file_def)

lemma only_file_flush: "only_file d f i \<Longrightarrow> only_file d f (dw_flush i)"
  using only_file_append [of d f i "[]" "dw_buf i"] by (simp add: dw_flush_def only_file_def)

lemma only_file_write: "only_file d f i \<Longrightarrow> only_file d f (snd (dw_write_all bs i))"
proof -
  have app: "only_file d f j \<Longrightarrow> only_file d f (j\<lparr>dw_dir := fs_append (dw_file j) bs (dw_dir j)\<rparr>)" for j
    using only_file_append [of d f j "dw_buf j" bs] by (simp add: only_file_def)
  show "only_file d f i \<Longrightarrow> ?thesis" using app only_file_flush by (simp add: dw_write_all_def Let_def)
qed

interpretation one_file: sink_invariant dw_write_all "only_file d f" for d f
  by standard (rule only_file_write)

lemma dw_flush_contents [simp]: "dw_contents (dw_flush i) = dw_contents i" "dw_buf (dw_flush i) = []" "dw_file (dw_flush i) = dw_file i"
  by (auto simp: dw_flush_def dw_contents_def fs_read_append split: option.splits)

section \<open>Listings that grow\<close>

lemma insort_key_snoc: "f a \<le> f x \<Longrightarrow> insort_key f a (ys @ [x]) = insort_key f a ys @ [x]"
  by (induction ys) auto

lemma sort_key_snoc: "\<forall>y\<in>set xs. f y \<le> f x \<Longrightarrow> sort_key f (xs @ [x]) = sort_key f xs @ [x]"
  by (induction xs) (auto simp: insort_key_snoc)

lemma fs_put_new: "fs_read d name = None \<Longrightarrow> fs_put name bs d = d @ [(name, bs)]"
  by (induction d) (auto simp: fs_read_def)

lemma list_segments_snoc:
  assumes "parse_segment_id path stem = Some n" and "\<forall>seg\<in>set (list_segments d stem). si_id seg \<le> n"
  shows "list_segments (d @ [(path, bs)]) stem = list_segments d stem @ [\<lparr>si_id = n, si_path = path\<rparr>]"
  using assms sort_key_snoc [of _ si_id "\<lparr>si_id = n, si_path = path\<rparr>"]
  by (simp add: list_segments_def List.map_filter_def)

lemma list_segments_other:
  assumes "parse_segment_id path stem = None"
  shows "list_segments (d @ [(path, bs)]) stem = list_segments d stem"
  using assms by (simp add: list_segments_def List.map_filter_def)

section \<open>The abstraction of a spool\<close>

text \<open>The limits under which writing and reading back cannot fail: blocks of at most \<open>L\<close> bytes, compressed to
  at most \<open>M\<close>, both within what the reader accepts.\<close>

definition spool_env :: "extern \<Rightarrow> nat \<Rightarrow> nat \<Rightarrow> file_spool \<Rightarrow> bool" where
  "spool_env X L M s \<longleftrightarrow> codecs_ok X \<and> codec_total X (fsp_codec s) L M \<and>
     DEFAULT_BLOCK_TARGET_SIZE \<le> L \<and> L \<le> DEFAULT_MAX_BLOCK_SIZE \<and> M \<le> DEFAULT_MAX_BLOCK_SIZE"

text \<open>\<open>spool_holds X L s rs\<close>: the closed segments, the active file, the buffer of the \<^verbatim>\<open>BufWriter\<close> and
  the open block hold the records \<open>rs\<close>, in this order.\<close>

definition spool_holds :: "extern \<Rightarrow> nat \<Rightarrow> file_spool \<Rightarrow> owned_record list \<Rightarrow> bool" where
  "spool_holds X L s rs \<longleftrightarrow>
     (\<exists>old act.
        list_segments (spool_dir s) (fsp_base_stem s) = old @ [\<lparr>si_id = fsp_active_segment_id s, si_path = fsp_active_segment_path s\<rparr>] \<and>
        (\<forall>seg\<in>set old. si_id seg < fsp_active_segment_id s) \<and>
        dw_file (inner (fsp_active_writer s)) = fsp_active_segment_path s \<and>
        config (fsp_active_writer s) = segment_writer_config (fsp_codec s) (fsp_block_alignment s) \<and>
        ready L (fsp_active_writer s) \<and> writer_log X L dw_contents [] (fsp_active_writer s) act \<and>
        rs = concat (map (segment_contents X (spool_dir s)) old) @ act)"

text \<open>The configuration of a spool does not change.\<close>

definition same_spool :: "file_spool \<Rightarrow> file_spool \<Rightarrow> bool" where
  "same_spool s s' \<longleftrightarrow> fsp_base_stem s' = fsp_base_stem s \<and> fsp_codec s' = fsp_codec s \<and>
     fsp_block_alignment s' = fsp_block_alignment s \<and> fsp_max_total_bytes s' = fsp_max_total_bytes s \<and>
     fsp_consumed_through_seq s' = fsp_consumed_through_seq s \<and> fsp_segment_target_bytes s' = fsp_segment_target_bytes s"

lemma same_spool_trans: "same_spool s s' \<Longrightarrow> same_spool s' s'' \<Longrightarrow> same_spool s s''"
  by (simp add: same_spool_def)

lemma same_spool_refl [simp]: "same_spool s s" by (simp add: same_spool_def)

lemma spool_env_same: "same_spool s s' \<Longrightarrow> spool_env X L M s \<Longrightarrow> spool_env X L M s'"
  by (simp add: spool_env_def same_spool_def)

section \<open>Closing a block and pushing a record\<close>

lemma spool_paths:
  assumes "list_segments d stem = old @ [\<lparr>si_id = n, si_path = p\<rparr>]" and "\<forall>seg\<in>set old. si_id seg < n"
  shows "fs_read d p \<noteq> None" and "seg \<in> set old \<Longrightarrow> si_path seg \<noteq> p"
proof -
  have e: "x \<in> set old \<or> x = \<lparr>si_id = n, si_path = p\<rparr> \<longleftrightarrow>
      si_path x \<in> fst ` set d \<and> parse_segment_id (si_path x) stem = Some (si_id x)" for x
    using in_list_segments [of x d stem] assms(1) by auto
  have p: "p \<in> fst ` set d" "parse_segment_id p stem = Some n" using e [of "\<lparr>si_id = n, si_path = p\<rparr>"] by simp_all
  then show "fs_read d p \<noteq> None" by (simp add: fs_read_None_iff)
  show "si_path seg \<noteq> p" if "seg \<in> set old" using e [of seg] that p assms(2) by auto
qed

text \<open>A writer that only wrote to the active file still holds the closed segments.\<close>

lemma spool_holds_writer:
  assumes "list_segments (spool_dir s) (fsp_base_stem s) = old @ [\<lparr>si_id = fsp_active_segment_id s, si_path = fsp_active_segment_path s\<rparr>]"
    and "\<forall>seg\<in>set old. si_id seg < fsp_active_segment_id s"
    and "only_file (spool_dir s) (fsp_active_segment_path s) (inner w)"
    and "config w = segment_writer_config (fsp_codec s) (fsp_block_alignment s)" and "ready L w"
    and "writer_log X L dw_contents [] w act" 
  shows "spool_holds X L (s\<lparr>fsp_active_writer := w, fsp_active_size_bytes := n\<rparr>) (concat (map (segment_contents X (spool_dir s)) old) @ act)"
proof -
  let ?s = "s\<lparr>fsp_active_writer := w, fsp_active_size_bytes := n\<rparr>"
  have d: "spool_dir ?s = dw_dir (inner w)" by (simp add: spool_dir_def)
  have "list_segments (spool_dir ?s) (fsp_base_stem s) = list_segments (spool_dir s) (fsp_base_stem s)"
    using assms(3) by (intro list_segments_names) (simp add: only_file_def d)
  moreover have "map (segment_contents X (spool_dir ?s)) old = map (segment_contents X (spool_dir s)) old"
    using assms(3) spool_paths(2) [OF assms(1,2)] by (auto simp: segment_contents_def only_file_def d)
  from arg_cong [OF this, of concat] have "concat (map (segment_contents X (spool_dir ?s)) old) = concat (map (segment_contents X (spool_dir s)) old)" .
  ultimately show ?thesis
    using assms by (auto simp: spool_holds_def only_file_def simp del: map_eq_conv intro!: exI [of _ old] exI [of _ act])
qed

lemma only_file_self:
  assumes "fs_read (spool_dir s) (fsp_active_segment_path s) \<noteq> None"
    and "dw_file (inner (fsp_active_writer s)) = fsp_active_segment_path s"
  shows "only_file (spool_dir s) (fsp_active_segment_path s) (inner (fsp_active_writer s))"
  using assms by (simp add: only_file_def spool_dir_def)

lemma only_file_exists: "only_file d f i \<Longrightarrow> \<exists>bs. fs_read (dw_dir i) f = Some bs"
  by (metis fs_read_None_iff list.set_map not_None_eq only_file_def)

lemma holds_inner [simp]: "holds L (w\<lparr>inner := i\<rparr>) rs = holds L w rs"
  by (simp add: holds_def)

lemma holds_empty: "holds L w rs \<Longrightarrow> payload_buf w = [] \<Longrightarrow> rs = []"
  by (auto simp: holds_def dest: sym [of "[]"] split: if_splits)

text \<open>With no open block and an empty buffer, the disk holds everything.\<close>

lemma disk_of_closed:
  assumes env: "spool_env X L M s" and h: "spool_holds X L s rs"
    and e: "payload_buf (fsp_active_writer s) = []" "dw_buf (inner (fsp_active_writer s)) = []"
  shows "disk_records X (spool_dir s) (fsp_base_stem s) = rs"
proof -
  let ?w = "fsp_active_writer s" and ?a = "\<lparr>si_id = fsp_active_segment_id s, si_path = fsp_active_segment_path s\<rparr>"
  from h obtain old act where o: "list_segments (spool_dir s) (fsp_base_stem s) = old @ [?a]"
      "\<forall>seg\<in>set old. si_id seg < fsp_active_segment_id s" "dw_file (inner ?w) = fsp_active_segment_path s"
      "config ?w = segment_writer_config (fsp_codec s) (fsp_block_alignment s)" "writer_log X L dw_contents [] ?w act"
      "rs = concat (map (segment_contents X (spool_dir s)) old) @ act"
    by (auto simp: spool_holds_def)
  from o(5) e(1) obtain rss out where l: "log_file X (config ?w) L rss out" "dw_contents (inner ?w) = out" "act = concat rss"
    by (auto simp: writer_log_def dest!: holds_empty)
  obtain bs where bs: "fs_read (spool_dir s) (fsp_active_segment_path s) = Some bs"
    using spool_paths(1) [OF o(1,2)] by auto
  have "bs = out" using l(2) bs e(2) o(3) by (simp add: dw_contents_def spool_dir_def)
  then have "segment_contents X (spool_dir s) ?a = act"
    using log_file_records [of X "fsp_codec s" L M _ rss out] env l bs o(4) by (simp add: segment_contents_def spool_env_def)
  then show ?thesis using o by (simp add: disk_records_def)
qed

lemma spool_env_bounds:
  "spool_env X L M s \<Longrightarrow> L < 2 ^ 32 \<and> M < 2 ^ 32 \<and> codec_total X (fsp_codec s) L M"
  by (simp add: spool_env_def DEFAULT_MAX_BLOCK_SIZE_def)

lemma spool_flush_spec:
  assumes env: "spool_env X L M s" and h: "spool_holds X L s rs"
  shows "\<exists>w. spool_flush_block X s = (Inr (), s\<lparr>fsp_active_writer := w\<rparr>) \<and> payload_buf w = [] \<and>
    (\<forall>n i. only_file (spool_dir s) (fsp_active_segment_path s) i \<longrightarrow> dw_contents i = dw_contents (inner w) \<longrightarrow>
      spool_holds X L (s\<lparr>fsp_active_writer := w\<lparr>inner := i\<rparr>, fsp_active_size_bytes := n\<rparr>) rs) \<and>
    only_file (spool_dir s) (fsp_active_segment_path s) (inner w)"
proof -
  let ?w = "fsp_active_writer s" and ?a = "\<lparr>si_id = fsp_active_segment_id s, si_path = fsp_active_segment_path s\<rparr>"
  from h obtain old act where o: "list_segments (spool_dir s) (fsp_base_stem s) = old @ [?a]"
      "\<forall>seg\<in>set old. si_id seg < fsp_active_segment_id s" "dw_file (inner ?w) = fsp_active_segment_path s"
      "config ?w = segment_writer_config (fsp_codec s) (fsp_block_alignment s)" "ready L ?w"
      "writer_log X L dw_contents [] ?w act" "rs = concat (map (segment_contents X (spool_dir s)) old) @ act"
    by (auto simp: spool_holds_def)
  obtain w where w: "flush_block X dw_write_all ?w = (Inr (), w)" "payload_buf w = []" "record_count w = 0" "config w = config ?w"
    using disk.flush_block_total [OF o(5), of X M] spool_env_bounds [OF env] o(4) by auto
  have log: "writer_log X L dw_contents [] w act" using disk.flush_block_log [OF o(6) w(1)] by simp
  have of: "only_file (spool_dir s) (fsp_active_segment_path s) (inner w)"
    by (rule one_file.flush_block_inv [OF only_file_self [OF spool_paths(1) [OF o(1,2)] o(3)] w(1)])
  have "spool_holds X L (s\<lparr>fsp_active_writer := w\<lparr>inner := i\<rparr>, fsp_active_size_bytes := n\<rparr>) rs"
    if "only_file (spool_dir s) (fsp_active_segment_path s) i" "dw_contents i = dw_contents (inner w)" for n i
  proof -
    have "writer_log X L dw_contents [] (w\<lparr>inner := i\<rparr>) act" using log that(2) by (simp add: writer_log_def)
    moreover have "ready L (w\<lparr>inner := i\<rparr>)" using w by (simp add: ready_def)
    ultimately show ?thesis
      using spool_holds_writer [OF o(1,2), of "w\<lparr>inner := i\<rparr>" L X act n] that o(4,7) w(4) by simp
  qed
  then show ?thesis using w(1,2) of by (auto simp: spool_flush_block_def)
qed

text \<open>\<^verbatim>\<open>flush_pending\<close> and the first half of \<^verbatim>\<open>rotate\<close>.\<close>

lemma flush_pending_spec:
  assumes env: "spool_env X L M s" and h: "spool_holds X L s rs"
  shows "\<exists>s'. flush_pending X s = (Inr (), s') \<and> spool_holds X L s' rs \<and> same_spool s s' \<and>
    payload_buf (fsp_active_writer s') = [] \<and> dw_buf (inner (fsp_active_writer s')) = [] \<and>
    fsp_active_segment_id s' = fsp_active_segment_id s \<and> fsp_active_segment_path s' = fsp_active_segment_path s"
proof -
  obtain w where w: "spool_flush_block X s = (Inr (), s\<lparr>fsp_active_writer := w\<rparr>)" "payload_buf w = []"
      "only_file (spool_dir s) (fsp_active_segment_path s) (inner w)"
      "\<And>n i. only_file (spool_dir s) (fsp_active_segment_path s) i \<Longrightarrow> dw_contents i = dw_contents (inner w) \<Longrightarrow>
        spool_holds X L (s\<lparr>fsp_active_writer := w\<lparr>inner := i\<rparr>, fsp_active_size_bytes := n\<rparr>) rs"
    using spool_flush_spec [OF env h] by blast
  let ?i = "dw_flush (inner w)"
  have of: "only_file (spool_dir s) (fsp_active_segment_path s) ?i" by (rule only_file_flush [OF w(3)])
  obtain bs where bs: "fs_read (dw_dir ?i) (fsp_active_segment_path s) = Some bs" using only_file_exists [OF of] by auto
  let ?s = "s\<lparr>fsp_active_writer := w\<lparr>inner := ?i\<rparr>, fsp_active_size_bytes := length bs\<rparr>"
  have "flush_pending X s = (Inr (), ?s)"
    using w(1) bs by (simp add: flush_pending_def sink_flush_def set_sink_def refresh_active_size_def spool_dir_def fs_metadata_len_def)
  moreover have "spool_holds X L ?s rs" by (rule w(4) [OF of]) simp
  ultimately show ?thesis using w(2) by (simp add: same_spool_def)
qed

section \<open>Rotation\<close>

lemma try_st_assoc: "try_st (try_st m f) g = try_st m (\<lambda>x s. try_st (f x s) g)"
  by (cases m; cases "fst m") (auto simp: try_st_def split: prod.splits sum.splits)

lemma rotate_flush:
  "rotate_segment X s = try_st (flush_pending X s) (\<lambda>_ s. try_st (next_segment s) (\<lambda>_ s. enforce_retention s))"
  by (simp add: rotate_segment_def flush_pending_def try_st_assoc)

lemma checked_add_one:
  assumes "unat n + 1 < 2 ^ 64"
  shows "checked_add n 1 = Some (n + 1) \<and> unat (n + 1) = unat n + 1 \<and> n < n + (1 :: u64)"
proof -
  have "unat (n + 1) = unat n + 1" using assms by (simp add: unat_word_ariths)
  then show ?thesis using assms by (simp add: checked_add_def word_less_nat_alt)
qed

lemma fresh_segment:
  assumes "list_segments d stem = old @ [\<lparr>si_id = n, si_path = p\<rparr>]" and "\<forall>seg\<in>set old. si_id seg < n"
    and "n < m"
  shows "fs_read d (segment_path stem m) = None"
    and "list_segments (d @ [(segment_path stem m, [])]) stem = list_segments d stem @ [\<lparr>si_id = m, si_path = segment_path stem m\<rparr>]"
proof -
  have le: "\<forall>seg\<in>set (list_segments d stem). si_id seg < m" using assms by (auto intro: less_trans)
  have "segment_path stem m \<notin> fst ` set d"
    using le in_list_segments [of "\<lparr>si_id = m, si_path = segment_path stem m\<rparr>" d stem] by auto
  then show "fs_read d (segment_path stem m) = None" by (simp add: fs_read_None_iff)
  show "list_segments (d @ [(segment_path stem m, [])]) stem = list_segments d stem @ [\<lparr>si_id = m, si_path = segment_path stem m\<rparr>]"
    using le by (intro list_segments_snoc) (auto intro: less_imp_le)
qed

lemma next_segment_spec:
  assumes env: "spool_env X L M s" and h: "spool_holds X L s rs" and id: "unat (fsp_active_segment_id s) + 1 < 2 ^ 64"
    and e: "payload_buf (fsp_active_writer s) = []" "dw_buf (inner (fsp_active_writer s)) = []"
  shows "\<exists>s'. next_segment s = (Inr (), s') \<and> spool_holds X L s' rs \<and> same_spool s s' \<and>
    unat (fsp_active_segment_id s') = unat (fsp_active_segment_id s) + 1 \<and> (\<forall>r. bases_le (fsp_active_writer s') r)"
proof -
  let ?d = "spool_dir s" and ?stem = "fsp_base_stem s" and ?n = "fsp_active_segment_id s + 1"
  let ?p = "segment_path ?stem ?n"
  let ?w = "writer_with_config \<lparr>dw_dir = ?d @ [(?p, [])], dw_file = ?p, dw_buf = []\<rparr> (segment_writer_config (fsp_codec s) (fsp_block_alignment s))"
  let ?s = "s\<lparr>fsp_active_segment_id := ?n, fsp_active_segment_path := ?p, fsp_active_writer := ?w, fsp_active_size_bytes := 0\<rparr>"
  note n = checked_add_one [OF id]
  from h obtain old where o: "list_segments ?d ?stem = old @ [\<lparr>si_id = fsp_active_segment_id s, si_path = fsp_active_segment_path s\<rparr>]"
      "\<forall>seg\<in>set old. si_id seg < fsp_active_segment_id s"
    by (auto simp: spool_holds_def)
  note fr = fresh_segment [OF o conjunct2 [OF conjunct2 [OF n]]]
  have run: "next_segment s = (Inr (), ?s)"
    using n e fr(1) by (simp add: next_segment_def start_segment_def fs_open_append_def fs_append_def fs_put_new Let_def spool_dir_def [symmetric])
  have d: "spool_dir ?s = ?d @ [(?p, [])]" by (simp add: spool_dir_def writer_with_config_def)
  have rd: "fs_read (?d @ [(?p, [])]) q = fs_read ?d q" if "q \<noteq> ?p" for q
    using that by (auto simp: fs_read_def map_add_def split: option.splits)
  have "segment_contents X (spool_dir ?s) seg = segment_contents X ?d seg" if "seg \<in> set (list_segments ?d ?stem)" for seg
    using list_segments_exists [OF that] fr(1) rd by (metis d segment_contents_def)
  then have "concat (map (segment_contents X (spool_dir ?s)) (list_segments ?d ?stem)) = disk_records X ?d ?stem"
    by (auto simp: disk_records_def intro!: arg_cong [where f = concat])
  then have "concat (map (segment_contents X (spool_dir ?s)) (list_segments ?d ?stem)) = rs"
    using disk_of_closed [OF env h e] by simp
  moreover have "writer_log X L dw_contents [] ?w []"
    using fr(1) by (intro writer_log_new) (simp add: dw_contents_def fs_read_def map_add_def)
  moreover have "ready L ?w" "\<forall>r. bases_le ?w r" by (simp_all add: ready_def bases_le_def writer_with_config_def)
  moreover have "\<forall>seg\<in>set (list_segments ?d ?stem). si_id seg < ?n" using o n by (auto intro: less_trans)
  moreover have "dw_file (inner ?w) = ?p" "config ?w = segment_writer_config (fsp_codec s) (fsp_block_alignment s)"
    by (simp_all add: writer_with_config_def)
  ultimately have "spool_holds X L ?s rs"
    unfolding spool_holds_def using fr(2) d by (intro exI [of _ "list_segments ?d ?stem"] exI [of _ "[]"]) simp
  then show ?thesis using run n \<open>\<forall>r. bases_le ?w r\<close> by (simp add: same_spool_def)
qed

lemma rotate_spec:
  assumes env: "spool_env X L M s" and h: "spool_holds X L s rs" and id: "unat (fsp_active_segment_id s) + 1 < 2 ^ 64"
    and "fsp_max_total_bytes s = 0"
  shows "\<exists>s'. rotate_segment X s = (Inr (), s') \<and> spool_holds X L s' rs \<and> same_spool s s' \<and>
    unat (fsp_active_segment_id s') = unat (fsp_active_segment_id s) + 1 \<and> (\<forall>r. bases_le (fsp_active_writer s') r)"
proof -
  obtain s1 where s1: "flush_pending X s = (Inr (), s1)" "spool_holds X L s1 rs" "same_spool s s1"
      "payload_buf (fsp_active_writer s1) = []" "dw_buf (inner (fsp_active_writer s1)) = []"
      "fsp_active_segment_id s1 = fsp_active_segment_id s"
    using flush_pending_spec [OF env h] by auto
  obtain s2 where s2: "next_segment s1 = (Inr (), s2)" "spool_holds X L s2 rs" "same_spool s1 s2"
      "unat (fsp_active_segment_id s2) = unat (fsp_active_segment_id s) + 1" "\<forall>r. bases_le (fsp_active_writer s2) r"
    using next_segment_spec [OF spool_env_same [OF s1(3) env] s1(2) _ s1(4,5)] id s1(6) by auto
  have "enforce_retention s2 = (Inr (), s2)" using assms(4) s1(3) s2(3) by (simp add: enforce_retention_def same_spool_def)
  then show ?thesis using s1 s2 by (auto simp: rotate_flush intro: same_spool_trans)
qed

section \<open>Append\<close>

lemma spool_push_spec:
  assumes env: "spool_env X L M s" and h: "spool_holds X L s rs" and b: "bases_le (fsp_active_writer s) r"
    and p: "31 + length (payload r) \<le> L"
  shows "\<exists>w n. push X dw_write_all (record_type r) (seq r) (ts_unix_ns r) (payload r) (fsp_active_writer s) = (Inr (), w) \<and>
    refresh_active_size (s\<lparr>fsp_active_writer := w\<rparr>) = (Inr (), s\<lparr>fsp_active_writer := w, fsp_active_size_bytes := n\<rparr>) \<and>
    spool_holds X L (s\<lparr>fsp_active_writer := w, fsp_active_size_bytes := n\<rparr>) (rs @ [r]) \<and> bases_le w r"
proof -
  let ?w = "fsp_active_writer s" and ?a = "\<lparr>si_id = fsp_active_segment_id s, si_path = fsp_active_segment_path s\<rparr>"
  from h obtain old act where o: "list_segments (spool_dir s) (fsp_base_stem s) = old @ [?a]"
      "\<forall>seg\<in>set old. si_id seg < fsp_active_segment_id s" "dw_file (inner ?w) = fsp_active_segment_path s"
      "config ?w = segment_writer_config (fsp_codec s) (fsp_block_alignment s)" "ready L ?w"
      "writer_log X L dw_contents [] ?w act" "rs = concat (map (segment_contents X (spool_dir s)) old) @ act"
    by (auto simp: spool_holds_def)
  have t: "block_target_size (config ?w) \<le> L" using env o(4) by (simp add: spool_env_def)
  obtain w where w: "push X dw_write_all (record_type r) (seq r) (ts_unix_ns r) (payload r) ?w = (Inr (), w)"
      "ready L w" "config w = config ?w" "bases_le w r"
    using disk.push_total [OF o(5) b, of X M] spool_env_bounds [OF env] o(4) p t by auto
  have log: "writer_log X L dw_contents [] w (act @ [r])" using disk.push_log [OF o(6) t p w(1)] by simp
  have of: "only_file (spool_dir s) (fsp_active_segment_path s) (inner w)"
    by (rule one_file.push_inv [OF only_file_self [OF spool_paths(1) [OF o(1,2)] o(3)] w(1)])
  obtain bs where bs: "fs_read (dw_dir (inner w)) (fsp_active_segment_path s) = Some bs" using only_file_exists [OF of] by auto
  have "refresh_active_size (s\<lparr>fsp_active_writer := w\<rparr>) = (Inr (), s\<lparr>fsp_active_writer := w, fsp_active_size_bytes := length bs\<rparr>)"
    using bs by (simp add: refresh_active_size_def spool_dir_def fs_metadata_len_def)
  then show ?thesis
    using w spool_holds_writer [OF o(1,2) of _ w(2) log] o(4,7) by (intro exI [of _ w] exI [of _ "length bs"]) simp
qed

text \<open>One append: the record is behind everything the spool holds, whatever segments were closed.\<close>

definition appended :: "extern \<Rightarrow> nat \<Rightarrow> nat \<Rightarrow> owned_record list \<Rightarrow> file_spool \<Rightarrow> file_spool \<Rightarrow> bool" where
  "appended X L k rs s s' \<longleftrightarrow> spool_holds X L s' rs \<and> same_spool s s' \<and>
     unat (fsp_active_segment_id s') \<le> unat (fsp_active_segment_id s) + k"

lemma rotate_if_spec:
  assumes "spool_env X L M s" and "spool_holds X L s rs" and "unat (fsp_active_segment_id s) + 1 < 2 ^ 64"
    and "fsp_max_total_bytes s = 0" and "bases_le (fsp_active_writer s) r"
  shows "\<exists>s'. (if c then rotate_segment X s else (Inr (), s)) = (Inr (), s') \<and> appended X L 1 rs s s' \<and> bases_le (fsp_active_writer s') r"
  using rotate_spec [OF assms(1-4)] assms(2,5) by (cases c) (auto simp: appended_def)

lemma file_append_spec:
  assumes env: "spool_env X L M s" and h: "spool_holds X L s rs" and b: "bases_le (fsp_active_writer s) r"
    and p: "31 + length (payload r) \<le> L" and m: "fsp_max_total_bytes s = 0" and id: "unat (fsp_active_segment_id s) + 2 < 2 ^ 64"
  shows "\<exists>s'. file_append X r s = (Inr (), s') \<and> appended X L 2 (rs @ [r]) s s' \<and> bases_le (fsp_active_writer s') r"
proof -
  obtain s1 where s1: "(if fsp_active_size_bytes s \<ge> fsp_segment_target_bytes s \<and> fsp_active_size_bytes s > 0
        then rotate_segment X s else (Inr (), s)) = (Inr (), s1)"
      "spool_holds X L s1 rs" "same_spool s s1" "unat (fsp_active_segment_id s1) \<le> unat (fsp_active_segment_id s) + 1"
      "bases_le (fsp_active_writer s1) r"
    using rotate_if_spec [OF env h _ m b] id unfolding appended_def by fastforce
  obtain w n where w: "push X dw_write_all (record_type r) (seq r) (ts_unix_ns r) (payload r) (fsp_active_writer s1) = (Inr (), w)"
      "refresh_active_size (s1\<lparr>fsp_active_writer := w\<rparr>) = (Inr (), s1\<lparr>fsp_active_writer := w, fsp_active_size_bytes := n\<rparr>)"
      "spool_holds X L (s1\<lparr>fsp_active_writer := w, fsp_active_size_bytes := n\<rparr>) (rs @ [r])" "bases_le w r"
    using spool_push_spec [OF spool_env_same [OF s1(3) env] s1(2,5) p] by blast
  let ?s2 = "s1\<lparr>fsp_active_writer := w, fsp_active_size_bytes := n\<rparr>"
  have same: "same_spool s ?s2" using s1(3) by (simp add: same_spool_def)
  have "\<exists>s'. (if fsp_active_size_bytes ?s2 + pending_bytes (fsp_active_writer ?s2) \<ge> fsp_segment_target_bytes ?s2
        then rotate_segment X ?s2 else (Inr (), ?s2)) = (Inr (), s') \<and> appended X L 1 (rs @ [r]) ?s2 s' \<and> bases_le (fsp_active_writer s') r"
    using s1(4) id m same w(4)
    by (intro rotate_if_spec [OF spool_env_same [OF same env] w(3)]) (simp_all add: same_spool_def)
  then obtain s' where s': "(if fsp_active_size_bytes ?s2 + pending_bytes (fsp_active_writer ?s2) \<ge> fsp_segment_target_bytes ?s2
        then rotate_segment X ?s2 else (Inr (), ?s2)) = (Inr (), s')" "appended X L 1 (rs @ [r]) ?s2 s'" "bases_le (fsp_active_writer s') r"
    by blast
  have "file_append X r s = (Inr (), s')"
    unfolding file_append_def s1(1) try_simps w(1) prod.case sum.case w(2) Let_def by (rule s'(1))
  moreover have "appended X L 2 (rs @ [r]) s s'"
    using s'(2) same s1(4) by (auto simp: appended_def intro: same_spool_trans)
  ultimately show ?thesis using s'(3) by blast
qed

primrec append_all :: "extern \<Rightarrow> wire_record list \<Rightarrow> file_spool \<Rightarrow> (io_error + unit) \<times> file_spool" where
  "append_all X [] s = (Inr (), s)"
| "append_all X (r # rs) s = try_st (file_append X r s) (\<lambda>_ s. append_all X rs s)"

lemma append_all_spec:
  assumes "spool_env X L M s" and "spool_holds X L s rs0" and "\<forall>r\<in>set rs. bases_le (fsp_active_writer s) r"
    and "\<forall>r\<in>set rs. 31 + length (payload r) \<le> L" and "sorted_wrt record_le rs"
    and "fsp_max_total_bytes s = 0" and "unat (fsp_active_segment_id s) + 2 * length rs < 2 ^ 64"
  shows "\<exists>s'. append_all X rs s = (Inr (), s') \<and> spool_holds X L s' (rs0 @ rs) \<and> same_spool s s'"
  using assms
proof (induction rs arbitrary: s rs0)
  case (Cons r rs)
  obtain s1 where s1: "file_append X r s = (Inr (), s1)" "spool_holds X L s1 (rs0 @ [r])" "same_spool s s1"
      "unat (fsp_active_segment_id s1) \<le> unat (fsp_active_segment_id s) + 2" "bases_le (fsp_active_writer s1) r"
    using file_append_spec [OF Cons.prems(1,2), of r] Cons.prems by (auto simp: appended_def)
  have "\<forall>r'\<in>set rs. bases_le (fsp_active_writer s1) r'" using Cons.prems(5) s1(5) by (auto intro: bases_le_trans)
  then obtain s' where "append_all X rs s1 = (Inr (), s')" "spool_holds X L s' ((rs0 @ [r]) @ rs)" "same_spool s1 s'"
    using Cons.IH [OF spool_env_same [OF s1(3) Cons.prems(1)] s1(2)] Cons.prems s1(3,4) by (auto simp: same_spool_def)
  then show ?case using s1(1,3) by (auto intro: same_spool_trans)
qed simp

section \<open>Opening a new spool\<close>

lemma cleanup_empty: "segment_max_seq X (spool_dir s) (si_path seg) = Inr None \<Longrightarrow> cleanup_loop X [seg] s = (Inr (), s)"
  by simp

lemma spool_holds_new:
  assumes "list_segments (spool_dir s) (fsp_base_stem s) = [\<lparr>si_id = fsp_active_segment_id s, si_path = fsp_active_segment_path s\<rparr>]"
    and "fsp_active_writer s = writer_with_config \<lparr>dw_dir = d, dw_file = fsp_active_segment_path s, dw_buf = []\<rparr>
      (segment_writer_config (fsp_codec s) (fsp_block_alignment s))" and "fs_read d (fsp_active_segment_path s) = Some []"
  shows "spool_holds X L s []"
proof -
  have "writer_log X L dw_contents [] (fsp_active_writer s) []"
    unfolding assms(2) by (rule writer_log_new) (simp add: dw_contents_def assms(3))
  then show ?thesis using assms(1,2) by (simp add: spool_holds_def ready_def writer_with_config_def)
qed

lemma file_open_empty:
  assumes "fc_max_total_bytes cfg = 0"
  shows "\<exists>s. file_spool_open X g cfg [] = (Inr s, spool_dir s) \<and> spool_holds X L s [] \<and>
    fsp_active_segment_id s = 0 \<and> fsp_max_total_bytes s = 0 \<and> fsp_codec s = fc_codec cfg \<and>
    fsp_consumed_through_seq s = 0 \<and> (\<forall>r. bases_le (fsp_active_writer s) r)"
proof -
  let ?stem = "derive_base_stem (fc_name cfg)"
  let ?e = "[(?stem @ ''.stream-id'', to_text (show_u64 g))]" and ?p = "segment_path ?stem 0"
  let ?d = "?e @ [(?p, [])]"
  have p: "?p \<noteq> ?stem @ ''.stream-id''" by (simp add: segment_path_def)
  have l0: "list_segments [] ?stem = []" by (simp add: list_segments_def map_filter_simps)
  have "list_segments ?e ?stem = []"
    using list_segments_other [OF parse_state_file [of "''stream-id''" ?stem], of "[]" "to_text (show_u64 g)"] l0 by simp
  then have l: "list_segments ?d ?stem = [\<lparr>si_id = 0, si_path = ?p\<rparr>]"
    using list_segments_snoc [OF parse_segment_path [of ?stem 0], of ?e "[]"] by simp
  let ?w = "writer_with_config \<lparr>dw_dir = ?d, dw_file = ?p, dw_buf = []\<rparr> (segment_writer_config (fc_codec cfg) (fc_block_alignment cfg))"
  let ?s = "\<lparr>fsp_base_stem = ?stem, fsp_state_path = ?stem @ ''.state'', fsp_stream_id = g,
     fsp_active_segment_id = 0, fsp_active_segment_path = ?p, fsp_active_writer = ?w,
     fsp_active_size_bytes = 0, fsp_segment_target_bytes = unat (fc_segment_size_bytes cfg), fsp_fsync = fc_fsync cfg,
     fsp_codec = fc_codec cfg, fsp_block_alignment = fc_block_alignment cfg,
     fsp_max_total_bytes = 0, fsp_consumed_through_seq = 0\<rparr>"
  have d: "spool_dir ?s = ?d" by (simp add: spool_dir_def writer_with_config_def)
  have rd: "fs_read ?d ?p = Some []" using p by (simp add: fs_read_def)
  have "readable ?d [\<lparr>si_id = 0, si_path = ?p\<rparr>]" using rd by (simp add: readable_def)
  from segment_max_seq_spec [OF this, of "\<lparr>si_id = 0, si_path = ?p\<rparr>" X] rd
  have "segment_max_seq X ?d ?p = Inr None" by (simp add: segment_contents_def)
  then have "cleanup_loop X [\<lparr>si_id = 0, si_path = ?p\<rparr>] ?s = (Inr (), ?s)"
    by (intro cleanup_empty) (simp only: d segment_info.simps)
  then have cl: "cleanup_consumed_segments X ?s = (Inr (), ?s)"
    by (simp only: cleanup_consumed_segments_def d l file_spool.simps)
  have fr: "fs_read ?e ?p = None" using p by (simp add: fs_read_def)
  have op: "fs_open_append ?p ?e = ?d" by (simp only: fs_open_append_def fs_append_def fr fs_put_new [OF fr] option.case append_Nil)
  have "file_spool_open X g cfg [] = (Inr ?s, spool_dir ?s)"
    using cl op assms by (simp add: file_spool_open_def Let_def read_consumed_state_def read_or_create_stream_id_def fs_read_def
        choose_active_def l0 del: append_Cons append_Nil)
  moreover have "spool_holds X L ?s []"
    by (rule spool_holds_new [where d = ?d]) (use d l rd in simp_all)
  ultimately show ?thesis by (intro exI [of _ ?s]) (simp add: bases_le_def writer_with_config_def)
qed

text \<open>C13. Nothing is lost between append and disk. From an empty directory with retention off, opening
  succeeds, every append of a list of records in order succeeds whatever blocks are cut and whatever segments are
  closed on the way, flushing succeeds, and then the segment files hold exactly the appended records, in order.
  The hypotheses are those of the codec (it round trips, and compresses blocks of up to \<open>L\<close> bytes to at most
  \<open>M\<close>), the limits of the reader and the range of segment numbers.\<close>

theorem file_spool_keeps_every_record:
  assumes "codecs_ok X" and "codec_total X (fc_codec cfg) L M" and "fc_max_total_bytes cfg = 0"
    and "DEFAULT_BLOCK_TARGET_SIZE \<le> L" and "L \<le> DEFAULT_MAX_BLOCK_SIZE" and "M \<le> DEFAULT_MAX_BLOCK_SIZE"
    and "sorted_wrt record_le rs" and "\<forall>r\<in>set rs. 31 + length (payload r) \<le> L" and "2 * length rs < 2 ^ 64"
  shows "\<exists>s0 s1 s2. file_spool_open X g cfg [] = (Inr s0, spool_dir s0) \<and> append_all X rs s0 = (Inr (), s1) \<and>
    flush_pending X s1 = (Inr (), s2) \<and> disk_records X (spool_dir s2) (fsp_base_stem s2) = rs"
proof -
  obtain s0 where s0: "file_spool_open X g cfg [] = (Inr s0, spool_dir s0)" "spool_holds X L s0 []"
      "fsp_active_segment_id s0 = 0" "fsp_max_total_bytes s0 = 0" "fsp_codec s0 = fc_codec cfg"
      "\<forall>r. bases_le (fsp_active_writer s0) r"
    using file_open_empty [OF assms(3), of X g L] by blast
  have env: "spool_env X L M s0" using assms s0(5) by (simp add: spool_env_def)
  obtain s1 where s1: "append_all X rs s0 = (Inr (), s1)" "spool_holds X L s1 rs" "same_spool s0 s1"
    using append_all_spec [OF env s0(2), of rs] s0 assms by auto
  note env1 = spool_env_same [OF s1(3) env]
  obtain s2 where s2: "flush_pending X s1 = (Inr (), s2)" "spool_holds X L s2 rs" "same_spool s1 s2"
      "payload_buf (fsp_active_writer s2) = []" "dw_buf (inner (fsp_active_writer s2)) = []"
    using flush_pending_spec [OF env1 s1(2)] by blast
  then show ?thesis using s0(1) s1(1) disk_of_closed [OF spool_env_same [OF s2(3) env1] s2(2,4,5)] by blast
qed

theorem file_spool_keeps_every_record_witness:
  "\<exists>s0 s1 s2. file_spool_open identity_extern 7
      \<lparr>fc_dir = ''.'', fc_name = ''a.logjet'', fc_segment_size_bytes = 20, fc_fsync = FsyncNone, fc_codec = Lz4,
       fc_max_total_bytes = 0, fc_block_alignment = 4096\<rparr> [] = (Inr s0, spool_dir s0) \<and>
     append_all identity_extern sample_records s0 = (Inr (), s1) \<and>
     flush_pending identity_extern s1 = (Inr (), s2) \<and>
     disk_records identity_extern (spool_dir s2) (fsp_base_stem s2) = sample_records"
  by (rule file_spool_keeps_every_record [OF identity_codecs identity_total, of _ 65536])
    (simp_all add: sample_records_simps DEFAULT_BLOCK_TARGET_SIZE_def DEFAULT_MAX_BLOCK_SIZE_def)

end
