(* ===== verification/Lj_File_Consume.thy ===== *)
theory Lj_File_Consume
  imports Lj_File_Append
begin

text \<open>
  Consuming a file spool. Between flushes, consumption through a sequence number removes exactly whole segments of
  consumed records and keeps every record above it; with an open block it can remove records that were never
  consumed.
\<close>

section \<open>Removing consumed segments\<close>

definition fs_without :: "string set \<Rightarrow> dir \<Rightarrow> dir" where
  "fs_without P d = filter (\<lambda>(n, _). n \<notin> P) d"

lemma fs_without_empty [simp]: "fs_without {} d = d"
  by (simp add: fs_without_def)

lemma fs_delete_without: "fs_delete p (fs_without P d) = fs_without (insert p P) d"
  by (auto simp: fs_delete_def fs_without_def intro: filter_cong)

lemma fs_read_without: "fs_read (fs_without P d) n = (if n \<in> P then None else fs_read d n)"
  by (induction d) (auto simp: fs_read_def fs_without_def)

lemma list_segments_without: "list_segments (fs_without P d) stem = filter (\<lambda>seg. si_path seg \<notin> P) (list_segments d stem)"
proof -
  have "List.map_filter (\<lambda>(name, _). map_option (\<lambda>n. \<lparr>si_id = n, si_path = name\<rparr>) (parse_segment_id name stem)) (fs_without P d)
      = filter (\<lambda>seg. si_path seg \<notin> P) (List.map_filter (\<lambda>(name, _). map_option (\<lambda>n. \<lparr>si_id = n, si_path = name\<rparr>) (parse_segment_id name stem)) d)"
    by (induction d) (auto simp: fs_without_def map_filter_simps split: option.splits)
  then show ?thesis by (simp add: list_segments_def filter_sort)
qed

text \<open>A segment is consumed when it holds records and its last one is consumed.\<close>

definition consumed :: "extern \<Rightarrow> dir \<Rightarrow> u64 \<Rightarrow> segment_info \<Rightarrow> bool" where
  "consumed X d n seg \<longleftrightarrow> segment_contents X d seg \<noteq> [] \<and> seq (last (segment_contents X d seg)) \<le> n"

lemma set_dir_simps [simp]:
  "spool_dir (set_dir d s) = d" "set_dir d' (set_dir d s) = set_dir d' s" "set_dir (spool_dir s) s = s"
  "fsp_consumed_through_seq (set_dir d s) = fsp_consumed_through_seq s"
  "fsp_active_segment_id (set_dir d s) = fsp_active_segment_id s" "fsp_base_stem (set_dir d s) = fsp_base_stem s"
  "fsp_active_segment_path (set_dir d s) = fsp_active_segment_path s" "fsp_state_path (set_dir d s) = fsp_state_path s"
  by (simp_all add: set_dir_def set_sink_def spool_dir_def)

lemma cleanup_old:
  assumes "readable d segs" and "distinct (map si_path segs)" and "\<forall>seg\<in>set segs. si_id seg \<noteq> fsp_active_segment_id s"
    and "spool_dir s = fs_without P d" and "P \<inter> si_path ` set segs = {}"
  shows "cleanup_loop X (segs @ rest) s = cleanup_loop X rest
    (set_dir (fs_without (P \<union> si_path ` {seg \<in> set segs. consumed X d (fsp_consumed_through_seq s) seg}) d) s)"
  using assms
proof (induction segs arbitrary: s P)
  case Nil
  then have "set_dir (fs_without P d) s = s" by (metis set_dir_simps(3))
  then show ?case by simp
next
  case (Cons seg segs)
  let ?c = "fsp_consumed_through_seq s"
  obtain bs where bs: "fs_read d (si_path seg) = Some bs" "length bs < 2 ^ 32" using Cons.prems(1) by (auto simp: readable_def)
  have rd: "fs_read (spool_dir s) (si_path seg) = Some bs" using bs Cons.prems(4,5) by (auto simp: fs_read_without)
  have "readable (spool_dir s) [seg]" using rd bs by (simp add: readable_def)
  from segment_max_seq_spec [OF this, of seg X] rd bs have mx: "segment_max_seq X (spool_dir s) (si_path seg) =
      Inr (if segment_contents X d seg = [] then None else Some (seq (last (segment_contents X d seg))))"
    by (simp add: segment_contents_def)
  have rm: "readable d segs" "distinct (map si_path segs)" "\<forall>seg\<in>set segs. si_id seg \<noteq> fsp_active_segment_id s"
    using Cons.prems by (auto simp: readable_def)
  show ?case
  proof (cases "consumed X d ?c seg")
    case True
    let ?s = "set_dir (fs_without (insert (si_path seg) P) d) s"
    have step: "cleanup_loop X ((seg # segs) @ rest) s = cleanup_loop X (segs @ rest) ?s"
      using True mx rd Cons.prems(3,4) by (auto simp: consumed_def fs_remove_file_def fs_delete_without not_less [symmetric])
    have "cleanup_loop X (segs @ rest) ?s = cleanup_loop X rest
      (set_dir (fs_without (insert (si_path seg) P \<union> si_path ` {seg \<in> set segs. consumed X d (fsp_consumed_through_seq ?s) seg}) d) ?s)"
      by (rule Cons.IH [OF rm(1,2)]) (use rm Cons.prems(2,5) in auto)
    moreover have "insert (si_path seg) P \<union> si_path ` {seg \<in> set segs. consumed X d ?c seg}
        = P \<union> si_path ` {x \<in> set (seg # segs). consumed X d ?c x}" using True by auto
    ultimately show ?thesis using step by simp
  next
    case False
    then have "cleanup_loop X ((seg # segs) @ rest) s = cleanup_loop X (segs @ rest) s"
      using mx by (auto simp: consumed_def)
    moreover have "{x \<in> set (seg # segs). consumed X d ?c x} = {x \<in> set segs. consumed X d ?c x}" using False by auto
    ultimately show ?thesis using Cons.IH [OF rm Cons.prems(4)] Cons.prems(5) by auto
  qed
qed

text \<open>A spool between flushes: nothing is buffered and the active file is the last segment.\<close>

definition spool_closed :: "file_spool \<Rightarrow> bool" where
  "spool_closed s \<longleftrightarrow> payload_buf (fsp_active_writer s) = [] \<and> dw_buf (inner (fsp_active_writer s)) = [] \<and>
     fsp_state_path s = fsp_base_stem s @ ''.state'' \<and> distinct (map fst (spool_dir s)) \<and>
     (\<exists>old. list_segments (spool_dir s) (fsp_base_stem s)
              = old @ [\<lparr>si_id = fsp_active_segment_id s, si_path = fsp_active_segment_path s\<rparr>] \<and>
            (\<forall>seg\<in>set old. si_id seg < fsp_active_segment_id s))"

lemma list_segments_put_other:
  assumes "parse_segment_id path stem = None"
  shows "list_segments (fs_put path bs d) stem = list_segments d stem"
proof (cases "fs_read d path = None")
  case True
  then show ?thesis using list_segments_other [OF assms, of d bs] by (simp add: fs_put_new)
next
  case False
  then show ?thesis by (intro list_segments_names) (simp add: names_put)
qed

lemma segments_put_other:
  assumes "parse_segment_id path stem = None"
  shows "disk_records X (fs_put path bs d) stem = disk_records X d stem"
    and "readable (fs_put path bs d) (list_segments d stem) = readable d (list_segments d stem)"
proof -
  have "si_path seg \<noteq> path" if "seg \<in> set (list_segments d stem)" for seg
    using that assms in_list_segments [of seg d stem] by auto
  then show "disk_records X (fs_put path bs d) stem = disk_records X d stem"
    "readable (fs_put path bs d) (list_segments d stem) = readable d (list_segments d stem)"
    by (auto simp: disk_records_def list_segments_put_other [OF assms] segment_contents_def readable_def intro!: arg_cong [where f = concat])
qed

lemma distinct_segment_paths:
  assumes "distinct (map fst d)"
  shows "distinct (map si_path (list_segments d stem))"
proof -
  let ?g = "\<lambda>(name, _). map_option (\<lambda>n. \<lparr>si_id = n, si_path = name\<rparr>) (parse_segment_id name stem)"
  have *: "set (map si_path (List.map_filter ?g e)) \<subseteq> fst ` set e" for e :: dir
    by (induction e) (auto simp: map_filter_simps split: option.splits)
  have "distinct (map si_path (List.map_filter ?g e))" if "distinct (map fst e)" for e :: dir
    using that
  proof (induction e)
    case (Cons x e)
    then show ?case using * [of e] by (cases x) (auto simp: map_filter_simps split: option.splits)
  qed (simp add: map_filter_simps)
  then show ?thesis using assms
    by (metis (no_types, lifting) distinct_map distinct_sort list_segments_def set_sort)
qed

text \<open>Dropping consumed segments from an ordered directory loses no record above the limit.\<close>

lemma after_concat: "after n (concat xss) = concat (map (after n) xss)"
  by (induction xss) (auto simp: after_def)

lemma after_append [simp]: "after n (xs @ ys) = after n xs @ after n ys"
  by (simp add: after_def)

lemma seq_sorted_last: "seq_sorted rs \<Longrightarrow> x \<in> set rs \<Longrightarrow> seq x \<le> seq (last rs)"
  by (cases rs rule: rev_cases) (auto simp: seq_sorted_def sorted_wrt_append intro: less_imp_le)

lemma consumed_after:
  assumes "seq_sorted (concat (map (segment_contents X d) segs))" and "seg \<in> set segs" and "consumed X d n seg"
  shows "after n (segment_contents X d seg) = []"
proof -
  have "seq_sorted (segment_contents X d seg)"
    using assms(1,2) by (induction segs) (auto simp: seq_sorted_def sorted_wrt_append)
  then show ?thesis using assms(3) seq_sorted_last
    by (fastforce simp: after_def filter_empty_conv consumed_def not_less intro: order_trans)
qed

lemma after_unconsumed:
  assumes "seq_sorted (concat (map (segment_contents X d) segs))"
  shows "after n (concat (map (segment_contents X d) (filter (\<lambda>seg. \<not> (Q seg \<and> consumed X d n seg)) segs)))
    = after n (concat (map (segment_contents X d) segs))"
proof -
  have "after n (concat (map (segment_contents X d) (filter (\<lambda>seg. \<not> (Q seg \<and> consumed X d n seg)) xs)))
      = after n (concat (map (segment_contents X d) xs))" if "set xs \<subseteq> set segs" for xs
    using that
  proof (induction xs)
    case (Cons seg xs)
    then show ?case using consumed_after [OF assms, of seg n] by simp
  qed simp
  then show ?thesis by simp
qed

lemma fs_delete_eq_without: "fs_delete p d = fs_without {p} d"
  by (simp add: fs_delete_def fs_without_def)

lemma distinct_without: "distinct (map fst d) \<Longrightarrow> distinct (map fst (fs_without P d))"
  by (induction d) (auto simp: fs_without_def)

lemma segment_contents_cong: "fs_read d (si_path seg) = fs_read d' (si_path seg) \<Longrightarrow> segment_contents X d seg = segment_contents X d' seg"
  by (simp add: segment_contents_def)

lemma disk_records_without:
  "disk_records X (fs_without P d) stem
    = concat (map (segment_contents X d) (filter (\<lambda>seg. si_path seg \<notin> P) (list_segments d stem)))"
  by (auto simp: disk_records_def list_segments_without fs_read_without intro!: arg_cong [where f = concat] segment_contents_cong)

lemma fs_read_snoc: "fs_read d p = None \<Longrightarrow> fs_read (d @ [(p, bs)]) n = (if n = p then Some bs else fs_read d n)"
  by (auto simp: fs_read_def map_add_def split: option.splits)

lemma disk_records_snoc:
  assumes "fs_read d p = None" and "list_segments (d @ [(p, [])]) stem = list_segments d stem @ [\<lparr>si_id = n, si_path = p\<rparr>]"
  shows "disk_records X (d @ [(p, [])]) stem = disk_records X d stem"
proof -
  have "segment_contents X (d @ [(p, [])]) seg = segment_contents X d seg" if "seg \<in> set (list_segments d stem)" for seg
    using list_segments_exists [OF that] assms(1) by (intro segment_contents_cong) (auto simp: fs_read_snoc)
  then show ?thesis using assms by (auto simp: disk_records_def segment_contents_def [of _ _ "\<lparr>si_id = n, si_path = p\<rparr>"] fs_read_snoc intro!: arg_cong [where f = concat])
qed

lemma advance_closed:
  assumes cl: "spool_closed s" and id: "unat (fsp_active_segment_id s) + 1 < 2 ^ 64"
  shows "\<exists>s' p. advance_empty_active_segment X s = (Inr (), s') \<and> spool_closed s' \<and>
    spool_dir s' = fs_without {fsp_active_segment_path s} (spool_dir s) @ [(p, [])] \<and>
    fs_read (fs_without {fsp_active_segment_path s} (spool_dir s)) p = None \<and>
    list_segments (spool_dir s') (fsp_base_stem s)
      = list_segments (fs_without {fsp_active_segment_path s} (spool_dir s)) (fsp_base_stem s) @ [\<lparr>si_id = fsp_active_segment_id s + 1, si_path = p\<rparr>] \<and>
    fsp_base_stem s' = fsp_base_stem s \<and> fsp_consumed_through_seq s' = fsp_consumed_through_seq s \<and>
    fsp_state_path s' = fsp_state_path s"
proof -
  let ?d = "spool_dir s" and ?stem = "fsp_base_stem s" and ?n = "fsp_active_segment_id s + 1" and ?q = "fsp_active_segment_path s"
  let ?p = "segment_path ?stem ?n" and ?a = "\<lparr>si_id = fsp_active_segment_id s, si_path = fsp_active_segment_path s\<rparr>"
  note n = checked_add_one [OF id]
  from cl obtain old where o: "list_segments ?d ?stem = old @ [?a]" "\<forall>seg\<in>set old. si_id seg < fsp_active_segment_id s"
      and e: "payload_buf (fsp_active_writer s) = []" "dw_buf (inner (fsp_active_writer s)) = []"
      "fsp_state_path s = ?stem @ ''.state''" "distinct (map fst ?d)"
    by (auto simp: spool_closed_def)
  note fr = fresh_segment [OF o conjunct2 [OF conjunct2 [OF n]]]
  have q: "fs_read ?d ?q \<noteq> None" by (rule spool_paths(1) [OF o])
  then have ne: "?q \<noteq> ?p" using fr(1) by metis
  let ?d1 = "fs_without {?q} ?d"
  let ?w = "writer_with_config \<lparr>dw_dir = ?d1 @ [(?p, [])], dw_file = ?p, dw_buf = []\<rparr> (segment_writer_config (fsp_codec s) (fsp_block_alignment s))"
  let ?s = "s\<lparr>fsp_active_segment_id := ?n, fsp_active_segment_path := ?p, fsp_active_writer := ?w, fsp_active_size_bytes := 0\<rparr>"
  have d1: "fs_without {?q} (?d @ [(?p, [])]) = ?d1 @ [(?p, [])]" using ne by (simp add: fs_without_def)
  have fl: "spool_flush_block X s = (Inr (), s)" using e by (simp add: spool_flush_block_def flush_block_def)
  have "\<exists>b. fs_read (?d @ [(?p, [])]) ?q = Some b" using q ne fr(1) by (auto simp: fs_read_snoc)
  then have run: "advance_empty_active_segment X s = (Inr (), ?s)"
    using n e fl fr(1) d1
    by (auto simp: advance_empty_active_segment_def next_segment_def start_segment_def fs_open_append_def fs_append_def fs_put_new
        Let_def spool_dir_def [symmetric] fs_remove_file_def fs_delete_eq_without set_dir_def set_sink_def writer_with_config_def)
      (auto simp: spool_dir_def)
  have ls1: "list_segments ?d1 ?stem = old"
    using spool_paths(2) [OF o] by (auto simp: list_segments_without o(1) filter_id_conv)
  have "\<forall>seg\<in>set old. si_id seg < ?n" using o n by (auto intro: less_trans)
  then have ls: "list_segments (?d1 @ [(?p, [])]) ?stem = old @ [\<lparr>si_id = ?n, si_path = ?p\<rparr>]"
    using list_segments_snoc [OF parse_segment_path [of ?stem ?n], of ?d1 "[]"] ls1 by (auto intro: less_imp_le)
  have fr1: "fs_read ?d1 ?p = None" using fr(1) by (simp add: fs_read_without)
  have "distinct (map fst (?d1 @ [(?p, [])]))"
    using distinct_without [OF e(4), of "{?q}"] fr1 by (auto simp: fs_read_None_iff)
  then have "spool_closed ?s"
    using e ls \<open>\<forall>seg\<in>set old. si_id seg < ?n\<close> by (simp add: spool_closed_def spool_dir_def writer_with_config_def)
  then show ?thesis using run ls ls1 fr1
    by (intro exI [of _ ?s] exI [of _ ?p]) (simp add: spool_dir_def writer_with_config_def)
qed

lemma seq_sorted_concat_filter:
  "seq_sorted (concat (map f xs)) \<Longrightarrow> seq_sorted (concat (map f (filter P xs)))"
  by (induction xs) (auto simp: seq_sorted_def sorted_wrt_append)

lemma file_ok_without:
  assumes "file_ok X s"
  shows "file_ok X (set_dir (fs_without P (spool_dir s)) s)"
proof -
  let ?segs = "list_segments (spool_dir s) (fsp_base_stem s)"
  have "readable (spool_dir s) ?segs" "seq_sorted (concat (map (segment_contents X (spool_dir s)) ?segs))"
    using assms by (simp_all add: file_ok_def disk_records_def)
  then show ?thesis
    using seq_sorted_concat_filter by (auto simp: file_ok_def disk_records_without list_segments_without readable_def fs_read_without)
qed

lemma fs_without_union: "fs_without P (fs_without Q d) = fs_without (P \<union> Q) d"
  by (auto simp: fs_without_def intro: filter_cong)

text \<open>\<^verbatim>\<open>cleanup_consumed_segments\<close> between flushes: what is stored above the consumed sequence number
  stays.\<close>

definition cleaned :: "extern \<Rightarrow> file_spool \<Rightarrow> file_spool \<Rightarrow> bool" where
  "cleaned X s s' \<longleftrightarrow> spool_closed s' \<and> file_ok X s' \<and> file_stored X s' = file_stored X s \<and>
     fsp_consumed_through_seq s' = fsp_consumed_through_seq s \<and>
     (\<forall>p. parse_segment_id p (fsp_base_stem s) = None \<longrightarrow> fs_read (spool_dir s') p = fs_read (spool_dir s) p)"

lemma spool_closed_without:
  assumes "spool_closed s" and "fsp_active_segment_path s \<notin> P"
  shows "spool_closed (set_dir (fs_without P (spool_dir s)) s)"
  using assms distinct_without
  by (auto simp: spool_closed_def list_segments_without set_dir_def set_sink_def spool_dir_def)

lemma stored_without:
  assumes "file_ok X s"
    and "\<forall>seg\<in>set (list_segments (spool_dir s) (fsp_base_stem s)).
           si_path seg \<in> P \<longrightarrow> consumed X (spool_dir s) (fsp_consumed_through_seq s) seg"
  shows "after (fsp_consumed_through_seq s) (disk_records X (fs_without P (spool_dir s)) (fsp_base_stem s)) = file_stored X s"
proof -
  let ?d = "spool_dir s" and ?c = "fsp_consumed_through_seq s" and ?L = "list_segments (spool_dir s) (fsp_base_stem s)"
  have srt: "seq_sorted (concat (map (segment_contents X ?d) ?L))" using assms(1) by (simp add: file_ok_def disk_records_def)
  have "filter (\<lambda>seg. si_path seg \<notin> P) ?L = filter (\<lambda>seg. \<not> (si_path seg \<in> P \<and> consumed X ?d ?c seg)) ?L"
    by (rule filter_cong) (use assms(2) in auto)
  then show ?thesis by (simp only: disk_records_without after_unconsumed [OF srt] file_stored_def disk_records_def [of X ?d])
qed

text \<open>The state after the active segment was consumed too and replaced by an empty one.\<close>

lemma cleaned_snoc:
  assumes ok: "file_ok X s"
    and P: "\<forall>seg\<in>set (list_segments (spool_dir s) (fsp_base_stem s)).
              si_path seg \<in> P \<longrightarrow> consumed X (spool_dir s) (fsp_consumed_through_seq s) seg"
      "\<forall>q\<in>P. parse_segment_id q (fsp_base_stem s) \<noteq> None"
    and s2: "spool_closed s2" "spool_dir s2 = fs_without P (spool_dir s) @ [(p, [])]" "fs_read (fs_without P (spool_dir s)) p = None"
      "list_segments (spool_dir s2) (fsp_base_stem s)
         = list_segments (fs_without P (spool_dir s)) (fsp_base_stem s) @ [\<lparr>si_id = n, si_path = p\<rparr>]"
      "fsp_base_stem s2 = fsp_base_stem s" "fsp_consumed_through_seq s2 = fsp_consumed_through_seq s"
  shows "cleaned X s s2"
proof -
  let ?d = "spool_dir s" and ?stem = "fsp_base_stem s" and ?d1 = "fs_without P (spool_dir s)"
  have dr: "disk_records X (spool_dir s2) ?stem = disk_records X ?d1 ?stem"
    unfolding s2(2) by (rule disk_records_snoc [OF s2(3)]) (use s2(2,4) in simp)
  have ok1: "file_ok X (set_dir ?d1 s)" by (rule file_ok_without [OF ok])
  have "readable (spool_dir s2) (list_segments (spool_dir s2) ?stem)"
    using ok1 s2(3) unfolding s2(4) by (auto simp: file_ok_def readable_def s2(2) fs_read_snoc)
  then have "file_ok X s2" using ok1 dr s2(5) by (simp add: file_ok_def)
  moreover have "parse_segment_id p ?stem \<noteq> None"
    using in_list_segments [of "\<lparr>si_id = n, si_path = p\<rparr>" "spool_dir s2" ?stem] s2(4) by simp
  then have "fs_read (spool_dir s2) q = fs_read ?d q" if "parse_segment_id q ?stem = None" for q
    using that P(2) s2(3) by (auto simp: s2(2) fs_read_snoc fs_read_without)
  ultimately show ?thesis using s2 stored_without [OF ok P(1)] dr by (simp add: cleaned_def file_stored_def)
qed

lemma cleanup_closed:
  assumes cl: "spool_closed s" and ok: "file_ok X s" and id: "unat (fsp_active_segment_id s) + 1 < 2 ^ 64"
  shows "\<exists>s'. cleanup_consumed_segments X s = (Inr (), s') \<and> cleaned X s s'"
proof -
  let ?d = "spool_dir s" and ?stem = "fsp_base_stem s" and ?c = "fsp_consumed_through_seq s"
  let ?a = "\<lparr>si_id = fsp_active_segment_id s, si_path = fsp_active_segment_path s\<rparr>"
  from cl obtain old where o: "list_segments ?d ?stem = old @ [?a]" "\<forall>seg\<in>set old. si_id seg < fsp_active_segment_id s"
      and dn: "distinct (map fst ?d)"
    by (auto simp: spool_closed_def)
  let ?P = "si_path ` {seg \<in> set old. consumed X ?d ?c seg}" and ?L = "list_segments ?d ?stem"
  let ?s1 = "set_dir (fs_without ?P ?d) s"
  have rd: "readable ?d ?L" using ok by (simp add: file_ok_def)
  have dp: "distinct (map si_path ?L)" by (rule distinct_segment_paths [OF dn])
  have "cleanup_loop X (old @ [?a]) s = cleanup_loop X [?a] (set_dir (fs_without ({} \<union> ?P) ?d) s)"
    by (rule cleanup_old) (use rd dp o in \<open>auto simp: readable_def\<close>)
  then have loop: "cleanup_consumed_segments X s = cleanup_loop X [?a] ?s1"
    by (simp only: cleanup_consumed_segments_def o(1) Un_empty_left)
  have ne: "\<forall>seg\<in>set old. fsp_active_segment_path s \<noteq> si_path seg" using spool_paths(2) [OF o] by metis
  then have aP: "fsp_active_segment_path s \<notin> ?P" by auto
  have inP: "\<forall>seg\<in>set ?L. si_path seg \<in> ?P \<longrightarrow> consumed X ?d ?c seg" using dp ne by (auto simp: distinct_map inj_on_def o(1))
  have "\<forall>seg\<in>set ?L. parse_segment_id (si_path seg) ?stem = Some (si_id seg)" by (simp add: in_list_segments)
  then have pn: "\<forall>q\<in>insert (fsp_active_segment_path s) ?P. parse_segment_id q ?stem \<noteq> None" unfolding o(1) by auto
  have c1: "cleaned X s ?s1"
    using spool_closed_without [OF cl aP] file_ok_without [OF ok, of ?P] stored_without [OF ok inP] pn
    by (auto simp: cleaned_def file_stored_def fs_read_without)
  have mx: "segment_max_seq X (fs_without ?P ?d) (si_path ?a) =
      Inr (if segment_contents X ?d ?a = [] then None else Some (seq (last (segment_contents X ?d ?a))))"
    using segment_max_seq_spec [of "fs_without ?P ?d" "[?a]" ?a X] rd aP
    by (auto simp: o(1) readable_def fs_read_without segment_contents_def)
  show ?thesis
  proof (cases "consumed X ?d ?c ?a")
    case False
    then have "cleanup_loop X [?a] ?s1 = (Inr (), ?s1)" using mx by (auto simp: consumed_def)
    then show ?thesis using loop c1 by auto
  next
    case True
    let ?Q = "insert (fsp_active_segment_path s) ?P"
    obtain s2 p where s2: "advance_empty_active_segment X ?s1 = (Inr (), s2)" "spool_closed s2"
        "spool_dir s2 = fs_without ?Q ?d @ [(p, [])]" "fs_read (fs_without ?Q ?d) p = None"
        "list_segments (spool_dir s2) ?stem = list_segments (fs_without ?Q ?d) ?stem @ [\<lparr>si_id = fsp_active_segment_id s + 1, si_path = p\<rparr>]"
        "fsp_base_stem s2 = ?stem" "fsp_consumed_through_seq s2 = ?c"
      using advance_closed [of ?s1 X] c1 id by (auto simp: cleaned_def fs_without_union)
    have "\<forall>seg\<in>set ?L. si_path seg \<in> ?Q \<longrightarrow> consumed X ?d ?c seg" using inP True ne unfolding o(1) by auto
    from cleaned_snoc [OF ok this pn s2(2-7)] have s2': "cleaned X s s2" .
    have "cleanup_loop X [?a] ?s1 = (Inr (), s2)" using True mx s2(1) by (auto simp: consumed_def not_less [symmetric])
    then show ?thesis using loop s2' by auto
  qed
qed

text \<open>\<^verbatim>\<open>FileSpool::consume_through\<close>.\<close>

lemma show_nat_ascii: "c \<in> set (show_nat n) \<Longrightarrow> of_char c < (128 :: nat)"
proof (induction n rule: show_nat.induct)
  case (1 n)
  have d: "of_char (digit_char k) < (128 :: nat)" if "k < 10" for k using that by (simp add: of_char_digit)
  show ?case using 1 d [of n] d [of "n mod 10"] by (auto simp: show_nat.simps [of n] split: if_splits)
qed

lemma read_stored_u64:
  assumes "fs_read d p = Some (to_text (show_u64 n))"
  shows "fs_read_to_string p d = Inr (show_u64 n)"
proof -
  have "\<forall>c\<in>set (show_u64 n). of_char c < (128 :: nat)" by (simp add: show_u64_def show_nat_ascii)
  from to_text_ascii [OF this] show ?thesis using assms by (simp add: fs_read_to_string_def)
qed

lemma spool_closed_put_other:
  assumes "spool_closed s" and "parse_segment_id q (fsp_base_stem s) = None"
  shows "spool_closed (set_dir (fs_put q bs (spool_dir s)) (s\<lparr>fsp_consumed_through_seq := n\<rparr>))"
  using assms distinct_names_put
  by (auto simp: spool_closed_def list_segments_put_other set_dir_def set_sink_def spool_dir_def)

lemma file_consume_spec:
  assumes cl: "spool_closed s" and ok: "file_ok X s" and id: "unat (fsp_active_segment_id s) + 1 < 2 ^ 64"
  shows "\<exists>s'. file_consume_through X n s = (Inr (), s') \<and> spool_closed s' \<and> file_ok X s' \<and>
    file_stored X s' = after n (file_stored X s) \<and> fsp_consumed_through_seq s' = max n (fsp_consumed_through_seq s) \<and>
    (fsp_consumed_through_seq s < n \<longrightarrow> read_consumed_state (fsp_state_path s) (spool_dir s') = Inr n)"
proof (cases "n \<le> fsp_consumed_through_seq s")
  case True
  then show ?thesis using cl ok by (auto simp: file_consume_through_def file_stored_def after_after max_def)
next
  case False
  let ?d = "fs_put (fsp_state_path s) (to_text (show_u64 n)) (spool_dir s)"
  let ?s = "set_dir ?d (s\<lparr>fsp_consumed_through_seq := n\<rparr>)"
  have st: "parse_segment_id (fsp_state_path s) (fsp_base_stem s) = None"
    using cl parse_state_file [of "''state''" "fsp_base_stem s"] by (simp add: spool_closed_def)
  have d0: "spool_dir (s\<lparr>fsp_consumed_through_seq := n\<rparr>) = spool_dir s" by (simp add: spool_dir_def)
  have cl1: "spool_closed ?s" by (rule spool_closed_put_other [OF cl st])
  have ok1: "file_ok X ?s"
    using ok by (simp add: file_ok_def list_segments_put_other [OF st] segments_put_other [OF st])
  obtain s' where s': "cleanup_consumed_segments X ?s = (Inr (), s')" "cleaned X ?s s'"
    using cleanup_closed [OF cl1 ok1] id by auto
  have "file_stored X ?s = after n (file_stored X s)"
    using False by (simp add: file_stored_def segments_put_other [OF st] after_after max_def)
  moreover have "fs_read (spool_dir s') (fsp_state_path s) = Some (to_text (show_u64 n))"
    using s'(2) st by (simp add: cleaned_def)
  ultimately show ?thesis using s' False
    by (auto simp: file_consume_through_def write_consumed_state_def d0 cleaned_def read_stored_u64 read_consumed_state_def parse_stored_u64_def max_def Let_def)
qed

text \<open>C14. Consuming a flushed spool through \<open>n\<close> succeeds, persists \<open>n\<close>, never moves the mark backwards, and
  leaves exactly the stored records above \<open>n\<close>, whichever segment files it removed, the active one included.\<close>

theorem consume_keeps_the_rest:
  assumes "spool_closed s" and "file_ok X s" and "unat (fsp_active_segment_id s) + 1 < 2 ^ 64"
  shows "\<exists>s'. file_consume_through X n s = (Inr (), s') \<and> spool_closed s' \<and> file_ok X s' \<and>
    file_stored X s' = after n (file_stored X s) \<and>
    fsp_consumed_through_seq s' = max n (fsp_consumed_through_seq s) \<and>
    (fsp_consumed_through_seq s < n \<longrightarrow> read_consumed_state (fsp_state_path s) (spool_dir s') = Inr n)"
  by (rule file_consume_spec [OF assms])

theorem consume_keeps_the_rest_witness:
  "\<exists>s s'. file_stored identity_extern s = sample_records \<and> file_consume_through identity_extern 1 s = (Inr (), s') \<and>
     file_stored identity_extern s' = [sample_records ! 1]"
proof -
  obtain bs where bs: "length bs < 2 ^ 32" "file_records identity_extern bs = sample_records"
    by (rule small_log [of sample_records]) (simp_all add: sample_records_simps)
  have srt: "seq_sorted sample_records" by (simp add: seq_sorted_def sample_records_def)
  note ok = sample_spool_ok [OF bs(2,1) srt]
  have st: "file_stored identity_extern (sample_spool bs) = sample_records" "after 1 sample_records = [sample_records ! 1]"
    unfolding file_stored_def ok(2) by (simp_all add: sample_spool_def after_def sample_records_def)
  have "spool_closed (sample_spool bs)"
    by (simp add: spool_closed_def sample_spool_segments) (simp add: sample_spool_def writer_with_config_def sample_spool_segments)
  from consume_keeps_the_rest [OF this ok(1), of 1] st show ?thesis by (auto simp: sample_spool_def)
qed

section \<open>Consuming while a block is open\<close>

lemma fs_delete_append: "fs_read d q \<noteq> None \<Longrightarrow> fs_delete q (fs_append q b d) = fs_delete q d"
proof -
  have "fs_delete q (fs_put q c e) = fs_delete q e" for c e
    by (induction e) (auto simp: fs_delete_def)
  then show ?thesis by (simp add: fs_append_def)
qed

lemma advance_discards:
  assumes env: "spool_env X L M s" and h: "spool_holds X L s rs" and id: "unat (fsp_active_segment_id s) + 1 < 2 ^ 64"
    and one: "list_segments (spool_dir s) (fsp_base_stem s) = [\<lparr>si_id = fsp_active_segment_id s, si_path = fsp_active_segment_path s\<rparr>]"
  shows "\<exists>s'. advance_empty_active_segment X s = (Inr (), s') \<and> spool_holds X L s' []"
proof -
  let ?stem = "fsp_base_stem s" and ?n = "fsp_active_segment_id s + 1" and ?q = "fsp_active_segment_path s"
  let ?p = "segment_path ?stem ?n"
  note n = checked_add_one [OF id]
  obtain w where w: "spool_flush_block X s = (Inr (), s\<lparr>fsp_active_writer := w\<rparr>)" "only_file (spool_dir s) ?q (inner w)"
    using spool_flush_spec [OF env h] by blast
  let ?e = "dw_dir (inner w)"
  have f: "dw_file (inner w) = ?q" "list_segments ?e ?stem = [\<lparr>si_id = fsp_active_segment_id s, si_path = ?q\<rparr>]"
    using w(2) list_segments_names [of ?e "spool_dir s" ?stem] one by (simp_all add: only_file_def)
  obtain b where b: "fs_read ?e ?q = Some b" using only_file_exists [OF w(2)] by auto
  have fr: "fs_read ?e ?p = None" using fresh_segment(1) [of ?e ?stem "[]"] f(2) n by simp
  have ne: "?q \<noteq> ?p" using b fr by auto
  let ?e2 = "?e @ [(?p, [])]"
  let ?e3 = "if dw_buf (inner w) = [] then ?e2 else fs_append ?q (dw_buf (inner w)) ?e2"
  have rd: "fs_read ?e2 ?q = Some b" using b ne fr by (simp add: fs_read_snoc)
  have dl: "fs_delete ?q ?e3 = fs_without {?q} ?e @ [(?p, [])]" "\<exists>b. fs_read ?e3 ?q = Some b"
    using fs_delete_append [of ?e2 ?q] rd ne by (auto simp: fs_delete_eq_without fs_without_def fs_read_append)
  let ?w = "writer_with_config \<lparr>dw_dir = fs_without {?q} ?e @ [(?p, [])], dw_file = ?p, dw_buf = []\<rparr> (segment_writer_config (fsp_codec s) (fsp_block_alignment s))"
  let ?s = "s\<lparr>fsp_active_segment_id := ?n, fsp_active_segment_path := ?p, fsp_active_writer := ?w, fsp_active_size_bytes := 0\<rparr>"
  have "next_segment (s\<lparr>fsp_active_writer := w\<rparr>) = (Inr (), ?s\<lparr>fsp_active_writer := ?w\<lparr>inner := (inner ?w)\<lparr>dw_dir := ?e3\<rparr>\<rparr>\<rparr>)"
    using n f(1) fr by (simp add: next_segment_def start_segment_def fs_open_append_def fs_append_def fs_put_new Let_def writer_with_config_def)
  then have run: "advance_empty_active_segment X s = (Inr (), ?s)"
    using w(1) dl by (auto simp: advance_empty_active_segment_def Let_def spool_dir_def fs_remove_file_def set_dir_def set_sink_def writer_with_config_def)
  have "list_segments (fs_without {?q} ?e) ?stem = []" using f(2) by (simp add: list_segments_without)
  then have "list_segments (fs_without {?q} ?e @ [(?p, [])]) ?stem = [\<lparr>si_id = ?n, si_path = ?p\<rparr>]"
    using list_segments_snoc [OF parse_segment_path [of ?stem ?n], of "fs_without {?q} ?e" "[]"] by simp
  then have "spool_holds X L ?s []"
    by (intro spool_holds_new [where d = "fs_without {?q} ?e @ [(?p, [])]"])
      (use fr in \<open>simp_all add: spool_dir_def writer_with_config_def fs_read_snoc fs_read_without\<close>)
  with run show ?thesis by blast
qed

lemma spool_holds_put_other:
  assumes "spool_holds X L s rs" and "parse_segment_id q (fsp_base_stem s) = None"
  shows "spool_holds X L (set_dir (fs_put q bs (spool_dir s)) (s\<lparr>fsp_consumed_through_seq := n\<rparr>)) rs"
proof -
  let ?d = "spool_dir s" and ?w = "fsp_active_writer s"
  let ?s = "set_dir (fs_put q bs ?d) (s\<lparr>fsp_consumed_through_seq := n\<rparr>)"
  let ?i = "(inner ?w)\<lparr>dw_dir := fs_put q bs ?d\<rparr>"
  from assms(1) obtain old act where o: "list_segments ?d (fsp_base_stem s) = old @ [\<lparr>si_id = fsp_active_segment_id s, si_path = fsp_active_segment_path s\<rparr>]"
      "\<forall>seg\<in>set old. si_id seg < fsp_active_segment_id s" "dw_file (inner ?w) = fsp_active_segment_path s"
      "config ?w = segment_writer_config (fsp_codec s) (fsp_block_alignment s)" "ready L ?w"
      "writer_log X L dw_contents [] ?w act" "rs = concat (map (segment_contents X ?d) old) @ act"
    by (auto simp: spool_holds_def)
  have ne: "si_path seg \<noteq> q" if "seg \<in> set (list_segments ?d (fsp_base_stem s))" for seg
    using that assms(2) in_list_segments [of seg ?d] by auto
  have "fsp_active_segment_path s \<noteq> q" using ne [of "\<lparr>si_id = fsp_active_segment_id s, si_path = fsp_active_segment_path s\<rparr>"] o(1) by simp
  then have "dw_contents ?i = dw_contents (inner ?w)" using o(3) by (simp add: dw_contents_def spool_dir_def)
  then have "writer_log X L dw_contents [] (?w\<lparr>inner := ?i\<rparr>) act" using o(6) by (simp add: writer_log_def)
  moreover have "map (segment_contents X (fs_put q bs ?d)) old = map (segment_contents X ?d) old"
    using ne o(1) by (auto intro!: segment_contents_cong)
  from arg_cong [OF this, of concat] have "concat (map (segment_contents X (fs_put q bs ?d)) old) = concat (map (segment_contents X ?d) old)" .
  moreover have "fsp_active_writer ?s = ?w\<lparr>inner := ?i\<rparr>" "fsp_codec ?s = fsp_codec s" "fsp_block_alignment ?s = fsp_block_alignment s"
    by (simp_all add: set_dir_def set_sink_def)
  moreover have "ready L (?w\<lparr>inner := ?i\<rparr>)" using o(5) by (simp add: ready_def)
  ultimately show ?thesis
    unfolding spool_holds_def using o by (intro exI [of _ old] exI [of _ act]) (simp add: list_segments_put_other [OF assms(2)])
qed

text \<open>C15. Consumption while records are still in the open block of the active segment discards them. If the
  only segment on disk ends with a consumed record, then consuming through \<open>n\<close> flushes the open block into that
  segment and deletes it: the spool holds nothing afterwards, whatever sequence numbers the buffered records had.\<close>

theorem consume_discards_open_block:
  assumes env: "spool_env X L M s" and h: "spool_holds X L s rs" and id: "unat (fsp_active_segment_id s) + 1 < 2 ^ 64"
    and one: "list_segments (spool_dir s) (fsp_base_stem s) = [\<lparr>si_id = fsp_active_segment_id s, si_path = fsp_active_segment_path s\<rparr>]"
    and st: "fsp_state_path s = fsp_base_stem s @ ''.state''"
    and disk: "fs_read (spool_dir s) (fsp_active_segment_path s) = Some bs" "length bs < 2 ^ 32"
      "file_records X bs \<noteq> []" "seq (last (file_records X bs)) \<le> n"
    and new: "fsp_consumed_through_seq s < n"
  shows "\<exists>s'. file_consume_through X n s = (Inr (), s') \<and> spool_holds X L s' []"
proof -
  let ?a = "\<lparr>si_id = fsp_active_segment_id s, si_path = fsp_active_segment_path s\<rparr>"
  let ?e = "fs_put (fsp_state_path s) (to_text (show_u64 n)) (spool_dir s)"
  let ?s = "set_dir ?e (s\<lparr>fsp_consumed_through_seq := n\<rparr>)"
  have none: "parse_segment_id (fsp_state_path s) (fsp_base_stem s) = None"
    using parse_state_file [of "''state''" "fsp_base_stem s"] st by simp
  have ls: "list_segments ?e (fsp_base_stem s) = [?a]" using one by (simp add: list_segments_put_other [OF none])
  have ne: "fsp_active_segment_path s \<noteq> fsp_state_path s"
    using in_list_segments [of ?a "spool_dir s" "fsp_base_stem s"] one none by auto
  have "spool_env X L M ?s" using env by (simp add: spool_env_def set_dir_def set_sink_def)
  from advance_discards [OF this spool_holds_put_other [OF h none]] id ls
  obtain s' where s': "advance_empty_active_segment X ?s = (Inr (), s')" "spool_holds X L s' []" by auto
  have "segment_max_seq X ?e (si_path ?a) = Inr (Some (seq (last (file_records X bs))))"
    using segment_max_seq_spec [of ?e "[?a]" ?a X] disk ne by (simp add: readable_def segment_contents_def)
  then have "cleanup_consumed_segments X ?s = (Inr (), s')"
    using ls disk(4) s'(1) by (simp add: cleanup_consumed_segments_def not_less [symmetric])
  moreover have "spool_dir (s\<lparr>fsp_consumed_through_seq := n\<rparr>) = spool_dir s" by (simp add: spool_dir_def)
  ultimately show ?thesis using s'(2) new
    by (auto simp: file_consume_through_def write_consumed_state_def Let_def)
qed

theorem consume_discards_open_block_witness:
  "\<exists>s s'. spool_holds identity_extern 65536 s sample_records \<and> 1 < seq (last sample_records) \<and>
     file_consume_through identity_extern 1 s = (Inr (), s') \<and> spool_holds identity_extern 65536 s' []"
proof -
  let ?r1 = "hd sample_records" and ?r2 = "last sample_records"
  have rs: "[?r1] @ [?r2] = sample_records" "seq ?r1 = 1" "length (payload ?r1) \<le> 3" "length (payload ?r2) \<le> 3" "seq ?r2 = 2"
    by (simp_all add: sample_records_def)
  obtain bs rss where bs: "log_file identity_extern (segment_writer_config CodecNone 0) 65536 rss bs" "concat rss = [?r1]"
      "length bs < 2 ^ 32" "file_records identity_extern bs = [?r1]"
    by (rule small_log [of "[?r1]"]) (use rs in simp_all)
  let ?v = "(fsp_active_writer (sample_spool bs))\<lparr>payload_buf := records_bytes 2 12 [?r2], block_base_seq := Some 2,
    block_base_ts_unix_ns := Some 12, record_count := 1\<rparr>"
  let ?s = "(sample_spool bs)\<lparr>fsp_active_writer := ?v\<rparr>"
  have d: "spool_dir ?s = [(''a.logjet'', bs)]" by (simp add: spool_dir_def sample_spool_def writer_with_config_def)
  have env: "spool_env identity_extern 65536 65536 ?s"
    by (simp add: spool_env_def DEFAULT_BLOCK_TARGET_SIZE_def DEFAULT_MAX_BLOCK_SIZE_def)
  have len: "length (records_bytes 2 12 [?r2]) \<le> 65536"
    using length_record_bytes [of 2 12 ?r2] rs(4) by simp
  have "holds 65536 ?v [?r2]" using len by (simp add: holds_def deltas_ok_def) (simp add: sample_records_def)
  then have "writer_log identity_extern 65536 dw_contents [] ?v ([?r1] @ [?r2])"
    unfolding writer_log_def using bs(1,2)
    by (intro exI [of _ rss] exI [of _ bs] exI [of _ "[?r2]"]) (simp add: sample_spool_def writer_with_config_def dw_contents_def sample_spool_segments)
  moreover have "ready 65536 ?v"
    using len length_record_bytes [of 2 12 ?r2] by (auto simp: ready_def record_bytes_def Suc_le_eq)
  moreover have f: "fsp_base_stem ?s = ''a''" "fsp_active_segment_path ?s = ''a.logjet''" "fsp_active_segment_id ?s = 0"
      "fsp_state_path ?s = ''a.state''" "fsp_consumed_through_seq ?s = 0" "dw_file (inner ?v) = ''a.logjet''"
      "config ?v = segment_writer_config (fsp_codec ?s) (fsp_block_alignment ?s)"
    by (simp_all add: sample_spool_def writer_with_config_def)
  have a: "list_segments (spool_dir ?s) (fsp_base_stem ?s) = [\<lparr>si_id = fsp_active_segment_id ?s, si_path = fsp_active_segment_path ?s\<rparr>]"
    unfolding d f by (rule sample_spool_segments(2))
  ultimately have h: "spool_holds identity_extern 65536 ?s ([?r1] @ [?r2])"
    unfolding spool_holds_def using a f by (intro exI [of _ "[]"] exI [of _ "[?r1] @ [?r2]"]) simp
  have "\<exists>s'. file_consume_through identity_extern 1 ?s = (Inr (), s') \<and> spool_holds identity_extern 65536 s' []"
    by (rule consume_discards_open_block [OF env h _ a, where bs = bs])
      (use bs(3,4) rs(2) in \<open>simp_all only: d f sample_spool_segments(3)\<close>, simp_all)
  then show ?thesis using h rs(1,5) by auto
qed

end
