(* ===== verification/Lj_Spool.thy ===== *)
theory Lj_Spool
  imports Lj_File_Consume
begin

text \<open>
  \<^verbatim>\<open>Spool\<close>, the sum of the memory spool and the file spool the daemon works with, and the maintenance
  operations of \<^verbatim>\<open>logjetd/src/spool.rs\<close> on segment files: retention by total size, summaries, pruning
  and inspection. The OTLP decoders of \<^verbatim>\<open>opentelemetry_proto\<close> are parameters of the inspection.
\<close>

section \<open>Dispatch\<close>

datatype spool = SpoolBuffer buffer_spool | SpoolFile file_spool

datatype replay_cursor = CursorBuffer buffer_replay_cursor | CursorFile file_replay_cursor

definition spool_open :: "extern \<Rightarrow> u64 \<Rightarrow> storage_config \<Rightarrow> dir \<Rightarrow> (io_error + spool) \<times> dir" where
  "spool_open X generated cfg d =
     (case cfg of
        StorageBuffer c \<Rightarrow> (Inr (SpoolBuffer (buffer_new generated c)), d)
      | StorageFile c \<Rightarrow> apfst (map_sum id SpoolFile) (file_spool_open X generated c d))"

definition spool_append :: "extern \<Rightarrow> wire_record \<Rightarrow> spool \<Rightarrow> (io_error + unit) \<times> spool" where
  "spool_append X record s =
     (case s of
        SpoolBuffer b \<Rightarrow> (Inr (), SpoolBuffer (buffer_append record b))
      | SpoolFile f \<Rightarrow> apsnd SpoolFile (file_append X record f))"

definition spool_replay_cursor_after :: "spool \<Rightarrow> u64 \<Rightarrow> io_error + replay_cursor" where
  "spool_replay_cursor_after s n =
     (case s of
        SpoolBuffer b \<Rightarrow> Inr (CursorBuffer (buffer_replay_cursor_after b n))
      | SpoolFile f \<Rightarrow> Inr (CursorFile (file_replay_cursor_after f n)))"

definition cursor_mismatch :: io_error where
  "cursor_mismatch = IoError InvalidInput ''replay cursor type does not match spool type''"

definition spool_next_for_cursor ::
    "extern \<Rightarrow> spool \<Rightarrow> replay_cursor \<Rightarrow> (io_error + wire_record option) \<times> replay_cursor" where
  "spool_next_for_cursor X s c =
     (case (s, c) of
        (SpoolBuffer b, CursorBuffer c) \<Rightarrow>
          (case buffer_next_for_cursor b c of (r, c) \<Rightarrow> (Inr r, CursorBuffer c))
      | (SpoolFile f, CursorFile c) \<Rightarrow> apsnd CursorFile (file_next_for_cursor X f c)
      | _ \<Rightarrow> (Inl cursor_mismatch, c))"

definition spool_consume_through :: "extern \<Rightarrow> u64 \<Rightarrow> spool \<Rightarrow> (io_error + unit) \<times> spool" where
  "spool_consume_through X n s =
     (case s of
        SpoolBuffer b \<Rightarrow> (Inr (), SpoolBuffer (buffer_consume_through n b))
      | SpoolFile f \<Rightarrow> apsnd SpoolFile (file_consume_through X n f))"

definition spool_flush_pending :: "extern \<Rightarrow> spool \<Rightarrow> (io_error + unit) \<times> spool" where
  "spool_flush_pending X s =
     (case s of SpoolBuffer b \<Rightarrow> (Inr (), s) | SpoolFile f \<Rightarrow> apsnd SpoolFile (flush_pending X f))"

definition spool_fsync_if_interval :: "spool \<Rightarrow> (io_error + unit) \<times> spool" where
  "spool_fsync_if_interval s =
     (case s of SpoolBuffer b \<Rightarrow> (Inr (), s) | SpoolFile f \<Rightarrow> apsnd SpoolFile (fsync_if_interval f))"

definition spool_stream_id :: "spool \<Rightarrow> u64" where
  "spool_stream_id s = (case s of SpoolBuffer b \<Rightarrow> bs_stream_id b | SpoolFile f \<Rightarrow> fsp_stream_id f)"

definition spool_sequence_bounds :: "extern \<Rightarrow> spool \<Rightarrow> io_error + (u64 \<times> u64) option" where
  "spool_sequence_bounds X s =
     (case s of SpoolBuffer b \<Rightarrow> Inr (buffer_sequence_bounds b) | SpoolFile f \<Rightarrow> file_sequence_bounds X f)"

definition next_sequence_seed :: "extern \<Rightarrow> spool \<Rightarrow> io_error + u64" where
  "next_sequence_seed X s =
     and_then (spool_sequence_bounds X s) (\<lambda>b.
     let last_seq = (case b of Some (_, l) \<Rightarrow> l | None \<Rightarrow> 0) in
     ok_or (checked_add last_seq 1) (invalid_data ''sequence seed overflow''))"

section \<open>Summaries and pruning\<close>

record segment_summary =
  ss_id :: u64
  ss_path :: string
  ss_size_bytes :: nat
  ss_record_count :: u64
  ss_first_seq :: "u64 option"
  ss_last_seq :: "u64 option"

definition list_named_segments :: "dir \<Rightarrow> string \<Rightarrow> segment_info list" where
  "list_named_segments d file_name = list_segments d (derive_base_stem file_name)"

primrec summarise_loop :: "extern \<Rightarrow> dir \<Rightarrow> segment_info list \<Rightarrow> io_error + segment_summary list" where
  "summarise_loop X d [] = Inr []"
| "summarise_loop X d (segment # segments) =
     and_then (segment_records X d (si_path segment)) (\<lambda>rs.
     let (first_seq, last_seq, record_count) =
       fold (\<lambda>x (f, _, n). (if f = None then Some (seq x) else f, Some (seq x), saturating_add n 1)) rs (None, None, 0) in
     and_then (fs_metadata_len (si_path segment) d) (\<lambda>sz.
     and_then (summarise_loop X d segments) (\<lambda>summaries.
     Inr (\<lparr>ss_id = si_id segment, ss_path = si_path segment, ss_size_bytes = sz, ss_record_count = record_count,
           ss_first_seq = first_seq, ss_last_seq = last_seq\<rparr> # summaries))))"

definition summarise_named_segments :: "extern \<Rightarrow> dir \<Rightarrow> string \<Rightarrow> io_error + segment_summary list" where
  "summarise_named_segments X d file_name = summarise_loop X d (list_named_segments d file_name)"

text \<open>The flags of \<^verbatim>\<open>--keep-bytes\<close>, from the newest segment to the oldest.\<close>

fun keep_flags :: "nat \<Rightarrow> bool \<Rightarrow> nat \<Rightarrow> segment_summary list \<Rightarrow> bool list" where
  "keep_flags limit newest kept [] = []"
| "keep_flags limit newest kept (s # ss) =
     (if newest \<or> kept < limit then True # keep_flags limit False (usize_saturating_add kept (ss_size_bytes s)) ss
      else False # keep_flags limit False kept ss)"

definition prune_ids :: "nat option \<Rightarrow> nat option \<Rightarrow> segment_summary list \<Rightarrow> nat list" where
  "prune_ids keep_files keep_bytes summaries =
     (case keep_files of
        Some limit \<Rightarrow> if length summaries > max limit 1 then [0..<length summaries - max limit 1] else []
      | None \<Rightarrow>
          (case keep_bytes of
             Some limit \<Rightarrow>
               let flags = rev (keep_flags limit True 0 (rev summaries))
               in filter (\<lambda>i. \<not> flags ! i) [0..<length flags]
           | None \<Rightarrow> []))"

primrec remove_all :: "string list \<Rightarrow> dir \<Rightarrow> (io_error + unit) \<times> dir" where
  "remove_all [] d = (Inr (), d)"
| "remove_all (p # ps) d = try_st (fs_remove_file p d) (\<lambda>_ d. remove_all ps d)"

definition prune_named_segments ::
    "extern \<Rightarrow> string \<Rightarrow> nat option \<Rightarrow> nat option \<Rightarrow> bool \<Rightarrow> dir \<Rightarrow> (io_error + string list) \<times> dir" where
  "prune_named_segments X file_name keep_files keep_bytes dry_run d =
     (if keep_files = None \<and> keep_bytes = None then (Inl (IoError InvalidInput ''set --keep-files or --keep-bytes''), d)
      else if keep_files \<noteq> None \<and> keep_bytes \<noteq> None
      then (Inl (IoError InvalidInput ''use either --keep-files or --keep-bytes, not both''), d)
      else
        try_r (summarise_named_segments X d file_name) d (\<lambda>summaries.
        if length summaries \<le> 1 then (Inr [], d)
        else
          let removed = map (\<lambda>i. ss_path (summaries ! i)) (prune_ids keep_files keep_bytes summaries) in
          if dry_run then (Inr removed, d)
          else try_st (remove_all removed d) (\<lambda>_ d. (Inr removed, d))))"

section \<open>Inspection\<close>

record otlp_decoders =
  decode_logs :: "bytes \<Rightarrow> string + unit"
  decode_metrics :: "bytes \<Rightarrow> string + unit"
  decode_traces :: "bytes \<Rightarrow> string + unit"

definition verify_otlp_payload :: "otlp_decoders \<Rightarrow> owned_record \<Rightarrow> io_error + unit" where
  "verify_otlp_payload D record =
     map_sum (\<lambda>e. invalid_data e) id
       (case record_type record of
          Logs \<Rightarrow> decode_logs D (payload record)
        | Metrics \<Rightarrow> decode_metrics D (payload record)
        | Traces \<Rightarrow> decode_traces D (payload record)
        | Events \<Rightarrow> decode_logs D (payload record))"

record inspect_summary =
  is_reader_stats :: reader_stats
  is_otlp_verified :: u64
  is_otlp_failed :: u64

definition inspect_count :: "otlp_decoders \<Rightarrow> owned_record \<Rightarrow> u64 \<times> u64 \<Rightarrow> u64 \<times> u64" where
  "inspect_count D record n =
     (case verify_otlp_payload D record of
        Inr _ \<Rightarrow> apfst (\<lambda>v. saturating_add v 1) n
      | Inl _ \<Rightarrow> apsnd (\<lambda>v. saturating_add v 1) n)"

definition inspect_reader :: "extern \<Rightarrow> otlp_decoders \<Rightarrow> bool \<Rightarrow> reader \<Rightarrow> (io_error + inspect_summary) \<times> reader" where
  "inspect_reader X D verify r =
     (case read_records X r of
        (Inl e, r) \<Rightarrow> (Inl (to_io_error e), r)
      | (Inr rs, r) \<Rightarrow>
          let (v, f) = (if verify then fold (inspect_count D) rs (0, 0) else (0, 0))
          in (Inr \<lparr>is_reader_stats = r_stats r, is_otlp_verified = v, is_otlp_failed = f\<rparr>, r))"

section \<open>Retention\<close>

definition seg_size :: "dir \<Rightarrow> segment_info \<Rightarrow> nat" where
  "seg_size d seg = (case fs_read d (si_path seg) of None \<Rightarrow> 0 | Some b \<Rightarrow> length b)"

lemma total_bytes_eq: "total_bytes segs d = sum_list (map (seg_size d) segs)"
  by (induction segs) (auto simp: total_bytes_def map_filter_simps fs_metadata_len_def seg_size_def split: option.splits)

lemma retention_loop_spec:
  assumes "spool_dir s = fs_without P d" and "distinct (map si_path old)" and "P \<inter> si_path ` set old = {}"
    and "\<forall>seg\<in>set old. si_id seg \<noteq> fsp_active_segment_id s \<and> fs_read d (si_path seg) \<noteq> None"
    and "si_id a = fsp_active_segment_id s"
  shows "\<exists>k\<le>length old. retention_loop (old @ [a]) excess s
      = (Inr (), set_dir (fs_without (P \<union> si_path ` set (take k old)) d) s) \<and>
    (excess \<le> sum_list (map (seg_size d) (take k old)) \<or> k = length old) \<and>
    (0 < k \<longrightarrow> sum_list (map (seg_size d) (take (k - 1) old)) < excess)"
  using assms
proof (induction old arbitrary: s P excess)
  case Nil
  then show ?case by (simp, metis set_dir_simps(3))
next
  case (Cons seg old)
  show ?case
  proof (cases "excess = 0")
    case True
    then have "set_dir (fs_without P d) s = s" using Cons.prems(1) by (metis set_dir_simps(3))
    with True show ?thesis by (intro exI [of _ 0]) simp
  next
    case False
    let ?s = "set_dir (fs_without (insert (si_path seg) P) d) s"
    obtain b where b: "fs_read d (si_path seg) = Some b" using Cons.prems(4) by auto
    have rd: "fs_read (spool_dir s) (si_path seg) = Some b" using b Cons.prems(1,3) by (auto simp: fs_read_without)
    have step: "retention_loop ((seg # old) @ [a]) excess s = retention_loop (old @ [a]) (excess - seg_size d seg) ?s"
      using False Cons.prems(1,4) rd b by (simp add: fs_metadata_len_def fs_remove_file_def fs_delete_without seg_size_def)
    obtain k where k: "k \<le> length old" "retention_loop (old @ [a]) (excess - seg_size d seg) ?s
        = (Inr (), set_dir (fs_without (insert (si_path seg) P \<union> si_path ` set (take k old)) d) ?s)"
      "excess - seg_size d seg \<le> sum_list (map (seg_size d) (take k old)) \<or> k = length old"
      "0 < k \<longrightarrow> sum_list (map (seg_size d) (take (k - 1) old)) < excess - seg_size d seg"
      using Cons.IH [of ?s "insert (si_path seg) P" "excess - seg_size d seg"] Cons.prems by auto
    have "0 < k \<longrightarrow> take k (seg # old) = seg # take (k - 1) old" by (cases k) auto
    then show ?thesis using k step False by (intro exI [of _ "Suc k"]) (auto simp: Un_ac)
  qed
qed

lemma filter_drop_paths:
  assumes "distinct (map si_path segs)"
  shows "filter (\<lambda>seg. si_path seg \<notin> si_path ` set (take k segs)) segs = drop k segs"
proof -
  have "distinct (map si_path (take k segs @ drop k segs))" using assms by simp
  then have "\<forall>seg\<in>set (drop k segs). si_path seg \<notin> si_path ` set (take k segs)"
    unfolding map_append distinct_append set_map by blast
  then have "filter (\<lambda>seg. si_path seg \<notin> si_path ` set (take k segs)) (take k segs @ drop k segs) = drop k segs"
    unfolding filter_append by (simp add: filter_empty_conv filter_id_conv)
  then show ?thesis by simp
qed

lemma sum_take_drop: "sum_list (map f xs) = sum_list (map f (take k xs)) + (sum_list (map f (drop k xs)) :: nat)"
  by (metis append_take_drop_id map_append sum_list_append)

lemma enforce_retention_spec:
  assumes ls: "list_segments (spool_dir s) (fsp_base_stem s) = old @ [\<lparr>si_id = fsp_active_segment_id s, si_path = p\<rparr>]"
    and lt: "\<forall>seg\<in>set old. si_id seg < fsp_active_segment_id s" and dn: "distinct (map fst (spool_dir s))"
  shows "\<exists>k s'. enforce_retention s = (Inr (), s') \<and> k \<le> length old \<and>
    spool_dir s' = fs_without (si_path ` set (take k old)) (spool_dir s) \<and>
    list_segments (spool_dir s') (fsp_base_stem s) = drop k (list_segments (spool_dir s) (fsp_base_stem s)) \<and>
    (fsp_max_total_bytes s = 0 \<longrightarrow> k = 0) \<and>
    (fsp_max_total_bytes s \<noteq> 0 \<longrightarrow> k = length old \<or>
       total_bytes (drop k (list_segments (spool_dir s) (fsp_base_stem s))) (spool_dir s) \<le> fsp_max_total_bytes s) \<and>
    (0 < k \<longrightarrow> fsp_max_total_bytes s < total_bytes (drop (k - 1) (list_segments (spool_dir s) (fsp_base_stem s))) (spool_dir s))"
proof -
  let ?d = "spool_dir s" and ?L = "list_segments (spool_dir s) (fsp_base_stem s)" and ?m = "fsp_max_total_bytes s"
  let ?a = "\<lparr>si_id = fsp_active_segment_id s, si_path = p\<rparr>"
  have dp: "distinct (map si_path ?L)" by (rule distinct_segment_paths [OF dn])
  show ?thesis
  proof (cases "?m = 0 \<or> total_bytes ?L ?d \<le> ?m")
    case True
    then show ?thesis by (intro exI [of _ 0] exI [of _ s]) (auto simp: enforce_retention_def Let_def)
  next
    case False
    have ex: "\<forall>seg\<in>set old. si_id seg \<noteq> fsp_active_segment_id s \<and> fs_read ?d (si_path seg) \<noteq> None"
      using lt list_segments_exists [of _ ?d "fsp_base_stem s"] ls by auto
    obtain k where k: "k \<le> length old" "retention_loop (old @ [?a]) (total_bytes ?L ?d - ?m) s
          = (Inr (), set_dir (fs_without ({} \<union> si_path ` set (take k old)) ?d) s)"
        "total_bytes ?L ?d - ?m \<le> sum_list (map (seg_size ?d) (take k old)) \<or> k = length old"
        "0 < k \<longrightarrow> sum_list (map (seg_size ?d) (take (k - 1) old)) < total_bytes ?L ?d - ?m"
      using retention_loop_spec [of s "{}" ?d old ?a "total_bytes ?L ?d - ?m"] dp ex by (auto simp: ls)
    have run: "enforce_retention s = (Inr (), set_dir (fs_without (si_path ` set (take k old)) ?d) s)"
      using False k(2) by (simp add: enforce_retention_def Let_def ls)
    have tk: "take j ?L = take j old" if "j \<le> length old" for j using that by (simp add: ls)
    have "list_segments (fs_without (si_path ` set (take k old)) ?d) (fsp_base_stem s) = drop k ?L"
      using filter_drop_paths [OF dp, of k] tk [OF k(1)] by (simp add: list_segments_without)
    moreover have "total_bytes (drop k ?L) ?d \<le> ?m \<or> k = length old"
      using k(3) sum_take_drop [of "seg_size ?d" ?L k] tk [OF k(1)] by (auto simp: total_bytes_eq)
    moreover have "0 < k \<longrightarrow> ?m < total_bytes (drop (k - 1) ?L) ?d"
      using k(1,4) sum_take_drop [of "seg_size ?d" ?L "k - 1"] tk [of "k - 1"] by (auto simp: total_bytes_eq)
    ultimately show ?thesis using run k(1) False by (intro exI [of _ k] exI [of _ "set_dir (fs_without (si_path ` set (take k old)) ?d) s"]) auto
  qed
qed

section \<open>Pruning\<close>

lemma keep_flags_done: "\<not> kept < limit \<Longrightarrow> keep_flags limit False kept ss = replicate (length ss) False"
  by (induction ss) auto

lemma usize_saturating_add_room: "a + b < 2 ^ 64 \<Longrightarrow> usize_saturating_add a b = a + b"
  by (simp add: usize_saturating_add_def usize_bound_def)

lemma keep_flags_spec:
  assumes "kept + sum_list (map ss_size_bytes ss) < 2 ^ 64"
  shows "\<exists>j\<le>length ss. keep_flags limit newest kept ss = replicate j True @ replicate (length ss - j) False \<and>
    (newest \<and> ss \<noteq> [] \<longrightarrow> 0 < j) \<and>
    (\<forall>i<j. (newest \<and> i = 0) \<or> kept + sum_list (map ss_size_bytes (take i ss)) < limit) \<and>
    (j < length ss \<longrightarrow> limit \<le> kept + sum_list (map ss_size_bytes (take j ss)))"
  using assms
proof (induction ss arbitrary: kept newest)
  case (Cons s ss)
  show ?case
  proof (cases "newest \<or> kept < limit")
    case True
    have sat: "usize_saturating_add kept (ss_size_bytes s) = kept + ss_size_bytes s"
      using Cons.prems by (intro usize_saturating_add_room) simp
    obtain j where j: "j \<le> length ss"
        "keep_flags limit False (kept + ss_size_bytes s) ss = replicate j True @ replicate (length ss - j) False"
        "\<forall>i<j. kept + ss_size_bytes s + sum_list (map ss_size_bytes (take i ss)) < limit"
        "j < length ss \<longrightarrow> limit \<le> kept + ss_size_bytes s + sum_list (map ss_size_bytes (take j ss))"
      using Cons.IH [of "kept + ss_size_bytes s" False] Cons.prems by (auto simp: add.assoc)
    have "(newest \<and> i = 0) \<or> kept + sum_list (map ss_size_bytes (take i (s # ss))) < limit" if "i < Suc j" for i
      using that True j(3) by (cases i) (auto simp: add.assoc)
    then show ?thesis using True sat j by (intro exI [of _ "Suc j"]) (simp add: add.assoc)
  next
    case False
    then show ?thesis by (intro exI [of _ 0]) (simp add: keep_flags_done)
  qed
qed simp

lemma filter_flags:
  "filter (\<lambda>i. \<not> (replicate a False @ replicate b True) ! i) [0..<a + b] = [0..<a]"
proof -
  have "[0..<a + b] = [0..<a] @ [a..<a + b]" by (rule upt_add_eq_append) simp
  moreover have "filter (\<lambda>i. \<not> (replicate a False @ replicate b True) ! i) [0..<a] = [0..<a]"
    by (simp add: filter_id_conv nth_append)
  moreover have "filter (\<lambda>i. \<not> (replicate a False @ replicate b True) ! i) [a..<a + b] = []"
    by (auto simp: filter_empty_conv nth_append)
  ultimately show ?thesis by simp
qed

text \<open>\<open>kept_suffix sizes m k\<close>: dropping the first \<open>k\<close> files is what \<^verbatim>\<open>--keep-bytes m\<close> asks for: every
  older file is kept only while the newer ones are below the limit, and the newest always.\<close>

definition kept_suffix :: "nat list \<Rightarrow> nat \<Rightarrow> nat \<Rightarrow> bool" where
  "kept_suffix sizes m k \<longleftrightarrow> (sizes \<noteq> [] \<longrightarrow> k < length sizes) \<and>
     (\<forall>i. k \<le> i \<and> i + 1 < length sizes \<longrightarrow> sum_list (drop (i + 1) sizes) < m) \<and>
     (0 < k \<longrightarrow> m \<le> sum_list (drop k sizes))"

lemma sum_take_rev: "i \<le> length xs \<Longrightarrow> sum_list (take i (rev xs)) = (sum_list (drop (length xs - i) xs) :: nat)"
  by (simp add: take_rev)

lemma prune_ids_bytes:
  assumes "sum_list (map ss_size_bytes ss) < 2 ^ 64"
  shows "\<exists>k\<le>length ss. prune_ids None (Some m) ss = [0..<k] \<and> kept_suffix (map ss_size_bytes ss) m k"
proof -
  let ?z = "map ss_size_bytes ss" and ?n = "length ss"
  have s: "sum_list (map ss_size_bytes (rev ss)) = sum_list ?z" by (simp add: rev_map [symmetric])
  obtain j where j: "j \<le> ?n" "keep_flags m True 0 (rev ss) = replicate j True @ replicate (?n - j) False"
      "ss \<noteq> [] \<longrightarrow> 0 < j" "\<forall>i<j. i = 0 \<or> sum_list (map ss_size_bytes (take i (rev ss))) < m"
      "j < ?n \<longrightarrow> m \<le> sum_list (map ss_size_bytes (take j (rev ss)))"
    using keep_flags_spec [of 0 "rev ss" m True] assms s by auto
  have tk: "sum_list (map ss_size_bytes (take i (rev ss))) = sum_list (drop (?n - i) ?z)" if "i \<le> ?n" for i
    using that sum_take_rev [of i ?z] by (simp add: take_map rev_map)
  have "prune_ids None (Some m) ss = [0..<?n - j]"
    using filter_flags [of "?n - j" j] j(1,2) by (simp add: prune_ids_def Let_def)
  moreover have "kept_suffix ?z m (?n - j)"
    unfolding kept_suffix_def
  proof (intro conjI allI impI)
    show "?z \<noteq> [] \<Longrightarrow> ?n - j < length ?z" using j(1,3) by (cases ss) auto
    show "sum_list (drop (i + 1) ?z) < m" if "?n - j \<le> i \<and> i + 1 < length ?z" for i
      using that j(1,4) tk [of "?n - (i + 1)"] by (auto dest: spec [of _ "?n - (i + 1)"])
    show "m \<le> sum_list (drop (?n - j) ?z)" if "0 < ?n - j" using that j(1,5) tk [of j] by simp
  qed
  ultimately show ?thesis by (intro exI [of _ "?n - j"]) simp
qed

lemma remove_all_spec:
  "distinct ps \<Longrightarrow> \<forall>p\<in>set ps. fs_read (fs_without P d) p \<noteq> None \<Longrightarrow>
    remove_all ps (fs_without P d) = (Inr (), fs_without (set ps \<union> P) d)"
proof (induction ps arbitrary: P)
  case (Cons p ps)
  have "fs_remove_file p (fs_without P d) = (Inr (), fs_without (insert p P) d)"
    using Cons.prems(2) by (simp add: fs_remove_file_def fs_delete_without)
  moreover have "\<forall>q\<in>set ps. fs_read (fs_without (insert p P) d) q \<noteq> None"
    using Cons.prems by (auto simp: fs_read_without split: if_splits)
  ultimately show ?case using Cons.IH [of "insert p P"] Cons.prems(1) by simp
qed simp

lemma summarise_spec:
  assumes "readable d segs"
  shows "\<exists>ss. summarise_loop X d segs = Inr ss \<and> map ss_path ss = map si_path segs \<and> map ss_size_bytes ss = map (seg_size d) segs"
  using assms
proof (induction segs)
  case (Cons seg segs)
  obtain bs where bs: "fs_read d (si_path seg) = Some bs" "length bs < 2 ^ 32" using Cons.prems by (auto simp: readable_def)
  obtain ss where "summarise_loop X d segs = Inr ss" "map ss_path ss = map si_path segs" "map ss_size_bytes ss = map (seg_size d) segs"
    using Cons by (auto simp: readable_def)
  then show ?case using segment_records_spec [OF bs, of X] bs
    by (auto simp: fs_metadata_len_def seg_size_def split: prod.splits)
qed simp

lemma prune_spec:
  assumes rd: "readable d (list_named_segments d name)" and dn: "distinct (map fst d)"
    and sz: "total_bytes (list_named_segments d name) d < 2 ^ 64" and one: "(kf = None) \<noteq> (kb = None)"
  shows "\<exists>k. prune_named_segments X name kf kb dry d =
      (Inr (map si_path (take k (list_named_segments d name))),
       if dry then d else fs_without (si_path ` set (take k (list_named_segments d name))) d) \<and>
    (\<forall>m. kf = Some m \<longrightarrow> k = length (list_named_segments d name) - max m 1) \<and>
    (\<forall>m. kb = Some m \<longrightarrow> kept_suffix (map (seg_size d) (list_named_segments d name)) m k)"
proof -
  let ?L = "list_named_segments d name"
  obtain ss where ss: "summarise_named_segments X d name = Inr ss" "map ss_path ss = map si_path ?L"
      "map ss_size_bytes ss = map (seg_size d) ?L"
    using summarise_spec [OF rd, of X] by (auto simp: summarise_named_segments_def)
  have len: "length ss = length ?L" using ss(2) by (metis length_map)
  have "\<exists>k\<le>length ss. prune_ids kf kb ss = [0..<k] \<and> (\<forall>m. kf = Some m \<longrightarrow> k = length ss - max m 1) \<and>
      (\<forall>m. kb = Some m \<longrightarrow> kept_suffix (map ss_size_bytes ss) m k)"
  proof (cases kf)
    case (Some m)
    then show ?thesis using one by (intro exI [of _ "length ss - max m 1"]) (auto simp: prune_ids_def)
  next
    case None
    then obtain m where "kb = Some m" using one by auto
    with None show ?thesis using prune_ids_bytes [of ss m] sz ss(3) by (auto simp: total_bytes_eq)
  qed
  then obtain k where k: "k \<le> length ss" "prune_ids kf kb ss = [0..<k]" "\<forall>m. kf = Some m \<longrightarrow> k = length ss - max m 1"
      "\<forall>m. kb = Some m \<longrightarrow> kept_suffix (map (seg_size d) ?L) m k" by (auto simp: ss(3))
  have "map (\<lambda>i. ss_path (ss ! i)) [0..<k] = take k (map ss_path ss)" using k(1) by (intro nth_equalityI) auto
  then have rem: "map (\<lambda>i. ss_path (ss ! i)) (prune_ids kf kb ss) = map si_path (take k ?L)" by (simp add: k(2) ss(2) take_map)
  have dp: "distinct (map si_path (take k ?L))"
    using distinct_segment_paths [OF dn, of "derive_base_stem name"] by (metis distinct_take list_named_segments_def take_map)
  have ex: "\<forall>p\<in>set (map si_path (take k ?L)). fs_read d p \<noteq> None" using rd by (auto simp: readable_def dest: in_set_takeD)
  have "remove_all (map si_path (take k ?L)) d = (Inr (), fs_without (si_path ` set (take k ?L)) d)"
    using remove_all_spec [OF dp, of "{}" d] ex by simp
  moreover have "k = 0" if "length ss \<le> 1"
  proof (cases kf)
    case None
    then obtain m where "kept_suffix (map (seg_size d) ?L) m k" using one k(4) by auto
    then show ?thesis using that k(1) len by (cases "?L = []") (auto simp: kept_suffix_def)
  qed (use that k(3) in auto)
  ultimately show ?thesis using ss(1) k(3,4) len rem one
    by (intro exI [of _ k]) (auto simp: prune_named_segments_def Let_def)
qed

section \<open>Sequence numbers of a spool\<close>

definition bounds_step :: "u64 \<Rightarrow> owned_record \<Rightarrow> u64 option \<times> u64 option \<Rightarrow> u64 option \<times> u64 option" where
  "bounds_step n x b = (if seq x \<le> n then b else (if fst b = None then Some (seq x) else fst b, Some (seq x)))"

lemma bounds_loop_spec:
  "readable d segs \<Longrightarrow> bounds_loop X d n segs b = Inr (fold (bounds_step n) (concat (map (segment_contents X d) segs)) b)"
proof (induction segs arbitrary: b)
  case (Cons seg segs)
  obtain bs where bs: "fs_read d (si_path seg) = Some bs" "length bs < 2 ^ 32" using Cons.prems by (auto simp: readable_def)
  have st: "(\<lambda>x (first_seq, last_seq). if seq x \<le> n then (first_seq, last_seq)
      else (if first_seq = None then Some (seq x) else first_seq, Some (seq x))) = bounds_step n"
    by (auto simp: fun_eq_iff bounds_step_def)
  have "segment_contents X d seg = file_records X bs" using bs by (simp add: segment_contents_def)
  then show ?case using Cons.IH Cons.prems segment_records_spec [OF bs, of X]
    by (simp add: readable_def st)
qed simp

lemma bounds_step_simps:
  "bounds_step n x (Some f, l) = (Some f, if n < seq x then Some (seq x) else l)"
  "bounds_step n x (None, None) = (if n < seq x then (Some (seq x), Some (seq x)) else (None, None))"
  "after n (x # rs) = (if n < seq x then x # after n rs else after n rs)" "after n [] = []"
  by (auto simp: bounds_step_def after_def not_le)

lemma fold_bounds_step:
  "fold (bounds_step n) rs (Some f, l) = (Some f, if after n rs = [] then l else Some (seq (last (after n rs))))"
  by (induction rs arbitrary: l) (auto simp: bounds_step_simps)

lemma fold_bounds_step_none:
  "fold (bounds_step n) rs (None, None) =
    (if after n rs = [] then (None, None) else (Some (seq (hd (after n rs))), Some (seq (last (after n rs)))))"
  by (induction rs) (auto simp: bounds_step_simps fold_bounds_step)

lemma file_sequence_bounds_spec:
  assumes "file_ok X s"
  shows "file_sequence_bounds X s =
    Inr (if file_stored X s = [] then None else Some (seq (hd (file_stored X s)), seq (last (file_stored X s))))"
  using assms bounds_loop_spec [of "spool_dir s" _ X]
  by (auto simp: file_ok_def file_sequence_bounds_def fold_bounds_step_none disk_records_def [symmetric] file_stored_def split: list.splits)

section \<open>Properties\<close>

text \<open>C16. Retention removes the oldest segment files and nothing else: the first \<open>k\<close> of the listing, never the
  active one. Afterwards the total is within the limit unless only the active segment is left, and \<open>k\<close> is the
  least number for which that holds.\<close>

theorem retention_removes_the_oldest:
  assumes "list_segments (spool_dir s) (fsp_base_stem s) = old @ [\<lparr>si_id = fsp_active_segment_id s, si_path = p\<rparr>]"
    and "\<forall>seg\<in>set old. si_id seg < fsp_active_segment_id s" and "distinct (map fst (spool_dir s))"
  shows "\<exists>k s'. enforce_retention s = (Inr (), s') \<and> k \<le> length old \<and>
    spool_dir s' = fs_without (si_path ` set (take k old)) (spool_dir s) \<and>
    list_segments (spool_dir s') (fsp_base_stem s) = drop k (list_segments (spool_dir s) (fsp_base_stem s)) \<and>
    (fsp_max_total_bytes s = 0 \<longrightarrow> k = 0) \<and>
    (fsp_max_total_bytes s \<noteq> 0 \<longrightarrow> k = length old \<or>
       total_bytes (drop k (list_segments (spool_dir s) (fsp_base_stem s))) (spool_dir s) \<le> fsp_max_total_bytes s) \<and>
    (0 < k \<longrightarrow> fsp_max_total_bytes s < total_bytes (drop (k - 1) (list_segments (spool_dir s) (fsp_base_stem s))) (spool_dir s))"
  by (rule enforce_retention_spec [OF assms])

text \<open>Three segments of ten bytes and a limit of fifteen.\<close>

definition three_segments :: dir where
  "three_segments = [(''a-2.logjet'', replicate 10 1), (''a.logjet'', replicate 10 2), (''a-1.logjet'', replicate 10 3)]"

lemma three_segments_list:
  "list_segments three_segments ''a'' =
     [\<lparr>si_id = 0, si_path = ''a.logjet''\<rparr>, \<lparr>si_id = 1, si_path = ''a-1.logjet''\<rparr>, \<lparr>si_id = 2, si_path = ''a-2.logjet''\<rparr>]"
  by (simp add: three_segments_def list_segments_def map_filter_simps parse_segment_id_def strip_suffix_def
      parse_u64_def parse_nat_below_def to_digit_def word_le_nat_alt)

theorem retention_removes_the_oldest_witness:
  "\<exists>s s'. spool_dir s = three_segments \<and> fsp_max_total_bytes s = 15 \<and> enforce_retention s = (Inr (), s') \<and>
     list_segments (spool_dir s') ''a'' = [\<lparr>si_id = 2, si_path = ''a-2.logjet''\<rparr>]"
proof -
  let ?s = "set_dir three_segments ((sample_spool [])\<lparr>fsp_active_segment_id := 2, fsp_active_segment_path := ''a-2.logjet'', fsp_max_total_bytes := 15\<rparr>)"
  have f: "spool_dir ?s = three_segments" "fsp_base_stem ?s = ''a''" "fsp_active_segment_id ?s = 2" "fsp_max_total_bytes ?s = 15"
    by (simp_all add: sample_spool_def) (simp add: set_dir_def set_sink_def)
  have t: "total_bytes (drop k [\<lparr>si_id = 0, si_path = ''a.logjet''\<rparr>, \<lparr>si_id = 1, si_path = ''a-1.logjet''\<rparr>, \<lparr>si_id = 2, si_path = ''a-2.logjet''\<rparr>])
      three_segments = 30 - 10 * k" if k2: "k \<le> 2" for k
  proof -
    consider "k = 0" | "k = 1" | "k = 2" using k2 by linarith
    then show ?thesis by cases (simp_all add: total_bytes_eq seg_size_def three_segments_def fs_read_def)
  qed
  have dn: "distinct (map fst three_segments)" by (simp add: three_segments_def)
  let ?old = "[\<lparr>si_id = 0, si_path = ''a.logjet''\<rparr>, \<lparr>si_id = 1, si_path = ''a-1.logjet''\<rparr>]"
  have "\<exists>k s'. enforce_retention ?s = (Inr (), s') \<and> k \<le> length ?old \<and>
      list_segments (spool_dir s') ''a'' = drop k (?old @ [\<lparr>si_id = 2, si_path = ''a-2.logjet''\<rparr>]) \<and>
      (k = length ?old \<or> total_bytes (drop k (?old @ [\<lparr>si_id = 2, si_path = ''a-2.logjet''\<rparr>])) three_segments \<le> 15)"
    using retention_removes_the_oldest [of ?s ?old "''a-2.logjet''", unfolded f three_segments_list, OF _ _ dn]
    by simp blast
  then obtain k s' where k: "enforce_retention ?s = (Inr (), s')" "k \<le> 2"
      "list_segments (spool_dir s') ''a'' = drop k (?old @ [\<lparr>si_id = 2, si_path = ''a-2.logjet''\<rparr>])"
      "k = 2 \<or> total_bytes (drop k (?old @ [\<lparr>si_id = 2, si_path = ''a-2.logjet''\<rparr>])) three_segments \<le> 15"
    by (auto simp: numeral_2_eq_2)
  have "k = 2" using k(2,4) t [of k] by auto
  then show ?thesis using k(1,3) f by (intro exI [of _ ?s] exI [of _ s']) (simp add: three_segments_list)
qed

text \<open>Pruning with exactly one of the two limits removes the oldest segment files of the listing and returns
  their names; a dry run changes nothing. With \<^verbatim>\<open>--keep-files m\<close> the newest \<open>max m 1\<close> stay; with
  \<^verbatim>\<open>--keep-bytes m\<close> the newest always stays, an older one exactly while the newer ones add up to less
  than \<open>m\<close>.\<close>

theorem prune_removes_the_oldest:
  assumes "readable d (list_named_segments d name)" and "distinct (map fst d)"
    and "total_bytes (list_named_segments d name) d < 2 ^ 64" and "(kf = None) \<noteq> (kb = None)"
  shows "\<exists>k. prune_named_segments X name kf kb dry d =
      (Inr (map si_path (take k (list_named_segments d name))),
       if dry then d else fs_without (si_path ` set (take k (list_named_segments d name))) d) \<and>
    (\<forall>m. kf = Some m \<longrightarrow> k = length (list_named_segments d name) - max m 1) \<and>
    (\<forall>m. kb = Some m \<longrightarrow> kept_suffix (map (seg_size d) (list_named_segments d name)) m k)"
  by (rule prune_spec [OF assms])

theorem prune_removes_the_oldest_witness:
  "prune_named_segments identity_extern ''a.logjet'' (Some 2) None False three_segments
     = (Inr [''a.logjet''], [(''a-2.logjet'', replicate 10 1), (''a-1.logjet'', replicate 10 3)])"
proof -
  have l: "list_named_segments three_segments ''a.logjet'' = list_segments three_segments ''a''"
    by (simp add: list_named_segments_def derive_base_stem_def strip_suffix_def)
  have r: "readable three_segments (list_segments three_segments ''a'')" "distinct (map fst three_segments)"
      "total_bytes (list_segments three_segments ''a'') three_segments < 2 ^ 64"
    unfolding three_segments_list by (simp_all add: readable_def total_bytes_eq seg_size_def three_segments_def fs_read_def)
  show ?thesis
    using prune_removes_the_oldest [of three_segments "''a.logjet''" "Some 2" None identity_extern False] r
    unfolding l by (auto simp: three_segments_list) (simp add: three_segments_def fs_without_def)
qed

text \<open>C17. A spool that was drained restarts its numbering at 1 although the consumed mark stays: the sequence
  number handed to the first new record is at or below the mark, so the record is not visible to any replay
  session.\<close>

theorem drained_spool_restarts_below_its_mark:
  assumes cl: "spool_closed s" and ok: "file_ok X s" and id: "unat (fsp_active_segment_id s) + 1 < 2 ^ 64"
    and all: "\<forall>r\<in>set (file_stored X s). seq r \<le> n" and new: "fsp_consumed_through_seq s < n"
  shows "\<exists>s'. file_consume_through X n s = (Inr (), s') \<and> next_sequence_seed X (SpoolFile s') = Inr 1 \<and>
    (\<forall>r. seq r = 1 \<longrightarrow> after (fsp_consumed_through_seq s') [r] = [])"
proof -
  obtain s' where s': "file_consume_through X n s = (Inr (), s')" "file_ok X s'"
      "file_stored X s' = after n (file_stored X s)" "fsp_consumed_through_seq s' = max n (fsp_consumed_through_seq s)"
    using file_consume_spec [OF cl ok id, of n] by blast
  have st: "file_stored X s' = []" using all s'(3) by (auto simp: after_def filter_empty_conv not_less)
  have "next_sequence_seed X (SpoolFile s') = Inr 1"
    using file_sequence_bounds_spec [OF s'(2)] st by (simp add: next_sequence_seed_def spool_sequence_bounds_def checked_add_def)
  moreover have "n \<noteq> 0" using new by auto
  then have "1 \<le> n" by (simp add: word_le_nat_alt Suc_le_eq unat_gt_0)
  ultimately show ?thesis using s'(1,4) new by (auto simp: after_def max_def)
qed

theorem drained_spool_restarts_below_its_mark_witness:
  "\<exists>s s'. file_stored identity_extern s = sample_records \<and> file_consume_through identity_extern 2 s = (Inr (), s') \<and>
     next_sequence_seed identity_extern (SpoolFile s') = Inr 1"
proof -
  obtain bs where bs: "length bs < 2 ^ 32" "file_records identity_extern bs = sample_records"
    by (rule small_log [of sample_records]) (simp_all add: sample_records_simps)
  have srt: "seq_sorted sample_records" by (simp add: seq_sorted_def sample_records_def)
  note ok = sample_spool_ok [OF bs(2,1) srt]
  have st: "file_stored identity_extern (sample_spool bs) = sample_records"
    unfolding file_stored_def ok(2) by (simp add: sample_spool_def after_def sample_records_def)
  have "spool_closed (sample_spool bs)"
    by (simp add: spool_closed_def sample_spool_segments) (simp add: sample_spool_def writer_with_config_def sample_spool_segments)
  moreover have "\<forall>r\<in>set (file_stored identity_extern (sample_spool bs)). seq r \<le> 2"
    unfolding st by (simp add: sample_records_def)
  ultimately show ?thesis
    using drained_spool_restarts_below_its_mark [OF _ ok(1), of 2] st by (auto simp: sample_spool_def)
qed

end
