(* ===== verification/Lj_Otlp.thy ===== *)
theory Lj_Otlp
  imports Lj_Format
begin

text \<open>
  The OTLP messages the daemon and the bridge look into. The message types and their encoding are those of
  \<^verbatim>\<open>opentelemetry_proto\<close> and \<^verbatim>\<open>prost\<close>; a message is modelled by the fields the code reads,
  and every field it only carries along is kept as opaque bytes. Encoding and decoding are the parameter
  \<open>otlp\<close>.
\<close>

type_synonym opaque = bytes

record log_record =
  lr_time_unix_nano :: u64
  lr_observed_time_unix_nano :: u64
  lr_severity_number :: int
  lr_rest :: opaque

record scope_logs =
  sl_scope :: "opaque option"
  sl_log_records :: "log_record list"
  sl_schema_url :: opaque

record resource_logs =
  rl_resource :: "opaque option"
  rl_scope_logs :: "scope_logs list"
  rl_schema_url :: opaque

type_synonym logs_request = "resource_logs list"

text \<open>Of a metric, its data points by their timestamps; of a span, its start.\<close>

datatype metric_data =
    Gauge "u64 list" | Sum_data "u64 list" | Histogram "u64 list" | ExponentialHistogram "u64 list" | Summary "u64 list"

record metric =
  me_data :: "metric_data option"
  me_rest :: opaque

record scope_metrics =
  sm_metrics :: "metric list"
  sm_rest :: opaque

record resource_metrics =
  rm_scope_metrics :: "scope_metrics list"
  rm_rest :: opaque

type_synonym metrics_request = "resource_metrics list"

record span =
  sp_start_time_unix_nano :: u64
  sp_rest :: opaque

record scope_spans =
  ss_spans :: "span list"
  ss_rest :: opaque

record resource_spans =
  rs_scope_spans :: "scope_spans list"
  rs_rest :: opaque

type_synonym traces_request = "resource_spans list"

record otlp =
  logs_decode :: "bytes \<Rightarrow> string + logs_request"
  logs_encode :: "logs_request \<Rightarrow> bytes"
  metrics_decode :: "bytes \<Rightarrow> string + metrics_request"
  metrics_encode :: "metrics_request \<Rightarrow> bytes"
  traces_decode :: "bytes \<Rightarrow> string + traces_request"
  traces_encode :: "traces_request \<Rightarrow> bytes"
  gunzip :: "bytes \<Rightarrow> string + bytes"

definition batch_records :: "logs_request \<Rightarrow> log_record list" where
  "batch_records b = concat (map sl_log_records (concat (map rl_scope_logs b)))"

definition batch_metrics :: "metrics_request \<Rightarrow> metric list" where
  "batch_metrics b = concat (map sm_metrics (concat (map rm_scope_metrics b)))"

definition batch_spans :: "traces_request \<Rightarrow> span list" where
  "batch_spans b = concat (map ss_spans (concat (map rs_scope_spans b)))"

end
