(* ===== verification/Lj_Daemon.thy ===== *)
theory Lj_Daemon
  imports Lj_Spool Lj_Otlp "HOL-Library.Multiset"
begin

text \<open>
  The ingest side of \<^verbatim>\<open>logjetd/src/daemon.rs\<close>: the overload policy, the connection limiter, and the
  handlers for OTLP over HTTP, OTLP over gRPC and the wire protocol, each as a function on the state the threads
  share. Time is an argument: \<open>at_decide\<close> and \<open>at_report\<close> are readings of \<^verbatim>\<open>Instant::now\<close> in
  nanoseconds, \<open>wall_unix_ns\<close> one of \<^verbatim>\<open>unix_time_nanos\<close>. A function here is a handler that no other
  thread interrupts; \<open>Lj_Ingest\<close> takes it apart into the steps that can interleave. Poisoned mutexes are not
  modelled. The connection limiter is not under a mutex: its load and compare-exchange are separate steps.
\<close>

section \<open>The overload policy\<close>

record moment =
  at_decide :: nat
  at_report :: nat
  wall_unix_ns :: u64

datatype batch_priority = PUnknown | PTrace | PDebug | PInfo | PWarn | PError | PFatal

primrec priority_rank :: "batch_priority \<Rightarrow> nat" where
  "priority_rank PUnknown = 0"
| "priority_rank PTrace = 1"
| "priority_rank PDebug = 2"
| "priority_rank PInfo = 3"
| "priority_rank PWarn = 4"
| "priority_rank PError = 5"
| "priority_rank PFatal = 6"

lemma priority_rank_inj: "priority_rank a = priority_rank b \<longleftrightarrow> a = b"
  by (cases a; cases b) simp_all

instantiation batch_priority :: linorder
begin

definition less_eq_batch_priority :: "batch_priority \<Rightarrow> batch_priority \<Rightarrow> bool" where
  "a \<le> b \<longleftrightarrow> priority_rank a \<le> priority_rank b"

definition less_batch_priority :: "batch_priority \<Rightarrow> batch_priority \<Rightarrow> bool" where
  "a < b \<longleftrightarrow> priority_rank a < priority_rank b"

instance
  by standard (auto simp: less_eq_batch_priority_def less_batch_priority_def priority_rank_inj)

end

datatype ingest_decision = Accept | AcceptPriorityBypass | RejectRateLimited

record ingest_stats =
  st_accepted :: u64
  st_priority_bypass :: u64
  st_rate_limited :: u64
  st_oversize_rejected :: u64
  st_client_cap_rejected :: u64

definition ingest_stats_default :: ingest_stats where
  "ingest_stats_default =
     \<lparr>st_accepted = 0, st_priority_bypass = 0, st_rate_limited = 0, st_oversize_rejected = 0, st_client_cap_rejected = 0\<rparr>"

record ingest_policy =
  ip_window_start :: nat
  ip_accepted_in_window :: u64
  ip_stats :: ingest_stats
  ip_next_report_at :: nat

definition report_interval :: "ingest_overload_config \<Rightarrow> nat" where
  "report_interval cfg = max (unat (report_every_ms cfg)) 1 * 1000000"

definition policy_new :: "ingest_overload_config \<Rightarrow> nat \<Rightarrow> ingest_policy" where
  "policy_new cfg now =
     \<lparr>ip_window_start = now, ip_accepted_in_window = 0, ip_stats = ingest_stats_default,
      ip_next_report_at = now + report_interval cfg\<rparr>"

primrec batch_priority_floor :: "severity_floor \<Rightarrow> batch_priority" where
  "batch_priority_floor FloorTrace = PTrace"
| "batch_priority_floor FloorDebug = PDebug"
| "batch_priority_floor FloorInfo = PInfo"
| "batch_priority_floor FloorWarn = PWarn"
| "batch_priority_floor FloorError = PError"
| "batch_priority_floor FloorFatal = PFatal"

definition maybe_report_overload :: "ingest_overload_config \<Rightarrow> nat \<Rightarrow> ingest_policy \<Rightarrow> ingest_policy" where
  "maybe_report_overload cfg now p =
     (if report_every_ms cfg = 0 then p
      else if now < ip_next_report_at p then p
      else p\<lparr>ip_next_report_at := now + report_interval cfg\<rparr>)"

definition bump :: "u64 \<Rightarrow> u64" where
  "bump n = saturating_add n 1"

definition decide ::
    "ingest_overload_config \<Rightarrow> moment \<Rightarrow> batch_priority \<Rightarrow> ingest_policy \<Rightarrow> ingest_decision \<times> ingest_policy" where
  "decide cfg t priority p =
     (let p = (if at_decide t - ip_window_start p \<ge> 1000000000
               then p\<lparr>ip_window_start := at_decide t, ip_accepted_in_window := 0\<rparr> else p);
          s = ip_stats p in
      if max_batches_per_second cfg = 0 \<or> ip_accepted_in_window p < max_batches_per_second cfg
      then (Accept, p\<lparr>ip_accepted_in_window := bump (ip_accepted_in_window p),
                      ip_stats := s\<lparr>st_accepted := bump (st_accepted s)\<rparr>\<rparr>)
      else if priority \<ge> batch_priority_floor (priority_severity_floor cfg)
      then (AcceptPriorityBypass, maybe_report_overload cfg (at_report t)
             (p\<lparr>ip_stats := s\<lparr>st_priority_bypass := bump (st_priority_bypass s)\<rparr>\<rparr>))
      else (RejectRateLimited, maybe_report_overload cfg (at_report t)
             (p\<lparr>ip_stats := s\<lparr>st_rate_limited := bump (st_rate_limited s)\<rparr>\<rparr>)))"

definition note_oversize :: "ingest_overload_config \<Rightarrow> moment \<Rightarrow> ingest_policy \<Rightarrow> ingest_policy" where
  "note_oversize cfg t p =
     maybe_report_overload cfg (at_report t)
       (p\<lparr>ip_stats := (ip_stats p)\<lparr>st_oversize_rejected := bump (st_oversize_rejected (ip_stats p))\<rparr>\<rparr>)"

definition note_client_cap :: "ingest_overload_config \<Rightarrow> moment \<Rightarrow> ingest_policy \<Rightarrow> ingest_policy" where
  "note_client_cap cfg t p =
     maybe_report_overload cfg (at_report t)
       (p\<lparr>ip_stats := (ip_stats p)\<lparr>st_client_cap_rejected := bump (st_client_cap_rejected (ip_stats p))\<rparr>\<rparr>)"

section \<open>Looking into a batch\<close>

definition priority_from_severity_number :: "int \<Rightarrow> batch_priority" where
  "priority_from_severity_number n =
     (if 21 \<le> n \<and> n \<le> 24 then PFatal
      else if 17 \<le> n \<and> n \<le> 20 then PError
      else if 13 \<le> n \<and> n \<le> 16 then PWarn
      else if 9 \<le> n \<and> n \<le> 12 then PInfo
      else if 5 \<le> n \<and> n \<le> 8 then PDebug
      else if 1 \<le> n \<and> n \<le> 4 then PTrace
      else PUnknown)"

definition classify_otlp_batch_priority :: "logs_request \<Rightarrow> batch_priority" where
  "classify_otlp_batch_priority batch =
     fold (\<lambda>rl highest. fold (\<lambda>sl highest. fold (\<lambda>r highest. max highest (priority_from_severity_number (lr_severity_number r)))
       (sl_log_records sl) highest) (rl_scope_logs rl) highest) batch PUnknown"

fun first_log_time :: "log_record list \<Rightarrow> u64 option" where
  "first_log_time [] = None"
| "first_log_time (r # rs) =
     (if lr_time_unix_nano r \<noteq> 0 then Some (lr_time_unix_nano r)
      else if lr_observed_time_unix_nano r \<noteq> 0 then Some (lr_observed_time_unix_nano r)
      else first_log_time rs)"

definition extract_batch_timestamp :: "logs_request \<Rightarrow> u64 option" where
  "extract_batch_timestamp batch = first_log_time (batch_records batch)"

primrec data_points :: "metric_data \<Rightarrow> u64 list" where
  "data_points (Gauge ts) = ts"
| "data_points (Sum_data ts) = ts"
| "data_points (Histogram ts) = ts"
| "data_points (ExponentialHistogram ts) = ts"
| "data_points (Summary ts) = ts"

text \<open>The \<^verbatim>\<open>?\<close> on \<^verbatim>\<open>metric.data\<close> leaves the whole function at the first metric without data.\<close>

fun first_metric_time :: "metric list \<Rightarrow> u64 option" where
  "first_metric_time [] = None"
| "first_metric_time (m # ms) =
     (case me_data m of
        None \<Rightarrow> None
      | Some dat \<Rightarrow> (case List.find (\<lambda>t. t \<noteq> 0) (data_points dat) of Some t \<Rightarrow> Some t | None \<Rightarrow> first_metric_time ms))"

definition extract_batch_timestamp_metrics :: "metrics_request \<Rightarrow> u64 option" where
  "extract_batch_timestamp_metrics batch = first_metric_time (batch_metrics batch)"

definition extract_batch_timestamp_traces :: "traces_request \<Rightarrow> u64 option" where
  "extract_batch_timestamp_traces batch =
     List.find (\<lambda>t. t \<noteq> 0) (map sp_start_time_unix_nano (batch_spans batch))"

section \<open>Shared state\<close>

record daemon =
  dm_spool :: spool
  dm_generation :: u64
  dm_next_seq :: u64
  dm_policy :: ingest_policy

definition notify_change :: "daemon \<Rightarrow> daemon" where
  "notify_change d = d\<lparr>dm_generation := saturating_add (dm_generation d) 1\<rparr>"

definition append_batch_record :: "extern \<Rightarrow> wire_record \<Rightarrow> daemon \<Rightarrow> (io_error + unit) \<times> daemon" where
  "append_batch_record X record d =
     (case spool_append X record (dm_spool d) of
        (Inl e, s) \<Rightarrow> (Inl e, d\<lparr>dm_spool := s\<rparr>)
      | (Inr _, s) \<Rightarrow> (Inr (), notify_change (d\<lparr>dm_spool := s\<rparr>)))"

text \<open>\<^verbatim>\<open>next_seq.fetch_add(1)\<close>, which wraps.\<close>

definition fetch_seq :: "daemon \<Rightarrow> u64 \<times> daemon" where
  "fetch_seq d = (dm_next_seq d, d\<lparr>dm_next_seq := dm_next_seq d + 1\<rparr>)"

text \<open>The part the handlers of all signals share: a decision, and a record with the next sequence number.\<close>

definition store_batch ::
    "extern \<Rightarrow> record_type \<Rightarrow> u64 option \<Rightarrow> moment \<Rightarrow> bytes \<Rightarrow> daemon \<Rightarrow> (io_error + unit) \<times> daemon" where
  "store_batch X rt ts t pl d =
     (let (n, d) = fetch_seq d in
      append_batch_record X
        \<lparr>record_type = rt, seq = n, ts_unix_ns = (case ts of Some v \<Rightarrow> v | None \<Rightarrow> wall_unix_ns t), payload = pl\<rparr> d)"

definition decide_batch ::
    "ingest_overload_config \<Rightarrow> moment \<Rightarrow> batch_priority \<Rightarrow> daemon \<Rightarrow> ingest_decision \<times> daemon" where
  "decide_batch cfg t priority d =
     (case decide cfg t priority (dm_policy d) of (v, p) \<Rightarrow> (v, d\<lparr>dm_policy := p\<rparr>))"

definition daemon_start ::
    "extern \<Rightarrow> u64 \<Rightarrow> nat \<Rightarrow> daemon_config \<Rightarrow> dir \<Rightarrow> (io_error + daemon) \<times> dir" where
  "daemon_start X generated now cfg fs =
     try_st (spool_open X generated (dc_storage cfg) fs) (\<lambda>s fs.
     try_r (next_sequence_seed X s) fs (\<lambda>n.
     (Inr \<lparr>dm_spool = s, dm_generation = 0, dm_next_seq = n, dm_policy = policy_new (dc_ingest_overload cfg) now\<rparr>, fs)))"

definition flush_tick :: "extern \<Rightarrow> daemon \<Rightarrow> (io_error + unit) \<times> daemon" where
  "flush_tick X d =
     (case try_st (spool_flush_pending X (dm_spool d)) (\<lambda>_ s. spool_fsync_if_interval s) of
        (Inl e, s) \<Rightarrow> (Inl e, d\<lparr>dm_spool := s\<rparr>)
      | (Inr _, s) \<Rightarrow> (Inr (), notify_change (d\<lparr>dm_spool := s\<rparr>)))"

section \<open>OTLP over HTTP\<close>

record http_request =
  rq_method :: string
  rq_path :: string
  rq_content_encoding :: "string option"
  rq_content_length :: "string option"
  rq_body :: "string + bytes"

record http_response =
  rs_status :: nat
  rs_body :: string

definition response :: "nat \<Rightarrow> string \<Rightarrow> http_response" where
  "response s b = \<lparr>rs_status = s, rs_body = b\<rparr>"

definition maybe_decompress_body :: "otlp \<Rightarrow> bytes \<Rightarrow> string option \<Rightarrow> io_error + bytes" where
  "maybe_decompress_body Q body encoding =
     (if encoding = Some ''gzip'' \<or> encoding = Some ''x-gzip''
      then map_sum (\<lambda>e. invalid_data (''gzip decompression failed: '' @ e)) id (gunzip Q body)
      else Inr body)"

definition http_store ::
    "extern \<Rightarrow> ingest_overload_config \<Rightarrow> moment \<Rightarrow> record_type \<Rightarrow> batch_priority \<Rightarrow> u64 option \<Rightarrow> bytes \<Rightarrow> daemon
       \<Rightarrow> (io_error + http_response) \<times> daemon" where
  "http_store X cfg t rt priority ts pl d =
     (let (v, d) = decide_batch cfg t priority d in
      if v = RejectRateLimited then (Inr (response 429 ''rate limit exceeded''), d)
      else try_st (store_batch X rt ts t pl d) (\<lambda>_ d. (Inr (response 200 []), d)))"

definition decode_error :: "string \<Rightarrow> http_response" where
  "decode_error e = response 400 (''decode error: '' @ e)"

definition http_ingest_body ::
    "extern \<Rightarrow> otlp \<Rightarrow> ingest_overload_config \<Rightarrow> moment \<Rightarrow> string \<Rightarrow> bytes \<Rightarrow> daemon
       \<Rightarrow> (io_error + http_response) \<times> daemon" where
  "http_ingest_body X Q cfg t path body d =
     (if path = ''/v1/metrics'' then
        (case metrics_decode Q body of
           Inl e \<Rightarrow> (Inr (decode_error e), d)
         | Inr batch \<Rightarrow> http_store X cfg t Metrics PUnknown (extract_batch_timestamp_metrics batch) body d)
      else if path = ''/v1/traces'' then
        (case traces_decode Q body of
           Inl e \<Rightarrow> (Inr (decode_error e), d)
         | Inr batch \<Rightarrow> http_store X cfg t Traces PUnknown (extract_batch_timestamp_traces batch) body d)
      else
        (case logs_decode Q body of
           Inl e \<Rightarrow> (Inr (decode_error e), d)
         | Inr batch \<Rightarrow>
             http_store X cfg t Logs (classify_otlp_batch_priority batch) (extract_batch_timestamp batch) body d))"

definition too_large :: "ingest_overload_config \<Rightarrow> moment \<Rightarrow> daemon \<Rightarrow> (io_error + http_response) \<times> daemon" where
  "too_large cfg t d =
     (Inr (response 413 ''payload too large''), d\<lparr>dm_policy := note_oversize cfg t (dm_policy d)\<rparr>)"

definition announced_length :: "http_request \<Rightarrow> nat option" where
  "announced_length req =
     (case rq_content_length req of
        None \<Rightarrow> None
      | Some v \<Rightarrow> (case parse_usize v of Inl _ \<Rightarrow> None | Inr n \<Rightarrow> Some n))"

definition handle_otlp_http_request ::
    "extern \<Rightarrow> otlp \<Rightarrow> ingest_overload_config \<Rightarrow> nat \<Rightarrow> moment \<Rightarrow> http_request \<Rightarrow> daemon
       \<Rightarrow> (io_error + http_response) \<times> daemon" where
  "handle_otlp_http_request X Q cfg max_bytes t req d =
     (if rq_method req \<noteq> ''POST'' \<or> rq_path req \<notin> {''/v1/logs'', ''/v1/metrics'', ''/v1/traces''}
      then (Inr (response 404 ''not found''), d)
      else if (case announced_length req of Some n \<Rightarrow> n > max_bytes | None \<Rightarrow> False) then too_large cfg t d
      else
        case rq_body req of
          Inl e \<Rightarrow> (Inl (IoError OtherKind (''failed to read request body: '' @ e)), d)
        | Inr body \<Rightarrow>
            if length body > max_bytes then too_large cfg t d
            else
              case maybe_decompress_body Q body (rq_content_encoding req) of
                Inl e \<Rightarrow> (Inr (response 400 (''decompression error: '' @ msg e)), d)
              | Inr body \<Rightarrow> http_ingest_body X Q cfg t (rq_path req) body d)"

section \<open>OTLP over gRPC\<close>

datatype grpc_status = Internal string | ResourceExhausted string

definition grpc_export ::
    "extern \<Rightarrow> ingest_overload_config \<Rightarrow> moment \<Rightarrow> record_type \<Rightarrow> batch_priority \<Rightarrow> u64 option \<Rightarrow> bytes \<Rightarrow> daemon
       \<Rightarrow> (grpc_status + unit) \<times> daemon" where
  "grpc_export X cfg t rt priority ts pl d =
     (let (v, d) = decide_batch cfg t priority d in
      if v = RejectRateLimited then (Inl (ResourceExhausted ''ingest rate limit exceeded''), d)
      else apfst (map_sum (\<lambda>e. Internal (msg e)) id) (store_batch X rt ts t pl d))"

definition export_logs :: "extern \<Rightarrow> otlp \<Rightarrow> ingest_overload_config \<Rightarrow> moment \<Rightarrow> logs_request \<Rightarrow> daemon \<Rightarrow> (grpc_status + unit) \<times> daemon"
  where
  "export_logs X Q cfg t batch d =
     grpc_export X cfg t Logs (classify_otlp_batch_priority batch) (extract_batch_timestamp batch) (logs_encode Q batch) d"

definition export_metrics ::
    "extern \<Rightarrow> otlp \<Rightarrow> ingest_overload_config \<Rightarrow> moment \<Rightarrow> metrics_request \<Rightarrow> daemon \<Rightarrow> (grpc_status + unit) \<times> daemon" where
  "export_metrics X Q cfg t batch d =
     grpc_export X cfg t Metrics PUnknown (extract_batch_timestamp_metrics batch) (metrics_encode Q batch) d"

definition export_traces ::
    "extern \<Rightarrow> otlp \<Rightarrow> ingest_overload_config \<Rightarrow> moment \<Rightarrow> traces_request \<Rightarrow> daemon \<Rightarrow> (grpc_status + unit) \<times> daemon" where
  "export_traces X Q cfg t batch d =
     grpc_export X cfg t Traces PUnknown (extract_batch_timestamp_traces batch) (traces_encode Q batch) d"

section \<open>The connection limiter\<close>

text \<open>One call of \<^verbatim>\<open>try_acquire\<close> that no other thread interrupts.\<close>

definition try_acquire :: "nat \<Rightarrow> nat \<Rightarrow> nat option" where
  "try_acquire cap active = (if active \<ge> cap then None else Some (active + 1))"

text \<open>The same with its interleavings: a client thread loads the counter, compares and exchanges it, and
  decrements it when the permit is dropped.\<close>

datatype client_pc = ClientIdle | Loaded nat | Holding | Refused | Released

inductive limiter_step :: "nat \<Rightarrow> nat \<times> client_pc list \<Rightarrow> nat \<times> client_pc list \<Rightarrow> bool" for cap where
  load_full: "i < length pcs \<Longrightarrow> pcs ! i = ClientIdle \<Longrightarrow> active \<ge> cap \<Longrightarrow>
    limiter_step cap (active, pcs) (active, pcs[i := Refused])"
| load_free: "i < length pcs \<Longrightarrow> pcs ! i = ClientIdle \<Longrightarrow> \<not> active \<ge> cap \<Longrightarrow>
    limiter_step cap (active, pcs) (active, pcs[i := Loaded active])"
| exchange: "i < length pcs \<Longrightarrow> pcs ! i = Loaded current \<Longrightarrow> active = current \<Longrightarrow>
    limiter_step cap (active, pcs) (current + 1, pcs[i := Holding])"
| retry: "i < length pcs \<Longrightarrow> pcs ! i = Loaded current \<Longrightarrow> active \<noteq> current \<Longrightarrow>
    limiter_step cap (active, pcs) (active, pcs[i := ClientIdle])"
| release: "i < length pcs \<Longrightarrow> pcs ! i = Holding \<Longrightarrow>
    limiter_step cap (active, pcs) (active - 1, pcs[i := Released])"

inductive_cases limiter_stepE: "limiter_step m s s'"

definition limiter_reach :: "nat \<Rightarrow> nat \<Rightarrow> nat \<times> client_pc list \<Rightarrow> bool" where
  "limiter_reach cap n s \<longleftrightarrow> (limiter_step cap)\<^sup>*\<^sup>* (0, replicate n ClientIdle) s"

section \<open>One HTTP connection\<close>

text \<open>The requests are those hyper reads from the connection; an error of the handler closes it. The result of the
  TLS handshake, if there is an acceptor, is an argument.\<close>

fun serve_requests ::
    "extern \<Rightarrow> otlp \<Rightarrow> ingest_overload_config \<Rightarrow> nat \<Rightarrow> (moment \<times> http_request) list \<Rightarrow> daemon \<Rightarrow> http_response list \<times> daemon" where
  "serve_requests X Q cfg max_bytes [] d = ([], d)"
| "serve_requests X Q cfg max_bytes ((t, req) # reqs) d =
     (case handle_otlp_http_request X Q cfg max_bytes t req d of
        (Inl e, d) \<Rightarrow> ([], d)
      | (Inr resp, d) \<Rightarrow> apfst (Cons resp) (serve_requests X Q cfg max_bytes reqs d))"

definition serve_otlp_http_connection ::
    "extern \<Rightarrow> otlp \<Rightarrow> ingest_overload_config \<Rightarrow> ingest_limits \<Rightarrow> moment \<Rightarrow> nat \<Rightarrow> (string + unit) option \<Rightarrow>
       (moment \<times> http_request) list \<Rightarrow> daemon \<Rightarrow> (io_error + http_response list) \<times> daemon" where
  "serve_otlp_http_connection X Q cfg limits t active handshake reqs d =
     (case try_acquire (max_clients limits) active of
        None \<Rightarrow> (Inr [], d\<lparr>dm_policy := note_client_cap cfg t (dm_policy d)\<rparr>)
      | Some _ \<Rightarrow>
          (case handshake of
             Some (Inl e) \<Rightarrow> (Inl (IoError OtherKind e), d)
           | _ \<Rightarrow> apfst Inr (serve_requests X Q cfg (max_batch_bytes limits) reqs d)))"

section \<open>Ingest over the wire\<close>

lemma read_record_progress:
  "read_record_with_limit X limit d = (Inr (Some r), d') \<Longrightarrow> data d' = data d \<and> pos d < pos d' \<and> pos d' \<le> length (data d)"
  by (auto simp: read_record_with_limit_def read_record_body_def try_Inr read_exact_Inr_iff Let_def split: if_splits prod.splits sum.splits)

function wire_ingest_loop ::
    "extern \<Rightarrow> ingest_overload_config \<Rightarrow> nat \<Rightarrow> (nat \<Rightarrow> moment) \<Rightarrow> nat \<Rightarrow> dev \<Rightarrow> daemon \<Rightarrow> (io_error + unit) \<times> daemon" where
  "wire_ingest_loop X cfg max_bytes clock k r d =
     (case read_record_with_limit X max_bytes r of
        (Inl e, _) \<Rightarrow> (Inl e, d)
      | (Inr None, _) \<Rightarrow> (Inr (), d)
      | (Inr (Some record), r) \<Rightarrow>
          let (v, d) = decide_batch cfg (clock k) PUnknown d in
          if v = RejectRateLimited then wire_ingest_loop X cfg max_bytes clock (k + 1) r d
          else try_st (append_batch_record X record d) (\<lambda>_ d. wire_ingest_loop X cfg max_bytes clock (k + 1) r d))"
  by pat_completeness auto
termination
  by (relation "measure (\<lambda>(_, _, _, _, _, r, _). length (data r) - pos r)") (auto dest!: read_record_progress [OF sym])

declare wire_ingest_loop.simps [simp del]

definition handle_ingest_client ::
    "extern \<Rightarrow> ingest_overload_config \<Rightarrow> ingest_limits \<Rightarrow> (nat \<Rightarrow> moment) \<Rightarrow> nat \<Rightarrow> dev \<Rightarrow> daemon \<Rightarrow> (io_error + unit) \<times> daemon" where
  "handle_ingest_client X cfg limits clock active r d =
     (case try_acquire (max_clients limits) active of
        None \<Rightarrow> (Inr (), d\<lparr>dm_policy := note_client_cap cfg (clock 0) (dm_policy d)\<rparr>)
      | Some _ \<Rightarrow> wire_ingest_loop X cfg (max_batch_bytes limits) clock 0 r d)"

section \<open>The rate limit\<close>

fun decide_run ::
    "ingest_overload_config \<Rightarrow> (moment \<times> batch_priority) list \<Rightarrow> ingest_policy \<Rightarrow> ingest_decision list \<times> ingest_policy" where
  "decide_run cfg [] p = ([], p)"
| "decide_run cfg ((t, priority) # evs) p =
     (let (v, p) = decide cfg t priority p; (vs, p) = decide_run cfg evs p in (v # vs, p))"

definition above_floor :: "ingest_overload_config \<Rightarrow> batch_priority \<Rightarrow> ingest_decision" where
  "above_floor cfg priority =
     (if batch_priority_floor (priority_severity_floor cfg) \<le> priority then AcceptPriorityBypass else RejectRateLimited)"

lemma report_frame [simp]:
  "ip_window_start (maybe_report_overload cfg t p) = ip_window_start p"
  "ip_accepted_in_window (maybe_report_overload cfg t p) = ip_accepted_in_window p"
  by (simp_all add: maybe_report_overload_def)

lemma bump_room: "n < m \<Longrightarrow> unat (bump n) = unat n + 1"
  using unsigned_less [of m, where 'a = nat] by (simp add: bump_def unat_saturating_add word_less_nat_alt)

lemma decide_in_window:
  assumes "at_decide t - ip_window_start p < 1000000000" and "max_batches_per_second cfg \<noteq> 0"
    and "decide cfg t priority p = (v, p')"
  shows "ip_window_start p' = ip_window_start p \<and>
    (if ip_accepted_in_window p < max_batches_per_second cfg
     then v = Accept \<and> unat (ip_accepted_in_window p') = unat (ip_accepted_in_window p) + 1
     else v = above_floor cfg priority \<and> ip_accepted_in_window p' = ip_accepted_in_window p)"
  using assms bump_room [of "ip_accepted_in_window p" "max_batches_per_second cfg"]
  by (auto simp: decide_def Let_def above_floor_def split: if_splits)

text \<open>C18. Within one window of a second, with a limit of \<open>m\<close> batches, exactly the batches up to the limit are
  accepted as such; of the later ones exactly those at or above the severity floor are let through and all others
  are refused.\<close>

theorem rate_limit_within_a_window:
  assumes "max_batches_per_second cfg \<noteq> 0" and "ip_accepted_in_window p \<le> max_batches_per_second cfg"
    and "\<forall>(t, _)\<in>set evs. at_decide t - ip_window_start p < 1000000000"
    and "decide_run cfg evs p = (vs, p')"
  shows "vs = (let room = unat (max_batches_per_second cfg) - unat (ip_accepted_in_window p) in
    replicate (min room (length evs)) Accept @ map (above_floor cfg \<circ> snd) (drop room evs))"
  using assms
proof (induction evs arbitrary: p vs)
  case (Cons ev evs)
  obtain t priority where ev: "ev = (t, priority)" by (cases ev)
  obtain v p1 ws where run: "decide cfg t priority p = (v, p1)" "decide_run cfg evs p1 = (ws, p')" "vs = v # ws"
    using Cons.prems(4) by (auto simp: ev Let_def split: prod.splits)
  have d: "ip_window_start p1 = ip_window_start p \<and>
    (if ip_accepted_in_window p < max_batches_per_second cfg
     then v = Accept \<and> unat (ip_accepted_in_window p1) = unat (ip_accepted_in_window p) + 1
     else v = above_floor cfg priority \<and> ip_accepted_in_window p1 = ip_accepted_in_window p)"
    using decide_in_window [OF _ Cons.prems(1) run(1)] Cons.prems(3) by (simp add: ev)
  show ?case
  proof (cases "ip_accepted_in_window p < max_batches_per_second cfg")
    case True
    then obtain k where k: "unat (max_batches_per_second cfg) - unat (ip_accepted_in_window p) = Suc k"
        "unat (max_batches_per_second cfg) - unat (ip_accepted_in_window p1) = k"
      using d by (auto simp: word_less_nat_alt less_iff_Suc_add)
    have "ip_accepted_in_window p1 \<le> max_batches_per_second cfg"
      using True d by (auto simp: word_less_nat_alt word_le_nat_alt)
    then show ?thesis using Cons.IH [OF Cons.prems(1) _ _ run(2)] Cons.prems(3) d True k run(3) by (simp add: ev)
  next
    case False
    then have "unat (max_batches_per_second cfg) - unat (ip_accepted_in_window p) = 0" by (simp add: word_le_nat_alt not_less)
    then show ?thesis using Cons.IH [OF Cons.prems(1) _ _ run(2)] Cons.prems d False run(3) by (simp add: ev)
  qed
qed simp

theorem rate_limit_within_a_window_witness:
  "fst (decide_run \<lparr>max_batches_per_second = 1, priority_severity_floor = FloorError, report_every_ms = 0\<rparr>
     [(\<lparr>at_decide = 5, at_report = 5, wall_unix_ns = 0\<rparr>, PUnknown), (\<lparr>at_decide = 6, at_report = 6, wall_unix_ns = 0\<rparr>, PInfo),
      (\<lparr>at_decide = 7, at_report = 7, wall_unix_ns = 0\<rparr>, PFatal)]
     (policy_new \<lparr>max_batches_per_second = 1, priority_severity_floor = FloorError, report_every_ms = 0\<rparr> 0))
   = [Accept, RejectRateLimited, AcceptPriorityBypass]"
proof -
  let ?cfg = "\<lparr>max_batches_per_second = 1, priority_severity_floor = FloorError, report_every_ms = 0\<rparr>"
  let ?evs = "[(\<lparr>at_decide = 5, at_report = 5, wall_unix_ns = 0\<rparr>, PUnknown), (\<lparr>at_decide = 6, at_report = 6, wall_unix_ns = 0\<rparr>, PInfo),
      (\<lparr>at_decide = 7, at_report = 7, wall_unix_ns = 0\<rparr>, PFatal)]"
  obtain vs p' where run: "decide_run ?cfg ?evs (policy_new ?cfg 0) = (vs, p')" by (metis surj_pair)
  from rate_limit_within_a_window [OF _ _ _ run] show ?thesis unfolding run
    by (simp add: policy_new_def above_floor_def less_eq_batch_priority_def)
qed

section \<open>The connection limiter is exact\<close>

definition holders :: "client_pc list \<Rightarrow> nat" where
  "holders pcs = count (mset pcs) Holding"

lemma holders_update:
  "i < length pcs \<Longrightarrow> holders (pcs[i := v]) = holders pcs - of_bool (pcs ! i = Holding) + of_bool (v = Holding)"
  by (auto simp: holders_def mset_update)

lemma holders_pos: "i < length pcs \<Longrightarrow> pcs ! i = Holding \<Longrightarrow> 0 < holders pcs"
  using nth_mem [of i pcs] by (simp add: holders_def count_greater_zero_iff)

definition limiter_inv :: "nat \<Rightarrow> nat \<times> client_pc list \<Rightarrow> bool" where
  "limiter_inv cap s \<longleftrightarrow> fst s = holders (snd s) \<and> fst s \<le> cap \<and> (\<forall>c. Loaded c \<in> set (snd s) \<longrightarrow> c < cap)"

lemma set_update: "x \<in> set (xs[i := v]) \<Longrightarrow> x = v \<or> x \<in> set xs"
  using set_update_subset_insert [of xs i v] by auto

lemma limiter_step_inv:
  assumes "limiter_step cap s s'" and "limiter_inv cap s"
  shows "limiter_inv cap s'"
  using assms
proof (induction rule: limiter_step.induct)
  case (exchange i pcs current active)
  then have "Loaded current \<in> set pcs" by (metis nth_mem)
  with exchange show ?case by (auto simp: limiter_inv_def holders_update dest!: set_update)
next
  case (release i pcs active)
  then show ?case using holders_pos [of i pcs] by (auto simp: limiter_inv_def holders_update dest!: set_update)
qed (auto simp: limiter_inv_def holders_update dest!: set_update)

text \<open>C19. In every interleaving of any number of client threads the counter of the limiter is the number of
  permits held, and it never exceeds the configured maximum.\<close>

theorem limiter_never_exceeds_its_maximum:
  assumes "limiter_reach cap n (active, pcs)"
  shows "active = holders pcs \<and> active \<le> cap"
proof -
  have "limiter_inv cap (0, replicate n ClientIdle)" by (auto simp: limiter_inv_def holders_def)
  moreover have "(limiter_step cap)\<^sup>*\<^sup>* s s' \<Longrightarrow> limiter_inv cap s \<Longrightarrow> limiter_inv cap s'" for s s'
    by (induction rule: rtranclp_induct) (auto intro: limiter_step_inv)
  ultimately have "limiter_inv cap (active, pcs)" using assms unfolding limiter_reach_def by blast
  then show ?thesis by (simp add: limiter_inv_def)
qed

theorem limiter_never_exceeds_its_maximum_witness:
  "limiter_reach 1 2 (1, [Holding, ClientIdle]) \<and> (1 :: nat) \<le> 1"
proof -
  have r1: "limiter_step 1 (0, [ClientIdle, ClientIdle]) (0, [Loaded 0, ClientIdle])"
    using load_free [of 0 "[ClientIdle, ClientIdle]" 1 0] by simp
  have r2: "limiter_step 1 (0, [Loaded 0, ClientIdle]) (0, [Loaded 0, Loaded 0])"
    using load_free [of 1 "[Loaded 0, ClientIdle]" 1 0] by simp
  have r3: "limiter_step 1 (0, [Loaded 0, Loaded 0]) (1, [Holding, Loaded 0])"
    using exchange [of 0 "[Loaded 0, Loaded 0]" 0 0 1] by simp
  have r4: "limiter_step 1 (1, [Holding, Loaded 0]) (1, [Holding, ClientIdle])"
    using retry [of 1 "[Holding, Loaded 0]" 0 1 1] by simp
  have "(limiter_step 1)\<^sup>*\<^sup>* (0, [ClientIdle, ClientIdle]) (1, [Holding, ClientIdle])"
    using r1 r2 r3 r4 by (meson converse_rtranclp_into_rtranclp rtranclp.rtrancl_refl)
  then have "limiter_reach 1 2 (1, [Holding, ClientIdle])" by (simp add: limiter_reach_def numeral_2_eq_2)
  then show ?thesis using limiter_never_exceeds_its_maximum [of 1 2 1 "[Holding, ClientIdle]"] by blast
qed

end
