(* ===== verification/Lj_Ingest.thy ===== *)
theory Lj_Ingest
  imports Lj_Daemon
begin

text \<open>
  What the ingest handlers of \<^verbatim>\<open>logjetd/src/daemon.rs\<close> store: the answer of the HTTP handler says whether
  the batch is in the spool, and the numbering of records under concurrent handlers.
\<close>

section \<open>What a handler stores\<close>

definition unstored :: "daemon \<Rightarrow> daemon \<Rightarrow> bool" where
  "unstored d d' \<longleftrightarrow> dm_spool d' = dm_spool d \<and> dm_next_seq d' = dm_next_seq d \<and> dm_generation d' = dm_generation d"

definition stored :: "extern \<Rightarrow> record_type \<Rightarrow> bytes \<Rightarrow> daemon \<Rightarrow> daemon \<Rightarrow> bool" where
  "stored X rt pl d d' \<longleftrightarrow>
     (\<exists>ts. spool_append X \<lparr>record_type = rt, seq = dm_next_seq d, ts_unix_ns = ts, payload = pl\<rparr> (dm_spool d) = (Inr (), dm_spool d')) \<and>
     dm_next_seq d' = dm_next_seq d + 1 \<and> dm_generation d' = saturating_add (dm_generation d) 1"

lemma decide_batch_unstored: "decide_batch cfg t priority d = (v, d') \<Longrightarrow> unstored d d'"
  by (auto simp: decide_batch_def unstored_def split: prod.splits)

lemma store_batch_stored: "store_batch X rt ts t pl d = (Inr u, d') \<Longrightarrow> stored X rt pl d d'"
  by (auto simp: store_batch_def fetch_seq_def append_batch_record_def notify_change_def stored_def
      split: prod.splits sum.splits)

lemma stored_after_unstored: "unstored d d1 \<Longrightarrow> stored X rt pl d1 d' \<Longrightarrow> stored X rt pl d d'"
  by (simp add: unstored_def stored_def)

lemma http_store_result:
  assumes "http_store X cfg t rt priority ts pl d = (Inr resp, d')"
  shows "rs_status resp = 200 \<and> stored X rt pl d d' \<or> rs_status resp = 429 \<and> unstored d d'"
proof -
  obtain v d1 where dec: "decide_batch cfg t priority d = (v, d1)" by (metis surj_pair)
  show ?thesis
    using assms dec decide_batch_unstored [OF dec] stored_after_unstored [OF decide_batch_unstored [OF dec]]
    by (auto simp: http_store_def response_def try_Inr dest!: store_batch_stored split: if_splits)
qed

lemma grpc_export_result:
  assumes "grpc_export X cfg t rt priority ts pl d = (Inr u, d')"
  shows "stored X rt pl d d'"
proof -
  obtain v d1 where dec: "decide_batch cfg t priority d = (v, d1)" by (metis surj_pair)
  obtain r d2 where st: "store_batch X rt ts t pl d1 = (r, d2)" by (metis surj_pair)
  show ?thesis
    using assms dec st stored_after_unstored [OF decide_batch_unstored [OF dec]]
    by (cases r) (auto simp: grpc_export_def dest!: store_batch_stored split: if_splits)
qed

definition signal_of_path :: "string \<Rightarrow> record_type" where
  "signal_of_path p = (if p = ''/v1/metrics'' then Metrics else if p = ''/v1/traces'' then Traces else Logs)"

lemma http_ingest_body_result:
  assumes "http_ingest_body X Q cfg t path body d = (Inr resp, d')"
  shows "rs_status resp = 200 \<and> stored X (signal_of_path path) body d d' \<or> rs_status resp \<in> {400, 429} \<and> unstored d d'"
  using assms
  by (auto simp: http_ingest_body_def signal_of_path_def decode_error_def response_def unstored_def
      dest!: http_store_result split: if_splits sum.splits)

text \<open>C20. An OTLP/HTTP request is answered with 200 exactly when its body, decompressed, was appended to the spool
  as one record of the signal its path names, with the daemon's next sequence number, and the replay sessions were
  notified. Every other answer (400, 404, 413 or 429) leaves the spool and the sequence counter as they were.\<close>

theorem http_ok_means_stored:
  assumes "handle_otlp_http_request X Q cfg max_bytes t req d = (Inr resp, d')"
  shows "if rs_status resp = 200
    then \<exists>raw pl ts. rq_body req = Inr raw \<and> length raw \<le> max_bytes \<and>
      maybe_decompress_body Q raw (rq_content_encoding req) = Inr pl \<and>
      spool_append X \<lparr>record_type = signal_of_path (rq_path req), seq = dm_next_seq d, ts_unix_ns = ts, payload = pl\<rparr> (dm_spool d)
        = (Inr (), dm_spool d') \<and>
      dm_next_seq d' = dm_next_seq d + 1 \<and> dm_generation d' = saturating_add (dm_generation d) 1
    else rs_status resp \<in> {400, 404, 413, 429} \<and>
      dm_spool d' = dm_spool d \<and> dm_next_seq d' = dm_next_seq d \<and> dm_generation d' = dm_generation d"
proof (cases "rq_body req")
  case (Inl e)
  then show ?thesis using assms
    by (auto simp: handle_otlp_http_request_def too_large_def response_def split: if_splits)
next
  case (Inr raw)
  show ?thesis
  proof (cases "length raw \<le> max_bytes \<and> (\<exists>pl. maybe_decompress_body Q raw (rq_content_encoding req) = Inr pl)")
    case True
    then obtain pl where pl: "length raw \<le> max_bytes" "maybe_decompress_body Q raw (rq_content_encoding req) = Inr pl" by blast
    show ?thesis
      using assms Inr pl
      by (auto simp: handle_otlp_http_request_def too_large_def response_def stored_def unstored_def
          dest!: http_ingest_body_result split: if_splits)
  next
    case False
    then show ?thesis using assms Inr
      by (cases "maybe_decompress_body Q raw (rq_content_encoding req)")
        (auto simp: handle_otlp_http_request_def too_large_def response_def split: if_splits)
  qed
qed

section \<open>Concurrent handlers\<close>

text \<open>The handlers of several connections run in threads of their own. A handler takes its sequence number with an
  atomic increment and only later locks the spool, so the two are separate steps; \<open>ps\<close> are the records of
  handlers between them.\<close>

inductive otlp_step :: "extern \<Rightarrow> daemon \<times> wire_record list \<Rightarrow> daemon \<times> wire_record list \<Rightarrow> bool" for X where
  take_seq: "fetch_seq d = (n, d') \<Longrightarrow>
    otlp_step X (d, ps) (d', ps @ [\<lparr>record_type = rt, seq = n, ts_unix_ns = ts, payload = pl\<rparr>])"
| put_record: "r \<in> set ps \<Longrightarrow> append_batch_record X r d = (res, d') \<Longrightarrow> otlp_step X (d, ps) (d', remove1 r ps)"
| flush: "flush_tick X d = (res, d') \<Longrightarrow> otlp_step X (d, ps) (d', ps)"
| acknowledge: "spool_consume_through X n (dm_spool d) = (res, s) \<Longrightarrow> otlp_step X (d, ps) (d\<lparr>dm_spool := s\<rparr>, ps)"

definition memory_daemon :: "extern \<Rightarrow> u64 \<Rightarrow> daemon_config \<Rightarrow> daemon \<Rightarrow> bool" where
  "memory_daemon X i cfg d \<longleftrightarrow>
     (\<exists>c now fs. dc_storage cfg = StorageBuffer c \<and> daemon_start X i now cfg fs = (Inr d, fs))"

primrec spool_records :: "spool \<Rightarrow> wire_record list" where
  "spool_records (SpoolBuffer b) = bs_records b"
| "spool_records (SpoolFile f) = []"

lemma distinct_remove_at:
  assumes "distinct (map f xs)"
  shows "distinct (map f (remove_at i xs))" and "set (remove_at i xs) \<subseteq> set xs"
proof -
  have "distinct (map f (take (Suc i) xs) @ map f (drop (Suc i) xs))"
    using assms by (metis append_take_drop_id map_append)
  moreover have "set (map f (take i xs)) \<subseteq> set (map f (take (Suc i) xs))"
    using set_take_subset_set_take [of i "Suc i" xs] by auto
  moreover have "distinct (map f (take i xs))" using assms by (simp add: take_map [symmetric])
  ultimately show "distinct (map f (remove_at i xs))" by (auto simp: remove_at_def)
  show "set (remove_at i xs) \<subseteq> set xs" by (auto simp: remove_at_def dest: in_set_takeD in_set_dropD)
qed

lemma enforce_limits_distinct:
  "distinct (map f (bs_records s)) \<Longrightarrow>
     distinct (map f (bs_records (enforce_limits s))) \<and> set (bs_records (enforce_limits s)) \<subseteq> set (bs_records s)"
proof (induction s rule: enforce_limits.induct)
  case (1 s)
  show ?case
  proof (cases "over_limit s \<and> length (bs_records s) > bs_keep_messages s")
    case True
    then show ?thesis
      using 1(1) [OF True refl refl] distinct_remove_at [OF 1(2), of "bs_keep_messages s"]
      by (subst (1 2) enforce_limits.simps) (auto simp: Let_def)
  next
    case False
    then show ?thesis using 1(2) by (auto simp: enforce_limits.simps [of s])
  qed
qed

lemma buffer_append_distinct:
  assumes "distinct (map f (bs_records b @ [r]))"
  shows "distinct (map f (bs_records (buffer_append r b)))" and "set (bs_records (buffer_append r b)) \<subseteq> insert r (set (bs_records b))"
  using assms enforce_limits_distinct [of f "b\<lparr>bs_records := bs_records b @ [r]\<rparr>"]
    enforce_limits_distinct [of f "b\<lparr>bs_records := bs_records b @ [r], bs_tail_bytes := usize_saturating_add (bs_tail_bytes b) (record_size r)\<rparr>"]
  by (auto simp: buffer_append_def Let_def)

definition numbered :: "nat \<Rightarrow> daemon \<times> wire_record list \<Rightarrow> bool" where
  "numbered k s \<longleftrightarrow> (\<exists>b. dm_spool (fst s) = SpoolBuffer b \<and> dm_next_seq (fst s) = of_nat (k + 1) \<and>
     distinct (map seq (bs_records b @ snd s)) \<and> (\<forall>r\<in>set (bs_records b @ snd s). unat (seq r) \<le> k))"


lemma numbered_step:
  assumes "otlp_step X s s'" and "numbered k s" and "k + 2 < 2 ^ 64"
  shows "numbered k s' \<or> numbered (k + 1) s'"
  using assms(1)
proof (cases rule: otlp_step.cases)
  case (take_seq d n d' ps rt ts pl)
  then obtain b where b: "dm_spool d = SpoolBuffer b" "n = of_nat (k + 1)" "d' = d\<lparr>dm_next_seq := of_nat (k + 1) + 1\<rparr>"
      "distinct (map seq (bs_records b @ ps))" "\<forall>r\<in>set (bs_records b @ ps). unat (seq r) \<le> k"
    using assms(2) by (auto simp: numbered_def fetch_seq_def)
  have n: "unat n = k + 1" unfolding b(2) using assms(3) by (simp only: unat_of_nat) (simp add: take_bit_eq_mod)
  then have "n \<notin> seq ` set (bs_records b @ ps)" using b(5) by fastforce
  then have "numbered (k + 1) s'"
    using take_seq(2) b n by (auto simp: numbered_def le_SucI intro: exI [of _ b])
  then show ?thesis ..
next
  case (put_record r ps d res d')
  then obtain b where b: "dm_spool d = SpoolBuffer b" "dm_next_seq d = of_nat (k + 1)"
      "distinct (map seq (bs_records b @ ps))" "\<forall>r\<in>set (bs_records b @ ps). unat (seq r) \<le> k"
    using assms(2) by (auto simp: numbered_def)
  obtain us vs where ps: "ps = us @ r # vs" "remove1 r ps = us @ vs"
    using put_record(3) by (metis remove1_append remove1.simps(2) split_list_first)
  let ?b = "buffer_append r b"
  have dis: "distinct (map seq (bs_records b @ [r]))" using b(3) ps(1) by auto
  note ap = buffer_append_distinct [OF dis]
  have "seq ` set (bs_records ?b) \<subseteq> insert (seq r) (seq ` set (bs_records b))" using ap(2) by blast
  moreover have "distinct (map seq (us @ vs))" "insert (seq r) (seq ` set (bs_records b)) \<inter> seq ` set (us @ vs) = {}"
    using b(3) unfolding ps(1) by auto
  ultimately have "distinct (map seq (us @ vs))" "set (map seq (bs_records ?b)) \<inter> set (map seq (us @ vs)) = {}"
    unfolding set_map by blast+
  then have "distinct (map seq (bs_records ?b @ us @ vs))"
    unfolding map_append [of seq "bs_records ?b"] distinct_append using ap(1) by blast
  moreover have "\<forall>r\<in>set (bs_records ?b @ us @ vs). unat (seq r) \<le> k" using ap(2) b(4) ps(1) by auto
  moreover have "dm_spool d' = SpoolBuffer ?b" "dm_next_seq d' = of_nat (k + 1)"
    using put_record(4) b(1,2) by (auto simp: append_batch_record_def spool_append_def notify_change_def)
  ultimately have "numbered k s'" using put_record(2) ps(2) by (simp add: numbered_def)
  then show ?thesis ..
next
  case (flush d res d' ps)
  then show ?thesis using assms(2)
    by (auto simp: numbered_def flush_tick_def spool_flush_pending_def spool_fsync_if_interval_def notify_change_def)
next
  case (acknowledge n d res s ps)
  then obtain b where b: "dm_spool d = SpoolBuffer b" "dm_next_seq d = of_nat (k + 1)"
      "distinct (map seq (bs_records b @ ps))" "\<forall>r\<in>set (bs_records b @ ps). unat (seq r) \<le> k"
    using assms(2) by (auto simp: numbered_def)
  let ?d = "dropWhile (\<lambda>r. seq r \<le> n) (bs_records b)"
  obtain m where m: "?d = drop m (bs_records b)" by (metis dropWhile_eq_drop)
  have "set ?d \<subseteq> set (bs_records b)" by (auto dest: set_dropWhileD)
  moreover have "distinct (map seq ?d)" unfolding m using b(3) by (simp add: drop_map [symmetric])
  ultimately have "distinct (map seq (?d @ ps))" "\<forall>r\<in>set (?d @ ps). unat (seq r) \<le> k"
    using b(3,4) unfolding map_append distinct_append set_map set_append by blast+
  moreover have "s = SpoolBuffer (buffer_consume_through n b)" "bs_records (buffer_consume_through n b) = ?d"
    using acknowledge(3) b(1) by (auto simp: spool_consume_through_def buffer_consume_through_def recalculate_tail_bytes_def)
  ultimately have "numbered k s'" using acknowledge(2) b(2) by (simp add: numbered_def)
  then show ?thesis ..
qed

lemma numbered_start: "memory_daemon X i cfg d \<Longrightarrow> numbered 0 (d, [])"
  by (auto simp: memory_daemon_def daemon_start_def spool_open_def next_sequence_seed_def spool_sequence_bounds_def
      buffer_sequence_bounds_def buffer_new_def numbered_def checked_add_def)

lemma numbered_steps:
  "(otlp_step X ^^ n) s s' \<Longrightarrow> numbered 0 s \<Longrightarrow> n + 1 < 2 ^ 64 \<Longrightarrow> \<exists>k\<le>n. numbered k s'"
proof (induction n arbitrary: s')
  case (Suc n)
  then obtain s1 where s1: "(otlp_step X ^^ n) s s1" "otlp_step X s1 s'" by auto
  have "n + 1 < 2 ^ 64" using Suc.prems(3) by simp
  from Suc.IH [OF s1(1) Suc.prems(2) this] obtain k where k: "k \<le> n" "numbered k s1" by blast
  with numbered_step [OF s1(2) k(2)] Suc.prems(3) show ?case
    by (metis Suc_eq_plus1 Suc_le_mono add_Suc_right le_SucI le_less_trans numeral_2_eq_2 add_2_eq_Suc')
qed auto


text \<open>Which of the handlers run is decided by the configured protocol (\<^verbatim>\<open>ingest_loop\<close>). The handlers
  for OTLP over HTTP and gRPC and for plugins number their records; a client of the wire protocol sends records
  with numbers of its own, which are stored as they are.\<close>

inductive ingest_step ::
    "extern \<Rightarrow> daemon_config \<Rightarrow> daemon \<times> wire_record list \<Rightarrow> daemon \<times> wire_record list \<Rightarrow> bool" for X cfg where
  numbered_take: "dc_ingest_protocol cfg \<noteq> Wire \<Longrightarrow> fetch_seq d = (n, d') \<Longrightarrow>
    ingest_step X cfg (d, ps) (d', ps @ [\<lparr>record_type = rt, seq = n, ts_unix_ns = ts, payload = pl\<rparr>])"
| numbered_put: "r \<in> set ps \<Longrightarrow> append_batch_record X r d = (res, d') \<Longrightarrow> ingest_step X cfg (d, ps) (d', remove1 r ps)"
| wire_put: "dc_ingest_protocol cfg = Wire \<Longrightarrow> append_batch_record X r d = (res, d') \<Longrightarrow>
    ingest_step X cfg (d, ps) (d', ps)"
| ingest_flush: "flush_tick X d = (res, d') \<Longrightarrow> ingest_step X cfg (d, ps) (d', ps)"
| ingest_ack: "spool_consume_through X n (dm_spool d) = (res, s) \<Longrightarrow>
    ingest_step X cfg (d, ps) (d\<lparr>dm_spool := s\<rparr>, ps)"

lemma ingest_step_numbered: "ingest_step X cfg s s' \<Longrightarrow> dc_ingest_protocol cfg \<noteq> Wire \<Longrightarrow> otlp_step X s s'"
  by (induction rule: ingest_step.induct) (auto intro: otlp_step.intros)

lemma ingest_steps_numbered:
  "(ingest_step X cfg ^^ n) s s' \<Longrightarrow> dc_ingest_protocol cfg \<noteq> Wire \<Longrightarrow> (otlp_step X ^^ n) s s'"
  by (induction n arbitrary: s') (auto intro: ingest_step_numbered)

text \<open>C21. In a daemon with a memory spool that ingests through OTLP over HTTP, OTLP over gRPC or a plugin, however
  its threads interleave, no two records it stores or is about to store share a sequence number, and all of them are
  below the counter, as long as fewer than \<open>2^64 - 1\<close> steps were taken. The wire protocol, which is the default,
  is excluded: there the client chooses the numbers.\<close>

theorem sequence_numbers_are_unique:
  assumes "dc_ingest_protocol cfg \<in> {OtlpHttp, OtlpGrpc, Plugin}" and "memory_daemon X i cfg d0"
    and "(ingest_step X cfg ^^ n) (d0, []) (d, ps)" and "n + 1 < 2 ^ 64"
  shows "distinct (map seq (spool_records (dm_spool d) @ ps)) \<and> (\<forall>r\<in>set (spool_records (dm_spool d) @ ps). seq r < dm_next_seq d)"
proof -
  have "(otlp_step X ^^ n) (d0, []) (d, ps)" using ingest_steps_numbered [OF assms(3)] assms(1) by auto
  then obtain k where k: "k \<le> n" "numbered k (d, ps)"
    using numbered_steps [OF _ numbered_start [OF assms(2)] assms(4)] by blast
  then have u: "unat (of_nat (k + 1) :: u64) = k + 1"
    using assms(4) by (simp only: unat_of_nat) (simp add: take_bit_eq_mod)
  obtain b where b: "dm_spool d = SpoolBuffer b" "dm_next_seq d = of_nat (k + 1)"
      "distinct (map seq (bs_records b @ ps))" "\<forall>r\<in>set (bs_records b @ ps). unat (seq r) \<le> k"
    using k(2) by (auto simp: numbered_def)
  then have "\<forall>r\<in>set (bs_records b @ ps). seq r < dm_next_seq d"
    unfolding word_less_nat_alt b(2) u by (simp add: less_Suc_eq_le)
  then show ?thesis using b(1,3) by simp
qed

definition memory_cfg :: "daemon_config \<Rightarrow> daemon_config" where
  "memory_cfg cfg = cfg\<lparr>dc_storage := StorageBuffer \<lparr>bc_limit = LimitMessages 10, bc_keep_messages = 0\<rparr>\<rparr>"

definition fresh_daemon :: "daemon_config \<Rightarrow> daemon" where
  "fresh_daemon cfg =
     \<lparr>dm_spool = SpoolBuffer (buffer_new 5 \<lparr>bc_limit = LimitMessages 10, bc_keep_messages = 0\<rparr>), dm_generation = 0,
      dm_next_seq = 1, dm_policy = policy_new (dc_ingest_overload cfg) 0\<rparr>"

lemma fresh_daemon_start: "memory_daemon X 5 (memory_cfg cfg) (fresh_daemon (memory_cfg cfg))"
  unfolding memory_daemon_def
  by (intro exI [of _ "\<lparr>bc_limit = LimitMessages 10, bc_keep_messages = 0\<rparr>"] exI [of _ 0] exI)
    (simp add: daemon_start_def memory_cfg_def spool_open_def next_sequence_seed_def
      spool_sequence_bounds_def buffer_sequence_bounds_def buffer_new_def checked_add_def fresh_daemon_def)


definition sample_log :: "u64 \<Rightarrow> wire_record" where
  "sample_log n = \<lparr>record_type = Logs, seq = n, ts_unix_ns = 0, payload = []\<rparr>"

lemma append_to_memory:
  "dm_spool d = SpoolBuffer b \<Longrightarrow> dm_spool (snd (append_batch_record X r d)) = SpoolBuffer (buffer_append r b)"
  by (simp add: append_batch_record_def spool_append_def notify_change_def)

lemma sample_take:
  "otlp_step X (d, ps) (d\<lparr>dm_next_seq := dm_next_seq d + 1\<rparr>, ps @ [sample_log (dm_next_seq d)])"
  using otlp_step.take_seq [of d "dm_next_seq d" "d\<lparr>dm_next_seq := dm_next_seq d + 1\<rparr>" X ps Logs 0 "[]"]
  by (simp add: fetch_seq_def sample_log_def)

lemma sample_put:
  "r \<in> set ps \<Longrightarrow> otlp_step X (d, ps) (snd (append_batch_record X r d), remove1 r ps)"
  by (rule otlp_step.put_record [of _ _ _ _ "fst (append_batch_record X r d)"]) simp_all

text \<open>Two handlers take a number each, and the second stores its record first.\<close>

theorem sequence_numbers_are_unique_witness:
  "\<exists>X cfg d d' ps. dc_ingest_protocol cfg = OtlpHttp \<and> memory_daemon X 5 cfg d \<and> (ingest_step X cfg ^^ 3) (d, []) (d', ps) \<and>
    ps = [sample_log 1] \<and> sample_log 2 \<in> set (spool_records (dm_spool d')) \<and>
    distinct (map seq (spool_records (dm_spool d') @ ps)) \<and> (\<forall>r\<in>set (spool_records (dm_spool d') @ ps). seq r < dm_next_seq d')"
proof -
  fix X and cfg :: daemon_config
  let ?c = "(memory_cfg cfg)\<lparr>dc_ingest_protocol := OtlpHttp\<rparr>"
  let ?d = "fresh_daemon ?c"
  let ?da = "?d\<lparr>dm_next_seq := 2\<rparr>" and ?db = "?d\<lparr>dm_next_seq := 3\<rparr>"
  let ?d1 = "snd (append_batch_record X (sample_log 2) ?db)"
  have eq: "?c = memory_cfg (cfg\<lparr>dc_ingest_protocol := OtlpHttp\<rparr>)" by (simp add: memory_cfg_def)
  have st: "memory_daemon X 5 ?c ?d" unfolding eq by (rule fresh_daemon_start)
  have "ingest_step X ?c (?d, []) (?da, [sample_log 1])"
    using ingest_step.numbered_take [of ?c ?d 1 ?da X "[]" Logs 0 "[]"] by (simp add: fetch_seq_def sample_log_def fresh_daemon_def)
  moreover have "ingest_step X ?c (?da, [sample_log 1]) (?db, [sample_log 1, sample_log 2])"
    using ingest_step.numbered_take [of ?c ?da 2 ?db X "[sample_log 1]" Logs 0 "[]"]
    by (simp add: fetch_seq_def sample_log_def fresh_daemon_def)
  moreover have "ingest_step X ?c (?db, [sample_log 1, sample_log 2]) (?d1, [sample_log 1])"
    using ingest_step.numbered_put [of "sample_log 2" "[sample_log 1, sample_log 2]" X ?db "fst (append_batch_record X (sample_log 2) ?db)" ?d1 ?c]
    by (simp add: sample_log_def)
  ultimately have run: "(ingest_step X ?c ^^ 3) (?d, []) (?d1, [sample_log 1])"
    by (auto simp: numeral_3_eq_3 relcompp_apply)
  have "dm_spool ?db = SpoolBuffer (buffer_new 5 \<lparr>bc_limit = LimitMessages 10, bc_keep_messages = 0\<rparr>)"
    by (simp add: fresh_daemon_def)
  from append_to_memory [OF this] have "sample_log 2 \<in> set (spool_records (dm_spool ?d1))"
    by (simp add: buffer_append_def enforce_limits.simps over_limit_def tail_len_def buffer_new_def)
  with sequence_numbers_are_unique [OF _ st run] st run show ?thesis
    by (intro exI [of _ X] exI [of _ ?c] exI [of _ ?d] exI [of _ ?d1] exI [of _ "[sample_log 1]"]) simp
qed

text \<open>Over the wire a client may send the same number twice.\<close>

lemma wire_numbers_repeat:
  assumes "dc_ingest_protocol cfg = Wire" and "dm_spool d = SpoolBuffer (buffer_new 5 \<lparr>bc_limit = LimitMessages 10, bc_keep_messages = 0\<rparr>)"
  shows "\<exists>d'. (ingest_step X cfg ^^ 2) (d, []) (d', []) \<and> spool_records (dm_spool d') = [sample_log 7, sample_log 7]"
proof -
  let ?a = "snd (append_batch_record X (sample_log 7) d)"
  let ?b = "snd (append_batch_record X (sample_log 7) ?a)"
  have st: "ingest_step X cfg (e, []) (snd (append_batch_record X (sample_log 7) e), [])" for e
    using ingest_step.wire_put [OF assms(1), of X "sample_log 7" e "fst (append_batch_record X (sample_log 7) e)"] by simp
  have run: "(ingest_step X cfg ^^ 2) (d, []) (?b, [])" using st [of d] st [of ?a] by (auto simp: numeral_2_eq_2 relcompp_apply)
  note ev = buffer_append_def enforce_limits.simps over_limit_def tail_len_def
  have "dm_spool ?b = SpoolBuffer (buffer_append (sample_log 7) (buffer_append (sample_log 7)
      (buffer_new 5 \<lparr>bc_limit = LimitMessages 10, bc_keep_messages = 0\<rparr>)))"
    by (intro append_to_memory assms(2))
  then have "spool_records (dm_spool ?b) = [sample_log 7, sample_log 7]" by (simp add: ev buffer_new_def)
  then show ?thesis using run by blast
qed

text \<open>C22. Taking the number and storing the record are not one step, so two concurrent handlers can store records 2
  and 1 in that order. A replay session that has asked for everything and was sent record 2 in between has nothing left
  to send once both are stored, although record 1 is in the spool and was not sent.\<close>

theorem concurrent_ingest_hides_a_record:
  "\<exists>d0 d1 d2 ps c. memory_daemon X 5 (memory_cfg cfg) d0 \<and> (otlp_step X)\<^sup>*\<^sup>* (d0, []) (d1, ps) \<and> (otlp_step X)\<^sup>*\<^sup>* (d1, ps) (d2, []) \<and>
     spool_replay_cursor_after (dm_spool d0) 0 = Inr (CursorBuffer c) \<and>
     (\<exists>c'. spool_next_for_cursor X (dm_spool d1) (CursorBuffer c) = (Inr (Some (sample_log 2)), c') \<and>
        spool_records (dm_spool d2) = [sample_log 2, sample_log 1] \<and>
        spool_next_for_cursor X (dm_spool d2) c' = (Inr None, c'))"
proof -
  let ?d0 = "fresh_daemon (memory_cfg cfg)"
  let ?da = "?d0\<lparr>dm_next_seq := 2\<rparr>" and ?db = "?d0\<lparr>dm_next_seq := 3\<rparr>"
  let ?d1 = "snd (append_batch_record X (sample_log 2) ?db)"
  let ?d2 = "snd (append_batch_record X (sample_log 1) ?d1)"
  have "otlp_step X (?d0, []) (?da, [sample_log 1])"
    using sample_take [of X ?d0 "[]"] by (simp add: fresh_daemon_def)
  moreover have "otlp_step X (?da, [sample_log 1]) (?db, [sample_log 1, sample_log 2])"
    using sample_take [of X ?da "[sample_log 1]"] by (simp add: fresh_daemon_def)
  moreover have "otlp_step X (?db, [sample_log 1, sample_log 2]) (?d1, [sample_log 1])"
    using sample_put [of "sample_log 2" "[sample_log 1, sample_log 2]" X ?db] by (simp add: sample_log_def)
  ultimately have r1: "(otlp_step X)\<^sup>*\<^sup>* (?d0, []) (?d1, [sample_log 1])"
    by (meson converse_rtranclp_into_rtranclp rtranclp.rtrancl_refl)
  have r2: "(otlp_step X)\<^sup>*\<^sup>* (?d1, [sample_log 1]) (?d2, [])"
    using sample_put [of "sample_log 1" "[sample_log 1]" X ?d1] by (simp add: r_into_rtranclp)
  note ev = buffer_append_def enforce_limits.simps over_limit_def tail_len_def record_size_def sample_log_def
    usize_saturating_add_def usize_bound_def
  have "dm_spool ?db = SpoolBuffer (buffer_new 5 \<lparr>bc_limit = LimitMessages 10, bc_keep_messages = 0\<rparr>)"
    by (simp add: fresh_daemon_def)
  from append_to_memory [OF this] have s1: "dm_spool ?d1 = SpoolBuffer \<lparr>bs_stream_id = 5, bs_limit = LimitMessages 10,
      bs_keep_messages = 0, bs_records = [sample_log 2], bs_tail_bytes = 21\<rparr>" by (simp add: ev buffer_new_def)
  from append_to_memory [OF s1] have s2: "dm_spool ?d2 = SpoolBuffer \<lparr>bs_stream_id = 5, bs_limit = LimitMessages 10,
      bs_keep_messages = 0, bs_records = [sample_log 2, sample_log 1], bs_tail_bytes = 42\<rparr>" by (simp add: ev)
  have "spool_replay_cursor_after (dm_spool ?d0) 0 = Inr (CursorBuffer \<lparr>bc_next_index = 0, bc_last_seq = 0\<rparr>)"
    by (simp add: fresh_daemon_def spool_replay_cursor_after_def buffer_replay_cursor_after_def buffer_new_def)
  moreover have "spool_next_for_cursor X (dm_spool ?d1) (CursorBuffer \<lparr>bc_next_index = 0, bc_last_seq = 0\<rparr>)
      = (Inr (Some (sample_log 2)), CursorBuffer \<lparr>bc_next_index = 1, bc_last_seq = 2\<rparr>)"
    unfolding s1 by (simp add: spool_next_for_cursor_def buffer_next_for_cursor_def index_still_aligned_def nth_opt_def sample_log_def)
  moreover have "spool_next_for_cursor X (dm_spool ?d2) (CursorBuffer \<lparr>bc_next_index = 1, bc_last_seq = 2\<rparr>)
      = (Inr None, CursorBuffer \<lparr>bc_next_index = 1, bc_last_seq = 2\<rparr>)"
    unfolding s2 by (simp add: spool_next_for_cursor_def buffer_next_for_cursor_def index_still_aligned_def nth_opt_def sample_log_def)
  moreover have "spool_records (dm_spool ?d2) = [sample_log 2, sample_log 1]" by (simp add: s2)
  ultimately show ?thesis using fresh_daemon_start [of X cfg] r1 r2 by blast
qed


definition plain_otlp :: otlp where
  "plain_otlp = \<lparr>logs_decode = (\<lambda>_. Inr []), logs_encode = (\<lambda>_. []), metrics_decode = (\<lambda>_. Inl ''metrics''), metrics_encode = (\<lambda>_. []),
     traces_decode = (\<lambda>_. Inr []), traces_encode = (\<lambda>_. []), gunzip = Inr\<rparr>"

definition sample_request :: http_request where
  "sample_request = \<lparr>rq_method = ''POST'', rq_path = ''/v1/logs'', rq_content_encoding = Some ''gzip'', rq_content_length = None, rq_body = Inr [1, 2]\<rparr>"

definition no_limit :: ingest_overload_config where
  "no_limit = \<lparr>max_batches_per_second = 0, priority_severity_floor = FloorError, report_every_ms = 0\<rparr>"

theorem http_ok_means_stored_witness:
  "\<exists>X d resp d'. handle_otlp_http_request X plain_otlp no_limit 8 \<lparr>at_decide = 0, at_report = 0, wall_unix_ns = 9\<rparr> sample_request d = (Inr resp, d') \<and>
     rs_status resp = 200 \<and> dm_next_seq d' = dm_next_seq d + 1 \<and> dm_next_seq d = 1"
proof -
  fix X and cfg :: daemon_config
  let ?d = "fresh_daemon (memory_cfg cfg)" and ?t = "\<lparr>at_decide = 0, at_report = 0, wall_unix_ns = 9\<rparr>"
  obtain res d' where run: "handle_otlp_http_request X plain_otlp no_limit 8 ?t sample_request ?d = (res, d')" by (metis surj_pair)
  then have res: "res = Inr (response 200 [])"
    by (auto simp: handle_otlp_http_request_def sample_request_def announced_length_def maybe_decompress_body_def plain_otlp_def
        http_ingest_body_def http_store_def decide_batch_def decide_def no_limit_def store_batch_def fetch_seq_def
        append_batch_record_def spool_append_def fresh_daemon_def try_st_def Let_def split: prod.splits if_splits)
  have "rs_status (response 200 []) = 200" by (simp add: response_def)
  moreover from http_ok_means_stored [OF run [unfolded res]] this have "dm_next_seq d' = dm_next_seq ?d + 1" by auto
  moreover have "dm_next_seq ?d = 1" by (simp add: fresh_daemon_def)
  ultimately show ?thesis using run [unfolded res] by blast
qed

end
