(* ===== verification/Lj_Replay_Server.thy ===== *)
theory Lj_Replay_Server
  imports Lj_Ingest
begin

text \<open>
  The replay side of \<^verbatim>\<open>logjetd/src/daemon.rs\<close>: one replay connection as a machine whose steps are the
  critical sections of \<^verbatim>\<open>handle_replay_transport\<close> and \<^verbatim>\<open>handle_replay_transport_drain\<close>, each with the
  reads and writes on the transport that follow it. Between two steps other threads may change the daemon. The
  transport is a device for what the client sends and a sink for what it is sent; TLS is a transport of its own.
\<close>

section \<open>State\<close>

datatype replay_pc =
    Greet | Place replay_request | Keep bool replay_cursor | WaitKeep replay_cursor
  | Drain replay_cursor | Consume u64 replay_cursor | WaitDrain replay_cursor | Failed io_error

record 'w replay_session =
  rp_pc :: replay_pc
  rp_seen_generation :: u64
  rp_in :: dev
  rp_out :: 'w

definition replay_session_new :: "dev \<Rightarrow> 'w \<Rightarrow> 'w replay_session" where
  "replay_session_new d w = \<lparr>rp_pc = Greet, rp_seen_generation = 0, rp_in = d, rp_out = w\<rparr>"

text \<open>Reading and writing on the transport of a session.\<close>

definition on_out :: "('w \<Rightarrow> (io_error + 'a) \<times> 'w) \<Rightarrow> 'w replay_session \<Rightarrow> (io_error + 'a) \<times> 'w replay_session" where
  "on_out f s = (case f (rp_out s) of (r, w) \<Rightarrow> (r, s\<lparr>rp_out := w\<rparr>))"

definition on_in :: "(dev \<Rightarrow> (io_error + 'a) \<times> dev) \<Rightarrow> 'w replay_session \<Rightarrow> (io_error + 'a) \<times> 'w replay_session" where
  "on_in f s = (case f (rp_in s) of (r, d) \<Rightarrow> (r, s\<lparr>rp_in := d\<rparr>))"

definition goto_pc :: "(io_error + replay_pc) \<times> 'w replay_session \<Rightarrow> 'w replay_session" where
  "goto_pc m = (snd m)\<lparr>rp_pc := (case fst m of Inl e \<Rightarrow> Failed e | Inr pc \<Rightarrow> pc)\<rparr>"

section \<open>Steps\<close>

definition replay_hello_of :: "extern \<Rightarrow> spool \<Rightarrow> io_error + replay_hello" where
  "replay_hello_of X s =
     and_then (spool_sequence_bounds X s) (\<lambda>b.
     let (first_seq, last_seq) = (case b of Some p \<Rightarrow> p | None \<Rightarrow> (0, 0)) in
     Inr \<lparr>hello_stream_id = spool_stream_id s, hello_first_seq = first_seq, hello_last_seq = last_seq\<rparr>)"

definition greet_step ::
    "extern \<Rightarrow> 'w write_all \<Rightarrow> ('w \<Rightarrow> (io_error + unit) \<times> 'w) \<Rightarrow> daemon \<Rightarrow> 'w replay_session \<Rightarrow> 'w replay_session" where
  "greet_step X write_all fl d s =
     goto_pc (
       try_r (replay_hello_of X (dm_spool d)) s (\<lambda>hello.
       try_st (on_out (write_replay_hello write_all hello) s) (\<lambda>_ s.
       try_st (on_out fl s) (\<lambda>_ s.
       try_st (on_in read_replay_request s) (\<lambda>request s.
       (Inr (Place request), s))))))"

definition place_step :: "daemon \<Rightarrow> replay_request \<Rightarrow> 'w replay_session \<Rightarrow> 'w replay_session" where
  "place_step d request s =
     goto_pc (
       try_r (spool_replay_cursor_after (dm_spool d) (from_seq request)) s (\<lambda>cursor.
       (Inr (if consume request then Drain cursor else Keep False cursor), s\<lparr>rp_seen_generation := dm_generation d\<rparr>)))"

text \<open>The two nested loops of a keeping session; \<open>sent_any\<close> is the flag of the outer one.\<close>

definition keep_step ::
    "extern \<Rightarrow> 'w write_all \<Rightarrow> ('w \<Rightarrow> (io_error + unit) \<times> 'w) \<Rightarrow> bool \<Rightarrow> daemon \<Rightarrow> bool \<Rightarrow> replay_cursor
       \<Rightarrow> 'w replay_session \<Rightarrow> 'w replay_session" where
  "keep_step X write_all fl compression d sent_any cursor s =
     (case spool_next_for_cursor X (dm_spool d) cursor of
        (Inl e, _) \<Rightarrow> goto_pc (Inl e, s)
      | (Inr (Some record), cursor) \<Rightarrow>
          goto_pc (try_st (on_out (write_record X write_all record compression) s) (\<lambda>_ s. (Inr (Keep True cursor), s)))
      | (Inr None, cursor) \<Rightarrow>
          goto_pc (if sent_any then try_st (on_out fl s) (\<lambda>_ s. (Inr (Keep False cursor), s)) else (Inr (WaitKeep cursor), s)))"

definition ack_out_of_order :: "u64 \<Rightarrow> u64 \<Rightarrow> io_error" where
  "ack_out_of_order expected got =
     invalid_data (''replay ack out of order: expected '' @ show_u64 expected @ '' got '' @ show_u64 got)"

definition drain_step ::
    "extern \<Rightarrow> 'w write_all \<Rightarrow> ('w \<Rightarrow> (io_error + unit) \<times> 'w) \<Rightarrow> bool \<Rightarrow> daemon \<Rightarrow> replay_cursor
       \<Rightarrow> 'w replay_session \<Rightarrow> 'w replay_session" where
  "drain_step X write_all fl compression d cursor s =
     (case spool_next_for_cursor X (dm_spool d) cursor of
        (Inl e, _) \<Rightarrow> goto_pc (Inl e, s)
      | (Inr None, cursor) \<Rightarrow> goto_pc (Inr (WaitDrain cursor), s)
      | (Inr (Some record), cursor) \<Rightarrow>
          goto_pc (
            try_st (on_out (write_record X write_all record compression) s) (\<lambda>_ s.
            try_st (on_out fl s) (\<lambda>_ s.
            try_st (on_in read_replay_ack s) (\<lambda>ack s.
            if ack_seq ack \<noteq> seq record then (Inl (ack_out_of_order (seq record) (ack_seq ack)), s)
            else (Inr (Consume (ack_seq ack) cursor), s))))))"

definition consume_step :: "extern \<Rightarrow> u64 \<Rightarrow> replay_cursor \<Rightarrow> daemon \<Rightarrow> 'w replay_session \<Rightarrow> daemon \<times> 'w replay_session" where
  "consume_step X n cursor d s =
     (case spool_consume_through X n (dm_spool d) of
        (res, sp) \<Rightarrow> (d\<lparr>dm_spool := sp\<rparr>, goto_pc (map_sum id (\<lambda>_. Drain cursor) res, s)))"

text \<open>\<^verbatim>\<open>wait_for_change\<close> returns once the generation differs from the one last seen.\<close>

definition wait_for_change :: "daemon \<Rightarrow> replay_pc \<Rightarrow> 'w replay_session \<Rightarrow> 'w replay_session" where
  "wait_for_change d pc s =
     (if dm_generation d = rp_seen_generation s then s else s\<lparr>rp_seen_generation := dm_generation d, rp_pc := pc\<rparr>)"

definition replay_step ::
    "extern \<Rightarrow> 'w write_all \<Rightarrow> ('w \<Rightarrow> (io_error + unit) \<times> 'w) \<Rightarrow> bool \<Rightarrow> daemon \<times> 'w replay_session \<Rightarrow> daemon \<times> 'w replay_session"
  where
  "replay_step X write_all fl compression ds =
     (let (d, s) = ds in
      case rp_pc s of
        Greet \<Rightarrow> (d, greet_step X write_all fl d s)
      | Place request \<Rightarrow> (d, place_step d request s)
      | Keep sent_any cursor \<Rightarrow> (d, keep_step X write_all fl compression d sent_any cursor s)
      | WaitKeep cursor \<Rightarrow> (d, wait_for_change d (Keep False cursor) s)
      | Drain cursor \<Rightarrow> (d, drain_step X write_all fl compression d cursor s)
      | Consume n cursor \<Rightarrow> consume_step X n cursor d s
      | WaitDrain cursor \<Rightarrow> (d, wait_for_change d (Drain cursor) s)
      | Failed e \<Rightarrow> (d, s))"

definition handle_replay_client :: "nat \<Rightarrow> nat \<Rightarrow> dev \<Rightarrow> 'w \<Rightarrow> 'w replay_session option" where
  "handle_replay_client cap active r w = map_option (\<lambda>_. replay_session_new r w) (try_acquire cap active)"

end
