(* ===== verification/Lj_Replay_Session.thy ===== *)
theory Lj_Replay_Session
  imports Lj_Replay_Server
begin

text \<open>
  A replay session among other threads: the invariant of its output, over any sink that may fail, and the two kinds of
  spool as one replay store.
\<close>

section \<open>What a session sends\<close>

primrec cursor_seq :: "replay_cursor \<Rightarrow> u64" where
  "cursor_seq (CursorBuffer c) = bc_last_seq c"
| "cursor_seq (CursorFile c) = fc_last_seq c"

lemma find_record_holds: "find_record X P r = Inr (Some x) \<Longrightarrow> P x"
  by (induction X P r rule: find_record.induct)
    (subst (asm) (2) find_record.simps, auto split: prod.splits sum.splits option.splits if_splits)

lemma next_in_segments_above:
  "next_in_segments X d n segs c = (Inr (Some x), c') \<Longrightarrow> n < seq x \<and> fc_last_seq c' = seq x"
  by (induction segs arbitrary: c)
    (auto simp: try_Inr not_le map_sum_Inr_iff split: if_splits option.splits dest!: find_record_holds)

lemma next_in_segments_none:
  "next_in_segments X d n segs c = (Inr None, c') \<Longrightarrow> fc_last_seq c' = fc_last_seq c"
  by (induction segs arbitrary: c) (auto simp: try_Inr split: if_splits option.splits)

lemma buffer_next_above:
  "buffer_next_for_cursor b c = (Some x, c') \<Longrightarrow> bc_last_seq c < seq x \<and> bc_last_seq c' = seq x"
  "buffer_next_for_cursor b c = (None, c') \<Longrightarrow> c' = c"
  by (auto simp: buffer_next_for_cursor_def split: option.splits if_splits dest: position_Some)

lemma apsnd_eq_iff: "apsnd f p = (a, b) \<longleftrightarrow> (\<exists>b'. p = (a, b') \<and> b = f b')"
  by (cases p) auto

text \<open>Whatever the spool holds, the next record is above the cursor and moves it there.\<close>

lemma spool_next_above:
  "spool_next_for_cursor X s c = (Inr (Some x), c') \<Longrightarrow> cursor_seq c < seq x \<and> cursor_seq c' = seq x"
  "spool_next_for_cursor X s c = (Inr None, c') \<Longrightarrow> cursor_seq c' = cursor_seq c"
  by (auto simp: spool_next_for_cursor_def file_next_for_cursor_def apsnd_eq_iff split: spool.splits replay_cursor.splits prod.splits
      dest!: buffer_next_above next_in_segments_above next_in_segments_none)

lemma place_cursor_seq: "spool_replay_cursor_after s n = Inr c \<Longrightarrow> cursor_seq c = n"
  by (auto simp: spool_replay_cursor_after_def buffer_replay_cursor_after_def file_replay_cursor_after_def split: spool.splits)

definition sent_bytes :: "extern \<Rightarrow> bool \<Rightarrow> replay_hello \<Rightarrow> wire_record list \<Rightarrow> bytes" where
  "sent_bytes X compression h rs = replay_hello_bytes h @ concat (map (wire_bytes X compression) rs)"

definition sent_upto :: "u64 \<Rightarrow> wire_record list \<Rightarrow> u64 \<Rightarrow> bool" where
  "sent_upto n rs m \<longleftrightarrow> seq_sorted rs \<and> (\<forall>r\<in>set rs. n < seq r \<and> seq r \<le> m) \<and> n \<le> m"

lemma sent_upto_next: "sent_upto n rs m \<Longrightarrow> m < seq r \<Longrightarrow> sent_upto n (rs @ [r]) (seq r)"
  by (auto simp: sent_upto_def seq_sorted_def sorted_wrt_append)

locale flushing_sink = byte_sink +
  fixes fl :: "'a \<Rightarrow> (io_error + unit) \<times> 'a"
  assumes flush_keeps: "fl w = (r, w') \<Longrightarrow> contents w' = contents w"
begin

lemma write_record_out:
  "write_record X write_all r compression w = (Inr u, w') \<Longrightarrow> contents w' = contents w @ wire_bytes X compression r"
  "write_record X write_all r compression w = (Inl e, w') \<Longrightarrow> \<exists>k. contents w' = contents w @ take k (wire_bytes X compression r)"
  using write_ok write_err by (auto simp: write_record_def try_r_def wire_bytes_def split: sum.splits intro: exI [of _ 0])

definition session_sent :: "extern \<Rightarrow> bool \<Rightarrow> u64 \<Rightarrow> replay_cursor \<Rightarrow> 'a replay_session \<Rightarrow> bool" where
  "session_sent X compression n c s \<longleftrightarrow>
     (\<exists>h rs. contents (rp_out s) = sent_bytes X compression h rs \<and> sent_upto n rs (cursor_seq c))"

definition session_cut :: "extern \<Rightarrow> bool \<Rightarrow> dev \<Rightarrow> 'a replay_session \<Rightarrow> bool" where
  "session_cut X compression r s \<longleftrightarrow>
     (\<exists>h rs k. contents (rp_out s) = take k (sent_bytes X compression h rs) \<and> seq_sorted rs \<and>
        (rs \<noteq> [] \<longrightarrow> (\<exists>q r'. read_replay_request r = (Inr q, r') \<and> (\<forall>x\<in>set rs. from_seq q < seq x))))"

definition session_inv :: "extern \<Rightarrow> bool \<Rightarrow> dev \<Rightarrow> 'a replay_session \<Rightarrow> bool" where
  "session_inv X compression r s \<longleftrightarrow>
     (case rp_pc s of
        Greet \<Rightarrow> contents (rp_out s) = [] \<and> rp_in s = r
      | Place q \<Rightarrow> (\<exists>h. contents (rp_out s) = replay_hello_bytes h) \<and> (\<exists>r'. read_replay_request r = (Inr q, r'))
      | Keep _ c \<Rightarrow> (\<exists>q r'. read_replay_request r = (Inr q, r') \<and> session_sent X compression (from_seq q) c s)
      | WaitKeep c \<Rightarrow> (\<exists>q r'. read_replay_request r = (Inr q, r') \<and> session_sent X compression (from_seq q) c s)
      | Drain c \<Rightarrow> (\<exists>q r'. read_replay_request r = (Inr q, r') \<and> session_sent X compression (from_seq q) c s)
      | WaitDrain c \<Rightarrow> (\<exists>q r'. read_replay_request r = (Inr q, r') \<and> session_sent X compression (from_seq q) c s)
      | Consume _ c \<Rightarrow> (\<exists>q r'. read_replay_request r = (Inr q, r') \<and> session_sent X compression (from_seq q) c s)
      | Failed _ \<Rightarrow> session_cut X compression r s)"

lemma session_cutI:
  assumes "contents (rp_out s) = take k (sent_bytes X compression h rs)" and "read_replay_request r = (Inr q, r')"
    and "sent_upto (from_seq q) rs m"
  shows "session_cut X compression r s"
  unfolding session_cut_def using assms
  by (intro exI [of _ h] exI [of _ rs] exI [of _ k]) (auto simp: sent_upto_def)

lemma sent_is_cut:
  assumes "read_replay_request r = (Inr q, r')" and "session_sent X compression (from_seq q) c s"
  shows "session_cut X compression r s"
proof -
  obtain h rs where h: "contents (rp_out s) = sent_bytes X compression h rs" "sent_upto (from_seq q) rs (cursor_seq c)"
    using assms(2) by (auto simp: session_sent_def)
  then have "contents (rp_out s) = take (length (sent_bytes X compression h rs)) (sent_bytes X compression h rs)" by simp
  from session_cutI [OF this assms(1) h(2)] show ?thesis .
qed

text \<open>Sending one more record, or failing in the middle of it.\<close>

lemma send_next:
  assumes q: "read_replay_request r = (Inr q, r')" and s: "session_sent X compression (from_seq q) c s"
    and above: "cursor_seq c < seq x" "cursor_seq c' = seq x"
    and w: "on_out (write_record X write_all x compression) s = (res, s')"
  shows "case res of Inl _ \<Rightarrow> session_cut X compression r s' | Inr _ \<Rightarrow> session_sent X compression (from_seq q) c' s'"
proof -
  obtain h rs where h: "contents (rp_out s) = sent_bytes X compression h rs" "sent_upto (from_seq q) rs (cursor_seq c)"
    using s by (auto simp: session_sent_def)
  have up: "sent_upto (from_seq q) (rs @ [x]) (seq x)" using sent_upto_next [OF h(2) above(1)] .
  have b: "sent_bytes X compression h (rs @ [x]) = sent_bytes X compression h rs @ wire_bytes X compression x"
    by (simp add: sent_bytes_def)
  obtain w' where w': "write_record X write_all x compression (rp_out s) = (res, w')" "s' = s\<lparr>rp_out := w'\<rparr>"
    using w by (auto simp: on_out_def split: prod.splits)
  show ?thesis
  proof (cases res)
    case (Inl e)
    then obtain k where k: "contents w' = sent_bytes X compression h rs @ take k (wire_bytes X compression x)"
      using write_record_out(2) w' h(1) by fastforce
    have "contents w' = take (length (sent_bytes X compression h rs) + k) (sent_bytes X compression h (rs @ [x]))"
      unfolding k b by simp
    then have "session_cut X compression r s'" using session_cutI [OF _ q up] w'(2) by simp
    then show ?thesis by (simp add: Inl)
  next
    case (Inr u)
    then have "contents w' = sent_bytes X compression h (rs @ [x])" using write_record_out(1) w' h(1) b by fastforce
    then show ?thesis using up above(2) w'(2) Inr by (auto simp: session_sent_def)
  qed
qed

lemma on_out_flush:
  assumes "on_out fl s = (res, s')"
  shows "session_sent X compression n c s' = session_sent X compression n c s"
proof -
  have "contents (rp_out s') = contents (rp_out s)" using assms flush_keeps by (auto simp: on_out_def split: prod.splits)
  then show ?thesis by (simp add: session_sent_def)
qed

lemma on_in_out:
  assumes "on_in f s = (res, s')"
  shows "session_sent X compression n c s' = session_sent X compression n c s"
proof -
  have "rp_out s' = rp_out s" using assms by (auto simp: on_in_def split: prod.splits)
  then show ?thesis by (simp add: session_sent_def)
qed

lemma goto_pc_simps [simp]:
  "session_sent X compression n c (s\<lparr>rp_pc := pc\<rparr>) = session_sent X compression n c s"
  "session_cut X compression r (s\<lparr>rp_pc := pc\<rparr>) = session_cut X compression r s"
  by (simp_all add: session_sent_def session_cut_def)

lemma keep_inv:
  assumes "read_replay_request r = (Inr q, r')" and "session_sent X compression (from_seq q) c s"
  shows "session_inv X compression r (keep_step X write_all fl compression d b c s)"
proof -
  obtain res c' where n: "spool_next_for_cursor X (dm_spool d) c = (res, c')" by (metis surj_pair)
  note cut = sent_is_cut [OF assms]
  show ?thesis
  proof (cases res)
    case (Inl e)
    then show ?thesis using n cut by (simp add: keep_step_def goto_pc_def session_inv_def)
  next
    case (Inr o')
    show ?thesis
    proof (cases o')
      case None
      have eq: "session_sent X compression (from_seq q) c' s" using spool_next_above(2) n Inr None assms(2)
        by (simp add: session_sent_def)
      obtain fr s1 where f: "on_out fl s = (fr, s1)" by (metis surj_pair)
      have "session_sent X compression (from_seq q) c' s1" using on_out_flush [OF f] eq by blast
      then show ?thesis using n Inr None eq f assms(1) sent_is_cut [OF assms(1)]
        by (cases fr) (auto simp: keep_step_def goto_pc_def session_inv_def try_st_def)
    next
      case (Some x)
      obtain fr s1 where f: "on_out (write_record X write_all x compression) s = (fr, s1)" by (metis surj_pair)
      have "cursor_seq c < seq x" "cursor_seq c' = seq x" using spool_next_above(1) n Inr Some by auto
      from send_next [OF assms this f] show ?thesis using n Inr Some f assms(1)
        by (cases fr) (auto simp: keep_step_def goto_pc_def session_inv_def try_st_def)
    qed
  qed
qed

lemma drain_inv:
  assumes "read_replay_request r = (Inr q, r')" and "session_sent X compression (from_seq q) c s"
  shows "session_inv X compression r (drain_step X write_all fl compression d c s)"
proof -
  obtain res c' where n: "spool_next_for_cursor X (dm_spool d) c = (res, c')" by (metis surj_pair)
  note cut = sent_is_cut [OF assms]
  show ?thesis
  proof (cases "\<exists>x. res = Inr (Some x)")
    case False
    moreover have "res = Inr None \<Longrightarrow> session_sent X compression (from_seq q) c' s"
      using spool_next_above(2) n assms(2) by (simp add: session_sent_def)
    ultimately show ?thesis using n cut assms(1)
      by (cases res) (auto simp: drain_step_def goto_pc_def session_inv_def split: option.splits)
  next
    case True
    then obtain x where x: "res = Inr (Some x)" by blast
    obtain w1 s1 where w1: "on_out (write_record X write_all x compression) s = (w1, s1)" by (metis surj_pair)
    obtain w2 s2 where w2: "on_out fl s1 = (w2, s2)" by (metis surj_pair)
    obtain w3 s3 where w3: "on_in read_replay_ack s2 = (w3, s3)" by (metis surj_pair)
    have "cursor_seq c < seq x" "cursor_seq c' = seq x" using spool_next_above(1) n x by auto
    note sent = send_next [OF assms this w1]
    show ?thesis
    proof (cases w1)
      case (Inl e)
      then show ?thesis using n x w1 sent by (simp add: drain_step_def goto_pc_def session_inv_def try_st_def)
    next
      case (Inr u)
      with sent have s1: "session_sent X compression (from_seq q) c' s1" by simp
      then have s2: "session_sent X compression (from_seq q) c' s2" using on_out_flush [OF w2] by blast
      then have s3: "session_sent X compression (from_seq q) c' s3" using on_in_out [OF w3] by blast
      show ?thesis
        using n x w1 w2 w3 Inr sent_is_cut [OF assms(1) s2] sent_is_cut [OF assms(1) s3] s3 assms(1)
        by (cases w2; cases w3) (auto simp: drain_step_def goto_pc_def session_inv_def try_st_def)
    qed
  qed
qed

lemma greet_inv:
  assumes "contents (rp_out s) = []" and "rp_in s = r"
  shows "session_inv X compression r (greet_step X write_all fl d s)"
proof (cases "replay_hello_of X (dm_spool d)")
  case (Inl e)
  have "session_cut X compression r s" unfolding session_cut_def
    using assms by (intro exI [of _ undefined] exI [of _ "[]"] exI [of _ 0]) (simp add: seq_sorted_def)
  then show ?thesis by (simp add: Inl greet_step_def goto_pc_def session_inv_def try_r_def)
next
  case (Inr h)
  obtain w1 s1 where w1: "on_out (write_replay_hello write_all h) s = (w1, s1)" by (metis surj_pair)
  obtain w2 s2 where w2: "on_out fl s1 = (w2, s2)" by (metis surj_pair)
  obtain w3 s3 where w3: "on_in read_replay_request s2 = (w3, s3)" by (metis surj_pair)
  have cut: "contents (rp_out t) = take k (replay_hello_bytes h) \<Longrightarrow> session_cut X compression r t" for t k
    unfolding session_cut_def by (intro exI [of _ h] exI [of _ "[]"] exI [of _ k]) (simp add: seq_sorted_def sent_bytes_def)
  show ?thesis
  proof (cases w1)
    case (Inl e)
    then obtain k where "contents (rp_out s1) = take k (replay_hello_bytes h)"
      using w1 write_err assms(1) by (fastforce simp: on_out_def write_replay_hello_def split: prod.splits)
    from cut [OF this] show ?thesis using w1 Inl Inr by (simp add: greet_step_def goto_pc_def session_inv_def try_st_def try_r_def)
  next
    case (Inr u)
    then have c1: "contents (rp_out s1) = replay_hello_bytes h" "rp_in s1 = r"
      using w1 write_ok assms by (fastforce simp: on_out_def write_replay_hello_def split: prod.splits)+
    then have c2: "contents (rp_out s2) = replay_hello_bytes h" "rp_in s2 = r"
      using w2 flush_keeps by (fastforce simp: on_out_def split: prod.splits)+
    then have c3: "contents (rp_out s3) = replay_hello_bytes h" "\<exists>r'. read_replay_request r = (w3, r')"
      using w3 by (auto simp: on_in_def split: prod.splits)
    have "session_cut X compression r s2" "session_cut X compression r s3"
      using cut [of s2 "length (replay_hello_bytes h)"] cut [of s3 "length (replay_hello_bytes h)"] c2 c3 by simp_all
    then show ?thesis using w1 w2 w3 c3 Inr \<open>replay_hello_of X (dm_spool d) = Inr h\<close>
      by (cases w2; cases w3) (auto simp: greet_step_def goto_pc_def session_inv_def try_st_def try_r_def)
  qed
qed

lemma place_inv:
  assumes "contents (rp_out s) = replay_hello_bytes h" and "read_replay_request r = (Inr q, r')"
  shows "session_inv X compression r (place_step d q s)"
proof (cases "spool_replay_cursor_after (dm_spool d) (from_seq q)")
  case (Inl e)
  then show ?thesis by (simp add: spool_replay_cursor_after_def split: spool.splits)
next
  case (Inr c)
  have "session_sent X compression (from_seq q) c (s\<lparr>rp_seen_generation := g, rp_pc := pc\<rparr>)" for g pc
    using assms(1) place_cursor_seq [OF Inr]
    by (auto simp: session_sent_def sent_upto_def seq_sorted_def sent_bytes_def intro!: exI [of _ h] exI [of _ "[]"])
  then show ?thesis using Inr assms(2) by (auto simp: place_step_def goto_pc_def session_inv_def try_r_def)
qed

lemma consume_inv:
  assumes "read_replay_request r = (Inr q, r')" and "session_sent X compression (from_seq q) c s"
  shows "session_inv X compression r (snd (consume_step X n c d s))"
proof -
  obtain res sp where "spool_consume_through X n (dm_spool d) = (res, sp)" by (metis surj_pair)
  then show ?thesis using assms sent_is_cut [OF assms]
    by (cases res) (auto simp: consume_step_def goto_pc_def session_inv_def)
qed

lemma step_inv:
  assumes "session_inv X compression r s" and "replay_step X write_all fl compression (d, s) = (d', s')"
  shows "session_inv X compression r s'"
proof -
  have wait: "session_sent X compression n c (wait_for_change d pc s) = session_sent X compression n c s" for n c pc
    by (simp add: wait_for_change_def session_sent_def)
  note inv = assms(1)[unfolded session_inv_def]
  have s': "s' = snd (replay_step X write_all fl compression (d, s))" by (simp add: assms(2))
  show ?thesis
  proof (cases "rp_pc s")
    case (WaitKeep c)
    then show ?thesis using s' inv wait [of _ _ "Keep False c"] by (auto simp: replay_step_def session_inv_def wait_for_change_def)
  next
    case (WaitDrain c)
    then show ?thesis using s' inv wait [of _ _ "Drain c"] by (auto simp: replay_step_def session_inv_def wait_for_change_def)
  qed (use s' inv greet_inv keep_inv drain_inv place_inv consume_inv in \<open>auto simp: replay_step_def session_inv_def\<close>)
qed

end

section \<open>Every interleaving\<close>

text \<open>A connection that breaks after some number of bytes.\<close>

record socket =
  sk_sent :: bytes
  sk_budget :: nat

definition socket_write_all :: "socket write_all" where
  "socket_write_all bs w =
     (if length bs \<le> sk_budget w then (Inr (), \<lparr>sk_sent = sk_sent w @ bs, sk_budget = sk_budget w - length bs\<rparr>)
      else (Inl (IoError BrokenPipe ''broken pipe''), \<lparr>sk_sent = sk_sent w @ take (sk_budget w) bs, sk_budget = 0\<rparr>))"

definition keep_sink :: "'w \<Rightarrow> (io_error + unit) \<times> 'w" where
  "keep_sink w = (Inr (), w)"

interpretation socket: flushing_sink socket_write_all sk_sent keep_sink
  by unfold_locales (auto simp: socket_write_all_def keep_sink_def split: if_splits)

text \<open>A session and everything else: its own steps, and any change of the daemon's state by other threads.\<close>

inductive replay_reach :: "extern \<Rightarrow> bool \<Rightarrow> dev \<Rightarrow> nat \<Rightarrow> daemon \<times> socket replay_session \<Rightarrow> bool"
  for X compression r b where
  connect: "replay_reach X compression r b (d, replay_session_new r \<lparr>sk_sent = [], sk_budget = b\<rparr>)"
| session: "replay_reach X compression r b ds \<Longrightarrow>
    replay_reach X compression r b (replay_step X socket_write_all keep_sink compression ds)"
| others: "replay_reach X compression r b (d, s) \<Longrightarrow> replay_reach X compression r b (d', s)"

context flushing_sink
begin

lemma inv_cut:
  assumes "session_inv X compression r s"
  shows "session_cut X compression r s"
proof (cases "rp_pc s")
  case Greet
  then show ?thesis using assms unfolding session_cut_def session_inv_def
    by (intro exI [of _ undefined] exI [of _ "[]"] exI [of _ 0]) (simp add: seq_sorted_def)
next
  case (Place q)
  then obtain h where h: "contents (rp_out s) = replay_hello_bytes h" using assms by (auto simp: session_inv_def)
  then show ?thesis unfolding session_cut_def
    by (intro exI [of _ h] exI [of _ "[]"] exI [of _ "length (replay_hello_bytes h)"]) (simp add: seq_sorted_def sent_bytes_def)
qed (use assms sent_is_cut in \<open>auto simp: session_inv_def\<close>)

end

lemma replay_reach_inv: "replay_reach X compression r b ds \<Longrightarrow> socket.session_inv X compression r (snd ds)"
proof (induction rule: replay_reach.induct)
  case (connect d)
  then show ?case by (simp add: socket.session_inv_def replay_session_new_def)
next
  case (session ds)
  then show ?case using socket.step_inv [of X compression r "snd ds" "fst ds"] by (metis prod.collapse)
qed simp

section \<open>Any spool is a replay store\<close>

primrec spool_ok :: "extern \<Rightarrow> spool \<Rightarrow> bool" where
  "spool_ok X (SpoolBuffer b) = seq_sorted (bs_records b)"
| "spool_ok X (SpoolFile f) = file_ok X f"

primrec spool_stored :: "extern \<Rightarrow> spool \<Rightarrow> wire_record list" where
  "spool_stored X (SpoolBuffer b) = bs_records b"
| "spool_stored X (SpoolFile f) = file_stored X f"

primrec spool_place :: "spool \<Rightarrow> u64 \<Rightarrow> replay_cursor" where
  "spool_place (SpoolBuffer b) n = CursorBuffer (buffer_replay_cursor_after b n)"
| "spool_place (SpoolFile f) n = CursorFile (file_replay_cursor_after f n)"

lemma spool_place: "spool_replay_cursor_after s n = Inr (spool_place s n)"
  by (cases s) (simp_all add: spool_replay_cursor_after_def)

definition spool_cursor_ok :: "extern \<Rightarrow> spool \<Rightarrow> replay_cursor \<Rightarrow> bool" where
  "spool_cursor_ok X s c \<longleftrightarrow>
     (case (s, c) of (SpoolBuffer b, CursorBuffer c) \<Rightarrow> True | (SpoolFile f, CursorFile c) \<Rightarrow> file_cursor_ok X f c | _ \<Rightarrow> False)"

interpretation anyspool: replay_store "spool_ok X" "spool_stored X" spool_place "spool_next_for_cursor X" cursor_seq
  "spool_cursor_ok X" for X
proof
  fix s n
  assume ok: "spool_ok X s"
  then show "seq_sorted (spool_stored X s)" by (cases s) (simp_all add: filespool.stored_sorted)
  show "spool_cursor_ok X s (spool_place s n)"
    using ok by (cases s) (simp_all add: spool_cursor_ok_def filespool.place_ok)
next
  fix s n
  show "cursor_seq (spool_place s n) = n" by (cases s) (simp_all add: buffer.place_seq filespool.place_seq)
next
  fix s c
  assume ok: "spool_ok X s" "spool_cursor_ok X s c"
  show "case after (cursor_seq c) (spool_stored X s) of
      [] \<Rightarrow> \<exists>c'. spool_next_for_cursor X s c = (Inr None, c')
    | r # _ \<Rightarrow> \<exists>c'. spool_next_for_cursor X s c = (Inr (Some r), c') \<and> cursor_seq c' = seq r \<and> spool_cursor_ok X s c'"
  proof (cases s)
    case (SpoolBuffer b)
    with ok obtain bc where c: "c = CursorBuffer bc" by (cases c) (auto simp: spool_cursor_ok_def)
    have "seq_sorted (bs_records b)" using ok SpoolBuffer by simp
    from buffer_next_spec [OF this, of bc] show ?thesis
      by (auto simp: SpoolBuffer c spool_next_for_cursor_def spool_cursor_ok_def split: list.splits)
  next
    case (SpoolFile f)
    with ok obtain fc where c: "c = CursorFile fc" by (cases c) (auto simp: spool_cursor_ok_def)
    have "file_ok X f" "file_cursor_ok X f fc" using ok SpoolFile c by (simp_all add: spool_cursor_ok_def)
    from filespool.step_spec [OF this] show ?thesis
      by (auto simp: SpoolFile c spool_next_for_cursor_def spool_cursor_ok_def split: list.splits)
  qed
qed

section \<open>Properties\<close>

text \<open>C23. However the other threads change the spool between the steps of a replay session, and wherever the connection
  breaks, the client has received a prefix of a greeting and records with strictly growing sequence numbers, all
  above the one it asked for: no record is sent twice and none out of order.\<close>

theorem replay_sends_in_order:
  assumes "replay_reach X compression r b (d, s)"
  shows "\<exists>h rs k. sk_sent (rp_out s) = take k (replay_hello_bytes h @ concat (map (wire_bytes X compression) rs)) \<and>
    sorted_wrt (\<lambda>x y. seq x < seq y) rs \<and>
    (rs \<noteq> [] \<longrightarrow> (\<exists>q r'. read_replay_request r = (Inr q, r') \<and> (\<forall>x\<in>set rs. from_seq q < seq x)))"
  using socket.inv_cut [OF replay_reach_inv [OF assms, simplified]]
  by (simp add: socket.session_cut_def sent_bytes_def seq_sorted_def)

theorem replay_sends_in_order_witness:
  "\<exists>ds. replay_reach identity_extern False (dev_of (replay_request_bytes \<lparr>from_seq = 4, consume = False\<rparr>)) 9 ds \<and>
     (\<exists>h rs k. sk_sent (rp_out (snd ds)) = take k (replay_hello_bytes h @ concat (map (wire_bytes identity_extern False) rs)))"
proof -
  let ?r = "dev_of (replay_request_bytes \<lparr>from_seq = 4, consume = False\<rparr>)"
  have "replay_reach identity_extern False ?r 9
      (replay_step identity_extern socket_write_all keep_sink False (d, replay_session_new ?r \<lparr>sk_sent = [], sk_budget = 9\<rparr>))" for d
    by (intro session connect)
  then obtain d s where ds: "replay_reach identity_extern False ?r 9 (d, s)" by (metis surj_pair)
  from replay_sends_in_order [OF ds] ds show ?thesis by (intro exI [of _ "(d, s)"]) auto
qed

end
