(* ===== verification/Lj_Replay_Delivery.thy ===== *)
theory Lj_Replay_Delivery
  imports Lj_Replay_Session
begin

text \<open>
  Replay sessions of a daemon at rest: a keeping session delivers everything and waits, a draining session removes what
  the client acknowledged.
\<close>

section \<open>A session that nobody disturbs\<close>

lemma next_none_hint:
  "next_in_segments X d n segs c = (Inr None, c') \<Longrightarrow> fc_next_segment_id_hint c \<le> fc_next_segment_id_hint c'"
proof (induction segs arbitrary: c)
  case (Cons seg segs)
  show ?case
  proof (cases "si_id seg < fc_next_segment_id_hint c")
    case True
    then show ?thesis using Cons by simp
  next
    case False
    then have "next_in_segments X d n segs (c\<lparr>fc_next_segment_id_hint := si_id seg\<rparr>) = (Inr None, c')"
      using Cons.prems by (auto simp: try_Inr split: option.splits)
    from Cons.IH [OF this] False show ?thesis by simp
  qed
qed simp

lemma next_none_again:
  "next_in_segments X d n segs c = (Inr None, c') \<Longrightarrow> fc_next_segment_id_hint c \<le> fc_next_segment_id_hint k \<Longrightarrow>
   \<exists>k'. next_in_segments X d n segs k = (Inr None, k')"
proof (induction segs arbitrary: c k)
  case (Cons seg segs)
  show ?case
  proof (cases "si_id seg < fc_next_segment_id_hint c")
    case True
    then show ?thesis using Cons by auto
  next
    case False
    then obtain r where r: "next_in_segments X d n segs (c\<lparr>fc_next_segment_id_hint := si_id seg\<rparr>) = (Inr None, c')"
        "open_segment d (si_path seg) = Inr r" "map_sum to_io_error id (find_record X (\<lambda>x. \<not> seq x \<le> n) r) = Inr None"
      using Cons.prems(1) by (auto simp: try_Inr split: option.splits)
    show ?thesis
    proof (cases "si_id seg < fc_next_segment_id_hint k")
      case True
      then show ?thesis using Cons.IH [OF r(1), of k] by simp
    next
      case False
      then show ?thesis using Cons.IH [OF r(1), of "k\<lparr>fc_next_segment_id_hint := si_id seg\<rparr>"] r(2,3) by simp
    qed
  qed
qed simp

lemma spool_none_again:
  assumes "spool_next_for_cursor X s c = (Inr None, c')"
  shows "\<exists>c''. spool_next_for_cursor X s c' = (Inr None, c'')"
proof (cases s)
  case (SpoolBuffer b)
  with assms have "c' = c"
    by (auto simp: spool_next_for_cursor_def split: replay_cursor.splits prod.splits dest!: buffer_next_above(2))
  then show ?thesis using assms by blast
next
  case (SpoolFile f)
  then obtain k k' where k: "c = CursorFile k" "c' = CursorFile k'" "file_next_for_cursor X f k = (Inr None, k')"
    using assms by (auto simp: spool_next_for_cursor_def apsnd_eq_iff split: replay_cursor.splits)
  note n = k(3)[unfolded file_next_for_cursor_def]
  from next_none_again [OF n next_none_hint [OF n]] next_in_segments_none [OF n] show ?thesis
    by (auto simp: SpoolFile k(2) spool_next_for_cursor_def file_next_for_cursor_def apsnd_eq_iff)
qed

abbreviation quiet_step :: "extern \<Rightarrow> bool \<Rightarrow> daemon \<times> bytes replay_session \<Rightarrow> daemon \<times> bytes replay_session" where
  "quiet_step X compression \<equiv> replay_step X vec_write_all keep_sink compression"

lemma write_record_vec:
  "sendable X c limit r \<Longrightarrow> write_record X vec_write_all r c w = (Inr (), w @ wire_bytes X c r)"
  using write_records_bytes [of "[r]" X c limit w] by (auto simp: try_Inr)

lemma quiet_keep:
  assumes "spool_ok X (dm_spool d)" and "spool_cursor_ok X (dm_spool d) c" and "rp_pc s = Keep b c"
    and "after (cursor_seq c) (spool_stored X (dm_spool d)) = rs" and "\<forall>r\<in>set rs. sendable X compression limit r"
  shows "\<exists>n c'. (quiet_step X compression ^^ n) (d, s) =
    (d, s\<lparr>rp_pc := WaitKeep c', rp_out := rp_out s @ concat (map (wire_bytes X compression) rs)\<rparr>)"
  using assms
proof (induction rs arbitrary: b c s)
  case Nil
  obtain c1 where c1: "spool_next_for_cursor X (dm_spool d) c = (Inr None, c1)"
    using anyspool.step_spec [OF Nil(1,2)] Nil(4) by auto
  obtain c2 where c2: "spool_next_for_cursor X (dm_spool d) c1 = (Inr None, c2)" using spool_none_again [OF c1] by blast
  note ev = replay_step_def keep_step_def goto_pc_def on_out_def keep_sink_def try_st_def
  let ?t = "\<lambda>c'. s\<lparr>rp_pc := WaitKeep c', rp_out := rp_out s @ concat (map (wire_bytes X compression) [])\<rparr>"
  have "(quiet_step X compression ^^ 1) (d, s) = (d, ?t c1)" if "\<not> b" using that c1 Nil(3) by (simp add: ev)
  moreover have "(quiet_step X compression ^^ 2) (d, s) = (d, ?t c2)" if b
    using that c1 c2 Nil(3) by (simp add: ev numeral_2_eq_2)
  ultimately show ?case by blast
next
  case (Cons r rs)
  obtain c1 where c1: "spool_next_for_cursor X (dm_spool d) c = (Inr (Some r), c1)" "cursor_seq c1 = seq r" "spool_cursor_ok X (dm_spool d) c1"
    using anyspool.step_spec [OF Cons.prems(1,2)] Cons.prems(4) by auto
  let ?s = "s\<lparr>rp_pc := Keep True c1, rp_out := rp_out s @ wire_bytes X compression r\<rparr>"
  have st: "quiet_step X compression (d, s) = (d, ?s)"
    using c1(1) Cons.prems(3,5) write_record_vec [of X compression limit r]
    by (simp add: replay_step_def keep_step_def goto_pc_def on_out_def try_st_def)
  have "after (cursor_seq c1) (spool_stored X (dm_spool d)) = rs"
    using anyspool.after_tail [OF Cons.prems(1,4)] c1(2) by simp
  from Cons.IH [OF Cons.prems(1) c1(3), of ?s True] this Cons.prems(5) obtain n c' where
    n: "(quiet_step X compression ^^ n) (d, ?s) = (d, ?s\<lparr>rp_pc := WaitKeep c', rp_out := rp_out ?s @ concat (map (wire_bytes X compression) rs)\<rparr>)"
    by auto
  then have "(quiet_step X compression ^^ (Suc n)) (d, s)
      = (d, s\<lparr>rp_pc := WaitKeep c', rp_out := rp_out s @ concat (map (wire_bytes X compression) (r # rs))\<rparr>)"
    unfolding funpow_Suc_right o_apply st by simp
  then show ?case by blast
qed

lemma hello_of_ok:
  assumes "spool_ok X s"
  shows "\<exists>h. replay_hello_of X s = Inr h"
  using assms by (cases s) (auto simp: replay_hello_of_def spool_sequence_bounds_def and_then_def file_sequence_bounds_spec split: prod.splits)

lemma session_opening:
  assumes "replay_hello_of X (dm_spool d) = Inr h" and "no_faults r" and "data r = replay_request_bytes q @ post" and "pos r = 0"
  shows "(quiet_step X compression ^^ 2) (d, replay_session_new r []) =
    (d, \<lparr>rp_pc = (if consume q then Drain (spool_place (dm_spool d) (from_seq q)) else Keep False (spool_place (dm_spool d) (from_seq q))),
         rp_seen_generation = dm_generation d, rp_in = r\<lparr>pos := length (replay_request_bytes q)\<rparr>, rp_out = replay_hello_bytes h\<rparr>)"
proof -
  have rd: "read_replay_request r = (Inr q, r\<lparr>pos := length (replay_request_bytes q)\<rparr>)"
    using request.read_encode [OF TrueI assms(2), of "[]" q post] assms by simp
  show ?thesis
    by (simp add: numeral_2_eq_2 replay_step_def replay_session_new_def greet_step_def place_step_def goto_pc_def on_out_def on_in_def
        try_st_def try_r_def assms(1) write_replay_hello_def vec_write_all_def keep_sink_def rd spool_place)
qed

lemma keep_session_output:
  assumes "spool_ok X (dm_spool d)" and "replay_hello_of X (dm_spool d) = Inr h" and "\<not> consume q"
    and "\<forall>r\<in>set (spool_stored X (dm_spool d)). sendable X compression limit r"
  shows "\<exists>n s. (quiet_step X compression ^^ n) (d, replay_session_new (dev_of (replay_request_bytes q)) []) = (d, s) \<and>
    (\<exists>c. rp_pc s = WaitKeep c) \<and>
    rp_out s = replay_hello_bytes h @ concat (map (wire_bytes X compression) (after (from_seq q) (spool_stored X (dm_spool d))))"
proof -
  let ?c = "spool_place (dm_spool d) (from_seq q)" and ?rs = "after (from_seq q) (spool_stored X (dm_spool d))"
  let ?r = "dev_of (replay_request_bytes q)"
  let ?s = "\<lparr>rp_pc = Keep False ?c, rp_seen_generation = dm_generation d, rp_in = ?r\<lparr>pos := length (replay_request_bytes q)\<rparr>,
    rp_out = replay_hello_bytes h\<rparr>"
  have op: "(quiet_step X compression ^^ 2) (d, replay_session_new ?r []) = (d, ?s)"
    using session_opening [OF assms(2), of ?r q "[]" compression] assms(3) by (simp add: dev_of_def no_faults_def)
  have snd: "\<forall>r\<in>set ?rs. sendable X compression limit r" using assms(4) by (simp add: after_def)
  have "after (cursor_seq ?c) (spool_stored X (dm_spool d)) = ?rs" by (simp add: anyspool.place_seq)
  from quiet_keep [OF assms(1) anyspool.place_ok [OF assms(1)] _ this snd, of ?s False] obtain n c' where
    n: "(quiet_step X compression ^^ n) (d, ?s) =
      (d, ?s\<lparr>rp_pc := WaitKeep c', rp_out := replay_hello_bytes h @ concat (map (wire_bytes X compression) ?rs)\<rparr>)" by auto
  have "(quiet_step X compression ^^ (n + 2)) (d, replay_session_new ?r [])
      = (d, ?s\<lparr>rp_pc := WaitKeep c', rp_out := replay_hello_bytes h @ concat (map (wire_bytes X compression) ?rs)\<rparr>)"
    unfolding funpow_add o_apply op by (rule n)
  then show ?thesis by (intro exI conjI) (assumption, simp_all)
qed

section \<open>Draining a memory spool\<close>

lemma after_consumed: "seq_sorted (bs_records b) \<Longrightarrow> after n (bs_records (buffer_consume_through n b)) = after n (bs_records b)"
  by (simp add: buffer_consume_records after_def)

lemma consume_step_memory:
  assumes "dm_spool d = SpoolBuffer b"
  shows "consume_step X n c d s = (d\<lparr>dm_spool := SpoolBuffer (buffer_consume_through n b)\<rparr>, s\<lparr>rp_pc := Drain c\<rparr>)"
  using assms by (simp add: consume_step_def spool_consume_through_def goto_pc_def)

definition acks :: "wire_record list \<Rightarrow> bytes" where
  "acks rs = concat (map (\<lambda>r. replay_ack_bytes \<lparr>ack_seq = seq r\<rparr>) rs)"

definition kept_after :: "wire_record list \<Rightarrow> wire_record list \<Rightarrow> wire_record list" where
  "kept_after acked rs = (if acked = [] then rs else after (seq (last acked)) rs)"

text \<open>One record sent and acknowledged.\<close>

lemma drain_one:
  assumes b: "dm_spool d = SpoolBuffer b" "seq_sorted (bs_records b)"
    and s: "rp_pc s = Drain (CursorBuffer c)" "after (bc_last_seq c) (bs_records b) = r # rs" "sendable X compression limit r"
    and i: "no_faults (rp_in s)" "data (rp_in s) = pre @ replay_ack_bytes \<lparr>ack_seq = seq r\<rparr> @ post" "pos (rp_in s) = length pre"
  shows "\<exists>c'. (quiet_step X compression ^^ 2) (d, s) =
    (d\<lparr>dm_spool := SpoolBuffer (buffer_consume_through (seq r) b)\<rparr>,
     s\<lparr>rp_pc := Drain (CursorBuffer c'), rp_out := rp_out s @ wire_bytes X compression r,
       rp_in := rp_in s\<lparr>pos := length (pre @ replay_ack_bytes \<lparr>ack_seq = seq r\<rparr>)\<rparr>\<rparr>) \<and> bc_last_seq c' = seq r"
proof -
  obtain c' where c': "buffer_next_for_cursor b c = (Some r, c')" "bc_last_seq c' = seq r"
    using buffer_next_spec [OF b(2), of c] s(2) by auto
  have rd: "read_replay_ack (rp_in s) = (Inr \<lparr>ack_seq = seq r\<rparr>, rp_in s\<lparr>pos := length (pre @ replay_ack_bytes \<lparr>ack_seq = seq r\<rparr>)\<rparr>)"
    using ack.read_encode [OF TrueI i] by simp
  let ?s = "s\<lparr>rp_pc := Consume (seq r) (CursorBuffer c'), rp_out := rp_out s @ wire_bytes X compression r,
       rp_in := rp_in s\<lparr>pos := length (pre @ replay_ack_bytes \<lparr>ack_seq = seq r\<rparr>)\<rparr>\<rparr>"
  have "quiet_step X compression (d, s) = (d, ?s)"
    using b(1) s(1) c'(1) rd write_record_vec [OF s(3)]
    by (simp add: replay_step_def drain_step_def spool_next_for_cursor_def goto_pc_def on_out_def on_in_def try_st_def keep_sink_def)
  moreover have "quiet_step X compression (d, ?s) = (d\<lparr>dm_spool := SpoolBuffer (buffer_consume_through (seq r) b)\<rparr>,
      s\<lparr>rp_pc := Drain (CursorBuffer c'), rp_out := rp_out s @ wire_bytes X compression r,
        rp_in := rp_in s\<lparr>pos := length (pre @ replay_ack_bytes \<lparr>ack_seq = seq r\<rparr>)\<rparr>\<rparr>)"
    by (cases s) (simp add: replay_step_def consume_step_memory [OF b(1)])
  ultimately show ?thesis using c'(2) by (intro exI [of _ c']) (simp add: numeral_2_eq_2)
qed

lemma read_ack_eof:
  assumes "no_faults d" and "pos d = length (data d)"
  shows "read_replay_ack d = (Inl unexpected_eof, d)"
  using read_exact_eof [of d 8] assms by (simp add: read_replay_ack_def try_st_def)

lemma drain_end:
  assumes b: "dm_spool d = SpoolBuffer b" "seq_sorted (bs_records b)"
    and s: "rp_pc s = Drain (CursorBuffer c)" "after (bc_last_seq c) (bs_records b) = r # rs" "sendable X compression limit r"
    and i: "no_faults (rp_in s)" "pos (rp_in s) = length (data (rp_in s))"
  shows "quiet_step X compression (d, s) =
    (d, s\<lparr>rp_pc := Failed unexpected_eof, rp_out := rp_out s @ wire_bytes X compression r\<rparr>)"
proof -
  obtain c' where c': "buffer_next_for_cursor b c = (Some r, c')" "bc_last_seq c' = seq r"
    using buffer_next_spec [OF b(2), of c] s(2) by auto
  then show ?thesis
    using b(1) s(1) read_ack_eof [OF i] write_record_vec [OF s(3)]
    by (simp add: replay_step_def drain_step_def spool_next_for_cursor_def goto_pc_def on_out_def on_in_def try_st_def keep_sink_def)
qed

lemma kept_after_Cons: "seq_sorted rs \<Longrightarrow> seq_sorted (r # acked) \<Longrightarrow> kept_after acked (after (seq r) rs) = kept_after (r # acked) rs"
proof (cases "acked = []")
  case False
  assume "seq_sorted (r # acked)"
  then have "seq r \<le> seq (last acked)" using False by (simp add: seq_sorted_def less_imp_le)
  then show ?thesis using False by (auto simp: kept_after_def after_def filter_filter intro!: filter_cong)
qed (simp add: kept_after_def)

lemma drain_run:
  assumes "dm_spool d = SpoolBuffer b" and "seq_sorted (bs_records b)" and "rp_pc s = Drain (CursorBuffer c)"
    and "after (bc_last_seq c) (bs_records b) = acked @ r # rest" and "\<forall>x\<in>set (acked @ [r]). sendable X compression limit x"
    and "no_faults (rp_in s)" and "data (rp_in s) = pre @ acks acked" and "pos (rp_in s) = length pre"
  shows "\<exists>n d' s'. (quiet_step X compression ^^ n) (d, s) = (d', s') \<and> rp_pc s' = Failed unexpected_eof \<and>
    rp_out s' = rp_out s @ concat (map (wire_bytes X compression) (acked @ [r])) \<and>
    spool_records (dm_spool d') = kept_after acked (bs_records b)"
  using assms
proof (induction acked arbitrary: d b s c pre)
  case Nil
  have "(quiet_step X compression ^^ 1) (d, s) = (d, s\<lparr>rp_pc := Failed unexpected_eof, rp_out := rp_out s @ wire_bytes X compression r\<rparr>)"
    using drain_end [of d b s c r rest X compression limit] Nil by (simp add: acks_def)
  then show ?case using Nil(1)
    by (intro exI [of _ 1] exI [of _ d] exI [of _ "s\<lparr>rp_pc := Failed unexpected_eof, rp_out := rp_out s @ wire_bytes X compression r\<rparr>"])
      (simp add: kept_after_def)
next
  case (Cons a acked)
  let ?ab = "replay_ack_bytes \<lparr>ack_seq = seq a\<rparr>" and ?b = "buffer_consume_through (seq a) b"
  have "after (bc_last_seq c) (bs_records b) = a # acked @ r # rest" using Cons.prems(4) by simp
  from drain_one [OF Cons.prems(1,2,3) this _ Cons.prems(6) _ Cons.prems(8), of X compression limit "acks acked"] Cons.prems(5,7)
  obtain c' where c': "(quiet_step X compression ^^ 2) (d, s) =
    (d\<lparr>dm_spool := SpoolBuffer ?b\<rparr>, s\<lparr>rp_pc := Drain (CursorBuffer c'), rp_out := rp_out s @ wire_bytes X compression a,
       rp_in := rp_in s\<lparr>pos := length (pre @ ?ab)\<rparr>\<rparr>)" "bc_last_seq c' = seq a"
    by (auto simp: acks_def)
  let ?s = "s\<lparr>rp_pc := Drain (CursorBuffer c'), rp_out := rp_out s @ wire_bytes X compression a, rp_in := rp_in s\<lparr>pos := length (pre @ ?ab)\<rparr>\<rparr>"
  have tl: "after (seq a) (bs_records b) = acked @ r # rest"
    using buffer.after_tail [of b "bc_last_seq c" a "acked @ r # rest"] Cons.prems(2,4) by simp
  have srt: "seq_sorted (bs_records ?b)" using Cons.prems(2) buffer_consume_records [of b "seq a"] by (simp add: seq_sorted_after)
  from Cons.IH [of "d\<lparr>dm_spool := SpoolBuffer ?b\<rparr>" ?b ?s c' "pre @ ?ab"] srt tl c'(2) after_consumed [OF Cons.prems(2), of "seq a"] Cons.prems(5,6,7)
  obtain n d' s' where n: "(quiet_step X compression ^^ n) (d\<lparr>dm_spool := SpoolBuffer ?b\<rparr>, ?s) = (d', s')" "rp_pc s' = Failed unexpected_eof"
    "rp_out s' = rp_out ?s @ concat (map (wire_bytes X compression) (acked @ [r]))" "spool_records (dm_spool d') = kept_after acked (bs_records ?b)"
    by (auto simp: acks_def no_faults_def)
  have "seq_sorted (a # acked)"
    using Cons.prems(2,4) seq_sorted_after [of "bs_records b" "bc_last_seq c"] by (simp add: seq_sorted_def sorted_wrt_append)
  then have "spool_records (dm_spool d') = kept_after (a # acked) (bs_records b)"
    using kept_after_Cons [OF Cons.prems(2)] buffer_consume_records [OF Cons.prems(2), of "seq a"] n(4) by simp
  moreover have "rp_out s' = rp_out s @ concat (map (wire_bytes X compression) ((a # acked) @ [r]))" using n(3) by simp
  moreover have "(quiet_step X compression ^^ (n + 2)) (d, s) = (d', s')" unfolding funpow_add o_apply c'(1) by (rule n(1))
  ultimately show ?case using n(2) by blast
qed

section \<open>Properties\<close>

text \<open>A daemon with two records in memory, for the concrete instances.\<close>

definition two_logs :: buffer_spool where
  "two_logs = (buffer_new 5 \<lparr>bc_limit = LimitMessages 10, bc_keep_messages = 0\<rparr>)\<lparr>bs_records := [sample_log 1, sample_log 2]\<rparr>"

definition two_logs_daemon :: daemon where
  "two_logs_daemon = \<lparr>dm_spool = SpoolBuffer two_logs, dm_generation = 0, dm_next_seq = 3, dm_policy = policy_new no_limit 0\<rparr>"

lemma two_logs_simps [simp]:
  "bs_records two_logs = [sample_log 1, sample_log 2]" "dm_spool two_logs_daemon = SpoolBuffer two_logs" "seq (sample_log n) = n"
  by (simp_all add: two_logs_def two_logs_daemon_def sample_log_def)

lemma sample_log_sendable: "sendable identity_extern False 10 (sample_log n)"
  by (simp add: sendable_def wire_payload_of_def wire_codec_def codecs_ok_def Let_def identity_extern_def sample_log_def)

text \<open>C24. A client that asks a daemon at rest, with a memory or a file spool whose records are in growing sequence
  order, for everything after \<open>m\<close> without consuming is served: after finitely many steps the session waits, and the
  client reads the greeting and then exactly the stored records above \<open>m\<close>, in order. The spool is unchanged.\<close>

theorem keep_session_delivers_everything:
  assumes "spool_ok X (dm_spool d)" and "\<not> consume q"
    and "\<forall>r\<in>set (spool_stored X (dm_spool d)). sendable X compression limit r"
  shows "\<exists>n s c h out rest. (replay_step X vec_write_all keep_sink compression ^^ n)
      (d, replay_session_new (dev_of (replay_request_bytes q)) []) = (d, s) \<and> rp_pc s = WaitKeep c \<and> rp_out s = out \<and>
    read_replay_hello (dev_of out) = (Inr h, rest) \<and>
    (let rs = filter (\<lambda>r. from_seq q < seq r) (spool_stored X (dm_spool d)) in
     \<exists>eof. read_n (expect_record X limit) (length rs) rest = (Inr rs, eof) \<and> pos eof = length out)"
proof -
  let ?rs = "after (from_seq q) (spool_stored X (dm_spool d))"
  obtain h where h: "replay_hello_of X (dm_spool d) = Inr h" using hello_of_ok [OF assms(1)] by blast
  let ?out = "replay_hello_bytes h @ concat (map (wire_bytes X compression) ?rs)"
  let ?rest = "(dev_of ?out)\<lparr>pos := length (replay_hello_bytes h)\<rparr>"
  obtain n s c where n: "(quiet_step X compression ^^ n) (d, replay_session_new (dev_of (replay_request_bytes q)) []) = (d, s)"
      "rp_pc s = WaitKeep c" "rp_out s = ?out"
    using keep_session_output [OF assms(1) h assms(2,3)] by auto
  have snd: "\<forall>r\<in>set ?rs. sendable X compression limit r" using assms(3) by (simp add: after_def)
  have "read_replay_hello (dev_of ?out) = (Inr h, ?rest)"
    using hello.read_encode [OF TrueI, of "dev_of ?out" "[]" h] by (simp add: dev_of_def no_faults_def)
  moreover have "read_n (expect_record X limit) (length ?rs) ?rest = (Inr ?rs, ?rest\<lparr>pos := length ?out\<rparr>)"
    using wire.read_all [OF snd, of ?rest "replay_hello_bytes h" "[]"] by (simp add: dev_of_def no_faults_def)
  ultimately show ?thesis using n unfolding after_def Let_def
    by (intro exI [of _ n] exI [of _ s] exI [of _ c] exI [of _ h] exI [of _ ?out] exI [of _ ?rest]) (simp add: after_def)
qed

theorem keep_session_delivers_everything_witness:
  "\<exists>n s out h rest eof. (replay_step identity_extern vec_write_all keep_sink False ^^ n)
      (two_logs_daemon, replay_session_new (dev_of (replay_request_bytes \<lparr>from_seq = 1, consume = False\<rparr>)) []) = (two_logs_daemon, s) \<and>
    rp_out s = out \<and> read_replay_hello (dev_of out) = (Inr h, rest) \<and>
    read_n (expect_record identity_extern 10) 1 rest = (Inr [sample_log 2], eof)"
  using keep_session_delivers_everything [of identity_extern two_logs_daemon "\<lparr>from_seq = 1, consume = False\<rparr>" False 10]
  by (fastforce simp: sample_log_sendable seq_sorted_def)

lemma after_last_acked:
  fixes b :: buffer_spool
  assumes "seq_sorted (bs_records b)" and "after n (bs_records b) = acked @ rs" and "acked \<noteq> []"
  shows "after (seq (last acked)) (bs_records b) = rs"
  using assms(2,3)
proof (induction acked arbitrary: n)
  case (Cons a acked)
  have "after (seq a) (bs_records b) = acked @ rs"
    using buffer.after_tail [of b n a "acked @ rs"] assms(1) Cons.prems(1) by simp
  then show ?case using Cons.IH [of "seq a"] by (cases "acked = []") auto
qed simp

text \<open>C25. A client drains a memory spool whose records are in growing sequence order: it asks with
  \<^verbatim>\<open>consume\<close> for everything after \<^verbatim>\<open>from_seq\<close>, acknowledges the records \<open>acked\<close> and disconnects
  after being sent \<open>r\<close>. Without an acknowledgement the spool is unchanged. Otherwise exactly the records from
  \<open>r\<close> on are left: what was sent and not acknowledged, and what comes after it, is never removed. All records up
  to the last acknowledged one are removed, also those at or below \<^verbatim>\<open>from_seq\<close>, which this client was
  not sent.\<close>

theorem drain_removes_through_the_last_ack:
  assumes "dm_spool d = SpoolBuffer b" and "seq_sorted (bs_records b)" and "consume q"
    and "filter (\<lambda>x. from_seq q < seq x) (bs_records b) = acked @ r # rest"
    and "\<forall>x\<in>set (acked @ [r]). sendable X compression limit x"
  shows "\<exists>n d' s h. (replay_step X vec_write_all keep_sink compression ^^ n)
      (d, replay_session_new (dev_of (replay_request_bytes q @ acks acked)) []) = (d', s) \<and>
    rp_pc s = Failed unexpected_eof \<and>
    rp_out s = replay_hello_bytes h @ concat (map (wire_bytes X compression) (acked @ [r])) \<and>
    spool_records (dm_spool d') = (if acked = [] then bs_records b else r # rest)"
proof -
  let ?r = "dev_of (replay_request_bytes q @ acks acked)" and ?c = "buffer_replay_cursor_after b (from_seq q)"
  have "spool_ok X (dm_spool d)" using assms(1,2) by simp
  then obtain h where h: "replay_hello_of X (dm_spool d) = Inr h" using hello_of_ok by blast
  let ?s = "\<lparr>rp_pc = Drain (CursorBuffer ?c), rp_seen_generation = dm_generation d,
    rp_in = ?r\<lparr>pos := length (replay_request_bytes q)\<rparr>, rp_out = replay_hello_bytes h\<rparr>"
  have op: "(quiet_step X compression ^^ 2) (d, replay_session_new ?r []) = (d, ?s)"
    using session_opening [OF h, of ?r q "acks acked" compression] assms(1,3) by (simp add: dev_of_def no_faults_def)
  have "after (bc_last_seq ?c) (bs_records b) = acked @ r # rest" using assms(4) by (simp add: buffer_replay_cursor_after_def after_def)
  from drain_run [OF assms(1,2) _ this assms(5), of ?s "replay_request_bytes q"] obtain n d' s' where
    n: "(quiet_step X compression ^^ n) (d, ?s) = (d', s')" "rp_pc s' = Failed unexpected_eof"
      "rp_out s' = replay_hello_bytes h @ concat (map (wire_bytes X compression) (acked @ [r]))"
      "spool_records (dm_spool d') = kept_after acked (bs_records b)"
    by (auto simp: dev_of_def no_faults_def)
  have "(quiet_step X compression ^^ (n + 2)) (d, replay_session_new ?r []) = (d', s')"
    unfolding funpow_add o_apply op by (rule n(1))
  moreover have "kept_after acked (bs_records b) = (if acked = [] then bs_records b else r # rest)"
    using after_last_acked [OF assms(2), of "from_seq q" acked "r # rest"] assms(4) by (auto simp: kept_after_def after_def)
  ultimately show ?thesis using n(2,3,4) by metis
qed

text \<open>A client that asks for everything after 1 and acknowledges 2 leaves only 3: record 1 is removed unsent.\<close>

theorem drain_removes_through_the_last_ack_witness:
  "\<exists>n d' s. (replay_step identity_extern vec_write_all keep_sink False ^^ n)
      (two_logs_daemon\<lparr>dm_spool := SpoolBuffer (two_logs\<lparr>bs_records := [sample_log 1, sample_log 2, sample_log 3]\<rparr>)\<rparr>,
       replay_session_new (dev_of (replay_request_bytes \<lparr>from_seq = 1, consume = True\<rparr> @ acks [sample_log 2])) []) = (d', s) \<and>
    rp_pc s = Failed unexpected_eof \<and> spool_records (dm_spool d') = [sample_log 3]"
proof -
  let ?b = "two_logs\<lparr>bs_records := [sample_log 1, sample_log 2, sample_log 3]\<rparr>"
  show ?thesis
    using drain_removes_through_the_last_ack [of "two_logs_daemon\<lparr>dm_spool := SpoolBuffer ?b\<rparr>" ?b
        "\<lparr>from_seq = 1, consume = True\<rparr>" "[sample_log 2]" "sample_log 3" "[]" identity_extern False 10]
    by (fastforce simp: sample_log_sendable seq_sorted_def)
qed

end
