(* ===== verification/Lj_Utf8.thy ===== *)
theory Lj_Utf8
  imports Lj_Text
begin

text \<open>
  UTF-8 as the standard library of Rust sees it: \<^verbatim>\<open>str::from_utf8\<close>, \<^verbatim>\<open>String::from_utf8_lossy\<close>,
  which replaces each maximal invalid piece by U+FFFD, and the character boundaries that slicing asks for. A string is a
  list of \<open>char\<close>, one for each byte.
\<close>

section \<open>One character\<close>

definition is_cont :: "char \<Rightarrow> bool" where
  "is_cont c \<longleftrightarrow> (let n = of_char c :: nat in 0x80 \<le> n \<and> n \<le> 0xBF)"

definition second_ok :: "nat \<Rightarrow> char \<Rightarrow> bool" where
  "second_ok b c \<longleftrightarrow>
     (let n = of_char c :: nat in
      if b = 0xE0 then 0xA0 \<le> n \<and> n \<le> 0xBF
      else if b = 0xED then 0x80 \<le> n \<and> n \<le> 0x9F
      else if b = 0xF0 then 0x90 \<le> n \<and> n \<le> 0xBF
      else if b = 0xF4 then 0x80 \<le> n \<and> n \<le> 0x8F
      else is_cont c)"

definition utf8_width :: "nat \<Rightarrow> nat" where
  "utf8_width b =
     (if b < 0x80 then 1
      else if 0xC2 \<le> b \<and> b \<le> 0xDF then 2
      else if 0xE0 \<le> b \<and> b \<le> 0xEF then 3
      else if 0xF0 \<le> b \<and> b \<le> 0xF4 then 4 else 0)"

text \<open>Whether the string starts with a character, and how many bytes are taken: the character, or the
  part of it that could still have become one.\<close>

fun conts :: "(char \<Rightarrow> bool) list \<Rightarrow> string \<Rightarrow> bool \<times> nat" where
  "conts [] cs = (True, 0)"
| "conts (p # ps) [] = (False, 0)"
| "conts (p # ps) (c # cs) = (if p c then apsnd Suc (conts ps cs) else (False, 0))"

definition utf8_next :: "string \<Rightarrow> bool \<times> nat" where
  "utf8_next s =
     (case s of
        [] \<Rightarrow> (True, 0)
      | c # cs \<Rightarrow>
          let b = of_char c; w = utf8_width b in
          if w = 0 then (False, 1) else apsnd Suc (conts (take (w - 1) [second_ok b, is_cont, is_cont]) cs))"

lemma conts_le: "snd (conts ps cs) \<le> length cs"
  by (induction ps cs rule: conts.induct) auto

lemma conts_append: "fst (conts ps cs) \<Longrightarrow> conts ps (take (snd (conts ps cs)) cs @ t) = conts ps cs"
  by (induction ps cs rule: conts.induct) (auto split: if_splits)

lemma utf8_next_progress: "s \<noteq> [] \<Longrightarrow> 0 < snd (utf8_next s) \<and> snd (utf8_next s) \<le> length s"
  using conts_le by (auto simp: utf8_next_def Let_def split: list.splits)

section \<open>Strings\<close>

definition REPLACEMENT :: string where
  "REPLACEMENT = [CHR 0xEF, CHR 0xBF, CHR 0xBD]"

function utf8_valid :: "string \<Rightarrow> bool" where
  "utf8_valid s = (if s = [] then True else fst (utf8_next s) \<and> utf8_valid (drop (snd (utf8_next s)) s))"
  by pat_completeness auto
termination
  by (relation "measure length") (use utf8_next_progress in \<open>auto intro: diff_less\<close>)

function from_utf8_lossy :: "string \<Rightarrow> string" where
  "from_utf8_lossy s =
     (if s = [] then []
      else (if fst (utf8_next s) then take (snd (utf8_next s)) s else REPLACEMENT) @
           from_utf8_lossy (drop (snd (utf8_next s)) s))"
  by pat_completeness auto
termination
  by (relation "measure length") (use utf8_next_progress in \<open>auto intro: diff_less\<close>)

declare utf8_valid.simps [simp del] from_utf8_lossy.simps [simp del]

lemma utf8_Nil [simp]: "utf8_valid []" "from_utf8_lossy [] = []"
  by (simp_all add: utf8_valid.simps from_utf8_lossy.simps)

text \<open>\<^verbatim>\<open>str::is_char_boundary\<close> and \<^verbatim>\<open>str::get(n..)\<close>.\<close>

definition is_char_boundary :: "nat \<Rightarrow> string \<Rightarrow> bool" where
  "is_char_boundary n s \<longleftrightarrow> n = 0 \<or> n = length s \<or> n < length s \<and> \<not> is_cont (s ! n)"

definition str_get_from :: "nat \<Rightarrow> string \<Rightarrow> string option" where
  "str_get_from n s = (if is_char_boundary n s then Some (drop n s) else None)"

section \<open>Lossy decoding\<close>

lemma utf8_next_ascii: "of_char c < (128 :: nat) \<Longrightarrow> utf8_next (c # cs) = (True, 1)"
  by (simp add: utf8_next_def utf8_width_def)

lemma utf8_next_append:
  assumes "fst (utf8_next s)" and "s \<noteq> []"
  shows "utf8_next (take (snd (utf8_next s)) s @ t) = utf8_next s"
  using assms conts_append by (auto simp: utf8_next_def Let_def split: list.splits if_splits)

lemma replacement_next: "utf8_next (REPLACEMENT @ t) = (True, 3)"
  by (simp add: utf8_next_def REPLACEMENT_def utf8_width_def second_ok_def is_cont_def numeral_2_eq_2)

lemma utf8_valid_piece:
  assumes "fst (utf8_next p)" "snd (utf8_next p) = length p" "p \<noteq> []"
  shows "utf8_valid (p @ t) = utf8_valid t"
  using utf8_next_append [OF assms(1,3), of t] assms by (subst utf8_valid.simps) simp

lemma lossy_is_valid: "utf8_valid (from_utf8_lossy s)"
proof (induction s rule: from_utf8_lossy.induct)
  case (1 s)
  show ?case
  proof (cases "s = []")
    case True
    then show ?thesis by simp
  next
    case False
    let ?p = "if fst (utf8_next s) then take (snd (utf8_next s)) s else REPLACEMENT"
    have n: "fst (utf8_next ?p)" "snd (utf8_next ?p) = length ?p" "?p \<noteq> []"
      using utf8_next_append [of s "[]"] replacement_next [of "[]"] utf8_next_progress [OF False] False
      by (auto simp: REPLACEMENT_def)
    from 1 [OF False] utf8_valid_piece [OF n] False show ?thesis
      by (subst from_utf8_lossy.simps) simp
  qed
qed

lemma lossy_of_valid: "utf8_valid s \<Longrightarrow> from_utf8_lossy s = s"
proof (induction s rule: from_utf8_lossy.induct)
  case (1 s)
  then show ?case
    by (cases "s = []")
      (simp_all add: from_utf8_lossy.simps [of s] utf8_valid.simps [of s])
qed

lemma ascii_is_valid: "\<forall>c\<in>set s. of_char c < (128 :: nat) \<Longrightarrow> utf8_valid s"
  by (induction s) (simp_all add: utf8_valid.simps utf8_next_ascii)

end
