(* ===== verification/Lj_Collector.thy ===== *)
theory Lj_Collector
  imports Lj_Replay_Delivery Lj_Utf8
begin

text \<open>
  The collector side of \<^verbatim>\<open>logjetd/src/replay.rs\<close>: endpoint URLs, the HTTP and gRPC connections to a
  collector and the batcher for logs. What the network does is an argument: a connection holds the outcomes of the
  dials that are still to come, an HTTP connection the bytes the collector answers with. White
  space is ASCII white space.
\<close>

section \<open>Endpoints\<close>

record collector_endpoint =
  ep_authority :: string
  ep_path :: string
  ep_tls :: bool
  ep_grpc :: bool

definition split_authority_and_path :: "string \<Rightarrow> string \<times> string" where
  "split_authority_and_path input =
     (if CHR ''/'' \<in> set input then (takeWhile (\<lambda>c. c \<noteq> CHR ''/'') input, dropWhile (\<lambda>c. c \<noteq> CHR ''/'') input)
      else (input, ''/v1/logs''))"

definition normalise_path :: "string \<Rightarrow> string" where
  "normalise_path path =
     (if path = [] then ''/v1/logs'' else if hd path = CHR ''/'' then path else CHR ''/'' # path)"

definition missing_host :: io_error where
  "missing_host = IoError InvalidInput ''collector.url missing host:port''"

definition grpc_endpoint :: "bool \<Rightarrow> string \<Rightarrow> io_error + collector_endpoint" where
  "grpc_endpoint tls authority =
     (if authority = [] then Inl missing_host
      else Inr \<lparr>ep_authority = authority, ep_path = [], ep_tls = tls, ep_grpc = True\<rparr>)"

definition http_endpoint :: "bool \<Rightarrow> string \<Rightarrow> io_error + collector_endpoint" where
  "http_endpoint tls rest =
     (let (authority, path) = split_authority_and_path rest in
      if authority = [] then Inl missing_host
      else Inr \<lparr>ep_authority = authority, ep_path = normalise_path path, ep_tls = tls, ep_grpc = False\<rparr>)"

definition endpoint_parse :: "string \<Rightarrow> io_error + collector_endpoint" where
  "endpoint_parse input =
     (case strip_prefix ''grpc://'' input of Some authority \<Rightarrow> grpc_endpoint False authority
      | None \<Rightarrow>
     (case strip_prefix ''grpcs://'' input of Some authority \<Rightarrow> grpc_endpoint True authority
      | None \<Rightarrow>
     (case strip_prefix ''http://'' input of Some rest \<Rightarrow> http_endpoint False rest
      | None \<Rightarrow>
     (case strip_prefix ''https://'' input of Some rest \<Rightarrow> http_endpoint True rest
      | None \<Rightarrow> Inr \<lparr>ep_authority = input, ep_path = ''/v1/logs'', ep_tls = False, ep_grpc = False\<rparr>))))"

primrec parse_collector_endpoints :: "string list \<Rightarrow> io_error + collector_endpoint list" where
  "parse_collector_endpoints [] = Inr []"
| "parse_collector_endpoints (url # urls) =
     and_then (endpoint_parse url) (\<lambda>e. and_then (parse_collector_endpoints urls) (\<lambda>es. Inr (e # es)))"

definition signal_path_for_endpoint :: "string \<Rightarrow> record_type \<Rightarrow> string" where
  "signal_path_for_endpoint base_path rt =
     (if base_path = ''/v1/logs'' \<or> base_path = [] then
        (case rt of Logs \<Rightarrow> ''/v1/logs'' | Metrics \<Rightarrow> ''/v1/metrics'' | Traces \<Rightarrow> ''/v1/traces'' | Events \<Rightarrow> ''/v1/logs'')
      else base_path)"

section \<open>HTTP responses\<close>

definition lossy :: "bytes \<Rightarrow> string" where
  "lossy bs = from_utf8_lossy (of_text bs)"

definition CRLF2 :: bytes where "CRLF2 = [0x0D, 0x0A, 0x0D, 0x0A]"

definition closed_in :: "string \<Rightarrow> io_error" where
  "closed_in what = IoError UnexpectedEof (''collector closed connection '' @ what)"

lemma read_byte_progress:
  "read_byte d = (Inr (Some b), d') \<Longrightarrow> data d' = data d \<and> pos d' = Suc (pos d) \<and> pos d < length (data d)"
  by (auto simp: read_byte_def split: if_splits option.splits)

function read_headers :: "bytes \<Rightarrow> dev \<Rightarrow> (io_error + bytes) \<times> dev" where
  "read_headers hdr d =
     (case read_byte d of
        (Inl e, d) \<Rightarrow> (Inl e, d)
      | (Inr None, d) \<Rightarrow> (Inl (closed_in ''before response headers''), d)
      | (Inr (Some b), d) \<Rightarrow>
          let hdr = hdr @ [b] in
          if length hdr \<ge> 4 \<and> drop (length hdr - 4) hdr = CRLF2 then (Inr hdr, d)
          else if length hdr > 16384 then (Inl (IoError OtherKind ''collector response headers exceed 16 KiB''), d)
          else read_headers hdr d)"
  by pat_completeness auto
termination
  by (relation "measure (\<lambda>(_, d). length (data d) - pos d)") (auto dest!: read_byte_progress [OF sym])

declare read_headers.simps [simp del]

fun content_length_in :: "string list \<Rightarrow> nat" where
  "content_length_in [] = 0"
| "content_length_in (line # ls) =
     (case (case strip_prefix ''Content-Length:'' line of Some v \<Rightarrow> Some v | None \<Rightarrow> strip_prefix ''content-length:'' line) of
        None \<Rightarrow> content_length_in ls
      | Some v \<Rightarrow> (case parse_usize (trim v) of Inr n \<Rightarrow> n | Inl _ \<Rightarrow> content_length_in ls))"

definition parse_content_length :: "string \<Rightarrow> nat" where
  "parse_content_length headers = content_length_in (lines headers)"

text \<open>\<^verbatim>\<open>Read::read\<close> into a buffer of \<open>n\<close> bytes: as many as are there before the next fault.\<close>

definition read_some :: "nat \<Rightarrow> dev \<Rightarrow> (io_error + nat) \<times> dev" where
  "read_some n d =
     (let k = min n (length (data d) - pos d) in
      if k = 0 then (Inr 0, d)
      else case faults d (pos d) of
        Some e \<Rightarrow> (Inl e, d)
      | None \<Rightarrow>
          let k = length (takeWhile (\<lambda>i. faults d i = None) [pos d..<pos d + k])
          in (Inr k, d\<lparr>pos := pos d + k\<rparr>))"

function discard_body :: "nat \<Rightarrow> dev \<Rightarrow> (io_error + unit) \<times> dev" where
  "discard_body remaining d =
     (if remaining = 0 then (Inr (), d)
      else
        case read_some (min 4096 remaining) d of
          (Inl e, d) \<Rightarrow> (Inl e, d)
        | (Inr n, d) \<Rightarrow>
            if n = 0 then (Inl (closed_in ''during response body''), d) else discard_body (remaining - n) d)"
  by pat_completeness auto
termination
  by (relation "measure fst") auto

declare discard_body.simps [simp del]

definition is_prefix :: "string \<Rightarrow> string \<Rightarrow> bool" where
  "is_prefix p s = (strip_prefix p s \<noteq> None)"

definition read_http_response :: "dev \<Rightarrow> (io_error + unit) \<times> dev" where
  "read_http_response d =
     try_st (read_headers [] d) (\<lambda>hdr d.
     let hdr_str = lossy hdr;
         status_line = (case lines hdr_str of [] \<Rightarrow> [] | l # _ \<Rightarrow> l) in
     if \<not> is_prefix ''HTTP/1.1 200'' status_line \<and> \<not> is_prefix ''HTTP/1.0 200'' status_line
     then (Inl (IoError OtherKind (''collector returned non-200 response: '' @ status_line)), d)
     else
       let content_len = parse_content_length hdr_str in
       if content_len > 0 then discard_body content_len d else (Inr (), d))"

section \<open>Connections\<close>

record http_conn =
  hc_endpoint :: collector_endpoint
  hc_in :: dev
  hc_out :: socket
  hc_dials :: "(io_error + (io_error + dev \<times> socket) list) list"

record grpc_conn =
  gc_exports :: "(string + unit) list"
  gc_dials :: "(io_error + (string + unit) list) list"

datatype collector_conn = HttpConn http_conn | GrpcConn grpc_conn

text \<open>Each address an authority resolves to is tried in turn. The addresses and the outcome of each attempt are arguments.\<close>

fun try_addresses :: "string \<Rightarrow> io_error option \<Rightarrow> (io_error + 'a) list \<Rightarrow> io_error + 'a" where
  "try_addresses authority last_err [] =
     Inl (case last_err of
            Some e \<Rightarrow> e
          | None \<Rightarrow> IoError InvalidInput (''collector or upstream address could not be resolved: '' @ authority))"
| "try_addresses authority last_err (Inr stream # _) = Inr stream"
| "try_addresses authority last_err (Inl e # rest) = try_addresses authority (Some e) rest"

definition connect_with_timeout :: "string \<Rightarrow> io_error + (io_error + 'a) list \<Rightarrow> io_error + 'a" where
  "connect_with_timeout authority addrs = and_then addrs (try_addresses authority None)"

text \<open>The next outcome the network has in store; there is none once it is gone.\<close>

definition unreachable :: io_error where
  "unreachable = IoError OtherKind ''network unreachable''"

fun next_dial :: "(io_error + 'a) list \<Rightarrow> (io_error + 'a) \<times> (io_error + 'a) list" where
  "next_dial [] = (Inl unreachable, [])"
| "next_dial (x # xs) = (x, xs)"

definition http_head :: "collector_endpoint \<Rightarrow> record_type \<Rightarrow> nat \<Rightarrow> string" where
  "http_head e rt n =
     ''POST '' @ signal_path_for_endpoint (ep_path e) rt @ '' HTTP/1.1'' @ [CHR 0x0D, CHR 0x0A]
     @ ''Host: '' @ ep_authority e @ [CHR 0x0D, CHR 0x0A]
     @ ''Content-Type: application/x-protobuf'' @ [CHR 0x0D, CHR 0x0A]
     @ ''Content-Length: '' @ show_nat n @ [CHR 0x0D, CHR 0x0A]
     @ ''Connection: keep-alive'' @ [CHR 0x0D, CHR 0x0A, CHR 0x0D, CHR 0x0A]"

definition http_post_inner :: "record_type \<Rightarrow> bytes \<Rightarrow> http_conn \<Rightarrow> (io_error + unit) \<times> http_conn" where
  "http_post_inner rt pl c =
     (case try_st (socket_write_all (to_text (http_head (hc_endpoint c) rt (length pl))) (hc_out c)) (\<lambda>_ w. socket_write_all pl w) of
        (Inl e, w) \<Rightarrow> (Inl e, c\<lparr>hc_out := w\<rparr>)
      | (Inr _, w) \<Rightarrow> (case read_http_response (hc_in c) of (r, d) \<Rightarrow> (r, c\<lparr>hc_out := w, hc_in := d\<rparr>)))"

definition http_reconnect :: "http_conn \<Rightarrow> (io_error + unit) \<times> http_conn" where
  "http_reconnect c =
     (case next_dial (hc_dials c) of (addrs, ds) \<Rightarrow>
        (case connect_with_timeout (ep_authority (hc_endpoint c)) addrs of
           Inl e \<Rightarrow> (Inl e, c\<lparr>hc_dials := ds\<rparr>)
         | Inr (d, w) \<Rightarrow> (Inr (), c\<lparr>hc_in := d, hc_out := w, hc_dials := ds\<rparr>)))"

definition grpc_export_next :: "string \<Rightarrow> grpc_conn \<Rightarrow> (io_error + unit) \<times> grpc_conn" where
  "grpc_export_next what c =
     (case gc_exports c of
        [] \<Rightarrow> (Inl (IoError OtherKind (what @ ''transport error'')), c)
      | Inl e # xs \<Rightarrow> (Inl (IoError OtherKind (what @ e)), c\<lparr>gc_exports := xs\<rparr>)
      | Inr _ # xs \<Rightarrow> (Inr (), c\<lparr>gc_exports := xs\<rparr>))"

definition grpc_post_inner :: "otlp \<Rightarrow> record_type \<Rightarrow> bytes \<Rightarrow> grpc_conn \<Rightarrow> (io_error + unit) \<times> grpc_conn" where
  "grpc_post_inner Q rt pl c =
     (case rt of
        Logs \<Rightarrow>
          (case logs_decode Q pl of
             Inl e \<Rightarrow> (Inl (invalid_data (''invalid OTLP log batch: '' @ e)), c)
           | Inr _ \<Rightarrow> grpc_export_next ''collector gRPC export failed: '' c)
      | Metrics \<Rightarrow>
          (case metrics_decode Q pl of
             Inl e \<Rightarrow> (Inl (invalid_data (''invalid OTLP metrics batch: '' @ e)), c)
           | Inr _ \<Rightarrow> grpc_export_next ''collector gRPC metrics export failed: '' c)
      | Traces \<Rightarrow>
          (case traces_decode Q pl of
             Inl e \<Rightarrow> (Inl (invalid_data (''invalid OTLP trace batch: '' @ e)), c)
           | Inr _ \<Rightarrow> grpc_export_next ''collector gRPC traces export failed: '' c)
      | Events \<Rightarrow> (Inl (IoError OtherKind ''gRPC export not yet implemented for record type: Events''), c))"

definition grpc_reconnect :: "grpc_conn \<Rightarrow> (io_error + unit) \<times> grpc_conn" where
  "grpc_reconnect c =
     (case next_dial (gc_dials c) of
        (Inl e, ds) \<Rightarrow> (Inl e, c\<lparr>gc_dials := ds\<rparr>)
      | (Inr xs, ds) \<Rightarrow> (Inr (), c\<lparr>gc_exports := xs, gc_dials := ds\<rparr>))"

primrec collector_post_inner :: "otlp \<Rightarrow> record_type \<Rightarrow> bytes \<Rightarrow> collector_conn \<Rightarrow> (io_error + unit) \<times> collector_conn" where
  "collector_post_inner Q rt pl (HttpConn c) = apsnd HttpConn (http_post_inner rt pl c)"
| "collector_post_inner Q rt pl (GrpcConn c) = apsnd GrpcConn (grpc_post_inner Q rt pl c)"

primrec collector_reconnect :: "collector_conn \<Rightarrow> (io_error + unit) \<times> collector_conn" where
  "collector_reconnect (HttpConn c) = apsnd HttpConn (http_reconnect c)"
| "collector_reconnect (GrpcConn c) = apsnd GrpcConn (grpc_reconnect c)"

definition collector_post_for :: "otlp \<Rightarrow> record_type \<Rightarrow> bytes \<Rightarrow> collector_conn \<Rightarrow> (io_error + unit) \<times> collector_conn" where
  "collector_post_for Q rt pl c =
     (case collector_post_inner Q rt pl c of
        (Inr _, c) \<Rightarrow> (Inr (), c)
      | (Inl _, c) \<Rightarrow> try_st (collector_reconnect c) (\<lambda>_ c. collector_post_inner Q rt pl c))"

text \<open>One payload to every collector, in order; the first that fails ends it.\<close>

fun multi_post_for :: "otlp \<Rightarrow> record_type \<Rightarrow> bytes \<Rightarrow> collector_conn list \<Rightarrow> (io_error + unit) \<times> collector_conn list" where
  "multi_post_for Q rt pl [] = (Inr (), [])"
| "multi_post_for Q rt pl (c # cs) =
     (case collector_post_for Q rt pl c of
        (Inl e, c) \<Rightarrow> (Inl e, c # cs)
      | (Inr _, c) \<Rightarrow> apsnd (Cons c) (multi_post_for Q rt pl cs))"

record network =
  nw_http :: "collector_endpoint \<Rightarrow> (io_error + (io_error + dev \<times> socket) list) list"
  nw_grpc :: "collector_endpoint \<Rightarrow> (io_error + (string + unit) list) list"
  nw_tls_config :: "io_error + unit"

definition collector_connect :: "network \<Rightarrow> collector_endpoint \<Rightarrow> io_error + collector_conn" where
  "collector_connect N e =
     (if ep_grpc e then
        (case next_dial (nw_grpc N e) of
           (Inl err, _) \<Rightarrow> Inl err
         | (Inr xs, ds) \<Rightarrow> Inr (GrpcConn \<lparr>gc_exports = xs, gc_dials = ds\<rparr>))
      else
        (case next_dial (nw_http N e) of (addrs, ds) \<Rightarrow>
         case connect_with_timeout (ep_authority e) addrs of
           Inl err \<Rightarrow> Inl err
         | Inr (d, w) \<Rightarrow> Inr (HttpConn \<lparr>hc_endpoint = e, hc_in = d, hc_out = w, hc_dials = ds\<rparr>)))"

primrec multi_connect :: "network \<Rightarrow> collector_endpoint list \<Rightarrow> io_error + collector_conn list" where
  "multi_connect N [] = Inr []"
| "multi_connect N (e # es) =
     and_then (if ep_tls e \<and> \<not> ep_grpc e then nw_tls_config N else Inr ()) (\<lambda>_.
     and_then (collector_connect N e) (\<lambda>c.
     and_then (multi_connect N es) (\<lambda>cs. Inr (c # cs))))"

section \<open>A response is consumed exactly\<close>

definition ends_headers :: "bytes \<Rightarrow> bool" where
  "ends_headers h \<longleftrightarrow> length h \<ge> 4 \<and> drop (length h - 4) h = CRLF2"

definition header_block :: "bytes \<Rightarrow> bool" where
  "header_block h \<longleftrightarrow> ends_headers h \<and> (\<forall>k<length h. \<not> ends_headers (take k h)) \<and> length h \<le> 16385"

lemma read_byte_at: "no_faults d \<Longrightarrow> pos d < length (data d) \<Longrightarrow> read_byte d = (Inr (Some (data d ! pos d)), d\<lparr>pos := pos d + 1\<rparr>)"
  by (simp add: read_byte_def no_faults_def)

lemma read_headers_block:
  assumes "header_block h" and "n < length h" and "no_faults d" and "data d = pre @ h @ post" and "pos d = length pre + n"
  shows "read_headers (take n h) d = (Inr h, d\<lparr>pos := length pre + length h\<rparr>)"
  using assms(2-)
proof (induction "length h - n" arbitrary: n d)
  case (Suc k)
  let ?d = "d\<lparr>pos := length pre + (n + 1)\<rparr>"
  have "data d ! pos d = h ! n" using Suc.prems by (simp add: nth_append)
  then have rb: "read_byte d = (Inr (Some (h ! n)), ?d)" using read_byte_at [of d] Suc.prems by simp
  have tk: "take n h @ [h ! n] = take (n + 1) h" using Suc.prems(1) by (simp add: take_Suc_conv_app_nth)
  show ?case
  proof (cases "n + 1 = length h")
    case True
    then have "take (n + 1) h = h" by simp
    then show ?thesis using rb tk assms(1) True
      by (subst read_headers.simps) (simp add: header_block_def ends_headers_def)
  next
    case False
    then have n: "n + 1 < length h" using Suc.prems(1) by simp
    have c: "\<not> (length (take (n + 1) h) \<ge> 4 \<and> drop (length (take (n + 1) h) - 4) (take (n + 1) h) = CRLF2)"
        "\<not> length (take (n + 1) h) > 16384"
      using assms(1) n unfolding header_block_def ends_headers_def by auto
    have "read_headers (take n h) d = read_headers (take (n + 1) h) ?d"
      by (subst read_headers.simps) (simp only: rb prod.case sum.case option.case Let_def tk c if_False)
    moreover have "read_headers (take (n + 1) h) ?d = (Inr h, ?d\<lparr>pos := length pre + length h\<rparr>)"
      using Suc.hyps(1) [of "n + 1" ?d] Suc.hyps(2) n Suc.prems by (simp add: no_faults_def)
    ultimately show ?thesis by simp
  qed
qed simp

lemma read_some_ok:
  assumes "no_faults d"
  shows "read_some n d = (Inr (min n (length (data d) - pos d)), d\<lparr>pos := pos d + min n (length (data d) - pos d)\<rparr>)"
proof -
  have "takeWhile (\<lambda>i. True) xs = xs" for xs :: "nat list" by simp
  then show ?thesis using assms by (cases d) (auto simp: read_some_def no_faults_def Let_def simp del: takeWhile_eq_all_conv)
qed

lemma discard_body_ok:
  "no_faults d \<Longrightarrow> pos d + n \<le> length (data d) \<Longrightarrow> discard_body n d = (Inr (), d\<lparr>pos := pos d + n\<rparr>)"
proof (induction n d rule: discard_body.induct)
  case (1 n d)
  show ?case
  proof (cases "n = 0")
    case False
    let ?k = "min 4096 n" let ?d = "d\<lparr>pos := pos d + ?k\<rparr>"
    have k: "min ?k (length (data d) - pos d) = ?k" using 1(3) by simp
    have rs: "read_some ?k d = (Inr ?k, ?d)" using read_some_ok [OF 1(2), of ?k] k by simp
    have k0: "?k \<noteq> 0" using False by (simp add: min_def)
    have "discard_body n d = discard_body (n - ?k) ?d"
      by (subst discard_body.simps) (simp only: False rs prod.case sum.case k0 if_False)
    also have "\<dots> = (Inr (), ?d\<lparr>pos := pos ?d + (n - ?k)\<rparr>)"
      using 1(1) [OF False rs [symmetric] refl k0] 1(2,3) by (simp add: no_faults_def)
    finally show ?thesis by simp
  qed (simp add: discard_body.simps)
qed

text \<open>The text of a response head: lines of visible ASCII text, each ended by carriage return and newline, and an empty
  line.\<close>

definition plain_line :: "string \<Rightarrow> bool" where
  "plain_line l \<longleftrightarrow> l \<noteq> [] \<and> (\<forall>c\<in>set l. of_char c < (128 :: nat) \<and> c \<noteq> CHR 0x0D \<and> c \<noteq> CHR 0x0A)"

definition head_text :: "string list \<Rightarrow> string" where
  "head_text ls = concat (map (\<lambda>l. l @ [CHR 0x0D, CHR 0x0A]) ls) @ [CHR 0x0D, CHR 0x0A]"

definition names_length :: "string \<Rightarrow> bool" where
  "names_length l \<longleftrightarrow> is_prefix ''Content-Length:'' l \<or> is_prefix ''content-length:'' l"

text \<open>The header lines announce a body of \<open>n\<close> bytes: the first line with one of the two spellings has the
  decimal number \<open>n\<close> as its value, with white space around it.\<close>

definition announces :: "string list \<Rightarrow> nat \<Rightarrow> bool" where
  "announces ls n \<longleftrightarrow>
     (\<exists>before name u v more_lines. ls = before @ (name @ u @ show_nat n @ v) # more_lines \<and>
        list_all (\<lambda>l. \<not> names_length l) before \<and> name \<in> {''Content-Length:'', ''content-length:''} \<and>
        list_all is_ws u \<and> list_all is_ws v)"

lemma lines_from_line:
  "CHR 0x0A \<notin> set s \<Longrightarrow> lines_from acc (s @ CHR 0x0A # rest) = strip_cr (acc @ s) # lines_from [] rest"
  by (induction s arbitrary: acc) auto

lemma lines_head_text: "list_all plain_line ls \<Longrightarrow> lines (head_text ls) = ls @ [[] ]"
  unfolding lines_def
proof (induction ls)
  case Nil
  show ?case by (simp add: head_text_def strip_cr_def strip_suffix_def)
next
  case (Cons l ls)
  have "lines_from [] ((l @ [CHR 0x0D]) @ CHR 0x0A # head_text ls) = strip_cr (l @ [CHR 0x0D]) # lines_from [] (head_text ls)"
    using lines_from_line [of "l @ [CHR 0x0D]" "[]" "head_text ls"] Cons.prems by (auto simp: plain_line_def)
  moreover have "strip_cr (l @ [CHR 0x0D]) = l" by (simp add: strip_cr_def strip_suffix_def)
  ultimately show ?case using Cons by (simp add: head_text_def)
qed

lemma head_text_ascii: "list_all plain_line ls \<Longrightarrow> \<forall>c\<in>set (head_text ls). of_char c < (128 :: nat)"
  by (auto simp: head_text_def plain_line_def list_all_iff)

lemma lossy_head_text:
  assumes "list_all plain_line ls"
  shows "lossy (to_text (head_text ls)) = head_text ls"
  using head_text_ascii [OF assms] by (simp add: lossy_def to_text_ascii(2) lossy_of_valid ascii_is_valid)

lemma head_text_end_unique:
  assumes "list_all plain_line ls" and "head_text ls = p @ [CHR 0x0D, CHR 0x0A, CHR 0x0D, CHR 0x0A] @ q"
  shows "q = []"
  using assms
proof (induction ls arbitrary: p)
  case Nil
  from arg_cong [OF Nil(2), of length] show ?case by (simp add: head_text_def)
next
  case (Cons l ls)
  let ?n = "length l" and ?T = "head_text ls"
  have eq: "l @ [CHR 0x0D, CHR 0x0A] @ ?T = p @ [CHR 0x0D, CHR 0x0A, CHR 0x0D, CHR 0x0A] @ q"
    using Cons.prems(2) by (simp add: head_text_def)
  have at: "(l @ [CHR 0x0D, CHR 0x0A] @ ?T) ! length p = CHR 0x0D" unfolding eq by simp
  consider "length p < ?n" | "length p = ?n" | "length p = Suc ?n" | "?n + 2 \<le> length p" by linarith
  then show ?case
  proof cases
    case 1
    then have "l ! length p = CHR 0x0D" using at by (simp add: nth_append)
    then show ?thesis using 1 Cons.prems(1) by (auto simp: plain_line_def dest: nth_mem)
  next
    case 2
    then have t: "?T = [CHR 0x0D, CHR 0x0A] @ q" using eq by simp
    show ?thesis
    proof (cases ls)
      case (Cons l' ls')
      then have "hd ?T = hd l'" "plain_line l'" using Cons.prems(1) by (auto simp: head_text_def plain_line_def)
      then show ?thesis using t by (auto simp: plain_line_def dest: hd_in_set)
    qed (use t in \<open>simp add: head_text_def\<close>)
  next
    case 3
    then show ?thesis using at by (simp add: nth_append)
  next
    case 4
    have "drop (?n + 2) (l @ [CHR 0x0D, CHR 0x0A] @ ?T) = ?T" by simp
    then have "?T = drop (?n + 2) p @ [CHR 0x0D, CHR 0x0A, CHR 0x0D, CHR 0x0A] @ q"
      unfolding eq using 4 by simp
    then show ?thesis using Cons.IH Cons.prems(1) by simp
  qed
qed

lemma header_block_head_text:
  assumes "list_all plain_line ls" and "ls \<noteq> []" and "length (head_text ls) \<le> 16385"
  shows "header_block (to_text (head_text ls))"
proof -
  let ?h = "to_text (head_text ls)"
  have len: "length ?h = length (head_text ls)" by (simp add: to_text_def)
  obtain ys l where "ls = ys @ [l]" using assms(2) by (metis rev_exhaust)
  then have "?h = to_text (concat (map (\<lambda>l. l @ [CHR 0x0D, CHR 0x0A]) ys) @ l) @ CRLF2"
    by (simp add: head_text_def to_text_def CRLF2_def)
  then have "ends_headers ?h" by (simp add: ends_headers_def CRLF2_def)
  moreover have False if k: "k < length ?h" "ends_headers (take k ?h)" for k
  proof -
    have "take k ?h = take (k - 4) (take k ?h) @ CRLF2"
      using k by (metis append_take_drop_id ends_headers_def length_take min.strict_order_iff min.commute)
    then have "?h = take (k - 4) (take k ?h) @ CRLF2 @ drop k ?h" by (metis append_assoc append_take_drop_id)
    then have "of_text ?h = of_text (take (k - 4) (take k ?h)) @ of_text CRLF2 @ of_text (drop k ?h)"
      by (metis of_text_def map_append)
    moreover have "of_text ?h = head_text ls" using head_text_ascii [OF assms(1)] by (rule to_text_ascii(2))
    moreover have "of_text CRLF2 = [CHR 0x0D, CHR 0x0A, CHR 0x0D, CHR 0x0A]" by code_simp
    ultimately have "of_text (drop k ?h) = []"
      using head_text_end_unique [OF assms(1), of "of_text (take (k - 4) (take k ?h))" "of_text (drop k ?h)"] by simp
    then show False using k(1) by (simp add: of_text_def)
  qed
  ultimately show ?thesis unfolding header_block_def using assms(3) len by auto
qed

lemma content_length_unnamed: "\<forall>l\<in>set ls. \<not> names_length l \<Longrightarrow> content_length_in (ls @ ms) = content_length_in ms"
  by (induction ls) (auto simp: names_length_def is_prefix_def split: option.splits)

lemma trim_around:
  assumes "s \<noteq> []" and "\<not> is_ws (hd s)" and "\<not> is_ws (last s)" and "list_all is_ws u" and "list_all is_ws v"
  shows "trim (u @ s @ v) = s"
proof -
  have "trim_start (u @ s @ v) = s @ v"
    using assms(1,2,4) by (cases s) (auto simp: trim_start_def list_all_iff dropWhile_append)
  then have "trim (u @ s @ v) = trim (s @ v)"
    using assms(1,2) by (cases s) (auto simp: trim_def trim_start_def)
  then show ?thesis using trim_append_ws [OF assms(1-3)] assms(5) by (simp add: list_all_iff)
qed

lemma content_length_announced:
  assumes "announces ls n" and "n < usize_bound"
  shows "content_length_in (ls @ ms) = n"
proof -
  from assms(1) obtain before name u v more_lines where a: "ls = before @ (name @ u @ show_nat n @ v) # more_lines"
      "\<forall>l\<in>set before. \<not> names_length l" "name \<in> {''Content-Length:'', ''content-length:''}" "list_all is_ws u" "list_all is_ws v"
    unfolding announces_def list_all_iff [of _ "_ :: string list"] by blast
  let ?v = "u @ show_nat n @ v"
  have "parse_usize (trim ?v) = Inr n"
    using trim_around [OF show_nat_ends(3,1,2) a(4,5)] assms(2) by (simp add: parse_usize_def parse_nat_below_show_nat)
  moreover have "(case strip_prefix ''Content-Length:'' (name @ ?v) of Some v \<Rightarrow> Some v | None \<Rightarrow> strip_prefix ''content-length:'' (name @ ?v))
      = Some ?v"
    using a(3) by auto
  ultimately have "content_length_in ((name @ ?v) # more_lines @ ms) = n" by simp
  then show ?thesis using content_length_unnamed [OF a(2)] a(1) by simp
qed

text \<open>C27. A 200 response whose header lines announce the length of its body, in one of the spellings
  \<^verbatim>\<open>Content-Length:\<close> and \<^verbatim>\<open>content-length:\<close>, is accepted and consumed exactly: the connection
  stands at the first byte after the body. When no header line has one of these two spellings, the response is accepted
  too, but of its body nothing is consumed, however it is announced. The comment at \<^verbatim>\<open>read_http_response\<close>
  promises the first for every response.\<close>

theorem http_response_is_consumed_exactly:
  assumes "is_prefix ''HTTP/1.1 200'' st \<or> is_prefix ''HTTP/1.0 200'' st" and "list_all plain_line (st # ls)"
    and "h = to_text (head_text (st # ls))" and "length h \<le> 16385"
    and "no_faults d" and "data d = pre @ h @ body @ post" and "pos d = length pre"
  shows "(announces ls (length body) \<and> length body < usize_bound \<longrightarrow>
      read_http_response d = (Inr (), d\<lparr>pos := length pre + length h + length body\<rparr>)) \<and>
    (list_all (\<lambda>l. \<not> names_length l) ls \<longrightarrow> read_http_response d = (Inr (), d\<lparr>pos := length pre + length h\<rparr>))"
proof -
  let ?d = "d\<lparr>pos := length pre + length h\<rparr>"
  have hb: "header_block h" unfolding assms(3) by (rule header_block_head_text [OF assms(2)])
      (use assms(3,4) in \<open>simp_all add: to_text_def\<close>)
  then have "0 < length h" by (auto simp: header_block_def ends_headers_def)
  from read_headers_block [OF hb this assms(5,6)] assms(7) have r: "read_headers [] d = (Inr h, ?d)" by simp
  have ln: "lines (lossy h) = (st # ls) @ [[] ]" unfolding assms(3) lossy_head_text [OF assms(2)] by (rule lines_head_text [OF assms(2)])
  have st: "\<not> names_length st" using assms(1) by (cases st) (auto simp: names_length_def is_prefix_def split: if_splits)
  have len: "parse_content_length (lossy h) = content_length_in (ls @ [[] ])"
    using content_length_unnamed [of "[st]" "ls @ [[] ]"] st by (simp add: parse_content_length_def ln)
  have run: "read_http_response d = discard_body (content_length_in (ls @ [[] ])) ?d"
    using r assms(1) len by (auto simp: read_http_response_def ln Let_def discard_body.simps)
  have "discard_body (length body) ?d = (Inr (), d\<lparr>pos := length pre + length h + length body\<rparr>)"
    using discard_body_ok [of ?d "length body"] assms(5,6) by (simp add: no_faults_def)
  moreover have "discard_body 0 ?d = (Inr (), ?d)" by (simp add: discard_body.simps)
  ultimately show ?thesis
    using run content_length_announced [of ls "length body" "[[] ]"] content_length_unnamed [of ls "[[] ]"]
    by (auto simp: list_all_iff)
qed

definition ok_head :: "string \<Rightarrow> bytes" where
  "ok_head l = to_text (head_text [''HTTP/1.1 200 OK'', l])"

text \<open>The body of the second response, whose header name is spelled differently, stays in the connection.\<close>

theorem http_response_is_consumed_exactly_witness:
  "read_http_response (dev_of (ok_head ''Content-Length: 2'' @ [7, 7] @ [9])) =
     (Inr (), (dev_of (ok_head ''Content-Length: 2'' @ [7, 7] @ [9]))\<lparr>pos := length (ok_head ''Content-Length: 2'') + 2\<rparr>) \<and>
   read_http_response (dev_of (ok_head ''Content-length: 2'' @ [7, 7])) =
     (Inr (), (dev_of (ok_head ''Content-length: 2'' @ [7, 7]))\<lparr>pos := length (ok_head ''Content-length: 2'')\<rparr>)"
proof -
  have p: "is_prefix ''HTTP/1.1 200'' ''HTTP/1.1 200 OK''" by (simp add: is_prefix_def)
  have l: "list_all plain_line [''HTTP/1.1 200 OK'', ''Content-Length: 2'']" "list_all plain_line [''HTTP/1.1 200 OK'', ''Content-length: 2'']"
    by (simp_all add: plain_line_def)
  have n: "length (ok_head ''Content-Length: 2'') \<le> 16385" "length (ok_head ''Content-length: 2'') \<le> 16385"
    by (simp_all add: ok_head_def head_text_def to_text_def)
  have "show_nat 2 = ''2''" by code_simp
  then have a: "announces [''Content-Length: 2''] 2"
    unfolding announces_def
    by (intro exI [of _ "[]"] exI [of _ "''Content-Length:''"] exI [of _ "'' ''"] exI [of _ "[] :: string"] exI [of _ "[] :: string list"])
      (simp add: is_ws_def)
  have b: "2 < usize_bound" by (simp add: usize_bound_def)
  have u: "list_all (\<lambda>l. \<not> names_length l) [''Content-length: 2'']" by (simp add: names_length_def is_prefix_def)
  show ?thesis
    using http_response_is_consumed_exactly [OF disjI1 [OF p] l(1) ok_head_def n(1), of "dev_of (ok_head ''Content-Length: 2'' @ [7, 7] @ [9])" "[]" "[7, 7]" "[9]"]
      http_response_is_consumed_exactly [OF disjI1 [OF p] l(2) ok_head_def n(2), of "dev_of (ok_head ''Content-length: 2'' @ [7, 7])" "[]" "[7, 7]" "[]"] a b u
    by (simp add: dev_of_def no_faults_def numeral_2_eq_2)
qed

end
