(* ===== verification/Lj_Batcher.thy ===== *)
theory Lj_Batcher
  imports Lj_Collector "HOL-Library.Multiset" "HOL-Library.Countable"
begin

text \<open>
  \<^verbatim>\<open>OtlpBatcher\<close> of \<^verbatim>\<open>logjetd/src/replay.rs\<close>: logs of several requests merged by resource and
  scope until there are enough of them, and the replay of a directory of segments through it. The connection is a type parameter and \<open>post\<close> its \<^verbatim>\<open>post_for\<close>;
  readings of the clock are arguments, in milliseconds.
\<close>

section \<open>State and operations\<close>

type_synonym 'c post = "record_type \<Rightarrow> bytes \<Rightarrow> 'c \<Rightarrow> (io_error + unit) \<times> 'c"

record otlp_batcher =
  ob_batch_size :: nat
  ob_batch_timeout :: nat
  ob_pending :: logs_request
  ob_pending_count :: nat
  ob_first_added :: "nat option"

definition batcher_new :: "nat \<Rightarrow> nat \<Rightarrow> otlp_batcher" where
  "batcher_new batch_size batch_timeout_ms =
     \<lparr>ob_batch_size = batch_size, ob_batch_timeout = batch_timeout_ms, ob_pending = [], ob_pending_count = 0,
      ob_first_added = None\<rparr>"

text \<open>\<^verbatim>\<open>iter_mut().find\<close> and a change of what it finds.\<close>

fun update_first :: "('a \<Rightarrow> bool) \<Rightarrow> ('a \<Rightarrow> 'a) \<Rightarrow> 'a list \<Rightarrow> 'a list option" where
  "update_first P f [] = None"
| "update_first P f (x # xs) = (if P x then Some (f x # xs) else map_option (Cons x) (update_first P f xs))"

definition merge_scope :: "scope_logs \<Rightarrow> resource_logs \<Rightarrow> resource_logs" where
  "merge_scope incoming rl =
     (case update_first (\<lambda>sl. sl_scope sl = sl_scope incoming)
             (\<lambda>sl. sl\<lparr>sl_log_records := sl_log_records sl @ sl_log_records incoming\<rparr>) (rl_scope_logs rl) of
        Some sls \<Rightarrow> rl\<lparr>rl_scope_logs := sls\<rparr>
      | None \<Rightarrow> rl\<lparr>rl_scope_logs := rl_scope_logs rl @ [incoming]\<rparr>)"

definition merge_resource :: "resource_logs \<Rightarrow> logs_request \<times> nat \<Rightarrow> logs_request \<times> nat" where
  "merge_resource incoming p =
     (let (pending, count) = p;
          count = count + sum_list (map (\<lambda>sl. length (sl_log_records sl)) (rl_scope_logs incoming)) in
      case update_first (\<lambda>rl. rl_resource rl = rl_resource incoming) (\<lambda>rl. fold merge_scope (rl_scope_logs incoming) rl) pending of
        Some rls \<Rightarrow> (rls, count)
      | None \<Rightarrow> (pending @ [incoming], count))"

definition batcher_merge :: "nat \<Rightarrow> logs_request \<Rightarrow> otlp_batcher \<Rightarrow> otlp_batcher" where
  "batcher_merge now req b =
     (let (pending, count) = fold merge_resource req (ob_pending b, ob_pending_count b) in
      b\<lparr>ob_first_added := (case ob_first_added b of None \<Rightarrow> Some now | Some t \<Rightarrow> Some t),
        ob_pending := pending, ob_pending_count := count\<rparr>)"

definition batcher_flush :: "otlp \<Rightarrow> 'c post \<Rightarrow> otlp_batcher \<Rightarrow> 'c \<Rightarrow> (io_error + unit) \<times> otlp_batcher \<times> 'c" where
  "batcher_flush Q post b c =
     (if ob_pending_count b = 0 then (Inr (), b, c)
      else
        case post Logs (logs_encode Q (ob_pending b)) c of
          (r, c) \<Rightarrow> (r, b\<lparr>ob_pending := [], ob_pending_count := 0, ob_first_added := None\<rparr>, c))"

definition batcher_add :: "otlp \<Rightarrow> 'c post \<Rightarrow> nat \<Rightarrow> bytes \<Rightarrow> otlp_batcher \<Rightarrow> 'c \<Rightarrow> (io_error + unit) \<times> otlp_batcher \<times> 'c" where
  "batcher_add Q post now pl b c =
     (if ob_batch_size b \<le> 1 then (case post Logs pl c of (r, c) \<Rightarrow> (r, b, c))
      else
        case logs_decode Q pl of
          Inl _ \<Rightarrow> (case post Logs pl c of (r, c) \<Rightarrow> (r, b, c))
        | Inr req \<Rightarrow>
            let b = batcher_merge now req b in
            if ob_pending_count b \<ge> ob_batch_size b then batcher_flush Q post b c else (Inr (), b, c))"

definition flush_if_expired :: "otlp \<Rightarrow> 'c post \<Rightarrow> nat \<Rightarrow> otlp_batcher \<Rightarrow> 'c \<Rightarrow> (io_error + unit) \<times> otlp_batcher \<times> 'c" where
  "flush_if_expired Q post now b c =
     (if ob_pending_count b > 0 \<and> ob_batch_timeout b > 0
         \<and> (case ob_first_added b of Some t \<Rightarrow> now - t \<ge> ob_batch_timeout b | None \<Rightarrow> False)
      then batcher_flush Q post b c else (Inr (), b, c))"

section \<open>Merging keeps every log record\<close>

text \<open>The log records of a batch, each with the resource and the scope it belongs to.\<close>

definition scope_entries :: "opaque option \<Rightarrow> scope_logs \<Rightarrow> (opaque option \<times> opaque option \<times> log_record) list" where
  "scope_entries r sl = map (\<lambda>x. (r, sl_scope sl, x)) (sl_log_records sl)"

definition resource_entries :: "resource_logs \<Rightarrow> (opaque option \<times> opaque option \<times> log_record) list" where
  "resource_entries rl = concat (map (scope_entries (rl_resource rl)) (rl_scope_logs rl))"

definition entries :: "logs_request \<Rightarrow> (opaque option \<times> opaque option \<times> log_record) list" where
  "entries req = concat (map resource_entries req)"

lemma update_first_Some:
  "update_first P f xs = Some ys \<Longrightarrow> \<exists>as x bs. xs = as @ x # bs \<and> P x \<and> ys = as @ f x # bs"
proof (induction xs arbitrary: ys)
  case (Cons a xs)
  show ?case
  proof (cases "P a")
    case True
    then have "ys = [] @ f a # xs" "a # xs = [] @ a # xs" using Cons.prems by simp_all
    with True show ?thesis by blast
  next
    case False
    then obtain zs where zs: "update_first P f xs = Some zs" "ys = a # zs" using Cons.prems by auto
    from Cons.IH [OF zs(1)] obtain as x bs where "xs = as @ x # bs" "P x" "zs = as @ f x # bs" by blast
    with zs(2) have "a # xs = (a # as) @ x # bs" "P x" "ys = (a # as) @ f x # bs" by simp_all
    then show ?thesis by blast
  qed
qed simp

lemma merge_scope_entries:
  "rl_resource (merge_scope sl rl) = rl_resource rl"
  "mset (resource_entries (merge_scope sl rl)) = mset (resource_entries rl) + mset (scope_entries (rl_resource rl) sl)"
proof -
  let ?f = "\<lambda>x. x\<lparr>sl_log_records := sl_log_records x @ sl_log_records sl\<rparr>"
  show "rl_resource (merge_scope sl rl) = rl_resource rl" by (simp add: merge_scope_def split: option.splits)
  show "mset (resource_entries (merge_scope sl rl)) = mset (resource_entries rl) + mset (scope_entries (rl_resource rl) sl)"
  proof (cases "update_first (\<lambda>x. sl_scope x = sl_scope sl) ?f (rl_scope_logs rl)")
    case None
    then show ?thesis by (simp add: merge_scope_def resource_entries_def)
  next
    case (Some sls)
    from update_first_Some [OF this] obtain as x bs where
      x: "rl_scope_logs rl = as @ x # bs" "sl_scope x = sl_scope sl" "sls = as @ ?f x # bs" by blast
    have "scope_entries r (?f x) = scope_entries r x @ scope_entries r sl" for r
      using x(2) by (simp add: scope_entries_def)
    then show ?thesis using Some x(1,3) by (simp add: merge_scope_def resource_entries_def)
  qed
qed

lemma merge_scopes_entries:
  "rl_resource (fold merge_scope sls rl) = rl_resource rl \<and>
   mset (resource_entries (fold merge_scope sls rl)) = mset (resource_entries rl) + mset (concat (map (scope_entries (rl_resource rl)) sls))"
  by (induction sls arbitrary: rl) (simp_all add: merge_scope_entries)

lemma length_resource_entries:
  "length (resource_entries rl) = sum_list (map (\<lambda>sl. length (sl_log_records sl)) (rl_scope_logs rl))"
  by (simp add: resource_entries_def length_concat scope_entries_def comp_def)

lemma merge_resource_entries:
  assumes "merge_resource rl (ps, n) = (ps1, m)"
  shows "mset (entries ps1) = mset (entries ps) + mset (resource_entries rl) \<and> m = n + length (resource_entries rl)"
proof (cases "update_first (\<lambda>x. rl_resource x = rl_resource rl) (\<lambda>x. fold merge_scope (rl_scope_logs rl) x) ps")
  case None
  then show ?thesis using assms by (auto simp: merge_resource_def entries_def length_resource_entries)
next
  case (Some rls)
  from update_first_Some [OF this] obtain as x bs where
    x: "ps = as @ x # bs" "rl_resource x = rl_resource rl" "rls = as @ fold merge_scope (rl_scope_logs rl) x # bs" by blast
  have "mset (concat (map (scope_entries (rl_resource x)) (rl_scope_logs rl))) = mset (resource_entries rl)"
    unfolding x(2) resource_entries_def by simp
  then show ?thesis using assms Some x(1,3) merge_scopes_entries [of "rl_scope_logs rl" x]
    by (auto simp: merge_resource_def entries_def length_resource_entries)
qed

lemma merge_resources_entries:
  "fold merge_resource req (ps, n) = (ps1, m) \<Longrightarrow>
   mset (entries ps1) = mset (entries ps) + mset (entries req) \<and> m = n + length (entries req)"
proof (induction req arbitrary: ps n)
  case Nil
  then show ?case by (simp add: entries_def)
next
  case (Cons rl req)
  obtain p c where pc: "merge_resource rl (ps, n) = (p, c)" by (metis surj_pair)
  have "entries (rl # req) = resource_entries rl @ entries req" by (simp add: entries_def)
  then show ?case using Cons.IH [of p c] Cons.prems pc merge_resource_entries [OF pc] by simp
qed

section \<open>Replaying a directory to a collector\<close>

record 'c export_run =
  er_batcher :: otlp_batcher
  er_conn :: 'c
  er_sent :: u64

definition on_batcher ::
    "(otlp_batcher \<Rightarrow> 'c \<Rightarrow> (io_error + unit) \<times> otlp_batcher \<times> 'c) \<Rightarrow> 'c export_run \<Rightarrow> (io_error + unit) \<times> 'c export_run" where
  "on_batcher f s = (case f (er_batcher s) (er_conn s) of (r, b, c) \<Rightarrow> (r, s\<lparr>er_batcher := b, er_conn := c\<rparr>))"

definition replay_record :: "otlp \<Rightarrow> 'c post \<Rightarrow> nat \<Rightarrow> owned_record \<Rightarrow> 'c export_run \<Rightarrow> (io_error + unit) \<times> 'c export_run" where
  "replay_record Q post now x s =
     try_st
       (if record_type x = Logs then on_batcher (batcher_add Q post now (payload x)) s
        else (case post (record_type x) (payload x) (er_conn s) of (r, c) \<Rightarrow> (r, s\<lparr>er_conn := c\<rparr>)))
       (\<lambda>_ s. (Inr (), s\<lparr>er_sent := saturating_add (er_sent s) 1\<rparr>))"

function replay_reader ::
    "extern \<Rightarrow> otlp \<Rightarrow> 'c post \<Rightarrow> (u64 \<Rightarrow> nat) \<Rightarrow> reader \<Rightarrow> 'c export_run \<Rightarrow> (io_error + unit) \<times> 'c export_run" where
  "replay_reader X Q post clock r s =
     (case next_record X r of
        (Inl e, _) \<Rightarrow> (Inl (to_io_error e), s)
      | (Inr None, _) \<Rightarrow> (Inr (), s)
      | (Inr (Some x), r) \<Rightarrow> try_st (replay_record Q post (clock (er_sent s)) x s) (\<lambda>_ s. replay_reader X Q post clock r s))"
  by pat_completeness auto
termination
proof (relation "measures [\<lambda>(X, Q, p, k, r, s). length (data (r_inner r)) - pos (r_inner r), \<lambda>(X, Q, p, k, r, s). length (pending r)]",
    goal_cases)
  case (2 X Q p k r s res r' b x u s')
  from 2 next_record_progress [of X r res r'] show ?case by (auto simp: same_file_def)
qed simp

declare replay_reader.simps [simp del]

primrec replay_segments ::
    "extern \<Rightarrow> otlp \<Rightarrow> 'c post \<Rightarrow> (u64 \<Rightarrow> nat) \<Rightarrow> dir \<Rightarrow> segment_info list \<Rightarrow> 'c export_run \<Rightarrow> (io_error + unit) \<times> 'c export_run" where
  "replay_segments X Q post clock d [] s = (Inr (), s)"
| "replay_segments X Q post clock d (seg # segs) s =
     try_r (open_segment d (si_path seg)) s (\<lambda>r.
     try_st (replay_reader X Q post clock r s) (\<lambda>_ s. replay_segments X Q post clock d segs s))"

text \<open>The argument \<open>conn\<close> is the connection that parsing the endpoints and \<open>multi_connect\<close> have opened; a failure of
  these ends the function before anything is sent.\<close>

definition replay_path_to_otlp_http ::
    "extern \<Rightarrow> otlp \<Rightarrow> 'c post \<Rightarrow> (u64 \<Rightarrow> nat) \<Rightarrow> dir \<Rightarrow> string \<Rightarrow> nat \<Rightarrow> nat \<Rightarrow> 'c \<Rightarrow> (io_error + u64) \<times> 'c export_run" where
  "replay_path_to_otlp_http X Q post clock d name batch_size batch_timeout_ms conn =
     try_st (replay_segments X Q post clock d (list_named_segments d name)
        \<lparr>er_batcher = batcher_new batch_size batch_timeout_ms, er_conn = conn, er_sent = 0\<rparr>) (\<lambda>_ s.
     try_st (on_batcher (batcher_flush Q post) s) (\<lambda>_ s. (Inr (er_sent s), s)))"

definition validate_replay_path :: "dir \<Rightarrow> string \<Rightarrow> string list" where
  "validate_replay_path d name = map si_path (list_named_segments d name)"

section \<open>What a collector is sent\<close>

type_synonym item = "(opaque option \<times> opaque option \<times> log_record) + (record_type \<times> bytes)"

definition items :: "otlp \<Rightarrow> record_type \<times> bytes \<Rightarrow> item list" where
  "items Q p =
     (case p of (rt, pl) \<Rightarrow>
        if rt = Logs then (case logs_decode Q pl of Inr req \<Rightarrow> map Inl (entries req) | Inl _ \<Rightarrow> [Inr (rt, pl)])
        else [Inr (rt, pl)])"

definition all_items :: "otlp \<Rightarrow> (record_type \<times> bytes) list \<Rightarrow> item multiset" where
  "all_items Q ps = mset (concat (map (items Q) ps))"

definition accept_all :: "(record_type \<times> bytes) list post" where
  "accept_all rt pl c = (Inr (), c @ [(rt, pl)])"

text \<open>What \<^verbatim>\<open>prost\<close> promises: decoding reads what encoding wrote.\<close>

definition logs_codec_ok :: "otlp \<Rightarrow> bool" where
  "logs_codec_ok Q \<longleftrightarrow> (\<forall>req. logs_decode Q (logs_encode Q req) = Inr req)"

definition run_items :: "otlp \<Rightarrow> (record_type \<times> bytes) list export_run \<Rightarrow> item multiset" where
  "run_items Q s = all_items Q (er_conn s) + mset (map Inl (entries (ob_pending (er_batcher s))))"

definition run_ok :: "(record_type \<times> bytes) list export_run \<Rightarrow> bool" where
  "run_ok s \<longleftrightarrow> ob_pending_count (er_batcher s) = length (entries (ob_pending (er_batcher s)))"

lemma all_items_simps [simp]:
  "all_items Q [] = {#}" "all_items Q (ps @ qs) = all_items Q ps + all_items Q qs" "all_items Q [p] = mset (items Q p)"
  by (simp_all add: all_items_def)

lemma flush_items:
  assumes "logs_codec_ok Q" and "run_ok s"
  shows "\<exists>s'. on_batcher (batcher_flush Q accept_all) s = (Inr (), s') \<and> run_ok s' \<and> run_items Q s' = run_items Q s \<and>
    entries (ob_pending (er_batcher s')) = [] \<and> er_sent s' = er_sent s"
proof (cases "ob_pending_count (er_batcher s) = 0")
  case True
  then show ?thesis using assms(2) by (cases s) (auto simp: on_batcher_def batcher_flush_def run_ok_def)
next
  case False
  have "items Q (Logs, logs_encode Q req) = map Inl (entries req)" for req
    using assms(1) by (simp add: items_def logs_codec_ok_def)
  then show ?thesis using False
    by (simp add: on_batcher_def batcher_flush_def accept_all_def run_ok_def run_items_def entries_def)
qed

lemma merge_items:
  assumes "run_ok s"
  shows "run_ok (s\<lparr>er_batcher := batcher_merge now req (er_batcher s)\<rparr>) \<and>
    run_items Q (s\<lparr>er_batcher := batcher_merge now req (er_batcher s)\<rparr>) = run_items Q s + mset (map Inl (entries req))"
proof -
  obtain ps n where f: "fold merge_resource req (ob_pending (er_batcher s), ob_pending_count (er_batcher s)) = (ps, n)"
    by (metis surj_pair)
  note e = merge_resources_entries [OF f]
  have "length (entries ps) = size (mset (entries ps))" by simp
  also have "\<dots> = length (entries (ob_pending (er_batcher s))) + length (entries req)" using e by simp
  finally have "n = length (entries ps)" using e assms by (simp add: run_ok_def)
  then show ?thesis using e f assms by (simp add: batcher_merge_def run_ok_def run_items_def)
qed

lemma add_items:
  assumes "logs_codec_ok Q" and "run_ok s"
  shows "\<exists>s'. on_batcher (batcher_add Q accept_all now pl) s = (Inr (), s') \<and> run_ok s' \<and>
    run_items Q s' = run_items Q s + mset (items Q (Logs, pl)) \<and> er_sent s' = er_sent s"
proof (cases "ob_batch_size (er_batcher s) \<le> 1 \<or> (\<exists>e. logs_decode Q pl = Inl e)")
  case True
  then have "on_batcher (batcher_add Q accept_all now pl) s = (Inr (), s\<lparr>er_batcher := er_batcher s, er_conn := er_conn s @ [(Logs, pl)]\<rparr>)"
    by (elim disjE exE) (simp_all add: on_batcher_def batcher_add_def accept_all_def)
  then show ?thesis using assms(2) by (simp add: run_ok_def run_items_def)
next
  case False
  then obtain req where req: "logs_decode Q pl = Inr req" by (cases "logs_decode Q pl") auto
  let ?b = "batcher_merge now req (er_batcher s)" let ?s = "s\<lparr>er_batcher := ?b\<rparr>"
  note m = merge_items [OF assms(2), of now req Q]
  have it: "mset (items Q (Logs, pl)) = mset (map Inl (entries req))" using req by (simp add: items_def)
  show ?thesis
  proof (cases "ob_batch_size ?b \<le> ob_pending_count ?b")
    case True
    then have "on_batcher (batcher_add Q accept_all now pl) s = on_batcher (batcher_flush Q accept_all) ?s"
      using False req by (auto simp: on_batcher_def batcher_add_def Let_def split: prod.splits)
    then show ?thesis using flush_items [OF assms(1), of ?s] m it by auto
  next
    case nf: False
    then have "on_batcher (batcher_add Q accept_all now pl) s = (Inr (), ?s)"
      using False req by (cases s) (auto simp: on_batcher_def batcher_add_def Let_def)
    then show ?thesis using m it by auto
  qed
qed

lemma replay_record_items:
  assumes "logs_codec_ok Q" and "run_ok s"
  shows "\<exists>s'. replay_record Q accept_all now x s = (Inr (), s') \<and> run_ok s' \<and>
    run_items Q s' = run_items Q s + mset (items Q (record_type x, payload x)) \<and> er_sent s' = saturating_add (er_sent s) 1"
proof (cases "record_type x = Logs")
  case True
  from add_items [OF assms, of now "payload x"] obtain s' where
    "on_batcher (batcher_add Q accept_all now (payload x)) s = (Inr (), s')" "run_ok s'"
    "run_items Q s' = run_items Q s + mset (items Q (Logs, payload x))" "er_sent s' = er_sent s" by blast
  then show ?thesis using True
    by (intro exI [of _ "s'\<lparr>er_sent := saturating_add (er_sent s') 1\<rparr>"]) (simp add: replay_record_def run_ok_def run_items_def)
next
  case False
  then show ?thesis using assms(2)
    by (intro exI [of _ "s\<lparr>er_conn := er_conn s @ [(record_type x, payload x)], er_sent := saturating_add (er_sent s) 1\<rparr>"])
      (simp add: replay_record_def accept_all_def run_ok_def run_items_def)
qed

definition counted :: "u64 \<Rightarrow> 'a list \<Rightarrow> u64" where
  "counted n xs = fold (\<lambda>_ m. saturating_add m 1) xs n"

definition record_items :: "otlp \<Rightarrow> owned_record list \<Rightarrow> item multiset" where
  "record_items Q rs = all_items Q (map (\<lambda>r. (record_type r, payload r)) rs)"

lemma record_items_simps [simp]:
  "record_items Q [] = {#}" "record_items Q (r # rs) = mset (items Q (record_type r, payload r)) + record_items Q rs"
  "record_items Q (rs @ ts) = record_items Q rs + record_items Q ts"
  by (simp_all add: record_items_def all_items_def)

lemma counted_simps [simp]: "counted n [] = n" "counted n (x # xs) = counted (saturating_add n 1) xs" "counted n (xs @ ys) = counted (counted n xs) ys"
  by (simp_all add: counted_def)

lemma replay_reader_items:
  assumes "logs_codec_ok Q" and "read_records X r = (Inr rs, r')" and "run_ok s"
  shows "\<exists>s'. replay_reader X Q accept_all clock r s = (Inr (), s') \<and> run_ok s' \<and>
    run_items Q s' = run_items Q s + record_items Q rs \<and> er_sent s' = counted (er_sent s) rs"
  using assms(2,3)
proof (induction rs arbitrary: r s)
  case Nil
  then have "\<exists>r2. next_record X r = (Inr None, r2)"
    by (auto simp: read_records.simps [of X r] apfst_def map_prod_def map_sum_Inr split: prod.splits sum.splits option.splits)
  then show ?case using Nil(2) by (auto simp: replay_reader.simps [of X Q _ _ r])
next
  case (Cons x rs)
  then obtain r1 where r1: "next_record X r = (Inr (Some x), r1)" "read_records X r1 = (Inr rs, r')"
    by (auto simp: read_records.simps [of X r] apfst_def map_prod_def map_sum_Inr split: prod.splits sum.splits option.splits)
  from replay_record_items [OF assms(1) Cons.prems(2), of "clock (er_sent s)" x] obtain s1 where
    s1: "replay_record Q accept_all (clock (er_sent s)) x s = (Inr (), s1)" "run_ok s1"
      "run_items Q s1 = run_items Q s + mset (items Q (record_type x, payload x))" "er_sent s1 = saturating_add (er_sent s) 1" by blast
  from Cons.IH [OF r1(2) s1(2)] s1 r1(1) show ?case
    by (auto simp: replay_reader.simps [of X Q _ _ r] ac_simps)
qed

lemma replay_segments_items:
  assumes "logs_codec_ok Q" and "readable d segs" and "run_ok s"
  shows "\<exists>s'. replay_segments X Q accept_all clock d segs s = (Inr (), s') \<and> run_ok s' \<and>
    run_items Q s' = run_items Q s + record_items Q (concat (map (segment_contents X d) segs)) \<and>
    er_sent s' = counted (er_sent s) (concat (map (segment_contents X d) segs))"
  using assms(2,3)
proof (induction segs arbitrary: s)
  case (Cons seg segs)
  then obtain bs where bs: "fs_read d (si_path seg) = Some bs" "length bs < 2 ^ 32" by (auto simp: readable_def)
  let ?r = "reader_with_config (dev_of bs) reader_config_default"
  obtain r' where r': "read_records X ?r = (Inr (segment_contents X d seg), r')"
    using read_file_spec [OF default_first_unique bs(2), of X] bs(1) by (auto simp: segment_contents_def file_records_def)
  from replay_reader_items [OF assms(1) r' Cons.prems(2), of clock] obtain s1 where
    s1: "replay_reader X Q accept_all clock ?r s = (Inr (), s1)" "run_ok s1"
      "run_items Q s1 = run_items Q s + record_items Q (segment_contents X d seg)" "er_sent s1 = counted (er_sent s) (segment_contents X d seg)" by blast
  have "readable d segs" using Cons.prems(1) by (simp add: readable_def)
  from Cons.IH [OF this s1(2)] s1 bs(1) show ?case by (auto simp: open_segment_def ac_simps)
qed simp

lemma counted_length: "unat n + length xs < 2 ^ 64 \<Longrightarrow> unat (counted n xs) = unat n + length xs"
proof (induction xs arbitrary: n)
  case (Cons x xs)
  then have "unat (saturating_add n 1) = unat n + 1" by (simp add: unat_saturating_add)
  then show ?case using Cons.IH [of "saturating_add n 1"] Cons.prems by simp
qed simp

text \<open>C26. Replaying the segments of a directory to a collector that accepts everything sends every record: the log
  records, each with its resource and scope, and the payloads that are not decodable logs, are as a multiset exactly
  those in the files, however they were merged into batches, and the result is the number of records read.\<close>

theorem replay_path_sends_everything:
  assumes "logs_codec_ok Q" and "readable d (list_named_segments d name)"
    and "length (disk_records X d (derive_base_stem name)) < 2 ^ 64"
  shows "\<exists>n s. replay_path_to_otlp_http X Q accept_all clock d name batch_size batch_timeout_ms [] = (Inr n, s) \<and>
    unat n = length (disk_records X d (derive_base_stem name)) \<and>
    mset (concat (map (items Q) (er_conn s)))
      = mset (concat (map (items Q) (map (\<lambda>r. (record_type r, payload r)) (disk_records X d (derive_base_stem name)))))"
proof -
  let ?s = "\<lparr>er_batcher = batcher_new batch_size batch_timeout_ms, er_conn = [], er_sent = 0\<rparr> :: (record_type \<times> bytes) list export_run"
  have new: "run_ok ?s" "run_items Q ?s = {#}" by (simp_all add: run_ok_def run_items_def batcher_new_def entries_def)
  have rs: "concat (map (segment_contents X d) (list_named_segments d name)) = disk_records X d (derive_base_stem name)"
    by (simp add: disk_records_def list_named_segments_def)
  from replay_segments_items [OF assms(1,2) new(1), of X clock] obtain s1 where
    s1: "replay_segments X Q accept_all clock d (list_named_segments d name) ?s = (Inr (), s1)" "run_ok s1"
      "run_items Q s1 = record_items Q (disk_records X d (derive_base_stem name))"
      "er_sent s1 = counted 0 (disk_records X d (derive_base_stem name))" unfolding rs new(2) by auto
  from flush_items [OF assms(1) s1(2)] obtain s2 where
    s2: "on_batcher (batcher_flush Q accept_all) s1 = (Inr (), s2)" "run_items Q s2 = run_items Q s1"
      "entries (ob_pending (er_batcher s2)) = []" "er_sent s2 = er_sent s1" by blast
  have "all_items Q (er_conn s2) = record_items Q (disk_records X d (derive_base_stem name))"
    using s2(2,3) s1(3) by (simp add: run_items_def)
  then show ?thesis using s1(1,4) s2(1,4) counted_length [of 0] assms(3)
    by (simp add: replay_path_to_otlp_http_def all_items_def record_items_def)
qed

text \<open>A codec with that property: requests are countable, and a number is that many zero bytes.\<close>

instance log_record_ext :: (countable) countable
  by (rule countable_classI [of "\<lambda>r. to_nat (lr_time_unix_nano r, lr_observed_time_unix_nano r, lr_severity_number r, lr_rest r, log_record.more r)"])
    simp

instance scope_logs_ext :: (countable) countable
  by (rule countable_classI [of "\<lambda>r. to_nat (sl_scope r, sl_log_records r, sl_schema_url r, scope_logs.more r)"]) simp

instance resource_logs_ext :: (countable) countable
  by (rule countable_classI [of "\<lambda>r. to_nat (rl_resource r, rl_scope_logs r, rl_schema_url r, resource_logs.more r)"]) simp

definition counting_otlp :: otlp where
  "counting_otlp = plain_otlp\<lparr>logs_decode := \<lambda>bs. Inr (from_nat (length bs)), logs_encode := \<lambda>req. replicate (to_nat req) 0\<rparr>"

lemma counting_otlp_ok: "logs_codec_ok counting_otlp"
  by (simp add: logs_codec_ok_def counting_otlp_def)

theorem replay_path_sends_everything_witness:
  "\<exists>d n s. disk_records identity_extern d ''a'' = sample_records \<and>
     replay_path_to_otlp_http identity_extern counting_otlp accept_all (\<lambda>_. 0) d ''a.logjet'' 100 0 [] = (Inr n, s) \<and>
     unat n = length sample_records"
proof -
  obtain bs where bs: "length bs < 2 ^ 32" "file_records identity_extern bs = sample_records"
    by (rule small_log [of sample_records]) (auto simp: sample_records_simps)
  let ?d = "[(''a.logjet'', bs)]"
  have stem: "derive_base_stem ''a.logjet'' = ''a''" by (simp add: derive_base_stem_def strip_suffix_def)
  have seg: "list_named_segments ?d ''a.logjet'' = [\<lparr>si_id = 0, si_path = ''a.logjet''\<rparr>]"
    unfolding list_named_segments_def stem by (rule sample_spool_segments(2))
  have dr: "disk_records identity_extern ?d ''a'' = sample_records"
    by (simp add: disk_records_def sample_spool_segments(2,3) segment_contents_def bs(2))
  have "readable ?d (list_named_segments ?d ''a.logjet'')" unfolding seg using bs(1) by (simp add: readable_def sample_spool_segments(3))
  from replay_path_sends_everything [OF counting_otlp_ok this, of identity_extern "\<lambda>_. 0" 100 0] dr
  show ?thesis unfolding stem by (intro exI [of _ ?d]) (auto simp: sample_records_simps)
qed

end
