(* ===== verification/Lj_Bridge.thy ===== *)
theory Lj_Bridge
  imports Lj_Batcher
begin

text \<open>
  The bridge of \<^verbatim>\<open>logjetd/src/replay.rs\<close>: it reads records from a daemon, posts them to collectors and
  remembers in a state file how far it got. Without backpressure it is a loop; with backpressure a worker thread posts
  and the two exchange tasks and results over channels, so that part is a step relation.
\<close>

section \<open>The saved state\<close>

record bridge_state =
  bg_stream_id :: "u64 option"
  bg_last_seq :: u64

definition bridge_state_text :: "bridge_state \<Rightarrow> string" where
  "bridge_state_text st =
     ''stream_id='' @ (case bg_stream_id st of Some v \<Rightarrow> show_u64 v | None \<Rightarrow> ''unset'') @ [CHR 0x0A]
     @ ''last_seq='' @ show_u64 (bg_last_seq st) @ [CHR 0x0A]"

fun parse_state_lines :: "string list \<Rightarrow> u64 option option \<Rightarrow> u64 option \<Rightarrow> io_error + u64 option option \<times> u64 option" where
  "parse_state_lines [] stream_id last_seq = Inr (stream_id, last_seq)"
| "parse_state_lines (line # ls) stream_id last_seq =
     (case split_once (CHR ''='') line of
        None \<Rightarrow> parse_state_lines ls stream_id last_seq
      | Some (key, v) \<Rightarrow>
          if trim key = ''stream_id'' then
            (if trim v = ''unset'' then parse_state_lines ls (Some None) last_seq
             else (case parse_u64 (trim v) of
                     Inl e \<Rightarrow> Inl (invalid_data (''invalid bridge state stream_id: '' @ parse_int_error_display e))
                   | Inr n \<Rightarrow> parse_state_lines ls (Some (Some n)) last_seq))
          else if trim key = ''last_seq'' then
            (case parse_u64 (trim v) of
               Inl e \<Rightarrow> Inl (invalid_data (''invalid bridge state last_seq: '' @ parse_int_error_display e))
             | Inr n \<Rightarrow> parse_state_lines ls stream_id (Some n))
          else parse_state_lines ls stream_id last_seq)"

definition parse_bridge_state :: "string \<Rightarrow> io_error + bridge_state" where
  "parse_bridge_state text =
     (case parse_u64 (trim text) of
        Inr n \<Rightarrow> Inr \<lparr>bg_stream_id = None, bg_last_seq = n\<rparr>
      | Inl _ \<Rightarrow>
          and_then (parse_state_lines (lines text) None None) (\<lambda>(stream_id, last_seq).
          and_then (ok_or last_seq (invalid_data ''invalid bridge state: missing last_seq'')) (\<lambda>n.
          Inr \<lparr>bg_stream_id = (case stream_id of Some v \<Rightarrow> v | None \<Rightarrow> None), bg_last_seq = n\<rparr>)))"

definition read_bridge_state :: "string option \<Rightarrow> dir \<Rightarrow> io_error + bridge_state" where
  "read_bridge_state path d =
     (case path of
        None \<Rightarrow> Inr \<lparr>bg_stream_id = None, bg_last_seq = 0\<rparr>
      | Some p \<Rightarrow>
          if fs_read d p = None then Inr \<lparr>bg_stream_id = None, bg_last_seq = 0\<rparr>
          else and_then (fs_read_to_string p d) parse_bridge_state)"

definition write_bridge_state :: "string option \<Rightarrow> bridge_state \<Rightarrow> dir \<Rightarrow> dir" where
  "write_bridge_state path st d = (case path of None \<Rightarrow> d | Some p \<Rightarrow> fs_put p (to_text (bridge_state_text st)) d)"

definition reconcile_bridge_state :: "replay_hello \<Rightarrow> bridge_state \<Rightarrow> bridge_state" where
  "reconcile_bridge_state hello st =
     (let st = (case bg_stream_id st of
                  Some saved \<Rightarrow> if saved \<noteq> hello_stream_id hello then st\<lparr>bg_last_seq := 0\<rparr> else st
                | None \<Rightarrow>
                    if bg_last_seq st > 0 \<and> hello_last_seq hello > 0 \<and> hello_last_seq hello < bg_last_seq st
                    then st\<lparr>bg_last_seq := 0\<rparr> else st)
      in st\<lparr>bg_stream_id := Some (hello_stream_id hello)\<rparr>)"

section \<open>Statistics\<close>

record bridge_stats =
  bt_records_read :: u64
  bt_drops_logs :: u64
  bt_drops_metrics :: u64
  bt_drops_traces :: u64
  bt_drops_events :: u64

definition stats_new :: bridge_stats where
  "stats_new = \<lparr>bt_records_read = 0, bt_drops_logs = 0, bt_drops_metrics = 0, bt_drops_traces = 0, bt_drops_events = 0\<rparr>"

definition note_record :: "bridge_stats \<Rightarrow> bridge_stats" where
  "note_record t = t\<lparr>bt_records_read := bt_records_read t + 1\<rparr>"

definition note_drop :: "record_type \<Rightarrow> bridge_stats \<Rightarrow> bridge_stats" where
  "note_drop rt t =
     (case rt of
        Logs \<Rightarrow> t\<lparr>bt_drops_logs := bt_drops_logs t + 1\<rparr>
      | Metrics \<Rightarrow> t\<lparr>bt_drops_metrics := bt_drops_metrics t + 1\<rparr>
      | Traces \<Rightarrow> t\<lparr>bt_drops_traces := bt_drops_traces t + 1\<rparr>
      | Events \<Rightarrow> t\<lparr>bt_drops_events := bt_drops_events t + 1\<rparr>)"

definition should_log :: "bridge_stats \<Rightarrow> bool" where
  "should_log t \<longleftrightarrow> bt_records_read t > 0 \<and> bt_records_read t mod 1000 = 0"

definition drop_part :: "string \<Rightarrow> u64 \<Rightarrow> string list" where
  "drop_part label n = (if n > 0 then [label @ show_u64 n] else [])"

definition drop_summary :: "bridge_stats \<Rightarrow> string" where
  "drop_summary t =
     (let parts = drop_part ''logs_drops='' (bt_drops_logs t) @ drop_part ''metrics_drops='' (bt_drops_metrics t)
        @ drop_part ''traces_drops='' (bt_drops_traces t) @ drop_part ''events_drops='' (bt_drops_events t)
      in if parts = [] then ''drops=0'' else join '' '' parts)"

section \<open>Talking to the daemon\<close>

record bridge_link =
  bl_state :: bridge_state
  bl_dir :: dir
  bl_in :: dev
  bl_out :: socket

definition describe_backpressure :: "bool \<Rightarrow> backpressure_mode \<Rightarrow> nat \<Rightarrow> string" where
  "describe_backpressure on mode cap =
     (if \<not> on then ''disabled''
      else (case mode of ModeBlock \<Rightarrow> ''block'' | ModeDisconnect \<Rightarrow> ''disconnect'' | ModeDropNewest \<Rightarrow> ''drop-newest'')
        @ '' buffered='' @ show_nat cap)"

definition commit_record :: "string option \<Rightarrow> bool \<Rightarrow> u64 \<Rightarrow> bridge_link \<Rightarrow> (io_error + unit) \<times> bridge_link" where
  "commit_record path drain n l =
     (let st = (bl_state l)\<lparr>bg_last_seq := n\<rparr>; l = l\<lparr>bl_state := st, bl_dir := write_bridge_state path st (bl_dir l)\<rparr> in
      if drain then
        (case write_replay_ack socket_write_all \<lparr>ack_seq = n\<rparr> (bl_out l) of (r, w) \<Rightarrow> (r, l\<lparr>bl_out := w\<rparr>))
      else (Inr (), l))"

text \<open>Greeting, reconciliation and request, before any record.\<close>

definition bridge_open :: "string option \<Rightarrow> bool \<Rightarrow> bridge_link \<Rightarrow> (io_error + unit) \<times> bridge_link" where
  "bridge_open path drain l =
     (case read_replay_hello (bl_in l) of
        (Inl e, d) \<Rightarrow> (Inl e, l\<lparr>bl_in := d\<rparr>)
      | (Inr hello, d) \<Rightarrow>
          let st = reconcile_bridge_state hello (bl_state l);
              l = l\<lparr>bl_in := d, bl_state := st, bl_dir := write_bridge_state path st (bl_dir l)\<rparr> in
          (case write_replay_request socket_write_all \<lparr>from_seq = bg_last_seq st, consume = drain\<rparr> (bl_out l) of
             (r, w) \<Rightarrow> (r, l\<lparr>bl_out := w\<rparr>)))"

section \<open>Without backpressure\<close>

lemma commit_record_in: "commit_record path drain n l = (r, l') \<Longrightarrow> bl_in l' = bl_in l"
  by (auto simp: commit_record_def Let_def split: if_splits prod.splits)

function bridge_loop ::
    "extern \<Rightarrow> 'c post \<Rightarrow> string option \<Rightarrow> bool \<Rightarrow> 'c \<Rightarrow> bridge_link \<Rightarrow> (io_error + unit) \<times> 'c \<times> bridge_link" where
  "bridge_loop X post path drain c l =
     (case read_record X (bl_in l) of
        (Inl e, d) \<Rightarrow> (Inl e, c, l\<lparr>bl_in := d\<rparr>)
      | (Inr None, d) \<Rightarrow> (Inr (), c, l\<lparr>bl_in := d\<rparr>)
      | (Inr (Some record), d) \<Rightarrow>
          let l = l\<lparr>bl_in := d\<rparr> in
          (case post (record_type record) (payload record) c of
             (Inl e, c) \<Rightarrow> (Inl e, c, l)
           | (Inr _, c) \<Rightarrow>
               (case commit_record path drain (seq record) l of
                  (Inl e, l) \<Rightarrow> (Inl e, c, l)
                | (Inr _, l) \<Rightarrow> bridge_loop X post path drain c l)))"
  by pat_completeness auto
termination
  by (relation "measure (\<lambda>(_, _, _, _, _, l). length (data (bl_in l)) - pos (bl_in l))")
    (auto simp: read_record_def dest!: read_record_progress [OF sym] commit_record_in [OF sym])

declare bridge_loop.simps [simp del]

definition bridge_transport ::
    "extern \<Rightarrow> 'c post \<Rightarrow> (io_error + 'c) \<Rightarrow> string option \<Rightarrow> bool \<Rightarrow> bridge_link \<Rightarrow> (io_error + unit) \<times> 'c option \<times> bridge_link" where
  "bridge_transport X post opened path drain l =
     (case bridge_open path drain l of
        (Inl e, l) \<Rightarrow> (Inl e, None, l)
      | (Inr _, l) \<Rightarrow>
          (case opened of
             Inl e \<Rightarrow> (Inl e, None, l)
           | Inr c \<Rightarrow> apsnd (apfst Some) (bridge_loop X post path drain c l)))"

section \<open>With backpressure\<close>

record export_task =
  et_seq :: u64
  et_type :: record_type
  et_payload :: bytes

datatype export_outcome = Delivered | DroppedNewest

record export_result =
  xr_seq :: u64
  xr_outcome :: "io_error + export_outcome"

datatype pending_export = Queued u64 | Dropped u64

datatype bridge_pc = Reading | Sending wire_record | Closing | Done "io_error + unit"

record 'c pipeline =
  pl_pc :: bridge_pc
  pl_link :: bridge_link
  pl_tasks :: "export_task list"
  pl_results :: "export_result list"
  pl_pending :: "pending_export list"
  pl_stats :: bridge_stats
  pl_worker :: "(io_error + unit) option"
  pl_batcher :: otlp_batcher
  pl_conn :: 'c

definition worker_stopped :: io_error where
  "worker_stopped = IoError BrokenPipe ''collector export worker stopped''"

text \<open>\<^verbatim>\<open>None\<close> is a send that blocks until the worker has taken a task.\<close>

definition enqueue_export_task ::
    "backpressure_mode \<Rightarrow> nat \<Rightarrow> export_task \<Rightarrow> 'c pipeline \<Rightarrow> ((io_error + bool) \<times> 'c pipeline) option" where
  "enqueue_export_task mode cap task p =
     (if pl_worker p \<noteq> None then Some (Inl worker_stopped, p)
      else if length (pl_tasks p) < cap then Some (Inr True, p\<lparr>pl_tasks := pl_tasks p @ [task]\<rparr>)
      else
        case mode of
          ModeBlock \<Rightarrow> None
        | ModeDisconnect \<Rightarrow>
            Some (Inl (IoError TimedOut ''collector export buffer is full; disconnecting bridge''), p)
        | ModeDropNewest \<Rightarrow> Some (Inr False, p))"

definition out_of_order :: "u64 \<Rightarrow> u64 \<Rightarrow> io_error" where
  "out_of_order got expected =
     invalid_data (''collector export worker returned seq='' @ show_u64 got @ '' out of order; expected '' @ show_u64 expected)"

text \<open>The results that are there are committed in the order of the pending records. The value says whether nothing is
  pending any more; otherwise the next result has not arrived.\<close>

primrec flush_results ::
    "string option \<Rightarrow> bool \<Rightarrow> bool \<Rightarrow> pending_export list \<Rightarrow> export_result list \<Rightarrow> bridge_link
       \<Rightarrow> (io_error + bool) \<times> pending_export list \<times> export_result list \<times> bridge_link" where
  "flush_results path drain stopped [] rs l = (Inr True, [], rs, l)"
| "flush_results path drain stopped (p # ps) rs l =
     (case p of
        Dropped n \<Rightarrow>
          (case commit_record path drain n l of
             (Inl e, l) \<Rightarrow> (Inl e, ps, rs, l)
           | (Inr _, l) \<Rightarrow> flush_results path drain stopped ps rs l)
      | Queued expected \<Rightarrow>
          (case rs of
             [] \<Rightarrow> if stopped then (Inl worker_stopped, p # ps, [], l) else (Inr False, p # ps, [], l)
           | r # rs \<Rightarrow>
               if xr_seq r \<noteq> expected then (Inl (out_of_order (xr_seq r) expected), p # ps, rs, l)
               else
                 case xr_outcome r of
                   Inl e \<Rightarrow> (Inl e, ps, rs, l)
                 | Inr _ \<Rightarrow>
                     (case commit_record path drain (xr_seq r) l of
                        (Inl e, l) \<Rightarrow> (Inl e, ps, rs, l)
                      | (Inr _, l) \<Rightarrow> flush_results path drain stopped ps rs l)))"

definition flush_ready_results :: "string option \<Rightarrow> bool \<Rightarrow> 'c pipeline \<Rightarrow> (io_error + bool) \<times> 'c pipeline" where
  "flush_ready_results path drain p =
     (case flush_results path drain (pl_worker p \<noteq> None) (pl_pending p) (pl_results p) (pl_link p) of
        (res, ps, rs, l) \<Rightarrow> (res, p\<lparr>pl_pending := ps, pl_results := rs, pl_link := l\<rparr>))"

definition finish :: "io_error + unit \<Rightarrow> 'c pipeline \<Rightarrow> 'c pipeline" where
  "finish res p = p\<lparr>pl_pc := Done res\<rparr>"

text \<open>The bridge thread: reading, sending a task to the worker, and the end of the stream. \<open>None\<close> is a thread that
  waits.\<close>

definition read_step :: "extern \<Rightarrow> string option \<Rightarrow> bool \<Rightarrow> 'c pipeline \<Rightarrow> 'c pipeline" where
  "read_step X path drain p =
     (case read_record X (bl_in (pl_link p)) of
        (Inl e, d) \<Rightarrow> finish (Inl e) p
      | (Inr None, d) \<Rightarrow> p\<lparr>pl_pc := Closing, pl_link := (pl_link p)\<lparr>bl_in := d\<rparr>\<rparr>
      | (Inr (Some record), d) \<Rightarrow>
          (case flush_ready_results path drain (p\<lparr>pl_link := (pl_link p)\<lparr>bl_in := d\<rparr>\<rparr>) of
             (Inl e, p) \<Rightarrow> finish (Inl e) p
           | (Inr _, p) \<Rightarrow> p\<lparr>pl_pc := Sending record, pl_stats := note_record (pl_stats p)\<rparr>))"

definition send_step :: "backpressure_mode \<Rightarrow> nat \<Rightarrow> wire_record \<Rightarrow> 'c pipeline \<Rightarrow> 'c pipeline option" where
  "send_step mode cap record p =
     (case enqueue_export_task mode cap
             \<lparr>et_seq = seq record, et_type = record_type record, et_payload = payload record\<rparr> p of
        None \<Rightarrow> None
      | Some (Inl e, p) \<Rightarrow> Some (finish (Inl e) p)
      | Some (Inr True, p) \<Rightarrow> Some (p\<lparr>pl_pc := Reading, pl_pending := pl_pending p @ [Queued (seq record)]\<rparr>)
      | Some (Inr False, p) \<Rightarrow>
          Some (p\<lparr>pl_pc := Reading, pl_stats := note_drop (record_type record) (pl_stats p),
                  pl_pending := pl_pending p @ [Dropped (seq record)]\<rparr>))"

definition close_step :: "string option \<Rightarrow> bool \<Rightarrow> 'c pipeline \<Rightarrow> 'c pipeline option" where
  "close_step path drain p =
     (case flush_ready_results path drain p of
        (Inl e, p) \<Rightarrow> Some (finish (Inl e) p)
      | (Inr False, p) \<Rightarrow> Some p
      | (Inr True, p) \<Rightarrow> map_option (\<lambda>res. finish res p) (pl_worker p))"

definition bridge_step ::
    "extern \<Rightarrow> backpressure_mode \<Rightarrow> nat \<Rightarrow> string option \<Rightarrow> bool \<Rightarrow> 'c pipeline \<Rightarrow> 'c pipeline option" where
  "bridge_step X mode cap path drain p =
     (case pl_pc p of
        Reading \<Rightarrow> Some (read_step X path drain p)
      | Sending record \<Rightarrow> send_step mode cap record p
      | Closing \<Rightarrow> close_step path drain p
      | Done _ \<Rightarrow> None)"

text \<open>The worker thread: a task, a timeout, and its end.\<close>

definition stop_worker :: "otlp \<Rightarrow> 'c post \<Rightarrow> 'c pipeline \<Rightarrow> 'c pipeline" where
  "stop_worker Q post p =
     (case batcher_flush Q post (pl_batcher p) (pl_conn p) of
        (_, b, c) \<Rightarrow> p\<lparr>pl_batcher := b, pl_conn := c, pl_worker := Some (Inr ())\<rparr>)"

definition worker_expire :: "otlp \<Rightarrow> 'c post \<Rightarrow> nat \<Rightarrow> 'c pipeline \<Rightarrow> (io_error + unit) \<times> 'c pipeline" where
  "worker_expire Q post now p =
     (case flush_if_expired Q post now (pl_batcher p) (pl_conn p) of
        (r, b, c) \<Rightarrow> (r, p\<lparr>pl_batcher := b, pl_conn := c, pl_worker := (case r of Inl e \<Rightarrow> Some (Inl e) | Inr _ \<Rightarrow> None)\<rparr>))"

definition report_result :: "otlp \<Rightarrow> 'c post \<Rightarrow> u64 \<Rightarrow> io_error + unit \<Rightarrow> 'c pipeline \<Rightarrow> 'c pipeline" where
  "report_result Q post n res p =
     (let p = p\<lparr>pl_results := pl_results p @ [\<lparr>xr_seq = n, xr_outcome = map_sum id (\<lambda>_. Delivered) res\<rparr>]\<rparr> in
      case res of Inl _ \<Rightarrow> stop_worker Q post p | Inr _ \<Rightarrow> p)"

definition worker_task :: "otlp \<Rightarrow> 'c post \<Rightarrow> nat \<Rightarrow> nat \<Rightarrow> export_task \<Rightarrow> 'c pipeline \<Rightarrow> 'c pipeline" where
  "worker_task Q post now later task p =
     (if et_type task = Logs then
        (case batcher_add Q post now (et_payload task) (pl_batcher p) (pl_conn p) of
           (res, b, c) \<Rightarrow>
             (case worker_expire Q post later (p\<lparr>pl_batcher := b, pl_conn := c\<rparr>) of
                (Inl _, p) \<Rightarrow> p
              | (Inr _, p) \<Rightarrow> report_result Q post (et_seq task) res p))
      else
        (case post (et_type task) (et_payload task) (pl_conn p) of
           (res, c) \<Rightarrow> report_result Q post (et_seq task) res (p\<lparr>pl_conn := c\<rparr>)))"

inductive pipeline_step ::
    "extern \<Rightarrow> otlp \<Rightarrow> 'c post \<Rightarrow> backpressure_mode \<Rightarrow> nat \<Rightarrow> string option \<Rightarrow> bool \<Rightarrow> 'c pipeline \<Rightarrow> 'c pipeline \<Rightarrow> bool"
  for X Q post mode cap path drain where
  main_runs: "bridge_step X mode cap path drain p = Some p' \<Longrightarrow> pipeline_step X Q post mode cap path drain p p'"
| task_taken: "pl_worker p = None \<Longrightarrow> pl_tasks p = t # ts \<Longrightarrow> now \<le> later \<Longrightarrow>
    pipeline_step X Q post mode cap path drain p (worker_task Q post now later t (p\<lparr>pl_tasks := ts\<rparr>))"
| worker_times_out: "pl_worker p = None \<Longrightarrow> pl_tasks p = [] \<Longrightarrow>
    pipeline_step X Q post mode cap path drain p (snd (worker_expire Q post now p))"
| channel_closed: "pl_worker p = None \<Longrightarrow> pl_tasks p = [] \<Longrightarrow> pl_pc p = Closing \<or> (\<exists>res. pl_pc p = Done res) \<Longrightarrow>
    pipeline_step X Q post mode cap path drain p (stop_worker Q post p)"

text \<open>The worker opens its connection first; if that fails it ends with the error and \<open>c\<close> is never used. The model has
  the worker fail before the first step of the main thread.\<close>

definition pipeline_start :: "bridge_link \<Rightarrow> nat \<Rightarrow> nat \<Rightarrow> io_error option \<Rightarrow> 'c \<Rightarrow> 'c pipeline" where
  "pipeline_start l batch_size batch_timeout_ms failed c =
     \<lparr>pl_pc = Reading, pl_link = l, pl_tasks = [], pl_results = [], pl_pending = [], pl_stats = stats_new,
      pl_worker = map_option Inl failed,
      pl_batcher = batcher_new batch_size batch_timeout_ms, pl_conn = c\<rparr>"

end
