(* ===== verification/Lj_Bridge_Run.thy ===== *)
theory Lj_Bridge_Run
  imports Lj_Bridge
begin

text \<open>
  Runs of the bridge: the state file is read back, the bridge and the replay server of a daemon together deliver the
  spool, and what batching does to acknowledgements.
\<close>

section \<open>The state file\<close>

lemma strip_cr_none: "CHR 0x0D \<notin> set s \<Longrightarrow> strip_cr s = s"
  by (auto simp: strip_cr_def strip_suffix_Some_iff split: option.splits)

lemma show_u64_chars: "c \<in> set (show_u64 n) \<Longrightarrow> \<not> is_ws c"
  by (simp add: show_u64_def show_nat_no_ws)

lemma ws_chars: "is_ws (CHR 0x0A)" "is_ws (CHR 0x0D)" "is_ws (CHR 0x20)"
  by (simp_all add: is_ws_def)

definition id_text :: "u64 option \<Rightarrow> string" where
  "id_text v = (case v of Some n \<Rightarrow> show_u64 n | None \<Rightarrow> ''unset'')"

lemma id_text_chars: "c \<in> set (id_text v) \<Longrightarrow> \<not> is_ws c"
  by (auto simp: id_text_def is_ws_def dest: show_u64_chars split: option.splits)

lemma bridge_state_lines:
  "lines (bridge_state_text st) = [''stream_id='' @ id_text (bg_stream_id st), ''last_seq='' @ show_u64 (bg_last_seq st)]"
proof -
  have no: "CHR 0x0A \<notin> set (''stream_id='' @ id_text v)" "CHR 0x0D \<notin> set (''stream_id='' @ id_text v)"
    "CHR 0x0A \<notin> set (''last_seq='' @ show_u64 n)" "CHR 0x0D \<notin> set (''last_seq='' @ show_u64 n)" for v n
    using id_text_chars show_u64_chars ws_chars by fastforce+
  have "bridge_state_text st = (''stream_id='' @ id_text (bg_stream_id st)) @ CHR 0x0A # ((''last_seq='' @ show_u64 (bg_last_seq st)) @ CHR 0x0A # [])"
    by (simp add: bridge_state_text_def id_text_def)
  then show ?thesis unfolding lines_def using lines_from_line [OF no(1)] lines_from_line [OF no(3)] strip_cr_none [OF no(2)] strip_cr_none [OF no(4)]
    by (metis append_Nil lines_from.simps(1))
qed

lemma trim_head: "\<not> is_ws c \<Longrightarrow> trim (c # s) = c # trim_end s \<or> (\<exists>t. trim (c # s) = c # t)"
  by (auto simp: trim_def trim_start_def trim_end_def dropWhile_append)

lemma not_a_number: "\<exists>e. parse_u64 (trim (bridge_state_text st)) = Inl e"
proof -
  obtain t where "trim (bridge_state_text st) = CHR ''s'' # t"
    using trim_head [of "CHR ''s''" "tl (bridge_state_text st)"] by (auto simp: bridge_state_text_def is_ws_def)
  then show ?thesis by (simp add: parse_u64_def parse_nat_below_def to_digit_def)
qed

lemma parse_bridge_state_text: "parse_bridge_state (bridge_state_text st) = Inr st"
proof -
  have "trim ''unset'' = ''unset''" by (simp add: trim_no_ws is_ws_def)
  moreover have "split_once (CHR ''='') (''stream_id='' @ s) = Some (''stream_id'', s)"
      "split_once (CHR ''='') (''last_seq='' @ s) = Some (''last_seq'', s)" for s by simp_all
  moreover have "trim ''stream_id'' = ''stream_id''" "trim ''last_seq'' = ''last_seq''" by (simp_all add: trim_no_ws is_ws_def)
  moreover have "show_u64 n \<noteq> ''unset''" for n using parse_u64_show_u64 [of n]
    by (auto simp: parse_u64_def parse_nat_below_def to_digit_def)
  moreover obtain e where "parse_u64 (trim (bridge_state_text st)) = Inl e" using not_a_number by blast
  ultimately show ?thesis
    by (cases st; cases "bg_stream_id st") (simp_all add: parse_bridge_state_def bridge_state_lines id_text_def)
qed

lemma bridge_state_text_ascii: "\<forall>c\<in>set (bridge_state_text st). of_char c < (128 :: nat)"
  by (auto simp: bridge_state_text_def show_u64_def show_nat_ascii split: option.splits)

lemma saved_state_read:
  "fs_read d p = Some (to_text (bridge_state_text st)) \<Longrightarrow> read_bridge_state (Some p) d = Inr st"
  using to_text_ascii [OF bridge_state_text_ascii, of st] parse_bridge_state_text
  by (simp add: read_bridge_state_def fs_read_to_string_def)

text \<open>What the bridge saves it reads back: the stream it follows and the last sequence number, for every state and
  whatever else is in the directory.\<close>

theorem bridge_state_round_trip:
  "read_bridge_state (Some p) (write_bridge_state (Some p) st d) = Inr st"
  by (simp add: saved_state_read write_bridge_state_def)

section \<open>A run of the bridge\<close>

text \<open>A collector that accepts the first \<open>k\<close> payloads and then refuses.\<close>

definition accept_first :: "nat \<Rightarrow> (record_type \<times> bytes) list post" where
  "accept_first k rt pl c =
     (if length c < k then (Inr (), c @ [(rt, pl)]) else (Inl (IoError OtherKind ''collector returned non-200 response''), c))"

definition posts :: "wire_record list \<Rightarrow> (record_type \<times> bytes) list" where
  "posts rs = map (\<lambda>r. (record_type r, payload r)) rs"

definition committed :: "string option \<Rightarrow> wire_record list \<Rightarrow> bridge_link \<Rightarrow> bridge_link \<Rightarrow> bool" where
  "committed path rs l l' \<longleftrightarrow>
     bl_state l' = (if rs = [] then bl_state l else (bl_state l)\<lparr>bg_last_seq := seq (last rs)\<rparr>) \<and>
     bl_out l' = bl_out l \<and> (rs \<noteq> [] \<longrightarrow> fs_read (bl_dir l') (the path) = Some (to_text (bridge_state_text (bl_state l')))) \<and>
     (rs = [] \<longrightarrow> bl_dir l' = bl_dir l)"

lemma read_record_wire:
  assumes "sendable X c (usize_bound - 1) r" and "no_faults d" and "data d = pre @ wire_bytes X c r @ post" and "pos d = length pre"
  shows "read_record X d = (Inr (Some r), d\<lparr>pos := length (pre @ wire_bytes X c r)\<rparr>)"
  using wire.read_encode [OF assms] by (simp add: expect_record_Inr read_record_def)

lemma bridge_loop_run:
  assumes "\<forall>r\<in>set rs. sendable X c (usize_bound - 1) r" and "no_faults (bl_in l)"
    and "data (bl_in l) = pre @ concat (map (wire_bytes X c) rs)" and "pos (bl_in l) = length pre" and "length sent \<le> k"
  shows "\<exists>res l'. bridge_loop X (accept_first k) (Some p) False sent l = (res, sent @ posts (take (k - length sent) rs), l') \<and>
    (res = Inr () \<longleftrightarrow> length rs \<le> k - length sent) \<and> committed (Some p) (take (k - length sent) rs) l l'"
  using assms
proof (induction rs arbitrary: l pre sent)
  case Nil
  obtain d where "read_record X (bl_in l) = (Inr None, d)"
    using read_record_eof [of "bl_in l" X "usize_bound - 1"] Nil by (auto simp: read_record_def prod_eq_iff)
  then show ?case by (simp add: bridge_loop.simps [of X _ _ _ _ l] posts_def committed_def)
next
  case (Cons r rs)
  let ?d = "(bl_in l)\<lparr>pos := length (pre @ wire_bytes X c r)\<rparr>"
  have rd: "read_record X (bl_in l) = (Inr (Some r), ?d)"
    using read_record_wire [of X c r "bl_in l" pre] Cons.prems by simp
  show ?case
  proof (cases "length sent < k")
    case False
    then show ?thesis using rd Cons.prems(5)
      by (simp add: bridge_loop.simps [of X _ _ _ _ l] accept_first_def posts_def committed_def)
  next
    case True
    let ?st = "(bl_state l)\<lparr>bg_last_seq := seq r\<rparr>"
    let ?l = "l\<lparr>bl_in := ?d, bl_state := ?st, bl_dir := write_bridge_state (Some p) ?st (bl_dir l)\<rparr>"
    have st: "bridge_loop X (accept_first k) (Some p) False sent l =
        bridge_loop X (accept_first k) (Some p) False (sent @ [(record_type r, payload r)]) ?l"
      using True rd by (simp add: bridge_loop.simps [of X _ _ _ sent l] accept_first_def commit_record_def Let_def)
    have k: "k - length sent = Suc (k - Suc (length sent))" using True by simp
    from Cons.IH [of ?l "pre @ wire_bytes X c r" "sent @ [(record_type r, payload r)]"] Cons.prems True obtain res l' where
      "bridge_loop X (accept_first k) (Some p) False (sent @ [(record_type r, payload r)]) ?l
         = (res, sent @ [(record_type r, payload r)] @ posts (take (k - Suc (length sent)) rs), l')"
      "res = Inr () \<longleftrightarrow> length rs \<le> k - Suc (length sent)" "committed (Some p) (take (k - Suc (length sent)) rs) ?l l'"
      by (auto simp: no_faults_def)
    then show ?thesis unfolding st k
      by (intro exI [of _ res] exI [of _ l']) (auto simp: posts_def committed_def write_bridge_state_def)
  qed
qed

text \<open>C28. A bridge without backpressure that remembers sequence number \<open>m\<close> of the daemon's stream connects in keep
  mode to a daemon at rest whose stored records are in growing sequence order, and the collector accepts \<open>k\<close> payloads. The request the bridge sends is the one the session serves; exactly the first
  \<open>k\<close> stored records above \<open>m\<close> are posted, in order, the run succeeds exactly when that is all of them, and the state
  file holds the last record posted, so the next run continues there: none is lost and none is posted twice.\<close>

theorem bridge_delivers_the_spool:
  assumes "spool_ok X (dm_spool d)" and "\<forall>r\<in>set (spool_stored X (dm_spool d)). sendable X compression (usize_bound - 1) r"
    and "st = \<lparr>bg_stream_id = Some (spool_stream_id (dm_spool d)), bg_last_seq = m\<rparr>"
    and "24 \<le> sk_budget w"
  shows "\<exists>n s res l' rs. rs = filter (\<lambda>r. m < seq r) (spool_stored X (dm_spool d)) \<and>
    (replay_step X vec_write_all keep_sink compression ^^ n)
      (d, replay_session_new (dev_of (replay_request_bytes \<lparr>from_seq = m, consume = False\<rparr>)) []) = (d, s) \<and>
    bridge_transport X (accept_first k) (Inr []) (Some p) False \<lparr>bl_state = st, bl_dir = fs, bl_in = dev_of (rp_out s), bl_out = w\<rparr>
      = (res, Some (map (\<lambda>r. (record_type r, payload r)) (take k rs)), l') \<and>
    sk_sent (bl_out l') = sk_sent w @ replay_request_bytes \<lparr>from_seq = m, consume = False\<rparr> \<and>
    (res = Inr () \<longleftrightarrow> length rs \<le> k) \<and>
    read_bridge_state (Some p) (bl_dir l') = Inr (st\<lparr>bg_last_seq := if take k rs = [] then m else seq (last (take k rs))\<rparr>)"
proof -
  let ?q = "\<lparr>from_seq = m, consume = False\<rparr>" and ?rs = "after m (spool_stored X (dm_spool d))"
  obtain h where h: "replay_hello_of X (dm_spool d) = Inr h" using hello_of_ok [OF assms(1)] by blast
  let ?out = "replay_hello_bytes h @ concat (map (wire_bytes X compression) ?rs)"
  obtain n s where run: "(quiet_step X compression ^^ n) (d, replay_session_new (dev_of (replay_request_bytes ?q)) []) = (d, s)" "rp_out s = ?out"
    using keep_session_output [OF assms(1) h _ assms(2), of ?q] by auto
  have id: "hello_stream_id h = spool_stream_id (dm_spool d)"
    using h by (auto simp: replay_hello_of_def and_then_def split: sum.splits prod.splits)
  let ?d1 = "(dev_of ?out)\<lparr>pos := length (replay_hello_bytes h)\<rparr>"
  have rh: "read_replay_hello (dev_of ?out) = (Inr h, ?d1)"
    using hello.read_encode [OF TrueI, of "dev_of ?out" "[]" h] by (simp add: dev_of_def no_faults_def)
  let ?w = "\<lparr>sk_sent = sk_sent w @ replay_request_bytes ?q, sk_budget = sk_budget w - 24\<rparr>"
  let ?l = "\<lparr>bl_state = st, bl_dir = fs, bl_in = dev_of ?out, bl_out = w\<rparr>"
  let ?l1 = "\<lparr>bl_state = st, bl_dir = write_bridge_state (Some p) st fs, bl_in = ?d1, bl_out = ?w\<rparr>"
  have len: "length (replay_request_bytes ?q) = 24" by (simp add: replay_request_bytes_def magic_defs)
  have op: "bridge_open (Some p) False ?l = (Inr (), ?l1)"
    using assms(3,4) rh id len
    by (simp add: bridge_open_def reconcile_bridge_state_def write_replay_request_def socket_write_all_def Let_def)
  have "\<forall>r\<in>set ?rs. sendable X compression (usize_bound - 1) r" using assms(2) by (simp add: after_def)
  from bridge_loop_run [OF this, of ?l1 "replay_hello_bytes h" "[]" k p] obtain res l' where
    lp: "bridge_loop X (accept_first k) (Some p) False [] ?l1 = (res, posts (take k ?rs), l')" "res = Inr () \<longleftrightarrow> length ?rs \<le> k"
      "committed (Some p) (take k ?rs) ?l1 l'" by (auto simp: dev_of_def no_faults_def)
  have "bridge_transport X (accept_first k) (Inr []) (Some p) False \<lparr>bl_state = st, bl_dir = fs, bl_in = dev_of (rp_out s), bl_out = w\<rparr>
      = (res, Some (posts (take k ?rs)), l')"
    unfolding run(2) by (simp add: bridge_transport_def op lp(1))
  moreover have "sk_sent (bl_out l') = sk_sent w @ replay_request_bytes ?q" using lp(3) by (simp add: committed_def)
  moreover have "read_bridge_state (Some p) (bl_dir l') = Inr (st\<lparr>bg_last_seq := if take k ?rs = [] then m else seq (last (take k ?rs))\<rparr>)"
    using lp(3) assms(3) saved_state_read [of "bl_dir l'" p] by (auto simp: committed_def write_bridge_state_def split: if_splits)
  ultimately show ?thesis using run(1) lp(2) unfolding posts_def after_def by blast
qed

lemma sample_log_on_wire: "sendable identity_extern False (usize_bound - 1) (sample_log n)"
  by (simp add: sendable_def wire_payload_of_def wire_codec_def codecs_ok_def Let_def identity_extern_def sample_log_def)

theorem bridge_delivers_the_spool_witness:
  "\<exists>n s res l'. (replay_step identity_extern vec_write_all keep_sink False ^^ n)
      (two_logs_daemon, replay_session_new (dev_of (replay_request_bytes \<lparr>from_seq = 0, consume = False\<rparr>)) []) = (two_logs_daemon, s) \<and>
    bridge_transport identity_extern (accept_first 1) (Inr []) (Some ''state'') False
      \<lparr>bl_state = \<lparr>bg_stream_id = Some 5, bg_last_seq = 0\<rparr>, bl_dir = [], bl_in = dev_of (rp_out s), bl_out = \<lparr>sk_sent = [], sk_budget = 24\<rparr>\<rparr>
      = (res, Some [(Logs, [])], l') \<and> res \<noteq> Inr () \<and>
    read_bridge_state (Some ''state'') (bl_dir l') = Inr \<lparr>bg_stream_id = Some 5, bg_last_seq = 1\<rparr>"
proof -
  have id: "spool_stream_id (SpoolBuffer two_logs) = 5" by (simp add: spool_stream_id_def two_logs_def buffer_new_def)
  have "spool_ok identity_extern (dm_spool two_logs_daemon)" by (simp add: seq_sorted_def)
  moreover have "\<forall>r\<in>set (spool_stored identity_extern (dm_spool two_logs_daemon)). sendable identity_extern False (usize_bound - 1) r"
    using sample_log_on_wire by simp
  moreover have "\<lparr>bg_stream_id = Some 5, bg_last_seq = 0\<rparr> = \<lparr>bg_stream_id = Some (spool_stream_id (dm_spool two_logs_daemon)), bg_last_seq = 0\<rparr>"
    by (simp add: id)
  ultimately show ?thesis
    using bridge_delivers_the_spool [of identity_extern two_logs_daemon False "\<lparr>bg_stream_id = Some 5, bg_last_seq = 0\<rparr>" 0
        "\<lparr>sk_sent = [], sk_budget = 24\<rparr>" 1 "''state''" "[]"]
    by (fastforce simp: sample_log_def)
qed

section \<open>Batching and acknowledgements\<close>

definition one_log :: logs_request where
  "one_log = [\<lparr>rl_resource = None, rl_scope_logs = [\<lparr>sl_scope = None,
     sl_log_records = [\<lparr>lr_time_unix_nano = 1, lr_observed_time_unix_nano = 1, lr_severity_number = 9, lr_rest = []\<rparr>],
     sl_schema_url = []\<rparr>], rl_schema_url = []\<rparr>]"

definition one_log_otlp :: otlp where
  "one_log_otlp = plain_otlp\<lparr>logs_decode := \<lambda>_. Inr one_log\<rparr>"

definition two_on_the_wire :: bridge_link where
  "two_on_the_wire = \<lparr>bl_state = \<lparr>bg_stream_id = Some 5, bg_last_seq = 0\<rparr>, bl_dir = [],
     bl_in = dev_of (wire_bytes identity_extern False (sample_log 1) @ wire_bytes identity_extern False (sample_log 2)),
     bl_out = \<lparr>sk_sent = [], sk_budget = 100\<rparr>\<rparr>"

lemma wire_reads:
  "read_record identity_extern (bl_in two_on_the_wire) =
     (Inr (Some (sample_log 1)), (bl_in two_on_the_wire)\<lparr>pos := length (wire_bytes identity_extern False (sample_log 1))\<rparr>)"
  "read_record identity_extern ((bl_in two_on_the_wire)\<lparr>pos := length (wire_bytes identity_extern False (sample_log 1))\<rparr>) =
     (Inr (Some (sample_log 2)), (bl_in two_on_the_wire)\<lparr>pos := length (wire_bytes identity_extern False (sample_log 1)
        @ wire_bytes identity_extern False (sample_log 2))\<rparr>)"
  using read_record_wire [OF sample_log_on_wire [of 1], of "bl_in two_on_the_wire" "[]" "wire_bytes identity_extern False (sample_log 2)"]
    read_record_wire [OF sample_log_on_wire [of 2], of "(bl_in two_on_the_wire)\<lparr>pos := length (wire_bytes identity_extern False (sample_log 1))\<rparr>"
      "wire_bytes identity_extern False (sample_log 1)" "[]"]
  by (simp_all add: two_on_the_wire_def dev_of_def no_faults_def)

abbreviation lossy_step :: "(record_type \<times> bytes) list pipeline \<Rightarrow> (record_type \<times> bytes) list pipeline \<Rightarrow> bool" where
  "lossy_step \<equiv> pipeline_step identity_extern one_log_otlp (accept_first 0) ModeBlock 8 None True"

lemmas bridge_eval = bridge_step_def read_step_def send_step_def flush_ready_results_def enqueue_export_task_def commit_record_def
  write_bridge_state_def note_record_def Let_def

lemmas worker_eval = worker_task_def worker_expire_def report_result_def stop_worker_def batcher_add_def batcher_merge_def
  batcher_flush_def flush_if_expired_def accept_first_def merge_resource_def merge_scope_def one_log_def one_log_otlp_def Let_def

text \<open>One record read and handed to the worker.\<close>

lemma first_record_queued:
  "\<exists>p. lossy_step\<^sup>*\<^sup>* (pipeline_start two_on_the_wire 2 0 None []) p \<and> pl_pc p = Reading \<and> pl_worker p = None \<and>
     pl_tasks p = [\<lparr>et_seq = 1, et_type = Logs, et_payload = []\<rparr>] \<and> pl_results p = [] \<and> pl_pending p = [Queued 1] \<and>
     pl_batcher p = batcher_new 2 0 \<and> pl_conn p = [] \<and>
     pl_link p = two_on_the_wire\<lparr>bl_in := (bl_in two_on_the_wire)\<lparr>pos := length (wire_bytes identity_extern False (sample_log 1))\<rparr>\<rparr>"
proof -
  let ?p = "pipeline_start two_on_the_wire 2 0 None [] :: (record_type \<times> bytes) list pipeline"
  let ?p1 = "read_step identity_extern None True ?p"
  let ?p2 = "the (send_step ModeBlock 8 (sample_log 1) ?p1)"
  have p1: "bridge_step identity_extern ModeBlock 8 None True ?p = Some ?p1" by (simp add: bridge_step_def pipeline_start_def)
  have p2: "bridge_step identity_extern ModeBlock 8 None True ?p1 = Some ?p2"
    by (simp add: bridge_eval pipeline_start_def wire_reads)
  have "lossy_step\<^sup>*\<^sup>* ?p ?p2"
    using main_runs [OF p1] main_runs [OF p2] by (meson rtranclp.rtrancl_into_rtrancl rtranclp.rtrancl_refl)
  then show ?thesis
    by (intro exI [of _ ?p2] conjI) (simp_all add: bridge_eval pipeline_start_def wire_reads sample_log_def)
qed

text \<open>A batch of one, another log, and a collector that refuses.\<close>

definition half_batch :: otlp_batcher where
  "half_batch = \<lparr>ob_batch_size = 2, ob_batch_timeout = 0, ob_pending = one_log, ob_pending_count = 1, ob_first_added = Some 0\<rparr>"

lemma add_to_half_batch:
  "\<exists>e b. batcher_add one_log_otlp (accept_first 0) 0 pl half_batch [] = (Inl e, b, []) \<and> ob_pending b = [] \<and> ob_pending_count b = 0"
  by (simp add: half_batch_def batcher_add_def batcher_merge_def batcher_flush_def accept_first_def merge_resource_def one_log_otlp_def one_log_def)

lemma full_batch_lost:
  assumes "pl_worker p = None" and "pl_batcher p = half_batch" and "pl_conn p = []"
  shows "\<exists>d. worker_task one_log_otlp (accept_first 0) 0 0 \<lparr>et_seq = n, et_type = Logs, et_payload = pl\<rparr> p = d \<and>
    pl_link d = pl_link p \<and> pl_conn d = [] \<and> ob_pending (pl_batcher d) = [] \<and> pl_tasks d = pl_tasks p"
proof -
  obtain e b where "batcher_add one_log_otlp (accept_first 0) 0 pl half_batch [] = (Inl e, b, [])" "ob_pending b = []" "ob_pending_count b = 0"
    using add_to_half_batch by blast
  then show ?thesis using assms
    by (simp add: worker_task_def worker_expire_def report_result_def stop_worker_def batcher_flush_def flush_if_expired_def Let_def)
qed

text \<open>C29. With backpressure and batches of two logs the bridge reports a log as delivered when it is in the batch. In drain
  mode it then acknowledges record 1, which makes the daemon forget it, and saves it as done; when the batch is full and
  the collector refuses it, the record is neither at the collector nor in the batch nor in the queue.\<close>

theorem batched_log_is_acknowledged_and_lost:
  "\<exists>p. (pipeline_step identity_extern one_log_otlp (accept_first 0) ModeBlock 8 None True)\<^sup>*\<^sup>*
      (pipeline_start two_on_the_wire 2 0 None []) p \<and>
    sk_sent (bl_out (pl_link p)) = replay_ack_bytes \<lparr>ack_seq = 1\<rparr> \<and> bg_last_seq (bl_state (pl_link p)) = 1 \<and>
    pl_conn p = [] \<and> ob_pending (pl_batcher p) = [] \<and> pl_tasks p = []"
proof -
  obtain p where p: "lossy_step\<^sup>*\<^sup>* (pipeline_start two_on_the_wire 2 0 None []) p" "pl_pc p = Reading" "pl_worker p = None"
     "pl_tasks p = [\<lparr>et_seq = 1, et_type = Logs, et_payload = []\<rparr>]" "pl_results p = []" "pl_pending p = [Queued 1]"
     "pl_batcher p = batcher_new 2 0" "pl_conn p = []"
     "pl_link p = two_on_the_wire\<lparr>bl_in := (bl_in two_on_the_wire)\<lparr>pos := length (wire_bytes identity_extern False (sample_log 1))\<rparr>\<rparr>"
    using first_record_queued by blast
  let ?a = "worker_task one_log_otlp (accept_first 0) 0 0 \<lparr>et_seq = 1, et_type = Logs, et_payload = []\<rparr> (p\<lparr>pl_tasks := []\<rparr>)"
  have a: "?a = p\<lparr>pl_tasks := [], pl_results := [\<lparr>xr_seq = 1, xr_outcome = Inr Delivered\<rparr>],
      pl_batcher := half_batch\<rparr>"
    using p(3,5,7,8) by (cases p) (simp add: worker_eval batcher_new_def half_batch_def)
  let ?b = "read_step identity_extern None True ?a" let ?c = "the (send_step ModeBlock 8 (sample_log 2) ?b)"
  have b: "bridge_step identity_extern ModeBlock 8 None True ?a = Some ?b" unfolding a by (simp add: bridge_step_def p(2))
  have len: "length (replay_ack_bytes \<lparr>ack_seq = 1\<rparr>) = 24" by (simp add: replay_ack_bytes_def magic_defs)
  note ev = bridge_eval wire_reads p write_replay_ack_def socket_write_all_def
  have bb: "pl_pc ?b = Sending (sample_log 2)" "pl_tasks ?b = []" "pl_worker ?b = None" "pl_conn ?b = []"
      "pl_batcher ?b = pl_batcher ?a" "bg_last_seq (bl_state (pl_link ?b)) = 1"
      "sk_sent (bl_out (pl_link ?b)) = replay_ack_bytes \<lparr>ack_seq = 1\<rparr>"
    unfolding a by (simp_all add: ev len) (simp_all add: two_on_the_wire_def len)
  have c: "bridge_step identity_extern ModeBlock 8 None True ?b = Some ?c" using bb by (simp add: bridge_step_def send_step_def enqueue_export_task_def)
  have cc: "pl_tasks ?c = [\<lparr>et_seq = 2, et_type = Logs, et_payload = []\<rparr>]" "pl_worker ?c = None" "pl_conn ?c = []"
      "pl_batcher ?c = pl_batcher ?a" "pl_link ?c = pl_link ?b"
    using bb by (simp_all add: send_step_def enqueue_export_task_def sample_log_def)
  let ?d = "worker_task one_log_otlp (accept_first 0) 0 0 \<lparr>et_seq = 2, et_type = Logs, et_payload = []\<rparr> (?c\<lparr>pl_tasks := []\<rparr>)"
  have "pl_batcher ?c = half_batch" using cc(4) unfolding a by simp
  then have dd: "pl_link ?d = pl_link ?b" "pl_conn ?d = []" "ob_pending (pl_batcher ?d) = []" "pl_tasks ?d = []"
    using full_batch_lost [of "?c\<lparr>pl_tasks := []\<rparr>" 2 "[]"] cc(2,3,5) by simp_all
  have "lossy_step p ?a" using task_taken [of p _ "[]" 0 0] p(3,4) by simp
  moreover have "lossy_step ?c ?d" using task_taken [of ?c _ "[]" 0 0] cc(1,2) by simp
  ultimately have "lossy_step\<^sup>*\<^sup>* (pipeline_start two_on_the_wire 2 0 None []) ?d"
    using p(1) main_runs [OF b] main_runs [OF c] by (meson rtranclp.rtrancl_into_rtrancl)
  then show ?thesis using dd bb(6,7) by metis
qed

end
