(* ===== verification/Lj_Otlp_Msg.thy ===== *)
theory Lj_Otlp_Msg
  imports Lj_Format
begin

text \<open>
  The OTLP messages as the \<^verbatim>\<open>ljx\<close> tool and its expression engine \<^verbatim>\<open>ljcel\<close> read them: attributes
  with their typed values, log records, metric data points and spans. The message types are those of
  \<^verbatim>\<open>opentelemetry_proto\<close>, field by field where the sources look at a field; their wire encoding
  is the parameter \<open>otlp_codec\<close>. A signed integer is kept as its bits, a \<^verbatim>\<open>f64\<close> as its IEEE 754
  bits.
\<close>

type_synonym i32 = "32 word"
type_synonym i64 = "64 word"
type_synonym f64 = "64 word"

datatype any_value = AnyValue (av_value: "av_kind option")
  and av_kind =
      StringValue string
    | BoolValue bool
    | IntValue i64
    | DoubleValue f64
    | ArrayValue "any_value list"
    | KvlistValue "key_value list"
    | BytesValue bytes
  and key_value = KeyValue (kv_key: string) (kv_value: "any_value option")

section \<open>Logs\<close>

record otlp_log =
  ol_time_unix_nano :: u64
  ol_observed_time_unix_nano :: u64
  ol_severity_number :: i32
  ol_severity_text :: string
  ol_body :: "any_value option"
  ol_attributes :: "key_value list"
  ol_dropped_attributes_count :: u32
  ol_flags :: u32
  ol_trace_id :: bytes
  ol_span_id :: bytes
  ol_event_name :: string

record otlp_scope =
  os_name :: string
  os_version :: string
  os_attributes :: "key_value list"
  os_dropped_attributes_count :: u32

record otlp_resource =
  or_attributes :: "key_value list"
  or_dropped_attributes_count :: u32

record otlp_scope_logs =
  osl_scope :: "otlp_scope option"
  osl_log_records :: "otlp_log list"
  osl_schema_url :: string

record otlp_resource_logs =
  orl_resource :: "otlp_resource option"
  orl_scope_logs :: "otlp_scope_logs list"
  orl_schema_url :: string

type_synonym otlp_logs = "otlp_resource_logs list"

section \<open>Metrics\<close>

datatype number_value = AsDouble f64 | AsInt i64

record number_point =
  np_value :: "number_value option"
  np_time_unix_nano :: u64
  np_attributes :: "key_value list"

record histogram_point =
  hp_count :: u64
  hp_sum :: "f64 option"
  hp_time_unix_nano :: u64
  hp_attributes :: "key_value list"

record summary_point =
  smp_count :: u64
  smp_sum :: f64
  smp_time_unix_nano :: u64
  smp_attributes :: "key_value list"

datatype otlp_metric_data =
    GaugeData "number_point list"
  | SumData "number_point list"
  | HistogramData "histogram_point list"
  | ExponentialHistogramData "histogram_point list"
  | SummaryData "summary_point list"

record otlp_metric =
  om_name :: string
  om_description :: string
  om_unit :: string
  om_data :: "otlp_metric_data option"

record otlp_scope_metrics =
  osm_scope :: "otlp_scope option"
  osm_metrics :: "otlp_metric list"

record otlp_resource_metrics =
  orm_resource :: "otlp_resource option"
  orm_scope_metrics :: "otlp_scope_metrics list"

type_synonym otlp_metrics = "otlp_resource_metrics list"

section \<open>Traces\<close>

record otlp_status =
  ost_message :: string
  ost_code :: i32

record otlp_span =
  osp_trace_id :: bytes
  osp_span_id :: bytes
  osp_parent_span_id :: bytes
  osp_name :: string
  osp_kind :: i32
  osp_start_time_unix_nano :: u64
  osp_end_time_unix_nano :: u64
  osp_attributes :: "key_value list"
  osp_status :: "otlp_status option"

record otlp_scope_spans =
  oss_scope :: "otlp_scope option"
  oss_spans :: "otlp_span list"

record otlp_resource_spans =
  ors_resource :: "otlp_resource option"
  ors_scope_spans :: "otlp_scope_spans list"

type_synonym otlp_traces = "otlp_resource_spans list"

section \<open>The wire encoding\<close>

record otlp_codec =
  dec_logs :: "bytes \<Rightarrow> string + otlp_logs"
  enc_logs :: "otlp_logs \<Rightarrow> bytes"
  dec_metrics :: "bytes \<Rightarrow> string + otlp_metrics"
  dec_traces :: "bytes \<Rightarrow> string + otlp_traces"

text \<open>What the code relies on of the encoding: an encoded batch decodes to itself.\<close>

definition logs_message_ok :: "otlp_codec \<Rightarrow> bool" where
  "logs_message_ok K \<longleftrightarrow> (\<forall>b. dec_logs K (enc_logs K b) = Inr b)"

section \<open>Looking into a message\<close>

definition string_of_value :: "any_value \<Rightarrow> string option" where
  "string_of_value v = (case av_value v of Some (StringValue s) \<Rightarrow> Some s | _ \<Rightarrow> None)"

definition int_of_value :: "any_value \<Rightarrow> i64 option" where
  "int_of_value v = (case av_value v of Some (IntValue n) \<Rightarrow> Some n | _ \<Rightarrow> None)"

definition attr_string :: "key_value \<Rightarrow> string option" where
  "attr_string a = Option.bind (kv_value a) string_of_value"

text \<open>\<^verbatim>\<open>as_ref().map(|r| r.attributes.as_slice()).unwrap_or(&[])\<close> and its variants.\<close>

definition resource_attributes :: "otlp_resource option \<Rightarrow> key_value list" where
  "resource_attributes r = (case r of None \<Rightarrow> [] | Some r \<Rightarrow> or_attributes r)"

definition scope_attributes :: "otlp_scope option \<Rightarrow> key_value list" where
  "scope_attributes s = (case s of None \<Rightarrow> [] | Some s \<Rightarrow> os_attributes s)"

definition scope_name_of :: "otlp_scope option \<Rightarrow> string" where
  "scope_name_of s = (case s of None \<Rightarrow> [] | Some s \<Rightarrow> os_name s)"

definition body_string :: "otlp_log \<Rightarrow> string" where
  "body_string lr = (case Option.bind (ol_body lr) string_of_value of None \<Rightarrow> [] | Some s \<Rightarrow> s)"

text \<open>\<^verbatim>\<open>attributes.iter().find(|a| a.key == "service.name")\<close> followed by the string it holds: the
  first attribute of that name decides, also when it holds no string.\<close>

definition service_name_of :: "key_value list \<Rightarrow> string option" where
  "service_name_of attrs = Option.bind (List.find (\<lambda>a. kv_key a = ''service.name'') attrs) attr_string"

text \<open>The log records of a batch, each with its resource and scope.\<close>

definition logs_of_batch :: "otlp_logs \<Rightarrow> otlp_log list" where
  "logs_of_batch b = concat (map osl_log_records (concat (map orl_scope_logs b)))"

section \<open>Hexadecimal identifiers\<close>

text \<open>The two hexadecimal encoders of the sources (\<^verbatim>\<open>hex_encode\<close> of \<^verbatim>\<open>ljcel\<close> and the module
  \<^verbatim>\<open>hex\<close> of the deduplicator) print two digits for each byte.\<close>

definition hex_byte :: "u8 \<Rightarrow> string" where
  "hex_byte b = [hex_char (unat (drop_bit 4 b)), hex_char (unat (b AND 0x0f))]"

definition hex_string :: "bytes \<Rightarrow> string" where
  "hex_string bs = concat (map hex_byte bs)"

lemma hex_string_simps [simp]:
  "hex_string [] = []" "hex_string (b # bs) = hex_byte b @ hex_string bs"
  by (simp_all add: hex_string_def)

lemma hex_char_inj: "i < 16 \<Longrightarrow> j < 16 \<Longrightarrow> hex_char i = hex_char j \<longleftrightarrow> i = j"
proof -
  assume ij: "i < 16" "j < 16"
  have of: "of_char (hex_char d) = (if d < 10 then 48 + d else 87 + d :: nat)" if "d < 16" for d
    using that by (simp add: hex_char_def)
  show ?thesis
  proof
    assume "hex_char i = hex_char j"
    then have "of_char (hex_char i) = (of_char (hex_char j) :: nat)" by simp
    then have "(if i < 10 then 48 + i else 87 + i) = (if j < 10 then 48 + j else 87 + j)"
      by (simp only: of [OF ij(1)] of [OF ij(2)])
    then show "i = j" using ij by (simp split: if_splits)
  qed simp
qed

lemma nibbles: "unat (drop_bit 4 (b :: u8)) < 16" "unat (b AND 0x0f) < 16"
proof -
  have "unat b < 256" using unsigned_less [of b] by simp
  then show "unat (drop_bit 4 b) < 16" by (simp add: drop_bit_eq_div unat_div less_mult_imp_div_less)
  have "b AND 0x0f \<le> 0x0f" by (rule word_and_le1)
  then show "unat (b AND 0x0f) < 16" by (simp add: word_le_nat_alt)
qed

lemma byte_of_nibbles: "(b :: u8) = push_bit 4 (drop_bit 4 b) OR (b AND 0x0f)"
proof -
  have "b = push_bit 4 (drop_bit 4 b) OR (b AND mask 4)"
    by (rule bit_word_eqI) (auto simp: bit_simps)
  then show ?thesis by (simp add: mask_eq_exp_minus_1)
qed

lemma hex_byte_inj: "hex_byte b = hex_byte c \<longleftrightarrow> b = c"
proof
  assume "hex_byte b = hex_byte c"
  then have "unat (drop_bit 4 b) = unat (drop_bit 4 c)" "unat (b AND 0x0f) = unat (c AND 0x0f)"
    using nibbles by (auto simp: hex_byte_def hex_char_inj)
  then have "drop_bit 4 b = drop_bit 4 c" "b AND 0x0f = c AND 0x0f" by (simp_all add: word_unat_eq_iff)
  then show "b = c" using byte_of_nibbles [of b] byte_of_nibbles [of c] by simp
qed simp

text \<open>Printing an identifier is injective, so records with different identifiers keep different
  printed ones.\<close>

lemma hex_string_inj: "hex_string a = hex_string b \<longleftrightarrow> a = b"
proof (induction a arbitrary: b)
  case Nil
  then show ?case by (cases b) (auto simp: hex_byte_def)
next
  case (Cons x a)
  have two: "length (hex_byte y) = length (hex_byte z)" for y z by (simp add: hex_byte_def)
  have ne: "hex_byte x \<noteq> []" by (simp add: hex_byte_def)
  show ?case
    by (cases b) (use Cons ne in \<open>auto simp: append_eq_append_conv [OF disjI1 [OF two]] hex_byte_inj\<close>)
qed

end
