(* ===== verification/Lj_Dedup_Text.thy ===== *)
theory Lj_Dedup_Text
  imports Lj_Otlp_Msg
begin

text \<open>
  Canonical text of the log deduplicator (\<^verbatim>\<open>ljx/src/dedup/canon_freetext.rs\<close> and
  \<^verbatim>\<open>canon_kv.rs\<close>): a body is split at white space, each token is classified by its characters, and the
  variable ones are replaced by placeholders. A token is a list of bytes. The regular expressions of the
  deduplicator are the parameter \<open>dedup_rx\<close>.
\<close>

record dedup_rx =
  rx_iso8601 :: "string \<Rightarrow> bool"
  rx_kv_pairs :: "string \<Rightarrow> nat"
  rx_source_prefix :: "string \<Rightarrow> nat option"

text \<open>\<open>rx_iso8601\<close> says whether \<^verbatim>\<open>^\d{4}-\d{2}-\d{2}[T ]\d{2}:\d{2}:\d{2}\<close> matches; \<open>rx_kv_pairs\<close> counts the
  matches of \<^verbatim>\<open>\b\w+=\S+\<close>; \<open>rx_source_prefix\<close> is \<open>Some n\<close> when
  \<^verbatim>\<open>^\[[\d:]+\]\s+\S+\.\w+:\d+:?\s*\<close> matches the first \<open>n + 1\<close> bytes, a match that is never empty.
  Of the first the proofs need that a match starts with four digits.\<close>

section \<open>Characters and slices\<close>

definition is_ascii_digit :: "char \<Rightarrow> bool" where
  "is_ascii_digit c \<longleftrightarrow> (let n = of_char c :: nat in 48 \<le> n \<and> n \<le> 57)"

definition is_hex_alpha :: "char \<Rightarrow> bool" where
  "is_hex_alpha c \<longleftrightarrow> (let n = of_char c :: nat in (97 \<le> n \<and> n \<le> 102) \<or> (65 \<le> n \<and> n \<le> 70))"

definition is_ascii_hexdigit :: "char \<Rightarrow> bool" where
  "is_ascii_hexdigit c \<longleftrightarrow> is_ascii_digit c \<or> is_hex_alpha c"

definition is_ascii :: "char \<Rightarrow> bool" where
  "is_ascii c \<longleftrightarrow> of_char c < (128 :: nat)"

function split_whitespace :: "string \<Rightarrow> string list" where
  "split_whitespace s =
     (let t = dropWhile is_ws s in
      if t = [] then [] else takeWhile (\<lambda>c. \<not> is_ws c) t # split_whitespace (dropWhile (\<lambda>c. \<not> is_ws c) t))"
  by pat_completeness auto
termination
proof (relation "measure length", goal_cases)
  case (2 s t)
  then obtain c cs where "t = c # cs" "\<not> is_ws c"
    by (metis hd_dropWhile list.exhaust list.sel(1))
  moreover have "length (dropWhile (\<lambda>c. \<not> is_ws c) cs) \<le> length cs" "length t \<le> length s"
    using 2(1) length_dropWhile_le by auto
  ultimately show ?case by auto
qed simp

declare split_whitespace.simps [simp del]

fun split_on :: "char \<Rightarrow> string \<Rightarrow> string list" where
  "split_on d [] = [[]]"
| "split_on d (c # cs) =
     (if c = d then [] # split_on d cs else case split_on d cs of p # ps \<Rightarrow> (c # p) # ps | [] \<Rightarrow> [[c]])"

fun contains_str :: "string \<Rightarrow> string \<Rightarrow> bool" where
  "contains_str p [] \<longleftrightarrow> p = []"
| "contains_str p (c # cs) \<longleftrightarrow> strip_prefix p (c # cs) \<noteq> None \<or> contains_str p cs"

section \<open>Classifying a token\<close>

datatype token_class = Preserve | Replace string | CompoundTok string

definition is_uuid :: "string \<Rightarrow> bool" where
  "is_uuid b \<longleftrightarrow>
     length b = 36 \<and> b ! 8 = CHR ''-'' \<and> b ! 13 = CHR ''-'' \<and> b ! 18 = CHR ''-'' \<and> b ! 23 = CHR ''-'' \<and>
     list_all (\<lambda>(i, c). i = 8 \<or> i = 13 \<or> i = 18 \<or> i = 23 \<or> is_ascii_hexdigit c) (enumerate 0 b)"

definition is_ipv6 :: "string \<Rightarrow> bool" where
  "is_ipv6 token \<longleftrightarrow>
     (let groups = split_on CHR '':'' token in
      \<not> length groups < 7 \<and> list_all (\<lambda>g. g = [] \<or> (length g \<le> 4 \<and> list_all is_ascii_hexdigit g)) groups)"

definition is_mac :: "string \<Rightarrow> bool" where
  "is_mac b \<longleftrightarrow>
     length b = 17 \<and>
     list_all (\<lambda>i. is_ascii_hexdigit (b ! (3 * i)) \<and> is_ascii_hexdigit (b ! (3 * i + 1)) \<and>
                   (i < 5 \<longrightarrow> b ! (3 * i + 2) = CHR '':'')) [0..<6]"

definition is_ipv4 :: "string \<Rightarrow> bool" where
  "is_ipv4 token \<longleftrightarrow>
     (let groups = split_on CHR ''.'' token in
      length groups = 4 \<and>
      list_all (\<lambda>g. g \<noteq> [] \<and> length g \<le> 3 \<and> list_all is_ascii_digit g \<and>
                    (case parse_nat_below (2 ^ 16) g of Inr n \<Rightarrow> n \<le> 255 | Inl _ \<Rightarrow> False)) groups)"

text \<open>One dot with digits on both sides.\<close>

fun float_scan :: "nat \<Rightarrow> nat option \<Rightarrow> string \<Rightarrow> nat option option" where
  "float_scan i dot [] = Some dot"
| "float_scan i dot (c # cs) =
     (if c = CHR ''.'' then if dot \<noteq> None then None else float_scan (i + 1) (Some i) cs
      else if \<not> is_ascii_digit c then None else float_scan (i + 1) dot cs)"

definition is_float :: "string \<Rightarrow> bool" where
  "is_float b \<longleftrightarrow> (case float_scan 0 None b of Some (Some p) \<Rightarrow> p > 0 \<and> p < length b - 1 | _ \<Rightarrow> False)"

definition is_quoted :: "string \<Rightarrow> bool" where
  "is_quoted b \<longleftrightarrow>
     length b \<ge> 2 \<and> ((hd b = CHR 0x22 \<and> last b = CHR 0x22) \<or> (hd b = CHR 0x27 \<and> last b = CHR 0x27))"

definition is_frame_char :: "char \<Rightarrow> bool" where
  "is_frame_char c \<longleftrightarrow> c \<in> set ''()[]{}#=-.,:/@_''"

text \<open>\<^verbatim>\<open>out.push(b as char)\<close>: a byte above 127 is pushed as the character of that number, two bytes in UTF-8.\<close>

definition push_byte_as_char :: "char \<Rightarrow> string" where
  "push_byte_as_char c =
     (if is_ascii c then [c]
      else let n = of_char c :: nat in [char_of (192 + n div 64), char_of (128 + n mod 64)])"

text \<open>The index of the source's loop is the start of the rest of the token.\<close>

function mini_lexer :: "string \<Rightarrow> string" where
  "mini_lexer [] = []"
| "mini_lexer (b # bs) =
     (if is_frame_char b then b # mini_lexer bs
      else if is_ascii_hexdigit b then
        let run = takeWhile is_ascii_hexdigit (b # bs) in
        if list_ex is_hex_alpha run \<and> list_ex is_ascii_digit run \<and> length run \<ge> 8
        then ''_HEX_'' @ mini_lexer (dropWhile is_ascii_hexdigit (b # bs))
        else if is_ascii_alphabetic b
        then takeWhile is_ascii_alphabetic (b # bs) @ mini_lexer (dropWhile is_ascii_alphabetic (b # bs))
        else if length run \<ge> 3
        then ''_N_'' @ mini_lexer (dropWhile is_ascii_hexdigit (b # bs))
        else run @ mini_lexer (dropWhile is_ascii_hexdigit (b # bs))
      else if is_ascii_alphabetic b
      then takeWhile is_ascii_alphabetic (b # bs) @ mini_lexer (dropWhile is_ascii_alphabetic (b # bs))
      else push_byte_as_char b @ mini_lexer bs)"
  by pat_completeness auto
termination
  by (relation "measure length") (auto simp: le_imp_less_Suc length_dropWhile_le)

declare mini_lexer.simps [simp del]

definition compound_mini_lexer :: "string \<Rightarrow> token_class" where
  "compound_mini_lexer token = CompoundTok (mini_lexer token)"

definition classify_token :: "dedup_rx \<Rightarrow> string \<Rightarrow> token_class" where
  "classify_token rx token =
     (if token = [] then Preserve else
      let len = length token;
          has_alpha = list_ex is_ascii_alphabetic token;
          has_digit = list_ex is_ascii_digit token;
          has_colon = CHR '':'' \<in> set token;
          has_dot = CHR ''.'' \<in> set token;
          has_dash = CHR ''-'' \<in> set token in
      if has_dash \<and> len = 36 \<and> is_uuid token then Replace ''_UUID_''
      else if has_colon \<and> \<not> has_dot \<and> is_ipv6 token then Replace ''_IPV6_''
      else if has_colon \<and> len = 17 \<and> is_mac token then Replace ''_MAC_''
      else if has_dot \<and> \<not> has_alpha \<and> is_ipv4 token then Replace ''_IPV4_''
      else if len > 2 \<and> token ! 0 = CHR ''0'' \<and> (token ! 1 = CHR ''x'' \<or> token ! 1 = CHR ''X'') \<and>
              list_all is_ascii_hexdigit (drop 2 token) then Replace ''_HEX_''
      else if has_digit \<and> has_dash \<and> len \<ge> 19 \<and> rx_iso8601 rx token then Replace ''_TS_''
      else if hd token = CHR ''/'' \<and> length (filter (\<lambda>c. c = CHR ''/'') token) \<ge> 2 then Replace ''_PATH_''
      else if len \<ge> 8 \<and> list_all is_ascii_hexdigit token \<and> list_ex is_hex_alpha token then Replace ''_HEX_''
      else if is_quoted token then (if len - 2 > 16 then Replace [CHR 0x22, CHR ''_'', CHR 0x22] else Preserve)
      else if \<not> has_digit \<and> has_alpha \<and> \<not> has_colon \<and> \<not> has_dot then Preserve
      else if contains_str ''::'' token then Preserve
      else if has_alpha \<and> has_digit then compound_mini_lexer token
      else if list_all is_ascii_digit token then (if len \<le> 2 then Preserve else Replace ''_N_'')
      else if has_dot \<and> is_float token then Replace ''_F_''
      else Preserve)"

definition is_trailing_punct :: "char \<Rightarrow> bool" where
  "is_trailing_punct c \<longleftrightarrow> c \<in> set '',;:)]}''"

definition split_trailing_punct :: "string \<Rightarrow> string \<times> string" where
  "split_trailing_punct token =
     (rev (dropWhile is_trailing_punct (rev token)), rev (takeWhile is_trailing_punct (rev token)))"

definition class_text :: "string \<Rightarrow> token_class \<Rightarrow> string" where
  "class_text token c = (case c of Preserve \<Rightarrow> token | Replace r \<Rightarrow> r | CompoundTok s \<Rightarrow> s)"

definition render_token :: "dedup_rx \<Rightarrow> string \<Rightarrow> string" where
  "render_token rx token =
     (let (core, suffix) = split_trailing_punct token in class_text core (classify_token rx core) @ suffix)"

definition canonicalise_freetext :: "dedup_rx \<Rightarrow> string \<Rightarrow> string" where
  "canonicalise_freetext rx body = join '' '' (map (render_token rx) (split_whitespace body))"

section \<open>Key and value pairs\<close>

definition ALWAYS_NORMALISE_VALUE :: "string list" where
  "ALWAYS_NORMALISE_VALUE =
     [''agentid'', ''requestid'', ''reqid'', ''traceid'', ''spanid'', ''messageid'', ''task'', ''tasks'', ''count'',
      ''total'', ''num'', ''size'', ''queuesize'', ''maxqueuesize'', ''maxqueuesizeseen'']"

definition normalise_key :: "string \<Rightarrow> string" where
  "normalise_key key =
     List.map_filter (\<lambda>c.
       if c = CHR ''_'' \<or> c = CHR ''-'' \<or> c = CHR ''.'' then None
       else if is_ascii_alphabetic c then Some (to_ascii_lowercase c)
       else if is_ascii_digit c then Some c
       else None) key"

definition classify_and_render :: "dedup_rx \<Rightarrow> string \<Rightarrow> string" where
  "classify_and_render rx token = class_text token (classify_token rx token)"

definition looks_numericish :: "string \<Rightarrow> bool" where
  "looks_numericish token \<longleftrightarrow>
     list_all is_ascii_digit token \<or>
     list_all (\<lambda>b. is_ascii_digit b \<or> b = CHR ''.'' \<or> b = CHR ''-'') token"

definition canonicalise_value_for_key :: "dedup_rx \<Rightarrow> string \<Rightarrow> string \<Rightarrow> string" where
  "canonicalise_value_for_key rx key val =
     (let (core, suffix) = split_trailing_punct val in
      if core = [] then val
      else (if normalise_key key \<in> set ALWAYS_NORMALISE_VALUE \<and> looks_numericish core
            then if CHR ''.'' \<in> set core then ''_F_'' else ''_N_''
            else classify_and_render rx core) @ suffix)"

definition canonicalise_kv_token :: "dedup_rx \<Rightarrow> string \<Rightarrow> string" where
  "canonicalise_kv_token rx token =
     (case split_once CHR ''='' token of
        Some (key, val) \<Rightarrow>
          if key = [] then classify_and_render rx token
          else key @ ''='' @ canonicalise_value_for_key rx key val
      | None \<Rightarrow> classify_and_render rx token)"

definition canonicalise_kv :: "dedup_rx \<Rightarrow> string \<Rightarrow> string" where
  "canonicalise_kv rx body = join '' '' (map (canonicalise_kv_token rx) (split_whitespace body))"

end
