(* ===== verification/Lj_Float.thy ===== *)
theory Lj_Float
  imports Lj_Otlp_Msg
begin

text \<open>
  The \<^verbatim>\<open>f64\<close> operations of the sources, on IEEE 754 bits: the quotient of two integers and the
  conversion of an integer, both rounded to nearest with ties to even, and the comparisons.
\<close>

section \<open>Definitions\<close>

function ilog2 :: "int \<Rightarrow> int" where
  "ilog2 n = (if n < 2 then 0 else 1 + ilog2 (n div 2))"
  by pat_completeness auto
termination by (relation "measure nat") auto

declare ilog2.simps [simp del]

text \<open>\<open>f64_of_ratio s n\<close> is \<open>s / n\<close> for \<open>0 \<le> s\<close> and \<open>0 < n\<close> in the range of the normal numbers: the
  exponent \<open>k\<close> with \<open>2 ^ k \<le> s / n < 2 ^ (k + 1)\<close>, and the significand rounded to 53 bits. A
  significand that rounds up to \<open>2 ^ 53\<close> carries into the exponent.\<close>

definition f64_exponent :: "int \<Rightarrow> int \<Rightarrow> int" where
  "f64_exponent s n =
     (let a = ilog2 s - ilog2 n in if n * 2 ^ nat a \<le> s * 2 ^ nat (- a) then a else a - 1)"

definition round_div :: "int \<Rightarrow> int \<Rightarrow> int" where
  "round_div a b =
     (let q = a div b; r = a mod b in if 2 * r > b \<or> (2 * r = b \<and> odd q) then q + 1 else q)"

definition f64_of_ratio :: "int \<Rightarrow> int \<Rightarrow> f64" where
  "f64_of_ratio s n =
     (if s = 0 then 0 else
      let k = f64_exponent s n; e = 52 - k
      in word_of_int ((k + 1023) * 2 ^ 52 + round_div (s * 2 ^ nat e) (n * 2 ^ nat (- e)) - 2 ^ 52))"

text \<open>\<^verbatim>\<open>i as f64\<close> for an \<^verbatim>\<open>i64\<close>.\<close>

definition f64_of_i64 :: "i64 \<Rightarrow> f64" where
  "f64_of_i64 w = (if sint w < 0 then f64_of_ratio (- sint w) 1 OR push_bit 63 1 else f64_of_ratio (sint w) 1)"

definition f64_magnitude :: "f64 \<Rightarrow> int" where
  "f64_magnitude w = uint (w AND 0x7FFFFFFFFFFFFFFF)"

definition f64_is_nan :: "f64 \<Rightarrow> bool" where
  "f64_is_nan w \<longleftrightarrow> f64_magnitude w > 0x7FF0000000000000"

text \<open>The order of the finite numbers and infinities, with both zeros at the same place.\<close>

definition f64_rank :: "f64 \<Rightarrow> int" where
  "f64_rank w = (if bit w 63 then - f64_magnitude w else f64_magnitude w)"

definition f64_less :: "f64 \<Rightarrow> f64 \<Rightarrow> bool" where
  "f64_less a b \<longleftrightarrow> \<not> f64_is_nan a \<and> \<not> f64_is_nan b \<and> f64_rank a < f64_rank b"

definition f64_le :: "f64 \<Rightarrow> f64 \<Rightarrow> bool" where
  "f64_le a b \<longleftrightarrow> \<not> f64_is_nan a \<and> \<not> f64_is_nan b \<and> f64_rank a \<le> f64_rank b"

definition f64_eq :: "f64 \<Rightarrow> f64 \<Rightarrow> bool" where
  "f64_eq a b \<longleftrightarrow> \<not> f64_is_nan a \<and> \<not> f64_is_nan b \<and> f64_rank a = f64_rank b"

definition f64_zero :: f64 where "f64_zero = 0"
definition f64_one :: f64 where "f64_one = 0x3FF0000000000000"
definition f64_minus_one :: f64 where "f64_minus_one = 0xBFF0000000000000"

section \<open>Facts\<close>

lemma ilog2_bounds: "0 < n \<Longrightarrow> 0 \<le> ilog2 n \<and> 2 ^ nat (ilog2 n) \<le> n \<and> n < 2 ^ nat (ilog2 n + 1)"
proof (induction n rule: ilog2.induct)
  case (1 n)
  show ?case
  proof (cases "n < 2")
    case True
    with 1(2) show ?thesis by (simp add: ilog2.simps)
  next
    case False
    let ?l = "ilog2 (n div 2)"
    from False have "0 < n div 2" by linarith
    with 1(1) [OF False] have ih: "0 \<le> ?l" "2 ^ nat ?l \<le> n div 2" "n div 2 < 2 ^ nat (?l + 1)" by auto
    have p: "(2::int) ^ nat (1 + ?l) = 2 * 2 ^ nat ?l" "(2::int) ^ nat (2 + ?l) = 2 * 2 ^ nat (?l + 1)"
      using ih(1) by (simp_all add: nat_add_distrib)
    have "2 * 2 ^ nat ?l \<le> n" "n < 2 * 2 ^ nat (?l + 1)" using ih(2,3) by linarith+
    then show ?thesis using False ih(1) by (simp add: ilog2.simps [of n] p)
  qed
qed

text \<open>The significand is rounded to the nearest integer.\<close>

lemma round_div_bounds:
  assumes "0 < b"
  shows "\<bar>2 * (round_div a b * b - a)\<bar> \<le> b"
proof -
  have e: "a = b * (a div b) + a mod b" by simp
  have r: "0 \<le> a mod b" "a mod b < b" using assms by auto
  show ?thesis
  proof (cases "2 * (a mod b) > b \<or> (2 * (a mod b) = b \<and> odd (a div b))")
    case True
    then have "round_div a b * b - a = b - a mod b"
      using e by (simp add: round_div_def Let_def algebra_simps)
    then show ?thesis using True r by auto
  next
    case False
    then have "round_div a b * b - a = - (a mod b)"
      using e by (auto simp: round_div_def Let_def algebra_simps)
    then show ?thesis using False r by auto
  qed
qed

lemma f64_rank_one [simp]: "f64_rank f64_one = 0x3FF0000000000000"
  and f64_rank_zero [simp]: "f64_rank f64_zero = 0"
  and f64_rank_minus_one [simp]: "f64_rank f64_minus_one = - 0x3FF0000000000000"
  by code_simp+

lemma f64_not_nan [simp]: "\<not> f64_is_nan f64_one" "\<not> f64_is_nan f64_zero" "\<not> f64_is_nan f64_minus_one"
  by code_simp+

end
