(* ===== verification/Lj_Drain.thy ===== *)
theory Lj_Drain
  imports Lj_Dedup_Text Lj_Float "HOL-Library.AList"
begin

text \<open>
  The template miner of the deduplicator (\<^verbatim>\<open>ljx/src/dedup/drain3.rs\<close>): messages are tokenised and looked up in a prefix
  tree whose first level is the number of tokens; a message joins the most similar cluster or starts a new one, and the
  template of a cluster has a wildcard where its messages differ. Hash maps are association lists. The order in which a
  hash map is iterated is the parameter \<open>order\<close>, which may depend on the number of clusters so far, the path of the node
  and the keys. An \<^verbatim>\<open>unwrap\<close> that fails is \<open>None\<close>.
\<close>

type_synonym child_order = "nat \<Rightarrow> string list \<Rightarrow> string list \<Rightarrow> string list"

record drain_config =
  dc_depth :: int
  dc_sim_th :: f64
  dc_max_children :: int
  dc_max_clusters :: nat
  dc_extra_delimiters :: "string list"
  dc_parametrize_numeric_tokens :: bool

text \<open>The similarity threshold 0.4 as IEEE 754 bits.\<close>

definition drain_config_default :: drain_config where
  "drain_config_default =
     \<lparr>dc_depth = 4, dc_sim_th = 0x3FD999999999999A, dc_max_children = 100, dc_max_clusters = 1000,
      dc_extra_delimiters = [], dc_parametrize_numeric_tokens = True\<rparr>"

record log_cluster =
  lc_cluster_id :: nat
  lc_template_tokens :: "string list"
  lc_size :: nat

definition log_cluster_new :: "nat \<Rightarrow> string list \<Rightarrow> log_cluster" where
  "log_cluster_new cid tokens = \<lparr>lc_cluster_id = cid, lc_template_tokens = tokens, lc_size = 1\<rparr>"

definition cluster_template :: "log_cluster \<Rightarrow> string" where
  "cluster_template c = join '' '' (lc_template_tokens c)"

datatype node = Node (nd_children: "(string \<times> node) list") (nd_cluster_ids: "nat list")

definition node_new :: node where
  "node_new = Node [] []"

record drain =
  dr_max_node_depth :: int
  dr_sim_th :: f64
  dr_max_children :: int
  dr_root :: node
  dr_extra_delimiters :: "string list"
  dr_param_str :: string
  dr_parametrize_numeric_tokens :: bool
  dr_clusters :: "nat \<rightharpoonup> log_cluster"
  dr_next_id :: nat

definition drain_new :: "drain_config \<Rightarrow> drain" where
  "drain_new cfg =
     \<lparr>dr_max_node_depth = max (dc_depth cfg) 3 - 2, dr_sim_th = dc_sim_th cfg, dr_max_children = dc_max_children cfg,
      dr_root = node_new, dr_extra_delimiters = dc_extra_delimiters cfg, dr_param_str = ''<*>'',
      dr_parametrize_numeric_tokens = dc_parametrize_numeric_tokens cfg, dr_clusters = Map.empty, dr_next_id = 0\<rparr>"

section \<open>Tokens and similarity\<close>

lemma strip_prefix_length: "strip_prefix p s = Some rest \<Longrightarrow> length s = length p + length rest"
  by (induction p s rule: strip_prefix.induct) (auto split: if_splits)

text \<open>\<^verbatim>\<open>str::replace\<close>; the empty pattern matches before every character and at the end.\<close>

function replace_all :: "string \<Rightarrow> string \<Rightarrow> string \<Rightarrow> string" where
  "replace_all pat by [] = (if pat = [] then by else [])"
| "replace_all pat by (c # cs) =
     (if pat = [] then by @ c # replace_all pat by cs
      else case strip_prefix pat (c # cs) of
             Some rest \<Rightarrow> by @ replace_all pat by rest
           | None \<Rightarrow> c # replace_all pat by cs)"
  by pat_completeness auto
termination
  by (relation "measure (\<lambda>(pat, by, s). length s)") (auto dest!: strip_prefix_length)

definition tokenise :: "drain \<Rightarrow> string \<Rightarrow> string list" where
  "tokenise d content =
     split_whitespace (fold (\<lambda>delim s. replace_all delim '' '' s) (dr_extra_delimiters d) (trim content))"

definition has_numbers :: "string \<Rightarrow> bool" where
  "has_numbers token \<longleftrightarrow> list_ex is_ascii_digit token"

fun count_similar :: "string \<Rightarrow> string list \<Rightarrow> string list \<Rightarrow> nat \<times> nat" where
  "count_similar param (t1 # template) (t2 # tokens) =
     (let (sim, params) = count_similar param template tokens in
      if t1 = param then (sim, params + 1) else if t1 = t2 then (sim + 1, params) else (sim, params))"
| "count_similar param _ _ = (0, 0)"

definition seq_distance :: "string list \<Rightarrow> string list \<Rightarrow> string \<Rightarrow> bool \<Rightarrow> f64 \<times> int" where
  "seq_distance template tokens param include_params =
     (if length template \<noteq> length tokens then (f64_zero, 0)
      else if template = [] then (f64_one, 0)
      else let (sim_tokens, param_count) = count_similar param template tokens;
               sim_tokens = (if include_params then sim_tokens + param_count else sim_tokens)
           in (f64_of_ratio (int sim_tokens) (int (length template)), int param_count))"

definition create_template :: "string list \<Rightarrow> string list \<Rightarrow> string list" where
  "create_template seq1 seq2 = map (\<lambda>(t2, t1). if t1 = t2 then t2 else ''<*>'') (zip seq2 seq1)"

section \<open>Searching\<close>

definition fast_match_step ::
    "drain \<Rightarrow> string list \<Rightarrow> bool \<Rightarrow> nat \<Rightarrow> f64 \<times> int \<times> nat option \<Rightarrow> f64 \<times> int \<times> nat option" where
  "fast_match_step d tokens include_params cid best =
     (case dr_clusters d cid of
        None \<Rightarrow> best
      | Some cluster \<Rightarrow>
          let (best_sim, best_param_count, best_id) = best;
              (sim, param_count) = seq_distance (lc_template_tokens cluster) tokens (dr_param_str d) include_params
          in if f64_less best_sim sim \<or> (f64_eq sim best_sim \<and> param_count > best_param_count)
             then (sim, param_count, Some cid)
             else best)"

definition fast_match :: "drain \<Rightarrow> nat list \<Rightarrow> string list \<Rightarrow> bool \<Rightarrow> nat option" where
  "fast_match d candidate_ids tokens include_params =
     (let (best_sim, _, best_id) = fold (fast_match_step d tokens include_params) candidate_ids (f64_minus_one, - 1, None)
      in if f64_le (dr_sim_th d) best_sim then best_id else None)"

fun walk_tree :: "drain \<Rightarrow> nat \<Rightarrow> nat \<Rightarrow> string list \<Rightarrow> node \<Rightarrow> node option" where
  "walk_tree d token_count i [] current = Some current"
| "walk_tree d token_count i (token # tokens) current =
     (if int i + 1 \<ge> dr_max_node_depth d \<or> i + 1 \<ge> token_count then Some current
      else case map_of (nd_children current) token of
             Some child \<Rightarrow> walk_tree d token_count (i + 1) tokens child
           | None \<Rightarrow>
               (case map_of (nd_children current) (dr_param_str d) of
                  Some child \<Rightarrow> walk_tree d token_count (i + 1) tokens child
                | None \<Rightarrow> None))"

definition tree_search :: "drain \<Rightarrow> string list \<Rightarrow> nat option" where
  "tree_search d tokens =
     (let token_count = length tokens in
      case map_of (nd_children (dr_root d)) (show_nat token_count) of
        None \<Rightarrow> None
      | Some first_layer \<Rightarrow>
          if token_count = 0 then (case nd_cluster_ids first_layer of [] \<Rightarrow> None | cid # _ \<Rightarrow> Some cid)
          else
            (case walk_tree d token_count 0 tokens first_layer of
               None \<Rightarrow> None
             | Some current \<Rightarrow> fast_match d (nd_cluster_ids current) tokens False))"

lemma size_child: "(k, n) \<in> set children \<Longrightarrow> size n < size (Node children ids)"
  using size_list_estimation' [of "(k, n)" children "size n" "size_prod (\<lambda>x. 0) size"] by simp

text \<open>The children in the order of the hash map; a key that is not in the map gives nothing.\<close>

function collect_cluster_ids :: "(string list \<Rightarrow> string list \<Rightarrow> string list) \<Rightarrow> string list \<Rightarrow> node \<Rightarrow> nat list" where
  "collect_cluster_ids order path (Node children ids) =
     ids @ concat (map (\<lambda>k. case map_of children k of
                              Some child \<Rightarrow> collect_cluster_ids order (path @ [k]) child
                            | None \<Rightarrow> [])
                       (order path (map fst children)))"
  by pat_completeness auto
termination
  by (relation "measure (\<lambda>(order, path, n). size n)") (auto dest!: map_of_SomeD size_child)

definition get_cluster_ids_for_seq_len :: "child_order \<Rightarrow> drain \<Rightarrow> nat \<Rightarrow> nat list" where
  "get_cluster_ids_for_seq_len order d seq_len =
     (case map_of (nd_children (dr_root d)) (show_nat seq_len) of
        None \<Rightarrow> []
      | Some current \<Rightarrow> collect_cluster_ids (order (dr_next_id d)) [show_nat seq_len] current)"

section \<open>Growing the tree\<close>

text \<open>The key of the child a new cluster goes to; \<open>None\<close> is the failing \<^verbatim>\<open>get_mut(..).unwrap()\<close>.\<close>

definition child_key :: "drain \<Rightarrow> string \<Rightarrow> (string \<times> node) list \<Rightarrow> string option" where
  "child_key d token children =
     (let has = (\<lambda>k. map_of children k \<noteq> None); n = int (length children); param = dr_param_str d in
      if \<not> has token \<and> dr_parametrize_numeric_tokens d \<and> has_numbers token then Some param
      else if has token then Some token
      else if has param then (if n < dr_max_children d then Some token else Some param)
      else if n + 1 < dr_max_children d then Some token
      else if n + 1 = dr_max_children d then Some param
      else if has param then Some param else None)"

definition child_or_new :: "(string \<times> node) list \<Rightarrow> string \<Rightarrow> node" where
  "child_or_new children k = (case map_of children k of Some n \<Rightarrow> n | None \<Rightarrow> node_new)"

fun insert_path :: "drain \<Rightarrow> nat \<Rightarrow> nat \<Rightarrow> nat \<Rightarrow> string list \<Rightarrow> node \<Rightarrow> node option" where
  "insert_path d cid token_count i [] node = Some node"
| "insert_path d cid token_count i (token # tokens) node =
     (if int i + 1 \<ge> dr_max_node_depth d \<or> i + 1 \<ge> token_count
      then Some (Node (nd_children node) (filter (\<lambda>x. dr_clusters d x \<noteq> None) (nd_cluster_ids node) @ [cid]))
      else case child_key d token (nd_children node) of
             None \<Rightarrow> None
           | Some k \<Rightarrow>
               (case insert_path d cid token_count (i + 1) tokens (child_or_new (nd_children node) k) of
                  None \<Rightarrow> None
                | Some child \<Rightarrow> Some (Node (AList.update k child (nd_children node)) (nd_cluster_ids node))))"

definition add_to_prefix_tree :: "drain \<Rightarrow> log_cluster \<Rightarrow> drain option" where
  "add_to_prefix_tree d cluster =
     (let tokens = lc_template_tokens cluster;
          token_count = length tokens;
          count_key = show_nat token_count;
          first_layer = child_or_new (nd_children (dr_root d)) count_key;
          new_layer =
            (if token_count = 0 then Some (Node (nd_children first_layer) [lc_cluster_id cluster])
             else insert_path d (lc_cluster_id cluster) token_count 0 tokens first_layer)
      in map_option (\<lambda>n. d\<lparr>dr_root := Node (AList.update count_key n (nd_children (dr_root d)))
                                          (nd_cluster_ids (dr_root d))\<rparr>) new_layer)"

definition add_log_message :: "child_order \<Rightarrow> drain \<Rightarrow> string \<Rightarrow> ((nat \<times> bool) \<times> drain) option" where
  "add_log_message order d content =
     (let tokens = tokenise d content;
          matched =
            (case tree_search d tokens of
               Some cid \<Rightarrow> Some cid
             | None \<Rightarrow> fast_match d (get_cluster_ids_for_seq_len order d (length tokens)) tokens True)
      in case matched of
           Some cid \<Rightarrow>
             (case dr_clusters d cid of
                None \<Rightarrow> None
              | Some cluster \<Rightarrow>
                  let cluster = cluster\<lparr>lc_template_tokens := create_template tokens (lc_template_tokens cluster),
                                        lc_size := lc_size cluster + 1\<rparr>
                  in Some ((cid, False), d\<lparr>dr_clusters := (dr_clusters d)(cid \<mapsto> cluster)\<rparr>))
         | None \<Rightarrow>
             let cid = dr_next_id d + 1;
                 cluster = log_cluster_new cid tokens
             in map_option (\<lambda>d. ((cid, True), d\<lparr>dr_clusters := (dr_clusters d)(cid \<mapsto> cluster)\<rparr>))
                  (add_to_prefix_tree (d\<lparr>dr_next_id := cid\<rparr>) cluster))"

text \<open>Feeding a list of messages: the cluster of each.\<close>

fun add_log_messages :: "child_order \<Rightarrow> drain \<Rightarrow> string list \<Rightarrow> (nat list \<times> drain) option" where
  "add_log_messages order d [] = Some ([], d)"
| "add_log_messages order d (m # ms) =
     (case add_log_message order d m of
        None \<Rightarrow> None
      | Some ((cid, _), d) \<Rightarrow> map_option (apfst ((#) cid)) (add_log_messages order d ms))"

end
