(* ===== verification/Lj_Dedup_Canon.thy ===== *)
theory Lj_Dedup_Canon
  imports Lj_Dedup_Text Lj_Float "HOL-Library.Char_ord" "HOL-Library.List_Lexorder"
begin

text \<open>
  The shape of a log body (\<^verbatim>\<open>ljx/src/dedup/detect.rs\<close>), the canonical form of JSON bodies
  (\<^verbatim>\<open>canon_json.rs\<close>) and the choice between the canonical forms (\<^verbatim>\<open>canon.rs\<close>). JSON values are those of
  \<^verbatim>\<open>serde_json\<close>, an object as the list of its entries; parsing and printing are the parameter
  \<open>json_crate\<close>.
\<close>

datatype json_number = PosInt u64 | NegInt i64 | FloatNum f64

datatype json =
    JNull
  | JBool bool
  | JNumber json_number
  | JString string
  | JArray "json list"
  | JObject "(string \<times> json) list"

record json_crate =
  jc_from_str :: "string \<Rightarrow> json option"
  jc_to_string :: "json \<Rightarrow> string"

text \<open>\<^verbatim>\<open>json!(i)\<close> and \<^verbatim>\<open>as_i64\<close> on the three representations of a number.\<close>

definition json_of_i64 :: "i64 \<Rightarrow> json" where
  "json_of_i64 i = JNumber (if i <s 0 then NegInt i else PosInt i)"

fun as_i64 :: "json_number \<Rightarrow> i64 option" where
  "as_i64 (PosInt n) = (if unat n < 2 ^ 63 then Some n else None)"
| "as_i64 (NegInt i) = Some i"
| "as_i64 (FloatNum _) = None"

fun as_u64 :: "json_number \<Rightarrow> u64 option" where
  "as_u64 (PosInt n) = Some n"
| "as_u64 _ = None"

section \<open>Canonical JSON\<close>

definition ALWAYS_NORMALISE :: "string list" where
  "ALWAYS_NORMALISE =
     [''requestid'', ''reqid'', ''pathid'', ''routeid'', ''sessionid'', ''correlationid'', ''traceid'', ''spanid'',
      ''messageid'', ''offset'', ''position'', ''cursor'', ''size'', ''length'', ''len'', ''task'', ''tasks'',
      ''count'', ''total'', ''num'', ''timestamp'', ''time'', ''epoch'', ''ts'', ''duration'', ''elapsed'',
      ''latency'', ''port'', ''pid'', ''tid'', ''threadid'']"

definition starts_with :: "char \<Rightarrow> string \<Rightarrow> bool" where
  "starts_with c s \<longleftrightarrow> s \<noteq> [] \<and> hd s = c"

definition canonicalise_string :: "string \<Rightarrow> string" where
  "canonicalise_string s =
     (if length s = 36 \<and> is_uuid s then ''_UUID_''
      else if starts_with CHR ''/'' s then ''_PATH_''
      else if length s \<le> 12 \<and> list_all (\<lambda>b. is_ascii_alphabetic b \<or> b = CHR ''_'') s then s
      else if length s > 40 \<or> list_ex is_ascii_digit s \<or> CHR ''.'' \<in> set s \<or> CHR ''-'' \<in> set s \<or> CHR ''/'' \<in> set s
      then ''_''
      else s)"

definition canonicalise_number :: "string \<Rightarrow> json_number \<Rightarrow> json" where
  "canonicalise_number key n =
     (if normalise_key key \<in> set ALWAYS_NORMALISE then JNumber (PosInt 0)
      else if as_i64 n = None \<and> as_u64 n = None then
        (case n of
           FloatNum f \<Rightarrow>
             if f64_eq f f64_zero \<or> f64_eq f f64_one then JNumber (FloatNum f) else JNumber (FloatNum f64_zero)
         | _ \<Rightarrow> JNumber (FloatNum f64_zero))
      else
        (case as_i64 n of
           Some i \<Rightarrow> if \<bar>sint i\<bar> < 1000 then json_of_i64 i else JNumber (PosInt 0)
         | None \<Rightarrow>
             (case as_u64 n of
                Some u \<Rightarrow> if u < 1000 then JNumber (PosInt u) else JNumber (PosInt 0)
              | None \<Rightarrow> JNumber (PosInt 0))))"

fun is_object :: "json \<Rightarrow> bool" where
  "is_object (JObject _) = True"
| "is_object _ = False"

fun is_array :: "json \<Rightarrow> bool" where
  "is_array (JArray _) = True"
| "is_array _ = False"

definition canonicalise_array :: "json list \<Rightarrow> json" where
  "canonicalise_array arr =
     (case arr of
        [] \<Rightarrow> JArray []
      | first # _ \<Rightarrow>
          if list_all (\<lambda>v. \<not> is_object v \<and> \<not> is_array v) arr then JObject [(''__arr'', JString ''scalar'')]
          else
            (case first of
               JObject m \<Rightarrow>
                 JObject [(''__arr'', JString ''object''), (''__shape'', JArray (map JString (sort (map fst m))))]
             | _ \<Rightarrow> JObject [(''__arr'', JString ''mixed'')]))"

lemma size_object_entry: "(k, v) \<in> set m \<Longrightarrow> size v < Suc (size_list (size_prod (\<lambda>x. 0) size) m)"
  using size_list_estimation' [of "(k, v)" m "size v" "size_prod (\<lambda>x. 0) size"] by simp

lemma size_array_element: "(v :: json) \<in> set xs \<Longrightarrow> size v < Suc (size_list size xs)"
  by (simp add: size_list_estimation' less_Suc_eq_le)

function canonicalise_value :: "string \<Rightarrow> json \<Rightarrow> json" where
  "canonicalise_value key (JObject m) = JObject (map (\<lambda>(k, v). (k, canonicalise_value k v)) m)"
| "canonicalise_value key (JArray arr) = canonicalise_array arr"
| "canonicalise_value key (JString s) = JString (canonicalise_string s)"
| "canonicalise_value key (JNumber n) = canonicalise_number key n"
| "canonicalise_value key (JBool b) = JBool b"
| "canonicalise_value key JNull = JNull"
  by pat_completeness auto
termination
  by (relation "measure (\<lambda>(key, v). size v)") (auto dest: size_object_entry)

function sorted_json_string :: "json_crate \<Rightarrow> json \<Rightarrow> string" where
  "sorted_json_string J (JObject m) =
     ''{'' @ join '','' (map (\<lambda>(k, v). jc_to_string J (JString k) @ '':'' @ sorted_json_string J v) (sort_key fst m)) @ ''}''"
| "sorted_json_string J (JArray arr) = ''['' @ join '','' (map (sorted_json_string J) arr) @ '']''"
| "sorted_json_string J JNull = jc_to_string J JNull"
| "sorted_json_string J (JBool b) = jc_to_string J (JBool b)"
| "sorted_json_string J (JNumber n) = jc_to_string J (JNumber n)"
| "sorted_json_string J (JString s) = jc_to_string J (JString s)"
  by pat_completeness auto
termination
  by (relation "measure (\<lambda>(J, v). size v)") (auto dest: size_object_entry size_array_element)

definition canonicalise_json_to_string :: "json_crate \<Rightarrow> string \<Rightarrow> string option" where
  "canonicalise_json_to_string J body =
     map_option (\<lambda>v. sorted_json_string J (canonicalise_value [] v)) (jc_from_str J body)"

section \<open>The shape of a body\<close>

datatype body_shape = BodyJson | BodyKeyValue | BodySourcePrefixed | BodyFreeText

record detected =
  det_shape :: body_shape
  det_json_value :: "json option"
  det_stripped_suffix :: "string option"

definition opens_json :: "string \<Rightarrow> bool" where
  "opens_json s \<longleftrightarrow> starts_with CHR ''{'' s \<or> starts_with CHR ''['' s"

definition is_key_value :: "dedup_rx \<Rightarrow> string \<Rightarrow> bool" where
  "is_key_value rx body \<longleftrightarrow> rx_kv_pairs rx body \<ge> 2"

definition strip_source_prefix :: "dedup_rx \<Rightarrow> string \<Rightarrow> string option" where
  "strip_source_prefix rx body =
     (case rx_source_prefix rx body of
        None \<Rightarrow> None
      | Some n \<Rightarrow> let suffix = drop (n + 1) body in if suffix = [] then None else Some suffix)"

fun json_prefix_loop :: "json_crate \<Rightarrow> nat \<Rightarrow> nat \<Rightarrow> string \<Rightarrow> string option" where
  "json_prefix_loop J trimmed_start idx [] = None"
| "json_prefix_loop J trimmed_start idx (ch # rest) =
     (if \<not> (ch = CHR ''{'' \<or> ch = CHR ''['') then json_prefix_loop J trimmed_start (idx + 1) rest
      else let suffix = trim_start (ch # rest) in
        if \<not> opens_json suffix then json_prefix_loop J trimmed_start (idx + 1) rest
        else if idx = trimmed_start then json_prefix_loop J trimmed_start (idx + 1) rest
        else if jc_from_str J suffix \<noteq> None then Some suffix
        else json_prefix_loop J trimmed_start (idx + 1) rest)"

definition strip_json_prefix :: "json_crate \<Rightarrow> string \<Rightarrow> string option" where
  "strip_json_prefix J body = json_prefix_loop J (length body - length (trim_start body)) 0 body"

definition detect :: "dedup_rx \<Rightarrow> json_crate \<Rightarrow> string \<Rightarrow> detected" where
  "detect rx J body =
     (let trimmed = trim_start body in
      case (if opens_json trimmed then jc_from_str J trimmed else None) of
        Some val \<Rightarrow> \<lparr>det_shape = BodyJson, det_json_value = Some val, det_stripped_suffix = None\<rparr>
      | None \<Rightarrow>
          (case strip_json_prefix J body of
             Some suffix \<Rightarrow>
               \<lparr>det_shape = BodySourcePrefixed, det_json_value = None, det_stripped_suffix = Some suffix\<rparr>
           | None \<Rightarrow>
               if is_key_value rx body
               then \<lparr>det_shape = BodyKeyValue, det_json_value = None, det_stripped_suffix = None\<rparr>
               else
                 (case strip_source_prefix rx body of
                    Some suffix \<Rightarrow>
                      \<lparr>det_shape = BodySourcePrefixed, det_json_value = None, det_stripped_suffix = Some suffix\<rparr>
                  | None \<Rightarrow> \<lparr>det_shape = BodyFreeText, det_json_value = None, det_stripped_suffix = None\<rparr>)))"

section \<open>The canonical form of a body\<close>

lemma json_prefix_loop_shorter:
  "json_prefix_loop J t idx s = Some suffix \<Longrightarrow>
   length suffix < length s \<or> (length suffix = length s \<and> idx \<noteq> t \<and> opens_json s)"
proof (induction J t idx s rule: json_prefix_loop.induct)
  case (2 J t idx ch rest)
  have len: "length (trim_start (ch # rest)) \<le> length (ch # rest)"
    unfolding trim_start_def by (rule length_dropWhile_le)
  have "opens_json (ch # rest)" if "ch = CHR ''{'' \<or> ch = CHR ''[''"
    using that by (auto simp: opens_json_def starts_with_def)
  then show ?case
    using 2 len by (fastforce simp: Let_def split: if_splits)
qed simp

lemma strip_json_prefix_shorter: "strip_json_prefix J body = Some suffix \<Longrightarrow> length suffix < length body"
proof -
  assume a: "strip_json_prefix J body = Some suffix"
  have "trim_start body = body" if "opens_json body"
    using that by (cases body) (auto simp: opens_json_def starts_with_def trim_start_def is_ws_def)
  then show ?thesis
    using json_prefix_loop_shorter [OF a [unfolded strip_json_prefix_def]] by auto
qed

lemma stripped_suffix_shorter:
  assumes "det_shape (detect rx J body) = BodySourcePrefixed"
  obtains suffix where "det_stripped_suffix (detect rx J body) = Some suffix" "length suffix < length body"
  using assms strip_json_prefix_shorter [of J body]
  by (auto simp: detect_def strip_source_prefix_def Let_def split: option.splits if_splits)

function canonicalise_body :: "dedup_rx \<Rightarrow> json_crate \<Rightarrow> string \<Rightarrow> string \<times> string" where
  "canonicalise_body rx J body =
     (let detected = detect rx J body in
      case det_shape detected of
        BodyJson \<Rightarrow>
          (case canonicalise_json_to_string J (trim_start body) of
             Some canon \<Rightarrow> (canon, ''json'')
           | None \<Rightarrow> (canonicalise_freetext rx body, ''freetext''))
      | BodyKeyValue \<Rightarrow> (canonicalise_kv rx body, ''kv'')
      | BodySourcePrefixed \<Rightarrow>
          let suffix = (case det_stripped_suffix detected of Some s \<Rightarrow> s | None \<Rightarrow> body);
              (canon, inner_shape) = canonicalise_body rx J suffix
          in (canon, ''prefixed/'' @ inner_shape)
      | BodyFreeText \<Rightarrow> (canonicalise_freetext rx body, ''freetext''))"
  by pat_completeness auto
termination
  by (relation "measure (\<lambda>(rx, J, body). length body)") (auto elim: stripped_suffix_shorter)

declare canonicalise_body.simps [simp del]

section \<open>What canonical JSON keeps\<close>






















end
