(* ===== verification/Lj_Cel.thy ===== *)
theory Lj_Cel
  imports Lj_Float "HOL-Library.AList"
begin

text \<open>
  The expression engine \<^verbatim>\<open>ljcel\<close> (\<^verbatim>\<open>ljcel/src\<close>): how a log record, a metric data point or a span
  is presented to a CEL expression, and how an expression decides on a whole OTLP payload. The
  \<^verbatim>\<open>cel\<close> crate itself is the parameter \<open>cel_crate\<close>, with its program and context types left open.
\<close>

section \<open>The interpreter and its values\<close>

datatype cel_error = Compile string | Decode string | NotBoolean string

fun cel_error_display :: "cel_error \<Rightarrow> string" where
  "cel_error_display (Compile m) = ''CEL compilation failed: '' @ m"
| "cel_error_display (Decode m) = ''OTLP decode failed: '' @ m"
| "cel_error_display (NotBoolean v) = ''CEL result was not boolean: '' @ v"

text \<open>The values the sources build, and those an evaluation may return besides.\<close>

datatype cel_value =
    CelString string
  | CelBool bool
  | CelInt i64
  | CelFloat f64
  | CelList "cel_value list"
  | CelMap "(string \<times> cel_value) list"
  | CelOther string

record ('p, 'c) cel_crate =
  cel_compile :: "string \<Rightarrow> string + 'p"
  cel_default :: 'c
  cel_add :: "'c \<Rightarrow> string \<Rightarrow> cel_value \<Rightarrow> string + 'c"
  cel_execute :: "'p \<Rightarrow> 'c \<Rightarrow> string + cel_value"
  cel_debug :: "cel_value \<Rightarrow> string"

section \<open>Attributes\<close>

lemma size_list_member: "x \<in> set xs \<Longrightarrow> size x < Suc (size_list size xs)"
  by (simp add: size_list_estimation' less_Suc_eq_le)

lemma size_kv_value: "kv_value item = Some v \<Longrightarrow> size v < size item"
  by (cases item) auto

function any_value_to_cel :: "any_value \<Rightarrow> cel_value" where
  "any_value_to_cel (AnyValue v) =
     (case v of
        Some (StringValue s) \<Rightarrow> CelString s
      | Some (BoolValue b) \<Rightarrow> CelBool b
      | Some (IntValue n) \<Rightarrow> CelInt n
      | Some (DoubleValue d) \<Rightarrow> CelFloat d
      | Some (BytesValue b) \<Rightarrow> CelString (''<'' @ show_nat (length b) @ '' bytes>'')
      | Some (ArrayValue a) \<Rightarrow> CelList (map any_value_to_cel a)
      | Some (KvlistValue k) \<Rightarrow>
          CelMap (fold (\<lambda>item m. case kv_value item of
                                   None \<Rightarrow> m
                                 | Some v \<Rightarrow> AList.update (kv_key item) (any_value_to_cel v) m) k [])
      | None \<Rightarrow> CelString [])"
  by pat_completeness auto

termination
proof (relation "measure size", goal_cases)
  case (2 v k a x)
  then show ?case using size_list_member [of x a] by simp
next
  case (3 v k l item m w)
  then show ?case using size_list_member [of item l] size_kv_value [of item w] by simp
qed simp

declare any_value_to_cel.simps [simp del]

text \<open>The attributes of a resource, a scope or a record. The set \<open>seen\<close> keeps the first attribute of
  each name, also when it has no value.\<close>

fun kv_map_loop :: "string list \<Rightarrow> (string \<times> cel_value) list \<Rightarrow> key_value list \<Rightarrow> (string \<times> cel_value) list" where
  "kv_map_loop seen m [] = m"
| "kv_map_loop seen m (attr # attrs) =
     (if kv_key attr \<in> set seen then kv_map_loop seen m attrs
      else kv_map_loop (kv_key attr # seen)
             (case kv_value attr of None \<Rightarrow> m | Some v \<Rightarrow> AList.update (kv_key attr) (any_value_to_cel v) m) attrs)"

definition key_values_to_cel_map :: "key_value list \<Rightarrow> cel_value" where
  "key_values_to_cel_map attrs = CelMap (kv_map_loop [] [] attrs)"

definition extract_service_name :: "key_value list \<Rightarrow> string" where
  "extract_service_name attrs = (case service_name_of attrs of None \<Rightarrow> [] | Some s \<Rightarrow> s)"

definition hex_encode :: "bytes \<Rightarrow> string" where
  "hex_encode bs = (if bs = [] then [] else hex_string bs)"

section \<open>Contexts\<close>

definition add_variable :: "('p, 'c) cel_crate \<Rightarrow> string \<Rightarrow> cel_value \<Rightarrow> 'c \<Rightarrow> cel_error + 'c" where
  "add_variable C name v ctx =
     (case cel_add C ctx name v of Inl e \<Rightarrow> Inl (Compile (name @ '': '' @ e)) | Inr ctx \<Rightarrow> Inr ctx)"

text \<open>The methods \<^verbatim>\<open>to_cel_context\<close> add one variable after the other, some of them under a
  condition, and stop at the first failure: a list of conditional bindings, folded.\<close>

fun add_variables :: "('p, 'c) cel_crate \<Rightarrow> (bool \<times> string \<times> cel_value) list \<Rightarrow> 'c \<Rightarrow> cel_error + 'c" where
  "add_variables C [] ctx = Inr ctx"
| "add_variables C ((present, name, v) # bs) ctx =
     (if present then and_then (add_variable C name v ctx) (add_variables C bs) else add_variables C bs ctx)"

record log_context =
  lc_body :: string
  lc_severity_text :: string
  lc_severity_number :: i64
  lc_event_name :: string
  lc_service_name :: string
  lc_scope_name :: string
  lc_time_unix_nano :: i64
  lc_observed_time_unix_nano :: i64
  lc_trace_id :: string
  lc_span_id :: string
  lc_flags :: i32
  lc_resource :: cel_value
  lc_scope :: cel_value
  lc_attributes :: cel_value

definition log_bindings :: "log_context \<Rightarrow> (bool \<times> string \<times> cel_value) list" where
  "log_bindings x =
     [(True, ''body'', CelString (lc_body x)),
      (True, ''severity_text'', CelString (lc_severity_text x)),
      (True, ''severity_number'', CelInt (lc_severity_number x)),
      (lc_event_name x \<noteq> [], ''event_name'', CelString (lc_event_name x)),
      (lc_service_name x \<noteq> [], ''service_name'', CelString (lc_service_name x)),
      (lc_scope_name x \<noteq> [], ''scope_name'', CelString (lc_scope_name x)),
      (True, ''time_unix_nano'', CelInt (lc_time_unix_nano x)),
      (0 <s lc_observed_time_unix_nano x, ''observed_time_unix_nano'', CelInt (lc_observed_time_unix_nano x)),
      (lc_trace_id x \<noteq> [], ''trace_id'', CelString (lc_trace_id x)),
      (lc_span_id x \<noteq> [], ''span_id'', CelString (lc_span_id x)),
      (lc_flags x \<noteq> 0, ''flags'', CelInt (scast (lc_flags x))),
      (True, ''resource'', lc_resource x),
      (True, ''scope'', lc_scope x),
      (True, ''attributes'', lc_attributes x)]"

definition log_to_cel_context :: "('p, 'c) cel_crate \<Rightarrow> log_context \<Rightarrow> cel_error + 'c" where
  "log_to_cel_context C x = add_variables C (log_bindings x) (cel_default C)"

record metric_context =
  mc_metric_name :: string
  mc_metric_unit :: string
  mc_metric_description :: string
  mc_metric_type :: string
  mc_value :: f64
  mc_count :: i64
  mc_sum :: f64
  mc_time_unix_nano :: i64
  mc_service_name :: string
  mc_scope_name :: string
  mc_resource :: cel_value
  mc_scope :: cel_value
  mc_attributes :: cel_value

definition metric_bindings :: "metric_context \<Rightarrow> (bool \<times> string \<times> cel_value) list" where
  "metric_bindings x =
     [(True, ''metric_name'', CelString (mc_metric_name x)),
      (mc_metric_unit x \<noteq> [], ''metric_unit'', CelString (mc_metric_unit x)),
      (mc_metric_description x \<noteq> [], ''metric_description'', CelString (mc_metric_description x)),
      (True, ''metric_type'', CelString (mc_metric_type x)),
      (True, ''value'', CelFloat (mc_value x)),
      (True, ''count'', CelInt (mc_count x)),
      (True, ''sum'', CelFloat (mc_sum x)),
      (0 <s mc_time_unix_nano x, ''time_unix_nano'', CelInt (mc_time_unix_nano x)),
      (mc_service_name x \<noteq> [], ''service_name'', CelString (mc_service_name x)),
      (mc_scope_name x \<noteq> [], ''scope_name'', CelString (mc_scope_name x)),
      (True, ''resource'', mc_resource x),
      (True, ''scope'', mc_scope x),
      (True, ''attributes'', mc_attributes x)]"

definition metric_to_cel_context :: "('p, 'c) cel_crate \<Rightarrow> metric_context \<Rightarrow> cel_error + 'c" where
  "metric_to_cel_context C x = add_variables C (metric_bindings x) (cel_default C)"

record span_context =
  sc_trace_id :: string
  sc_span_id :: string
  sc_parent_span_id :: string
  sc_name :: string
  sc_kind :: i64
  sc_start_time_unix_nano :: i64
  sc_end_time_unix_nano :: i64
  sc_duration_ns :: i64
  sc_status_code :: i64
  sc_status_message :: string
  sc_service_name :: string
  sc_scope_name :: string
  sc_resource :: cel_value
  sc_scope :: cel_value
  sc_attributes :: cel_value

definition span_bindings :: "span_context \<Rightarrow> (bool \<times> string \<times> cel_value) list" where
  "span_bindings x =
     [(sc_trace_id x \<noteq> [], ''trace_id'', CelString (sc_trace_id x)),
      (True, ''span_id'', CelString (sc_span_id x)),
      (sc_parent_span_id x \<noteq> [], ''parent_span_id'', CelString (sc_parent_span_id x)),
      (True, ''name'', CelString (sc_name x)),
      (True, ''kind'', CelInt (sc_kind x)),
      (0 <s sc_start_time_unix_nano x, ''start_time_unix_nano'', CelInt (sc_start_time_unix_nano x)),
      (0 <s sc_end_time_unix_nano x, ''end_time_unix_nano'', CelInt (sc_end_time_unix_nano x)),
      (0 <s sc_duration_ns x, ''duration_ns'', CelInt (sc_duration_ns x)),
      (True, ''status_code'', CelInt (sc_status_code x)),
      (sc_status_message x \<noteq> [], ''status_message'', CelString (sc_status_message x)),
      (sc_service_name x \<noteq> [], ''service_name'', CelString (sc_service_name x)),
      (sc_scope_name x \<noteq> [], ''scope_name'', CelString (sc_scope_name x)),
      (True, ''resource'', sc_resource x),
      (True, ''scope'', sc_scope x),
      (True, ''attributes'', sc_attributes x)]"

definition span_to_cel_context :: "('p, 'c) cel_crate \<Rightarrow> span_context \<Rightarrow> cel_error + 'c" where
  "span_to_cel_context C x = add_variables C (span_bindings x) (cel_default C)"

section \<open>Contexts of a payload\<close>

definition log_context_of :: "key_value list \<Rightarrow> otlp_scope option \<Rightarrow> otlp_log \<Rightarrow> log_context" where
  "log_context_of res scope lr =
     \<lparr>lc_body = body_string lr,
      lc_severity_text = ol_severity_text lr,
      lc_severity_number = scast (ol_severity_number lr),
      lc_event_name = ol_event_name lr,
      lc_service_name = extract_service_name res,
      lc_scope_name = scope_name_of scope,
      lc_time_unix_nano = ol_time_unix_nano lr,
      lc_observed_time_unix_nano = ol_observed_time_unix_nano lr,
      lc_trace_id = hex_encode (ol_trace_id lr),
      lc_span_id = hex_encode (ol_span_id lr),
      lc_flags = ol_flags lr,
      lc_resource = key_values_to_cel_map res,
      lc_scope = key_values_to_cel_map (scope_attributes scope),
      lc_attributes = key_values_to_cel_map (ol_attributes lr)\<rparr>"

definition log_contexts :: "otlp_logs \<Rightarrow> log_context list" where
  "log_contexts batch =
     concat (map (\<lambda>rl. concat (map (\<lambda>sl.
       map (log_context_of (resource_attributes (orl_resource rl)) (osl_scope sl)) (osl_log_records sl))
       (orl_scope_logs rl))) batch)"

definition metric_context_of ::
    "key_value list \<Rightarrow> otlp_scope option \<Rightarrow> otlp_metric \<Rightarrow> string \<Rightarrow> f64 \<Rightarrow> i64 \<Rightarrow> f64 \<Rightarrow> u64 \<Rightarrow> key_value list \<Rightarrow>
     metric_context" where
  "metric_context_of res scope metric ty v n s ts attrs =
     \<lparr>mc_metric_name = om_name metric,
      mc_metric_unit = om_unit metric,
      mc_metric_description = om_description metric,
      mc_metric_type = ty,
      mc_value = v,
      mc_count = n,
      mc_sum = s,
      mc_time_unix_nano = ts,
      mc_service_name = extract_service_name res,
      mc_scope_name = scope_name_of scope,
      mc_resource = key_values_to_cel_map res,
      mc_scope = key_values_to_cel_map (scope_attributes scope),
      mc_attributes = key_values_to_cel_map attrs\<rparr>"

definition number_value_f64 :: "number_value option \<Rightarrow> f64" where
  "number_value_f64 v = (case v of None \<Rightarrow> f64_zero | Some (AsDouble d) \<Rightarrow> d | Some (AsInt i) \<Rightarrow> f64_of_i64 i)"

definition metric_point_contexts :: "key_value list \<Rightarrow> otlp_scope option \<Rightarrow> otlp_metric \<Rightarrow> metric_context list" where
  "metric_point_contexts res scope metric =
     (let ctx = metric_context_of res scope metric;
          opt = (\<lambda>s. case s of None \<Rightarrow> f64_zero | Some x \<Rightarrow> x) in
      case om_data metric of
        Some (GaugeData g) \<Rightarrow>
          map (\<lambda>dp. ctx ''Gauge'' (number_value_f64 (np_value dp)) 0 f64_zero (np_time_unix_nano dp) (np_attributes dp)) g
      | Some (SumData g) \<Rightarrow>
          map (\<lambda>dp. ctx ''Sum'' (number_value_f64 (np_value dp)) 0 f64_zero (np_time_unix_nano dp) (np_attributes dp)) g
      | Some (HistogramData h) \<Rightarrow>
          map (\<lambda>dp. ctx ''Histogram'' f64_zero (hp_count dp) (opt (hp_sum dp)) (hp_time_unix_nano dp) (hp_attributes dp)) h
      | Some (ExponentialHistogramData h) \<Rightarrow>
          map (\<lambda>dp. ctx ''ExponentialHistogram'' f64_zero (hp_count dp) (opt (hp_sum dp)) (hp_time_unix_nano dp)
                      (hp_attributes dp)) h
      | Some (SummaryData s) \<Rightarrow>
          map (\<lambda>dp. ctx ''Summary'' f64_zero (smp_count dp) (smp_sum dp) (smp_time_unix_nano dp) (smp_attributes dp)) s
      | None \<Rightarrow> [])"

definition metric_contexts :: "otlp_metrics \<Rightarrow> metric_context list" where
  "metric_contexts batch =
     concat (map (\<lambda>rm. concat (map (\<lambda>sm. concat (map
       (metric_point_contexts (resource_attributes (orm_resource rm)) (osm_scope sm)) (osm_metrics sm)))
       (orm_scope_metrics rm))) batch)"

definition span_context_of :: "key_value list \<Rightarrow> otlp_scope option \<Rightarrow> otlp_span \<Rightarrow> span_context" where
  "span_context_of res scope sp =
     (let (status_code, status_message) =
        (case osp_status sp of None \<Rightarrow> (0, []) | Some s \<Rightarrow> (ost_code s, ost_message s)) in
     \<lparr>sc_trace_id = hex_encode (osp_trace_id sp),
      sc_span_id = hex_encode (osp_span_id sp),
      sc_parent_span_id = hex_encode (osp_parent_span_id sp),
      sc_name = osp_name sp,
      sc_kind = scast (osp_kind sp),
      sc_start_time_unix_nano = osp_start_time_unix_nano sp,
      sc_end_time_unix_nano = osp_end_time_unix_nano sp,
      sc_duration_ns = saturating_sub (osp_end_time_unix_nano sp) (osp_start_time_unix_nano sp),
      sc_status_code = scast status_code,
      sc_status_message = status_message,
      sc_service_name = extract_service_name res,
      sc_scope_name = scope_name_of scope,
      sc_resource = key_values_to_cel_map res,
      sc_scope = key_values_to_cel_map (scope_attributes scope),
      sc_attributes = key_values_to_cel_map (osp_attributes sp)\<rparr>)"

definition span_contexts :: "otlp_traces \<Rightarrow> span_context list" where
  "span_contexts batch =
     concat (map (\<lambda>rs. concat (map (\<lambda>ss.
       map (span_context_of (resource_attributes (ors_resource rs)) (oss_scope ss)) (oss_spans ss))
       (ors_scope_spans rs))) batch)"

section \<open>Expressions\<close>

record 'p cel_expression =
  ce_program :: 'p
  ce_source :: string

definition cel_expression_compile :: "('p, 'c) cel_crate \<Rightarrow> string \<Rightarrow> cel_error + 'p cel_expression" where
  "cel_expression_compile C expr =
     (case cel_compile C expr of
        Inl e \<Rightarrow> Inl (Compile e)
      | Inr program \<Rightarrow> Inr \<lparr>ce_program = program, ce_source = expr\<rparr>)"

definition eval_bool :: "('p, 'c) cel_crate \<Rightarrow> 'p cel_expression \<Rightarrow> 'c \<Rightarrow> cel_error + bool" where
  "eval_bool C x ctx =
     (case cel_execute C (ce_program x) ctx of
        Inr (CelBool b) \<Rightarrow> Inr b
      | Inr other \<Rightarrow> Inl (NotBoolean (cel_debug C other))
      | Inl e \<Rightarrow> Inl (Compile e))"

definition eval_log :: "('p, 'c) cel_crate \<Rightarrow> 'p cel_expression \<Rightarrow> log_context \<Rightarrow> cel_error + bool" where
  "eval_log C x ctx = and_then (log_to_cel_context C ctx) (eval_bool C x)"

definition eval_metric :: "('p, 'c) cel_crate \<Rightarrow> 'p cel_expression \<Rightarrow> metric_context \<Rightarrow> cel_error + bool" where
  "eval_metric C x ctx = and_then (metric_to_cel_context C ctx) (eval_bool C x)"

definition eval_span :: "('p, 'c) cel_crate \<Rightarrow> 'p cel_expression \<Rightarrow> span_context \<Rightarrow> cel_error + bool" where
  "eval_span C x ctx = and_then (span_to_cel_context C ctx) (eval_bool C x)"

text \<open>The loops of the three \<^verbatim>\<open>matches_*_payload\<close>: \<^verbatim>\<open>if self.eval_log(&ctx)? { return Ok(true); }\<close> over the
  records in order, and \<^verbatim>\<open>Ok(false)\<close> at the end.\<close>

fun any_matches :: "('x \<Rightarrow> 'e + bool) \<Rightarrow> 'x list \<Rightarrow> 'e + bool" where
  "any_matches f [] = Inr False"
| "any_matches f (x # xs) = and_then (f x) (\<lambda>b. if b then Inr True else any_matches f xs)"

definition decoded :: "string + 'b \<Rightarrow> cel_error + 'b" where
  "decoded r = (case r of Inl e \<Rightarrow> Inl (Decode e) | Inr b \<Rightarrow> Inr b)"

definition matches_logs_payload ::
    "('p, 'c) cel_crate \<Rightarrow> otlp_codec \<Rightarrow> 'p cel_expression \<Rightarrow> bytes \<Rightarrow> cel_error + bool" where
  "matches_logs_payload C K x pl =
     and_then (decoded (dec_logs K pl)) (\<lambda>batch. any_matches (eval_log C x) (log_contexts batch))"

definition matches_metrics_payload ::
    "('p, 'c) cel_crate \<Rightarrow> otlp_codec \<Rightarrow> 'p cel_expression \<Rightarrow> bytes \<Rightarrow> cel_error + bool" where
  "matches_metrics_payload C K x pl =
     and_then (decoded (dec_metrics K pl)) (\<lambda>batch. any_matches (eval_metric C x) (metric_contexts batch))"

definition matches_traces_payload ::
    "('p, 'c) cel_crate \<Rightarrow> otlp_codec \<Rightarrow> 'p cel_expression \<Rightarrow> bytes \<Rightarrow> cel_error + bool" where
  "matches_traces_payload C K x pl =
     and_then (decoded (dec_traces K pl)) (\<lambda>batch. any_matches (eval_span C x) (span_contexts batch))"

definition cel_matches_payload ::
    "('p, 'c) cel_crate \<Rightarrow> otlp_codec \<Rightarrow> 'p cel_expression \<Rightarrow> record_type \<Rightarrow> bytes \<Rightarrow> cel_error + bool" where
  "cel_matches_payload C K x ty pl =
     (case ty of
        Logs \<Rightarrow> matches_logs_payload C K x pl
      | Metrics \<Rightarrow> matches_metrics_payload C K x pl
      | Traces \<Rightarrow> matches_traces_payload C K x pl
      | Events \<Rightarrow> Inr True)"

section \<open>Facts\<close>

text \<open>Looking up an attribute gives the value of the first attribute of that name.\<close>

lemma kv_map_loop_lookup:
  assumes "fst ` set m \<subseteq> set seen"
  shows "map_of (kv_map_loop seen m attrs) k =
    (if k \<in> set seen then map_of m k
     else Option.bind (List.find (\<lambda>a. kv_key a = k) attrs) (\<lambda>a. map_option any_value_to_cel (kv_value a)))"
  using assms
proof (induction seen m attrs rule: kv_map_loop.induct)
  case (1 seen m)
  then show ?case by (auto simp: map_of_eq_None_iff)
next
  case (2 seen m attr attrs)
  show ?case
  proof (cases "kv_key attr \<in> set seen")
    case True
    with 2 show ?thesis by auto
  next
    case False
    let ?m = "case kv_value attr of None \<Rightarrow> m | Some v \<Rightarrow> AList.update (kv_key attr) (any_value_to_cel v) m"
    have sub: "fst ` set ?m \<subseteq> set (kv_key attr # seen)"
      using 2(3) by (cases "kv_value attr") (simp_all add: dom_update subset_insertI2)
    have "map_of m (kv_key attr) = None" using False 2(3) by (auto simp: map_of_eq_None_iff)
    then show ?thesis
      using False 2(2) [OF False sub] by (auto simp: update_conv' split: option.splits)
  qed
qed

lemma key_values_to_cel_map_lookup:
  "\<exists>m. key_values_to_cel_map attrs = CelMap m \<and>
     (\<forall>k. map_of m k = Option.bind (List.find (\<lambda>a. kv_key a = k) attrs) (\<lambda>a. map_option any_value_to_cel (kv_value a)))"
  using kv_map_loop_lookup [of "[]" "[]" attrs] by (simp add: key_values_to_cel_map_def)

text \<open>An expression matches a payload when it is true of one of the records and false, not merely
  undefined, of every record before it.\<close>

lemma any_matches_true_iff:
  "any_matches f xs = Inr True \<longleftrightarrow> (\<exists>i<length xs. f (xs ! i) = Inr True \<and> (\<forall>j<i. f (xs ! j) = Inr False))"
proof (induction xs)
  case (Cons x xs)
  show ?case
  proof (cases "f x")
    case (Inr b)
    then show ?thesis using Cons by (cases b) (auto simp: Ex_less_Suc2 All_less_Suc2)
  qed (auto simp: Ex_less_Suc2 All_less_Suc2)
qed simp

lemma any_matches_false_iff: "any_matches f xs = Inr False \<longleftrightarrow> (\<forall>x\<in>set xs. f x = Inr False)"
proof (induction xs)
  case (Cons x xs)
  then show ?case by (cases "f x") auto
qed simp

lemma any_matches_error_iff:
  "any_matches f xs = Inl e \<longleftrightarrow> (\<exists>i<length xs. f (xs ! i) = Inl e \<and> (\<forall>j<i. f (xs ! j) = Inr False))"
proof (induction xs)
  case (Cons x xs)
  show ?case
  proof (cases "f x")
    case (Inr b)
    then show ?thesis using Cons by (cases b) (auto simp: Ex_less_Suc2 All_less_Suc2)
  qed (auto simp: Ex_less_Suc2 All_less_Suc2)
qed simp

text \<open>Every log record of a batch is presented to the expression, in order.\<close>

lemma length_log_contexts: "length (log_contexts b) = length (logs_of_batch b)"
  by (induction b) (auto simp: log_contexts_def logs_of_batch_def length_concat o_def)

end
