(* ===== verification/Lj_Predicate.thy ===== *)
theory Lj_Predicate
  imports Lj_Cel Lj_Roundtrip
begin

text \<open>
  Selecting records in \<^verbatim>\<open>ljx\<close>: the record predicate of \<^verbatim>\<open>ljx/src/predicate.rs\<close> with its command line
  form, and the commands \<^verbatim>\<open>count\<close> and \<^verbatim>\<open>filter\<close> that run it over a file. The regular expression
  engine, the command line parser and the shell splitter are parameters.
\<close>

section \<open>Errors and parameters\<close>

datatype ljx_error =
    LjxIo io_error
  | LjxLogjet error
  | Usage string
  | JsonUsage string string
  | Unimplemented string

record 'r regex_crate =
  rx_escape :: "string \<Rightarrow> string"
  rx_build :: "string \<Rightarrow> bool \<Rightarrow> string + 'r"
  rx_is_match :: "'r \<Rightarrow> bytes \<Rightarrow> bool"

fun try_map :: "('a \<Rightarrow> 'e + 'b) \<Rightarrow> 'a list \<Rightarrow> 'e + 'b list" where
  "try_map f [] = Inr []"
| "try_map f (x # xs) = and_then (f x) (\<lambda>y. and_then (try_map f xs) (\<lambda>ys. Inr (y # ys)))"

section \<open>The predicate\<close>

datatype filter_mode = ModeCel | ModeStrings | ModeRegex

datatype record_kind = KindLogs | KindMetrics | KindTraces

fun record_type_of_kind :: "record_kind \<Rightarrow> record_type" where
  "record_type_of_kind KindLogs = Logs"
| "record_type_of_kind KindMetrics = Metrics"
| "record_type_of_kind KindTraces = Traces"

record field_filter =
  ff_severities :: "string list option"
  ff_services :: "string list option"

definition field_filter_default :: field_filter where
  "field_filter_default = \<lparr>ff_severities = None, ff_services = None\<rparr>"

definition field_filter_is_empty :: "field_filter \<Rightarrow> bool" where
  "field_filter_is_empty f \<longleftrightarrow> ff_severities f = None \<and> ff_services f = None"

text \<open>A resource fails only when it names a service that is not allowed; a log record fails when its
  severity is not allowed. A payload that does not decode as logs passes.\<close>

definition service_allowed :: "field_filter \<Rightarrow> otlp_resource_logs \<Rightarrow> bool" where
  "service_allowed f rl =
     (case (ff_services f, service_name_of (resource_attributes (orl_resource rl))) of
        (Some allowed, Some svc) \<Rightarrow> svc \<in> set allowed
      | _ \<Rightarrow> True)"

definition severity_allowed :: "field_filter \<Rightarrow> otlp_log \<Rightarrow> bool" where
  "severity_allowed f lr = (case ff_severities f of Some allowed \<Rightarrow> ol_severity_text lr \<in> set allowed | None \<Rightarrow> True)"

definition field_matches_payload :: "otlp_codec \<Rightarrow> field_filter \<Rightarrow> bytes \<Rightarrow> bool" where
  "field_matches_payload K f pl =
     (if field_filter_is_empty f then True else
      case dec_logs K pl of
        Inl _ \<Rightarrow> True
      | Inr batch \<Rightarrow>
          list_all (\<lambda>rl. service_allowed f rl \<and>
            list_all (\<lambda>sl. list_all (severity_allowed f) (osl_log_records sl)) (orl_scope_logs rl)) batch)"

record predicate_args =
  pa_record_type :: "record_kind option"
  pa_seq_min :: "u64 option"
  pa_seq_max :: "u64 option"
  pa_ts_min :: "u64 option"
  pa_ts_max :: "u64 option"
  pa_grep :: "string list"
  pa_fixed_string :: "string list"
  pa_ignore_case :: bool
  pa_cel :: "string list"

definition predicate_args_default :: predicate_args where
  "predicate_args_default =
     \<lparr>pa_record_type = None, pa_seq_min = None, pa_seq_max = None, pa_ts_min = None, pa_ts_max = None,
      pa_grep = [], pa_fixed_string = [], pa_ignore_case = False, pa_cel = []\<rparr>"

definition has_filters :: "predicate_args \<Rightarrow> bool" where
  "has_filters a \<longleftrightarrow>
     pa_record_type a \<noteq> None \<or> pa_seq_min a \<noteq> None \<or> pa_seq_max a \<noteq> None \<or> pa_ts_min a \<noteq> None \<or>
     pa_ts_max a \<noteq> None \<or> pa_grep a \<noteq> [] \<or> pa_fixed_string a \<noteq> [] \<or> pa_cel a \<noteq> [] \<or> pa_ignore_case a"

record ('r, 'p) record_predicate =
  rp_record_type :: "record_type option"
  rp_seq_min :: "u64 option"
  rp_seq_max :: "u64 option"
  rp_ts_min :: "u64 option"
  rp_ts_max :: "u64 option"
  rp_payload_matchers :: "'r list"
  rp_cel_queries :: "'p cel_expression list"
  rp_field_filter :: field_filter

definition payload_matcher_new :: "'r regex_crate \<Rightarrow> string \<Rightarrow> bool \<Rightarrow> bool \<Rightarrow> ljx_error + 'r" where
  "payload_matcher_new R pattern fixed_string ignore_case =
     (let source = (if fixed_string then rx_escape R pattern else pattern) in
      case rx_build R source ignore_case of
        Inl e \<Rightarrow> Inl (Usage (''invalid payload matcher: '' @ e))
      | Inr regex \<Rightarrow> Inr regex)"

definition compile_query :: "('p, 'c) cel_crate \<Rightarrow> string \<Rightarrow> ljx_error + 'p cel_expression" where
  "compile_query C e =
     (case cel_expression_compile C e of
        Inl err \<Rightarrow> Inl (Usage (''invalid CEL expression: '' @ cel_error_display err))
      | Inr x \<Rightarrow> Inr x)"

definition predicate_build ::
    "'r regex_crate \<Rightarrow> ('p, 'c) cel_crate \<Rightarrow> predicate_args \<Rightarrow> ljx_error + ('r, 'p) record_predicate" where
  "predicate_build R C a =
     and_then (try_map (\<lambda>p. payload_matcher_new R p False (pa_ignore_case a)) (pa_grep a)) (\<lambda>ms.
     and_then (try_map (\<lambda>t. payload_matcher_new R t True (pa_ignore_case a)) (pa_fixed_string a)) (\<lambda>fs.
     and_then (try_map (compile_query C) (pa_cel a)) (\<lambda>qs.
     Inr \<lparr>rp_record_type = map_option record_type_of_kind (pa_record_type a),
          rp_seq_min = pa_seq_min a, rp_seq_max = pa_seq_max a,
          rp_ts_min = pa_ts_min a, rp_ts_max = pa_ts_max a,
          rp_payload_matchers = ms @ fs, rp_cel_queries = qs, rp_field_filter = field_filter_default\<rparr>)))"

definition parse_string_filter :: "string list \<Rightarrow> string \<Rightarrow> ljx_error + string list option" where
  "parse_string_filter values label =
     (if values = [] then Inr None
      else if [] \<in> set values then Inl (Usage (''empty '' @ label @ '' filter values are not allowed''))
      else Inr (Some values))"

text \<open>The search field of the viewer. \<open>shlex\<close> splits a line into arguments, \<open>clap\<close> parses them.\<close>

definition parse_filter_query ::
    "'r regex_crate \<Rightarrow> ('p, 'c) cel_crate \<Rightarrow> (string \<Rightarrow> string list option) \<Rightarrow> (string list \<Rightarrow> string + predicate_args) \<Rightarrow>
     string \<Rightarrow> filter_mode \<Rightarrow> ljx_error + ('r, 'p) record_predicate" where
  "parse_filter_query R C shlex clap query mode =
     (let trimmed = trim query in
      if trimmed = [] then predicate_build R C predicate_args_default
      else if hd trimmed \<noteq> CHR ''-'' then
        (case mode of
           ModeCel \<Rightarrow> predicate_build R C (predicate_args_default\<lparr>pa_cel := [trimmed]\<rparr>)
         | ModeStrings \<Rightarrow> predicate_build R C (predicate_args_default\<lparr>pa_fixed_string := [trimmed]\<rparr>)
         | ModeRegex \<Rightarrow> predicate_build R C (predicate_args_default\<lparr>pa_grep := [trimmed]\<rparr>))
      else
        and_then (ok_or (shlex trimmed) (Usage ''invalid filter expression: unterminated quotes'')) (\<lambda>argv.
        case clap (''view-filter'' # argv) of Inl e \<Rightarrow> Inl (Usage e) | Inr a \<Rightarrow> predicate_build R C a))"

text \<open>\<^verbatim>\<open>RecordPredicate::matches\<close>: every condition that is set must hold. An expression that fails to
  evaluate counts as false.\<close>

definition in_range :: "u64 option \<Rightarrow> u64 option \<Rightarrow> u64 \<Rightarrow> bool" where
  "in_range lo hi v \<longleftrightarrow>
     (case lo of Some m \<Rightarrow> \<not> v < m | None \<Rightarrow> True) \<and> (case hi of Some m \<Rightarrow> \<not> v > m | None \<Rightarrow> True)"

definition predicate_matches ::
    "'r regex_crate \<Rightarrow> ('p, 'c) cel_crate \<Rightarrow> otlp_codec \<Rightarrow> ('r, 'p) record_predicate \<Rightarrow> owned_record \<Rightarrow> bool" where
  "predicate_matches R C K p rec \<longleftrightarrow>
     (case rp_record_type p of Some expected \<Rightarrow> record_type rec = expected | None \<Rightarrow> True) \<and>
     in_range (rp_seq_min p) (rp_seq_max p) (seq rec) \<and>
     in_range (rp_ts_min p) (rp_ts_max p) (ts_unix_ns rec) \<and>
     list_all (\<lambda>m. rx_is_match R m (payload rec)) (rp_payload_matchers p) \<and>
     list_all (\<lambda>c. case cel_matches_payload C K c (record_type rec) (payload rec) of Inl _ \<Rightarrow> False | Inr b \<Rightarrow> b)
       (rp_cel_queries p) \<and>
     field_matches_payload K (rp_field_filter p) (payload rec)"

section \<open>Running a command over a file\<close>

text \<open>\<^verbatim>\<open>while let Some(record) = reader.next_record()? { body }\<close> with a body that can fail.\<close>

function for_each_record ::
    "extern \<Rightarrow> (owned_record \<Rightarrow> 's \<Rightarrow> (ljx_error + unit) \<times> 's) \<Rightarrow> reader \<Rightarrow> 's \<Rightarrow> (ljx_error + unit) \<times> 's" where
  "for_each_record X body r s =
     (case next_record X r of
        (Inl e, r) \<Rightarrow> (Inl (LjxLogjet e), s)
      | (Inr None, r) \<Rightarrow> (Inr (), s)
      | (Inr (Some rec), r) \<Rightarrow>
          (case body rec s of
             (Inl e, s) \<Rightarrow> (Inl e, s)
           | (Inr _, s) \<Rightarrow> for_each_record X body r s))"
  by pat_completeness auto
termination
proof (relation "measures [\<lambda>(X, body, r, s). length (data (r_inner r)) - pos (r_inner r),
    \<lambda>(X, body, r, s). length (pending r)]", goal_cases)
  case (2 X body r s res r' b x)
  from 2 next_record_progress [of X r res r'] show ?case by (auto simp: same_file_def)
qed simp

declare for_each_record.simps [simp del]

fun for_each :: "('a \<Rightarrow> 's \<Rightarrow> ('e + unit) \<times> 's) \<Rightarrow> 'a list \<Rightarrow> 's \<Rightarrow> ('e + unit) \<times> 's" where
  "for_each body [] s = (Inr (), s)"
| "for_each body (x # xs) s = (case body x s of (Inl e, s) \<Rightarrow> (Inl e, s) | (Inr _, s) \<Rightarrow> for_each body xs s)"

text \<open>\<^verbatim>\<open>ljx count\<close>: the number printed.\<close>

definition count_step ::
    "'r regex_crate \<Rightarrow> ('p, 'c) cel_crate \<Rightarrow> otlp_codec \<Rightarrow> ('r, 'p) record_predicate \<Rightarrow> owned_record \<Rightarrow> u64 \<Rightarrow>
     (ljx_error + unit) \<times> u64" where
  "count_step R C K p rec n =
     (if predicate_matches R C K p rec then
        (case checked_add n 1 of
           None \<Rightarrow> (Inl (LjxLogjet (NumericOverflow ''count'')), n)
         | Some n \<Rightarrow> (Inr (), n))
      else (Inr (), n))"

definition count_run ::
    "extern \<Rightarrow> 'r regex_crate \<Rightarrow> ('p, 'c) cel_crate \<Rightarrow> otlp_codec \<Rightarrow> predicate_args \<Rightarrow> (ljx_error + dev) \<Rightarrow>
     ljx_error + u64" where
  "count_run X R C K args open_input =
     and_then (predicate_build R C args) (\<lambda>p.
     and_then open_input (\<lambda>input.
     case for_each_record X (count_step R C K p) (reader_new input) 0 of
       (Inl e, _) \<Rightarrow> Inl e
     | (Inr _, n) \<Rightarrow> Inr n))"

text \<open>\<^verbatim>\<open>ljx filter\<close>: the matching records pushed to a writer over the output, which is closed and flushed at
  the end. \<open>open_input\<close> and \<open>open_output\<close> are the results of opening the two files.\<close>

definition filter_step ::
    "extern \<Rightarrow> 'r regex_crate \<Rightarrow> ('p, 'c) cel_crate \<Rightarrow> otlp_codec \<Rightarrow> 'w write_all \<Rightarrow> ('r, 'p) record_predicate \<Rightarrow>
     owned_record \<Rightarrow> 'w writer \<Rightarrow> (ljx_error + unit) \<times> 'w writer" where
  "filter_step X R C K write_all p rec w =
     (if predicate_matches R C K p rec then
        apfst (map_sum LjxLogjet id) (push X write_all (record_type rec) (seq rec) (ts_unix_ns rec) (payload rec) w)
      else (Inr (), w))"

definition filter_run ::
    "extern \<Rightarrow> 'r regex_crate \<Rightarrow> ('p, 'c) cel_crate \<Rightarrow> otlp_codec \<Rightarrow> 'w write_all \<Rightarrow> ('w \<Rightarrow> (io_error + unit) \<times> 'w) \<Rightarrow>
     predicate_args \<Rightarrow> nat \<Rightarrow> codec \<Rightarrow> (ljx_error + dev) \<Rightarrow> (ljx_error + 'w) \<Rightarrow> ljx_error + 'w" where
  "filter_run X R C K write_all flush args target cdc open_input open_output =
     and_then (predicate_build R C args) (\<lambda>p.
     and_then open_input (\<lambda>input.
     and_then open_output (\<lambda>out.
     let cfg = writer_config_default\<lparr>block_target_size := target, wc_codec := cdc\<rparr> in
     case for_each_record X (filter_step X R C K write_all p) (reader_new input) (writer_with_config out cfg) of
       (Inl e, _) \<Rightarrow> Inl e
     | (Inr _, w) \<Rightarrow>
         (case into_inner X write_all w of
            Inl e \<Rightarrow> Inl (LjxLogjet e)
          | Inr out \<Rightarrow> (case flush out of (Inl e, _) \<Rightarrow> Inl (LjxIo e) | (Inr _, out) \<Rightarrow> Inr out)))))"

section \<open>Facts\<close>

lemma read_records_Cons_cases:
  assumes "read_records X r = (Inr rs, r')"
  obtains "rs = []" "next_record X r = (Inr None, r')"
  | x xs r1 where "rs = x # xs" "next_record X r = (Inr (Some x), r1)" "read_records X r1 = (Inr xs, r')"
proof -
  obtain res r1 where n: "next_record X r = (res, r1)" by (metis surj_pair)
  show ?thesis
  proof (cases res)
    case (Inl e)
    then show ?thesis using assms n by (simp add: read_records.simps [of X r])
  next
    case (Inr o')
    show ?thesis
    proof (cases o')
      case None
      then show ?thesis using assms n Inr that(1) by (simp add: read_records.simps [of X r])
    next
      case (Some x)
      obtain res2 r2 where r2: "read_records X r1 = (res2, r2)" by (metis surj_pair)
      then have "map_sum id ((#) x) res2 = Inr rs" "r2 = r'"
        using assms n Inr Some by (simp_all add: read_records.simps [of X r])
      then show ?thesis using that(2) n Inr Some r2 by (cases res2) auto
    qed
  qed
qed

text \<open>A command whose input reads without error runs its body over the records of the file.\<close>

lemma for_each_record_eq:
  "read_records X r = (Inr rs, r') \<Longrightarrow> for_each_record X body r s = for_each body rs s"
proof (induction rs arbitrary: r s)
  case Nil
  then show ?case
    by (cases rule: read_records_Cons_cases) (auto simp: for_each_record.simps [of X body r])
next
  case (Cons x xs)
  from Cons.prems obtain r1 where r1: "next_record X r = (Inr (Some x), r1)" "read_records X r1 = (Inr xs, r')"
    by (cases rule: read_records_Cons_cases) auto
  show ?case
    using r1(1) Cons.IH [OF r1(2)] by (simp add: for_each_record.simps [of X body r] split: prod.splits sum.splits)
qed

lemma for_each_count:
  "unat n + length rs < 2 ^ 64 \<Longrightarrow>
   for_each (count_step R C K p) rs n = (Inr (), n + of_nat (length (filter (predicate_matches R C K p) rs)))"
proof (induction rs arbitrary: n)
  case (Cons x xs)
  show ?case
  proof (cases "predicate_matches R C K p x")
    case True
    have u: "unat (n + 1) = unat n + 1" using Cons.prems by (simp add: unat_word_ariths)
    have "for_each (count_step R C K p) xs (n + 1)
        = (Inr (), (n + 1) + of_nat (length (filter (predicate_matches R C K p) xs)))"
      by (rule Cons.IH) (use Cons.prems u in simp)
    moreover have "count_step R C K p x n = (Inr (), n + 1)"
      using True Cons.prems by (simp add: count_step_def checked_add_def)
    ultimately show ?thesis using True by (simp add: ac_simps)
  next
    case False
    then have "count_step R C K p x n = (Inr (), n)" by (simp add: count_step_def)
    then show ?thesis using Cons False by simp
  qed
qed simp

lemma for_each_filter:
  "for_each (filter_step X R C K write_all p) rs w
    = apfst (map_sum LjxLogjet id) (push_all X write_all (filter (predicate_matches R C K p) rs) w)"
proof (induction rs arbitrary: w)
  case (Cons x xs)
  show ?case
  proof (cases "predicate_matches R C K p x")
    case True
    obtain res w1 where "push X write_all (record_type x) (seq x) (ts_unix_ns x) (payload x) w = (res, w1)"
      by (metis surj_pair)
    moreover from this have "filter_step X R C K write_all p x w = (map_sum LjxLogjet id res, w1)"
      using True by (simp add: filter_step_def)
    ultimately show ?thesis using True Cons by (cases res) simp_all
  next
    case False
    then have "filter_step X R C K write_all p x w = (Inr (), w)" by (simp add: filter_step_def)
    then show ?thesis using Cons False by simp
  qed
qed simp

lemma predicate_build_default: "predicate_build R C predicate_args_default = Inr p \<Longrightarrow> predicate_matches R C K p rec"
  by (auto simp: predicate_build_def predicate_args_default_def predicate_matches_def in_range_def
      field_matches_payload_def field_filter_is_empty_def field_filter_default_def)

end
