(* ===== verification/Lj_Dedup.thy ===== *)
theory Lj_Dedup
  imports Lj_Drain Lj_Dedup_Canon Lj_Predicate "HOL-Library.Multiset"
begin

text \<open>
  The deduplication pipeline (\<^verbatim>\<open>ljx/src/dedup\<close> and \<^verbatim>\<open>commands/dedup.rs\<close>): log batches are cracked into flat records,
  grouped by body, by canonical body and by mined template, and one record per group is written. A hash map is an
  association list; the order in which one is iterated is part of the parameter \<open>dedup_env\<close>, as are the hash function, the
  regular expressions and JSON. A failing \<^verbatim>\<open>unwrap\<close> is \<open>None\<close>.
\<close>

record flat_record =
  fr_service_name :: string
  fr_severity_number :: i32
  fr_severity_text :: string
  fr_scope_name :: string
  fr_event_name :: string
  fr_code_filepath :: "string option"
  fr_code_lineno :: "i64 option"
  fr_trace_id :: bytes
  fr_span_id :: bytes
  fr_time_unix_nano :: u64
  fr_observed_time_unix_nano :: u64
  fr_body :: string
  fr_resource_attrs :: "key_value list"
  fr_scope_attrs :: "key_value list"
  fr_record_attrs :: "key_value list"

datatype bucket_key_kind = GlobalKey | DefaultKey | ScopeKey | SourceLineKey | ScopeAndSourceLineKey

record bucket_key =
  bk_service_name :: string
  bk_severity_number :: i32
  bk_scope_name :: "string option"
  bk_code_filepath :: "string option"
  bk_code_lineno :: "i64 option"

definition bucket_key_from_record :: "flat_record \<Rightarrow> bucket_key_kind \<Rightarrow> bucket_key" where
  "bucket_key_from_record rec kk =
     (let scope_name = (if kk = ScopeKey \<or> kk = ScopeAndSourceLineKey then Some (fr_scope_name rec) else None);
          (code_filepath, code_lineno) =
            (if kk = SourceLineKey \<or> kk = ScopeAndSourceLineKey then (fr_code_filepath rec, fr_code_lineno rec)
             else (None, None))
      in if kk = GlobalKey
         then \<lparr>bk_service_name = [], bk_severity_number = 0, bk_scope_name = None, bk_code_filepath = None,
               bk_code_lineno = None\<rparr>
         else \<lparr>bk_service_name = fr_service_name rec, bk_severity_number = fr_severity_number rec,
               bk_scope_name = scope_name, bk_code_filepath = code_filepath, bk_code_lineno = code_lineno\<rparr>)"

record dedup_env =
  dx_rx :: dedup_rx
  dx_json :: json_crate
  dx_hash :: "string \<Rightarrow> u64"
  dx_buckets :: "bucket_key list \<Rightarrow> bucket_key list"
  dx_clusters :: "nat list \<Rightarrow> nat list"
  dx_children :: "nat \<Rightarrow> child_order"

text \<open>\<^verbatim>\<open>xxh3_64\<close> is \<open>dx_hash\<close>. The orders are those of the hash maps of buckets, of clusters and of the children in the trees of
  the template miner; what is relied on is that iterating visits every key once.\<close>

definition orders_ok :: "dedup_env \<Rightarrow> bool" where
  "orders_ok D \<longleftrightarrow> (\<forall>ks. mset (dx_buckets D ks) = mset ks) \<and> (\<forall>ks. mset (dx_clusters D ks) = mset ks)"

text \<open>\<^verbatim>\<open>entry(k).or_default().push(v)\<close>, and iterating a map in an order of its keys.\<close>

definition entry_push :: "'k \<Rightarrow> 'v \<Rightarrow> ('k \<times> 'v list) list \<Rightarrow> ('k \<times> 'v list) list" where
  "entry_push k v m = AList.update k ((case map_of m k of Some vs \<Rightarrow> vs | None \<Rightarrow> []) @ [v]) m"

definition entries_in :: "('k list \<Rightarrow> 'k list) \<Rightarrow> ('k \<times> 'v) list \<Rightarrow> ('k \<times> 'v) list" where
  "entries_in order m = List.map_filter (\<lambda>k. map_option (Pair k) (map_of m k)) (order (map fst m))"

section \<open>Unpacking\<close>

definition location_step :: "key_value \<Rightarrow> string option \<times> i64 option \<Rightarrow> string option \<times> i64 option" where
  "location_step attr acc =
     (let (filepath, lineno) = acc in
      if kv_key attr = ''code.filepath'' then
        (case Option.bind (kv_value attr) string_of_value of Some s \<Rightarrow> (Some s, lineno) | None \<Rightarrow> acc)
      else if kv_key attr = ''code.lineno'' then
        (case Option.bind (kv_value attr) int_of_value of Some n \<Rightarrow> (filepath, Some n) | None \<Rightarrow> acc)
      else acc)"

definition extract_source_location :: "key_value list \<Rightarrow> string option \<times> i64 option" where
  "extract_source_location attrs = fold location_step attrs (None, None)"

definition flat_record_of :: "key_value list \<Rightarrow> otlp_scope option \<Rightarrow> otlp_log \<Rightarrow> flat_record" where
  "flat_record_of resource_attrs scope lr =
     (let (code_filepath, code_lineno) = extract_source_location (ol_attributes lr) in
      \<lparr>fr_service_name = (case service_name_of resource_attrs of Some s \<Rightarrow> s | None \<Rightarrow> []),
       fr_severity_number = ol_severity_number lr, fr_severity_text = ol_severity_text lr,
       fr_scope_name = scope_name_of scope, fr_event_name = ol_event_name lr,
       fr_code_filepath = code_filepath, fr_code_lineno = code_lineno,
       fr_trace_id = ol_trace_id lr, fr_span_id = ol_span_id lr,
       fr_time_unix_nano = ol_time_unix_nano lr, fr_observed_time_unix_nano = ol_observed_time_unix_nano lr,
       fr_body = body_string lr, fr_resource_attrs = resource_attrs, fr_scope_attrs = scope_attributes scope,
       fr_record_attrs = ol_attributes lr\<rparr>)"

definition flatten_batch :: "otlp_logs \<Rightarrow> flat_record list" where
  "flatten_batch batch =
     concat (map (\<lambda>rl. concat (map (\<lambda>sl.
       map (flat_record_of (resource_attributes (orl_resource rl)) (osl_scope sl)) (osl_log_records sl))
       (orl_scope_logs rl))) batch)"

record unpack_result =
  ur_records :: "flat_record list"
  ur_passthrough :: "owned_record list"

definition unpack_step ::
    "otlp_codec \<Rightarrow> owned_record \<Rightarrow> unpack_result \<Rightarrow> (ljx_error + unit) \<times> unpack_result" where
  "unpack_step K rec u =
     (Inr (),
      if record_type rec \<noteq> Logs then u\<lparr>ur_passthrough := ur_passthrough u @ [rec]\<rparr>
      else case dec_logs K (payload rec) of
             Inl _ \<Rightarrow> u\<lparr>ur_passthrough := ur_passthrough u @ [rec]\<rparr>
           | Inr batch \<Rightarrow> u\<lparr>ur_records := ur_records u @ flatten_batch batch\<rparr>)"

definition unpack :: "extern \<Rightarrow> otlp_codec \<Rightarrow> reader \<Rightarrow> ljx_error + unpack_result" where
  "unpack X K r =
     (case for_each_record X (unpack_step K) r \<lparr>ur_records = [], ur_passthrough = []\<rparr> of
        (Inl e, _) \<Rightarrow> Inl e
      | (Inr _, u) \<Rightarrow> Inr u)"

section \<open>Groups\<close>

datatype dedup_mode = Distinct | Collapse
datatype dedup_bucket_policy = GlobalPolicy | RequestedPolicy
datatype dedup_match_mode = ExactMatch | Hash2 | FullMatch

fun bucket_policy :: "dedup_mode \<Rightarrow> dedup_bucket_policy" where
  "bucket_policy Distinct = GlobalPolicy"
| "bucket_policy Collapse = RequestedPolicy"

record drain_opts =
  do_sim_th :: f64
  do_depth :: int
  do_extra_delimiters :: "string list"

text \<open>The default threshold is 0.7.\<close>

definition drain_opts_default :: drain_opts where
  "drain_opts_default = \<lparr>do_sim_th = 0x3FE6666666666666, do_depth = 3, do_extra_delimiters = []\<rparr>"

record dedup_opts =
  opt_mode :: dedup_mode
  opt_match_mode :: dedup_match_mode
  opt_bucket_key :: bucket_key_kind
  opt_drain :: drain_opts

definition dedup_opts_default :: dedup_opts where
  "dedup_opts_default =
     \<lparr>opt_mode = Distinct, opt_match_mode = Hash2, opt_bucket_key = DefaultKey, opt_drain = drain_opts_default\<rparr>"

record dedup_group =
  dg_bucket_key :: bucket_key
  dg_signature :: u64
  dg_count :: u64
  dg_representative :: flat_record
  dg_first_seen_ns :: u64
  dg_last_seen_ns :: u64
  dg_exemplar_trace_ids :: "string list"
  dg_exemplar_span_ids :: "string list"
  dg_canonical_body :: "string option"
  dg_body_shape :: "string option"
  dg_drain3_template :: "string option"
  dg_drain3_cluster_id :: "nat option"

definition effective_timestamp :: "flat_record \<Rightarrow> u64" where
  "effective_timestamp rec =
     (if fr_time_unix_nano rec \<noteq> 0 then fr_time_unix_nano rec else fr_observed_time_unix_nano rec)"

definition group_new :: "bucket_key \<Rightarrow> u64 \<Rightarrow> flat_record \<Rightarrow> dedup_group" where
  "group_new key sig rec =
     \<lparr>dg_bucket_key = key, dg_signature = sig, dg_count = 1, dg_representative = rec,
      dg_first_seen_ns = effective_timestamp rec, dg_last_seen_ns = effective_timestamp rec,
      dg_exemplar_trace_ids = [hex_string (fr_trace_id rec)], dg_exemplar_span_ids = [hex_string (fr_span_id rec)],
      dg_canonical_body = None, dg_body_shape = None, dg_drain3_template = None, dg_drain3_cluster_id = None\<rparr>"

definition collect_exemplar :: "bytes \<Rightarrow> string list \<Rightarrow> string list" where
  "collect_exemplar ident exemplars =
     (let hex = hex_string ident in
      if hex = [] \<or> list_all (\<lambda>c. c = CHR ''0'') hex then exemplars
      else if length exemplars = 0 \<or> length exemplars = 1 then exemplars @ [hex]
      else if length exemplars = 2 then exemplars[1 := hex]
      else exemplars[2 := hex])"

definition absorb :: "flat_record \<Rightarrow> dedup_group \<Rightarrow> dedup_group" where
  "absorb rec g =
     (let ts = effective_timestamp rec in
      g\<lparr>dg_count := dg_count g + 1,
        dg_first_seen_ns := (if ts < dg_first_seen_ns g then ts else dg_first_seen_ns g),
        dg_last_seen_ns := (if ts > dg_last_seen_ns g then ts else dg_last_seen_ns g),
        dg_exemplar_trace_ids := collect_exemplar (fr_trace_id rec) (dg_exemplar_trace_ids g),
        dg_exemplar_span_ids := collect_exemplar (fr_span_id rec) (dg_exemplar_span_ids g)\<rparr>)"

definition merge_group :: "dedup_group \<Rightarrow> dedup_group \<Rightarrow> dedup_group" where
  "merge_group other g =
     g\<lparr>dg_count := dg_count g + dg_count other,
       dg_first_seen_ns :=
         (if dg_first_seen_ns other < dg_first_seen_ns g then dg_first_seen_ns other else dg_first_seen_ns g),
       dg_last_seen_ns :=
         (if dg_last_seen_ns other > dg_last_seen_ns g then dg_last_seen_ns other else dg_last_seen_ns g)\<rparr>"

section \<open>Buckets and equal bodies\<close>

definition bucket_group :: "flat_record list \<Rightarrow> bucket_key_kind \<Rightarrow> (bucket_key \<times> flat_record list) list" where
  "bucket_group records kk = fold (\<lambda>rec. entry_push (bucket_key_from_record rec kk) rec) records []"

text \<open>The map from hashes to positions only holds positions of groups that were pushed before.\<close>

definition exact_step ::
    "dedup_env \<Rightarrow> bucket_key \<Rightarrow> flat_record \<Rightarrow> (u64 \<rightharpoonup> nat) \<times> dedup_group list \<Rightarrow> (u64 \<rightharpoonup> nat) \<times> dedup_group list" where
  "exact_step D key rec st =
     (let (hash_to_idx, groups) = st; hash = dx_hash D (fr_body rec) in
      case hash_to_idx hash of
        Some idx \<Rightarrow> (hash_to_idx, groups[idx := absorb rec (groups ! idx)])
      | None \<Rightarrow> (hash_to_idx(hash \<mapsto> length groups), groups @ [group_new key hash rec]))"

definition dedup_bucket :: "dedup_env \<Rightarrow> bucket_key \<Rightarrow> flat_record list \<Rightarrow> dedup_group list" where
  "dedup_bucket D key records = snd (fold (exact_step D key) records (Map.empty, []))"

definition exact_dedup :: "dedup_env \<Rightarrow> (bucket_key \<times> flat_record list) list \<Rightarrow> dedup_group list" where
  "exact_dedup D buckets = concat (map (\<lambda>(key, records). dedup_bucket D key records) (entries_in (dx_buckets D) buckets))"

section \<open>Equal canonical bodies\<close>

definition annotate :: "dedup_env \<Rightarrow> dedup_group \<Rightarrow> dedup_group" where
  "annotate D g =
     (let (canon, shape) = canonicalise_body (dx_rx D) (dx_json D) (fr_body (dg_representative g)) in
      g\<lparr>dg_canonical_body := Some canon, dg_body_shape := Some shape\<rparr>)"

definition canon_step ::
    "dedup_env \<Rightarrow> dedup_group \<Rightarrow> (bucket_key \<times> u64 \<rightharpoonup> nat) \<times> dedup_group list \<Rightarrow>
     (bucket_key \<times> u64 \<rightharpoonup> nat) \<times> dedup_group list" where
  "canon_step D g st =
     (let (index, merged) = st;
          canon_hash = dx_hash D (case dg_canonical_body g of Some c \<Rightarrow> c | None \<Rightarrow> []);
          merge_key = (dg_bucket_key g, canon_hash)
      in case index merge_key of
           Some idx \<Rightarrow> (index, merged[idx := merge_group g (merged ! idx)])
         | None \<Rightarrow> (index(merge_key \<mapsto> length merged), merged @ [g\<lparr>dg_signature := canon_hash\<rparr>]))"

definition canon_dedup :: "dedup_env \<Rightarrow> dedup_group list \<Rightarrow> dedup_group list" where
  "canon_dedup D groups = snd (fold (canon_step D) (map (annotate D) groups) (Map.empty, []))"

section \<open>Templates of the rest\<close>

definition residual_config :: "drain_opts \<Rightarrow> nat \<Rightarrow> drain_config" where
  "residual_config o' clusters =
     drain_config_default\<lparr>dc_depth := do_depth o', dc_sim_th := do_sim_th o', dc_max_children := 100,
       dc_max_clusters := clusters, dc_extra_delimiters := do_extra_delimiters o'\<rparr>"

definition group_text :: "dedup_group \<Rightarrow> string" where
  "group_text g = (case dg_canonical_body g of Some c \<Rightarrow> c | None \<Rightarrow> fr_body (dg_representative g))"

definition template_of :: "drain \<Rightarrow> nat \<Rightarrow> string" where
  "template_of d cid = (case dr_clusters d cid of Some c \<Rightarrow> cluster_template c | None \<Rightarrow> [])"

definition cluster_group :: "dedup_env \<Rightarrow> drain \<Rightarrow> dedup_group list \<Rightarrow> nat \<times> nat list \<Rightarrow> dedup_group" where
  "cluster_group D engine residuals entry =
     (let (cid, indices) = entry in
      if length indices = 1 then residuals ! (indices ! 0)
      else
        let group = fold (\<lambda>idx. merge_group (residuals ! idx)) (tl indices) (residuals ! hd indices);
            template = template_of engine cid
        in group\<lparr>dg_signature := dx_hash D template, dg_drain3_template := Some template, dg_drain3_cluster_id := Some cid\<rparr>)"

text \<open>One bucket of \<^verbatim>\<open>dedup_residuals\<close>; \<open>eid\<close> tells the engines apart.\<close>

definition residual_bucket :: "dedup_env \<Rightarrow> nat \<Rightarrow> drain_opts \<Rightarrow> dedup_group list \<Rightarrow> dedup_group list option" where
  "residual_bucket D eid o' bucket_groups =
     (let bucket_total = sum_list (map dg_count bucket_groups);
          merged = filter (\<lambda>g. dg_count g > 1) bucket_groups;
          residuals = filter (\<lambda>g. \<not> dg_count g > 1) bucket_groups
      in if length residuals < 2 \<or> bucket_total = 0 then Some (merged @ residuals)
         else
           (case add_log_messages (dx_children D eid) (drain_new (residual_config o' (length residuals div 2)))
                   (map group_text residuals) of
              None \<Rightarrow> None
            | Some (cids, engine) \<Rightarrow>
                let drain_groups = fold (\<lambda>(i, cid). entry_push cid i) (enumerate 0 cids) []
                in Some (map (cluster_group D engine residuals) (entries_in (dx_clusters D) drain_groups) @ merged)))"

fun residual_buckets :: "dedup_env \<Rightarrow> nat \<Rightarrow> drain_opts \<Rightarrow> (bucket_key \<times> dedup_group list) list \<Rightarrow> dedup_group list option" where
  "residual_buckets D eid o' [] = Some []"
| "residual_buckets D eid o' ((_, bucket_groups) # buckets) =
     (case residual_bucket D eid o' bucket_groups of
        None \<Rightarrow> None
      | Some gs \<Rightarrow> map_option ((@) gs) (residual_buckets D (eid + 1) o' buckets))"

definition dedup_residuals :: "dedup_env \<Rightarrow> drain_opts \<Rightarrow> dedup_group list \<Rightarrow> dedup_group list option" where
  "dedup_residuals D o' groups =
     residual_buckets D 0 o'
       (entries_in (dx_buckets D) (fold (\<lambda>g. entry_push (dg_bucket_key g) g) groups []))"

section \<open>Bursts\<close>

record collapse_candidate =
  cc_bucket_key :: bucket_key
  cc_signature :: u64
  cc_canonical_body :: "string option"
  cc_body_shape :: "string option"
  cc_record :: flat_record

definition candidate_from_record ::
    "dedup_env \<Rightarrow> flat_record \<Rightarrow> bucket_key \<Rightarrow> dedup_match_mode \<Rightarrow> collapse_candidate" where
  "candidate_from_record D rec key mode =
     (case mode of
        ExactMatch \<Rightarrow>
          \<lparr>cc_bucket_key = key, cc_signature = dx_hash D (fr_body rec), cc_canonical_body = None, cc_body_shape = None,
           cc_record = rec\<rparr>
      | _ \<Rightarrow>
          let (canonical_body, shape) = canonicalise_body (dx_rx D) (dx_json D) (fr_body rec) in
          \<lparr>cc_bucket_key = key, cc_signature = dx_hash D canonical_body, cc_canonical_body = Some canonical_body,
           cc_body_shape = Some shape, cc_record = rec\<rparr>)"

definition candidate_into_group :: "collapse_candidate \<Rightarrow> dedup_group" where
  "candidate_into_group c =
     (group_new (cc_bucket_key c) (cc_signature c) (cc_record c))
       \<lparr>dg_canonical_body := cc_canonical_body c, dg_body_shape := cc_body_shape c\<rparr>"

definition same_signature :: "dedup_group \<Rightarrow> collapse_candidate \<Rightarrow> bool" where
  "same_signature g c \<longleftrightarrow> dg_signature g = cc_signature c"

definition drain_matches ::
    "dedup_env \<Rightarrow> nat \<Rightarrow> dedup_opts \<Rightarrow> dedup_group \<Rightarrow> collapse_candidate \<Rightarrow> (bool \<times> dedup_group) option" where
  "drain_matches D eid opts g c =
     (let left = (case dg_drain3_template g of Some t \<Rightarrow> t | None \<Rightarrow> group_text g);
          right = (case cc_canonical_body c of Some b \<Rightarrow> b | None \<Rightarrow> fr_body (cc_record c));
          order = dx_children D eid
      in case add_log_message order (drain_new (residual_config (opt_drain opts) 4)) left of
           None \<Rightarrow> None
         | Some (_, engine) \<Rightarrow>
             (case add_log_message order engine right of
                None \<Rightarrow> None
              | Some ((cid, is_new), engine) \<Rightarrow>
                  if is_new then Some (False, g)
                  else let template = template_of engine cid in
                       Some (True, g\<lparr>dg_signature := dx_hash D template, dg_drain3_template := Some template,
                                     dg_drain3_cluster_id := Some cid\<rparr>)))"

text \<open>Whether a candidate joins the last group, and that group after the test.\<close>

definition joins_last ::
    "dedup_env \<Rightarrow> nat \<Rightarrow> dedup_opts \<Rightarrow> dedup_group \<Rightarrow> collapse_candidate \<Rightarrow> (bool \<times> dedup_group) option" where
  "joins_last D eid opts g c =
     (if dg_bucket_key g \<noteq> cc_bucket_key c then Some (False, g)
      else if same_signature g c then Some (True, g)
      else if opt_match_mode opts = FullMatch then drain_matches D eid opts g c
      else Some (False, g))"

fun collapse_loop ::
    "dedup_env \<Rightarrow> nat \<Rightarrow> dedup_opts \<Rightarrow> flat_record list \<Rightarrow> dedup_group list \<Rightarrow> dedup_group list option" where
  "collapse_loop D eid opts [] groups = Some groups"
| "collapse_loop D eid opts (rec # records) groups =
     (let c = candidate_from_record D rec (bucket_key_from_record rec (opt_bucket_key opts)) (opt_match_mode opts) in
      if groups = [] then collapse_loop D (eid + 1) opts records [candidate_into_group c]
      else
        (case joins_last D eid opts (last groups) c of
           None \<Rightarrow> None
         | Some (True, g) \<Rightarrow> collapse_loop D (eid + 1) opts records (butlast groups @ [absorb (cc_record c) g])
         | Some (False, g) \<Rightarrow>
             collapse_loop D (eid + 1) opts records (butlast groups @ [g] @ [candidate_into_group c])))"

definition collapse_dedup :: "dedup_env \<Rightarrow> flat_record list \<Rightarrow> dedup_opts \<Rightarrow> dedup_group list option" where
  "collapse_dedup D records opts = collapse_loop D 0 opts records []"

section \<open>The pipeline\<close>

definition distinct_dedup :: "dedup_env \<Rightarrow> flat_record list \<Rightarrow> dedup_opts \<Rightarrow> dedup_group list option" where
  "distinct_dedup D records opts =
     (let kk = (case bucket_policy (opt_mode opts) of GlobalPolicy \<Rightarrow> GlobalKey | RequestedPolicy \<Rightarrow> opt_bucket_key opts);
          groups = exact_dedup D (bucket_group records kk);
          groups = (if opt_match_mode opts \<noteq> ExactMatch then canon_dedup D groups else groups)
      in if opt_match_mode opts = FullMatch then dedup_residuals D (opt_drain opts) groups else Some groups)"

definition dedup_groups :: "dedup_env \<Rightarrow> dedup_opts \<Rightarrow> flat_record list \<Rightarrow> dedup_group list option" where
  "dedup_groups D opts records =
     (case opt_mode opts of Distinct \<Rightarrow> distinct_dedup D records opts | Collapse \<Rightarrow> collapse_dedup D records opts)"

fun mode_label :: "dedup_mode \<Rightarrow> dedup_match_mode \<Rightarrow> string" where
  "mode_label Distinct ExactMatch = ''distinct/exact''"
| "mode_label Distinct Hash2 = ''distinct/canon''"
| "mode_label Distinct FullMatch = ''distinct/full''"
| "mode_label Collapse ExactMatch = ''collapse/exact''"
| "mode_label Collapse Hash2 = ''collapse/canon''"
| "mode_label Collapse FullMatch = ''collapse/full''"

end
