(* ===== verification/Lj_Drain_Proofs.thy ===== *)
theory Lj_Drain_Proofs
  imports Lj_Drain
begin

text \<open>
  The template miner never fails, whatever the order of its hash maps, and the template of a cluster covers every
  message that was put into it. The proof keeps the list of messages with their clusters beside the state.
\<close>

section \<open>Contents and shape of the tree\<close>

function node_ids :: "node \<Rightarrow> nat list" where
  "node_ids (Node children ids) = ids @ concat (map (\<lambda>(k, n). node_ids n) children)"
  by pat_completeness auto
termination by (relation "measure size") (auto dest: size_child)

text \<open>A node without the wildcard child has room for it.\<close>

function node_ok :: "string \<Rightarrow> int \<Rightarrow> node \<Rightarrow> bool" where
  "node_ok param M (Node children ids) \<longleftrightarrow>
     (map_of children param = None \<longrightarrow> int (length children) < M) \<and> list_all (\<lambda>(k, n). node_ok param M n) children"
  by pat_completeness auto
termination by (relation "measure (\<lambda>(param, M, n). size n)") (auto dest: size_child)

lemma node_ids_child: "map_of children k = Some n \<Longrightarrow> set (node_ids n) \<subseteq> set (node_ids (Node children ids))"
  by (force dest: map_of_SomeD)

lemma node_ids_child_or_new: "set (node_ids (child_or_new (nd_children n) k)) \<subseteq> set (node_ids n)"
  using node_ids_child [of "nd_children n" k _ "nd_cluster_ids n"]
  by (cases n) (auto simp: child_or_new_def node_new_def split: option.splits)

lemma set_AList_update: "set (AList.update k v xs) \<subseteq> insert (k, v) (set xs)"
  by (induction xs) auto

lemma length_AList_update: "length (AList.update k v xs) = (if map_of xs k = None then length xs + 1 else length xs)"
  by (induction xs) auto

lemma node_ids_update:
  "set (node_ids (Node (AList.update k child children) ids)) \<subseteq> set (node_ids child) \<union> set (node_ids (Node children ids))"
  using set_AList_update [of k child children] by fastforce

lemma node_ok_child_or_new: "node_ok param M n \<Longrightarrow> 0 < M \<Longrightarrow> node_ok param M (child_or_new (nd_children n) k)"
  by (cases n) (force simp: child_or_new_def node_new_def list_all_iff dest: map_of_SomeD split: option.splits)

lemma child_key_total:
  assumes "node_ok (dr_param_str d) (dr_max_children d) n"
  shows "\<exists>k. child_key d token (nd_children n) = Some k"
  using assms by (cases n) (auto simp: child_key_def Let_def)

lemma node_ok_update:
  assumes "node_ok (dr_param_str d) (dr_max_children d) n" and "child_key d token (nd_children n) = Some k"
    and "node_ok (dr_param_str d) (dr_max_children d) child"
  shows "node_ok (dr_param_str d) (dr_max_children d) (Node (AList.update k child (nd_children n)) ids)"
proof -
  obtain children ids' where n: "n = Node children ids'" by (cases n)
  have "int (length (AList.update k child children)) < dr_max_children d"
    if "map_of (AList.update k child children) (dr_param_str d) = None"
    using that assms(1,2) by (auto simp: n child_key_def Let_def length_AList_update update_conv' split: if_splits)
  then show ?thesis
    using assms(1,3) set_AList_update [of k child children] by (fastforce simp: n list_all_iff)
qed

lemma insert_path_ok:
  assumes "0 < dr_max_children d" and "node_ok (dr_param_str d) (dr_max_children d) n"
  shows "\<exists>n'. insert_path d cid token_count i tokens n = Some n' \<and> node_ok (dr_param_str d) (dr_max_children d) n' \<and>
    set (node_ids n') \<subseteq> insert cid (set (node_ids n))"
  using assms(2)
proof (induction tokens arbitrary: i n)
  case (Cons token tokens)
  show ?case
  proof (cases "int i + 1 \<ge> dr_max_node_depth d \<or> i + 1 \<ge> token_count")
    case True
    then show ?thesis using Cons.prems by (cases n) auto
  next
    case False
    obtain k where k: "child_key d token (nd_children n) = Some k" using child_key_total [OF Cons.prems] by blast
    obtain c where c: "insert_path d cid token_count (i + 1) tokens (child_or_new (nd_children n) k) = Some c"
      "node_ok (dr_param_str d) (dr_max_children d) c"
      "set (node_ids c) \<subseteq> insert cid (set (node_ids (child_or_new (nd_children n) k)))"
      using Cons.IH [OF node_ok_child_or_new [OF Cons.prems assms(1)], of "i + 1" k] by blast
    let ?n = "Node (AList.update k c (nd_children n)) (nd_cluster_ids n)"
    have "set (node_ids ?n) \<subseteq> insert cid (set (node_ids n))"
      using node_ids_update [of k c "nd_children n" "nd_cluster_ids n"] c(3) node_ids_child_or_new [of n k]
      unfolding node.collapse by blast
    with node_ok_update [OF Cons.prems k c(2)] show ?thesis using False k c(1) by simp
  qed
qed auto

section \<open>Searching finds clusters of the tree\<close>

lemma own_ids: "set (nd_cluster_ids n) \<subseteq> set (node_ids n)"
  by (cases n) auto

lemma walk_tree_ids: "walk_tree d c i tokens n = Some n' \<Longrightarrow> set (nd_cluster_ids n') \<subseteq> set (node_ids n)"
proof (induction d c i tokens n rule: walk_tree.induct)
  case (1 d c i n)
  then show ?case by (cases n) auto
next
  case (2 d c i token tokens n)
  have sub: "map_of (nd_children n) k = Some m \<Longrightarrow> set (node_ids m) \<subseteq> set (node_ids n)" for k m
    using node_ids_child [of "nd_children n" k m "nd_cluster_ids n"] by (cases n) auto
  have own: "set (nd_cluster_ids n) \<subseteq> set (node_ids n)" by (cases n) auto
  show ?case
  proof (cases "int i + 1 \<ge> dr_max_node_depth d \<or> i + 1 \<ge> c")
    case True
    then show ?thesis using 2(3) own by auto
  next
    case False
    show ?thesis
    proof (cases "map_of (nd_children n) token")
      case None
      then obtain m where m: "map_of (nd_children n) (dr_param_str d) = Some m" "walk_tree d c (i + 1) tokens m = Some n'"
        using 2(3) False by (auto split: option.splits)
      from 2(1) [OF False None m] sub [OF m(1)] show ?thesis by blast
    next
      case (Some m)
      then have "walk_tree d c (i + 1) tokens m = Some n'" using 2(3) False by auto
      from 2(2) [OF False Some this] sub [OF Some] show ?thesis by blast
    qed
  qed
qed

lemma collect_cluster_ids_ids: "set (collect_cluster_ids order path n) \<subseteq> set (node_ids n)"
proof (induction order path n rule: collect_cluster_ids.induct)
  case (1 order path children ids)
  have "set (case map_of children k of Some child \<Rightarrow> collect_cluster_ids order (path @ [k]) child | None \<Rightarrow> [])
      \<subseteq> set (node_ids (Node children ids))" if "k \<in> set (order path (map fst children))" for k
  proof (cases "map_of children k")
    case (Some child)
    from 1 [OF that Some] node_ids_child [OF Some, of ids] Some show ?thesis by auto
  qed simp
  then show ?case using own_ids [of "Node children ids"] by (simp only: collect_cluster_ids.simps set_append set_concat set_map) auto
qed

lemma fast_match_found:
  assumes "fast_match d ids tokens b = Some cid"
  shows "cid \<in> set ids" "dr_clusters d cid \<noteq> None"
proof -
  have "snd (snd (fold (fast_match_step d tokens b) ids best)) = Some cid \<Longrightarrow>
      snd (snd best) = Some cid \<or> cid \<in> set ids \<and> dr_clusters d cid \<noteq> None" for best
    by (induction ids arbitrary: best)
      (fastforce simp: fast_match_step_def Let_def split: option.splits prod.splits if_splits)+
  from this [of "(f64_minus_one, - 1, None)"] assms show "cid \<in> set ids" "dr_clusters d cid \<noteq> None"
    by (auto simp: fast_match_def split: prod.splits if_splits)
qed

section \<open>Templates\<close>

definition covers :: "string list \<Rightarrow> string list \<Rightarrow> bool" where
  "covers template tokens \<longleftrightarrow> list_all2 (\<lambda>t x. t = x \<or> t = ''<*>'') template tokens"

lemma covers_refl: "covers t t"
  by (simp add: covers_def list_all2_conv_all_nth)

lemma covers_create_template:
  assumes "length tokens = length t"
  shows "covers (create_template tokens t) tokens" "covers t x \<Longrightarrow> covers (create_template tokens t) x"
  using assms by (auto simp: covers_def create_template_def list_all2_conv_all_nth)

section \<open>The invariant\<close>

text \<open>The tree has under the key of a length only clusters of that length, and the clusters are those of the messages
  \<open>hist\<close> seen so far, each with its number of messages and a template that covers them.\<close>

definition tree_ok :: "drain \<Rightarrow> bool" where
  "tree_ok d \<longleftrightarrow> dr_param_str d = ''<*>'' \<and> 0 < dr_max_children d \<and>
     (\<forall>len n. map_of (nd_children (dr_root d)) (show_nat len) = Some n \<longrightarrow>
        node_ok (dr_param_str d) (dr_max_children d) n \<and>
        (\<forall>cid\<in>set (node_ids n). \<exists>c. dr_clusters d cid = Some c \<and> length (lc_template_tokens c) = len))"

definition clusters_ok :: "drain \<Rightarrow> (nat \<times> string list) list \<Rightarrow> bool" where
  "clusters_ok d hist \<longleftrightarrow>
     (\<forall>cid c. dr_clusters d cid = Some c \<longrightarrow> cid \<le> dr_next_id d \<and> lc_size c = count_list (map fst hist) cid) \<and>
     (\<forall>cid tokens. (cid, tokens) \<in> set hist \<longrightarrow> (\<exists>c. dr_clusters d cid = Some c \<and> covers (lc_template_tokens c) tokens))"

lemma tree_okD:
  assumes "tree_ok d" and "map_of (nd_children (dr_root d)) (show_nat len) = Some n" and "cid \<in> set (node_ids n)"
  shows "\<exists>c. dr_clusters d cid = Some c \<and> length (lc_template_tokens c) = len"
  using assms by (auto simp: tree_ok_def)

lemma tree_search_found:
  assumes "tree_ok d" and "tree_search d tokens = Some cid"
  shows "\<exists>c. dr_clusters d cid = Some c \<and> length (lc_template_tokens c) = length tokens"
proof -
  obtain n where n: "map_of (nd_children (dr_root d)) (show_nat (length tokens)) = Some n"
    using assms(2) by (auto simp: tree_search_def Let_def split: option.splits)
  have "cid \<in> set (node_ids n)"
  proof (cases "tokens = []")
    case True
    then have "cid \<in> set (nd_cluster_ids n)"
      using assms(2) n by (auto simp: tree_search_def Let_def split: option.splits list.splits)
    then show ?thesis using own_ids by blast
  next
    case False
    then obtain m where "walk_tree d (length tokens) 0 tokens n = Some m" "fast_match d (nd_cluster_ids m) tokens False = Some cid"
      using assms(2) n by (auto simp: tree_search_def Let_def split: option.splits)
    then show ?thesis using fast_match_found(1) walk_tree_ids by blast
  qed
  then show ?thesis by (rule tree_okD [OF assms(1) n])
qed

lemma full_search_found:
  assumes "tree_ok d" and "fast_match d (get_cluster_ids_for_seq_len order d (length tokens)) tokens True = Some cid"
  shows "\<exists>c. dr_clusters d cid = Some c \<and> length (lc_template_tokens c) = length tokens"
proof -
  have c: "cid \<in> set (get_cluster_ids_for_seq_len order d (length tokens))" by (rule fast_match_found(1) [OF assms(2)])
  then obtain n where n: "map_of (nd_children (dr_root d)) (show_nat (length tokens)) = Some n"
    by (cases "map_of (nd_children (dr_root d)) (show_nat (length tokens))") (auto simp: get_cluster_ids_for_seq_len_def)
  then have "cid \<in> set (node_ids n)" using c collect_cluster_ids_ids by (fastforce simp: get_cluster_ids_for_seq_len_def)
  then show ?thesis by (rule tree_okD [OF assms(1) n])
qed

text \<open>A message that joins a cluster.\<close>

lemma join_cluster_ok:
  assumes "tree_ok d" and "clusters_ok d hist" and "dr_clusters d cid = Some c"
    and "length (lc_template_tokens c) = length tokens"
    and "c' = c\<lparr>lc_template_tokens := create_template tokens (lc_template_tokens c), lc_size := lc_size c + 1\<rparr>"
    and "d' = d\<lparr>dr_clusters := (dr_clusters d)(cid \<mapsto> c')\<rparr>"
  shows "tree_ok d'" "clusters_ok d' (hist @ [(cid, tokens)])"
proof -
  note cov = covers_create_template [OF assms(4) [symmetric]]
  have "length (lc_template_tokens c') = length (lc_template_tokens c)" using assms(4,5) by (simp add: create_template_def)
  then show "tree_ok d'" using assms(1,3,6) by (fastforce simp: tree_ok_def)
  show "clusters_ok d' (hist @ [(cid, tokens)])"
    using assms(2,3,5,6) cov by (fastforce simp: clusters_ok_def)
qed

text \<open>A message that starts a cluster.\<close>

lemma add_to_prefix_tree_ok:
  assumes "tree_ok d" and "tree_ok (d\<lparr>dr_clusters := cs\<rparr>)"
    and "cs (lc_cluster_id c) = Some c"
  shows "\<exists>root. add_to_prefix_tree d c = Some (d\<lparr>dr_root := root\<rparr>) \<and> tree_ok (d\<lparr>dr_root := root, dr_clusters := cs\<rparr>)"
proof -
  let ?ch = "nd_children (dr_root d)" and ?len = "length (lc_template_tokens c)" and ?cid = "lc_cluster_id c"
  let ?first = "child_or_new ?ch (show_nat ?len)"
  have M: "0 < dr_max_children d" using assms(1) by (simp add: tree_ok_def)
  have first: "node_ok (dr_param_str d) (dr_max_children d) ?first"
    using assms(1) by (auto simp: child_or_new_def node_new_def tree_ok_def split: option.splits)
  have first_ids: "\<exists>x. cs i = Some x \<and> length (lc_template_tokens x) = ?len" if "i \<in> set (node_ids ?first)" for i
    using that assms(2) by (auto simp: child_or_new_def node_new_def tree_ok_def split: option.splits)
  obtain n where n: "(if ?len = 0 then Some (Node (nd_children ?first) [?cid])
        else insert_path d ?cid ?len 0 (lc_template_tokens c) ?first) = Some n"
    "node_ok (dr_param_str d) (dr_max_children d) n" "set (node_ids n) \<subseteq> insert ?cid (set (node_ids ?first))"
  proof (cases "?len = 0")
    case True
    then show thesis using that [of "Node (nd_children ?first) [?cid]"] first by (cases ?first) auto
  next
    case False
    obtain n' where "insert_path d ?cid ?len 0 (lc_template_tokens c) ?first = Some n'"
      "node_ok (dr_param_str d) (dr_max_children d) n'" "set (node_ids n') \<subseteq> insert ?cid (set (node_ids ?first))"
      using insert_path_ok [OF M first, of ?cid ?len 0 "lc_template_tokens c"] by blast
    with False show thesis using that [of n'] by simp
  qed
  let ?root = "Node (AList.update (show_nat ?len) n ?ch) (nd_cluster_ids (dr_root d))"
  have ids: "\<exists>x. cs i = Some x \<and> length (lc_template_tokens x) = ?len" if "i \<in> set (node_ids n)" for i
    using that n(3) first_ids assms(3) by auto
  have "tree_ok (d\<lparr>dr_root := ?root, dr_clusters := cs\<rparr>)"
    using assms(2) n(2) ids by (auto simp: tree_ok_def update_conv' show_nat_inj)
  moreover have "add_to_prefix_tree d c = Some (d\<lparr>dr_root := ?root\<rparr>)"
    using n(1) by (simp add: add_to_prefix_tree_def Let_def)
  ultimately show ?thesis by blast
qed

lemma new_cluster_ok:
  assumes "tree_ok d" and "clusters_ok d hist" and "cid = dr_next_id d + 1" and "c = log_cluster_new cid tokens"
  shows "\<exists>root. add_to_prefix_tree (d\<lparr>dr_next_id := cid\<rparr>) c = Some (d\<lparr>dr_next_id := cid, dr_root := root\<rparr>) \<and>
    tree_ok (d\<lparr>dr_next_id := cid, dr_root := root, dr_clusters := (dr_clusters d)(cid \<mapsto> c)\<rparr>) \<and>
    clusters_ok (d\<lparr>dr_next_id := cid, dr_root := root, dr_clusters := (dr_clusters d)(cid \<mapsto> c)\<rparr>) (hist @ [(cid, tokens)])"
proof -
  let ?d = "d\<lparr>dr_next_id := cid\<rparr>" and ?cs = "(dr_clusters d)(cid \<mapsto> c)"
  have fresh: "dr_clusters d cid = None"
  proof (rule ccontr)
    assume "dr_clusters d cid \<noteq> None"
    then have "cid \<le> dr_next_id d" using assms(2) by (auto simp: clusters_ok_def)
    then show False using assms(3) by simp
  qed
  then have hist: "cid \<notin> fst ` set hist" using assms(2) by (fastforce simp: clusters_ok_def)
  have "tree_ok ?d" using assms(1) by (auto simp: tree_ok_def)
  moreover have "tree_ok (?d\<lparr>dr_clusters := ?cs\<rparr>)" using assms(1) fresh by (fastforce simp: tree_ok_def)
  moreover have "?cs (lc_cluster_id c) = Some c" using assms(4) by (simp add: log_cluster_new_def)
  ultimately obtain root where root: "add_to_prefix_tree ?d c = Some (?d\<lparr>dr_root := root\<rparr>)"
    "tree_ok (?d\<lparr>dr_root := root, dr_clusters := ?cs\<rparr>)" using add_to_prefix_tree_ok by blast
  have "clusters_ok (?d\<lparr>dr_root := root, dr_clusters := ?cs\<rparr>) (hist @ [(cid, tokens)])"
    unfolding clusters_ok_def
  proof (intro conjI allI impI)
    fix i x assume "dr_clusters (?d\<lparr>dr_root := root, dr_clusters := ?cs\<rparr>) i = Some x"
    then show "i \<le> dr_next_id (?d\<lparr>dr_root := root, dr_clusters := ?cs\<rparr>)" "lc_size x = count_list (map fst (hist @ [(cid, tokens)])) i"
      using assms hist by (auto simp: clusters_ok_def log_cluster_new_def count_list_0_iff le_SucI split: if_splits)
  next
    fix i t assume "(i, t) \<in> set (hist @ [(cid, tokens)])"
    then show "\<exists>x. dr_clusters (?d\<lparr>dr_root := root, dr_clusters := ?cs\<rparr>) i = Some x \<and> covers (lc_template_tokens x) t"
      using assms(2,4) hist covers_refl by (force simp: clusters_ok_def log_cluster_new_def)
  qed
  with root show ?thesis by blast
qed

lemma add_log_message_ok:
  assumes "tree_ok d" and "clusters_ok d hist"
  shows "\<exists>cid new d'. add_log_message order d m = Some ((cid, new), d') \<and> tree_ok d' \<and>
    clusters_ok d' (hist @ [(cid, tokenise d m)]) \<and> dr_extra_delimiters d' = dr_extra_delimiters d"
proof -
  let ?t = "tokenise d m"
  let ?found = "case tree_search d ?t of Some cid \<Rightarrow> Some cid
    | None \<Rightarrow> fast_match d (get_cluster_ids_for_seq_len order d (length ?t)) ?t True"
  show ?thesis
  proof (cases ?found)
    case None
    from new_cluster_ok [OF assms refl refl, of ?t] None show ?thesis
      by (auto simp: add_log_message_def Let_def)
  next
    case (Some cid)
    then have "\<exists>c. dr_clusters d cid = Some c \<and> length (lc_template_tokens c) = length ?t"
      using tree_search_found [OF assms(1), of ?t] full_search_found [OF assms(1), of order ?t] by (auto split: option.splits)
    then obtain c where c: "dr_clusters d cid = Some c" "length (lc_template_tokens c) = length ?t" by blast
    from join_cluster_ok [OF assms c refl refl] Some c(1) show ?thesis
      by (auto simp: add_log_message_def Let_def)
  qed
qed

lemma add_log_messages_ok:
  assumes "tree_ok d" and "clusters_ok d hist"
  shows "\<exists>ids d'. add_log_messages order d ms = Some (ids, d') \<and> length ids = length ms \<and> tree_ok d' \<and>
    clusters_ok d' (hist @ zip ids (map (tokenise d) ms))"
  using assms
proof (induction ms arbitrary: d hist)
  case (Cons m ms)
  obtain cid new d1 where d1: "add_log_message order d m = Some ((cid, new), d1)" "tree_ok d1"
    "clusters_ok d1 (hist @ [(cid, tokenise d m)])" "dr_extra_delimiters d1 = dr_extra_delimiters d"
    using add_log_message_ok [OF Cons.prems] by blast
  have "tokenise d1 = tokenise d" using d1(4) by (simp add: fun_eq_iff tokenise_def)
  with Cons.IH [OF d1(2,3)] d1(1) show ?case by fastforce
qed simp

lemma drain_new_ok: "0 < dc_max_children cfg \<Longrightarrow> tree_ok (drain_new cfg) \<and> clusters_ok (drain_new cfg) []"
  by (simp add: tree_ok_def clusters_ok_def drain_new_def node_new_def)

text \<open>C36. The template miner assigns every message to a cluster without failing, whatever the order of its hash maps, and at
  the end the template of a cluster covers the tokens of each of its messages, position by position up to wildcards; the
  size of a cluster is the number of messages assigned to it.\<close>

theorem template_covers_its_messages:
  assumes "0 < dc_max_children cfg"
  shows "\<exists>ids d. add_log_messages order (drain_new cfg) ms = Some (ids, d) \<and> length ids = length ms \<and>
    (\<forall>i<length ms. \<exists>c. dr_clusters d (ids ! i) = Some c \<and> lc_size c = count_list ids (ids ! i) \<and>
       covers (lc_template_tokens c) (tokenise (drain_new cfg) (ms ! i)))"
proof -
  let ?tok = "tokenise (drain_new cfg)"
  obtain ids d where d: "add_log_messages order (drain_new cfg) ms = Some (ids, d)" "length ids = length ms"
    "clusters_ok d (zip ids (map ?tok ms))"
    using add_log_messages_ok [of "drain_new cfg" "[]" order ms] drain_new_ok [OF assms] by auto
  have "\<exists>c. dr_clusters d (ids ! i) = Some c \<and> lc_size c = count_list ids (ids ! i) \<and> covers (lc_template_tokens c) (?tok (ms ! i))"
    if "i < length ms" for i
  proof -
    have "(ids ! i, ?tok (ms ! i)) \<in> set (zip ids (map ?tok ms))" using that d(2) by (auto simp: in_set_zip)
    then show ?thesis using d(2,3) by (fastforce simp: clusters_ok_def)
  qed
  with d(1,2) show ?thesis by blast
qed

lemma sample_clusters:
  "map_option fst (add_log_messages (\<lambda>_ _ ks. ks) (drain_new drain_config_default)
     [''ann in'', ''bob in'']) = Some [1, 1]"
  by code_simp

theorem template_covers_its_messages_witness:
  "\<exists>d. add_log_messages (\<lambda>_ _ ks. ks) (drain_new drain_config_default)
      [''ann in'', ''bob in''] = Some ([1, 1], d) \<and>
    (\<exists>c. dr_clusters d 1 = Some c \<and> lc_size c = 2 \<and>
      covers (lc_template_tokens c) (tokenise (drain_new drain_config_default) ''bob in''))"
proof -
  let ?ms = "[''ann in'', ''bob in'']"
  obtain ids d where d: "add_log_messages (\<lambda>_ _ ks. ks) (drain_new drain_config_default) ?ms = Some (ids, d)"
    "\<forall>i<length ?ms. \<exists>c. dr_clusters d (ids ! i) = Some c \<and> lc_size c = count_list ids (ids ! i) \<and>
       covers (lc_template_tokens c) (tokenise (drain_new drain_config_default) (?ms ! i))"
    using template_covers_its_messages [of drain_config_default "\<lambda>_ _ ks. ks" ?ms] by (auto simp: drain_config_default_def)
  have "ids = [1, 1]" using sample_clusters d(1) by simp
  with d(1) d(2) [rule_format, of 1] show ?thesis by auto
qed

end
