(* ===== verification/Lj_Dedup_Groups.thy ===== *)
theory Lj_Dedup_Groups
  imports Lj_Dedup Lj_Drain_Proofs
begin

text \<open>
  What the stages of the deduplicator do to the groups. Grouping by equal bodies and by equal canonical bodies are two uses
  of one scheme, a vector of groups with a map from keys to positions; the scheme computes the groups of the reference
  definition \<open>groups_by\<close>. Every stage conserves the number of records.
\<close>

section \<open>Grouping by a key\<close>

definition first_keys :: "'k list \<Rightarrow> 'k list" where
  "first_keys ks = fold (\<lambda>k acc. if k \<in> set acc then acc else acc @ [k]) ks []"

lemma first_keys_simps [simp]:
  "first_keys [] = []" "first_keys (ks @ [k]) = (if k \<in> set (first_keys ks) then first_keys ks else first_keys ks @ [k])"
  by (simp_all add: first_keys_def)

lemma set_first_keys [simp]: "set (first_keys ks) = set ks"
  by (induction ks rule: rev_induct) auto

lemma distinct_first_keys: "distinct (first_keys ks)"
  by (induction ks rule: rev_induct) auto

definition collect :: "('x \<Rightarrow> 'g \<Rightarrow> 'g) \<Rightarrow> ('x \<Rightarrow> 'g) \<Rightarrow> 'x list \<Rightarrow> 'g" where
  "collect add start xs = fold add (tl xs) (start (hd xs))"

definition groups_by :: "('x \<Rightarrow> 'k) \<Rightarrow> ('x \<Rightarrow> 'g \<Rightarrow> 'g) \<Rightarrow> ('x \<Rightarrow> 'g) \<Rightarrow> 'x list \<Rightarrow> 'g list" where
  "groups_by key add start xs = map (\<lambda>k. collect add start (filter (\<lambda>x. key x = k) xs)) (first_keys (map key xs))"

definition group_step ::
    "('x \<Rightarrow> 'k) \<Rightarrow> ('x \<Rightarrow> 'g \<Rightarrow> 'g) \<Rightarrow> ('x \<Rightarrow> 'g) \<Rightarrow> 'x \<Rightarrow> ('k \<rightharpoonup> nat) \<times> 'g list \<Rightarrow> ('k \<rightharpoonup> nat) \<times> 'g list" where
  "group_step key add start x st =
     (let (idx, gs) = st in
      case idx (key x) of
        Some i \<Rightarrow> (idx, gs[i := add x (gs ! i)])
      | None \<Rightarrow> (idx(key x \<mapsto> length gs), gs @ [start x]))"

lemma collect_snoc: "xs \<noteq> [] \<Longrightarrow> collect add start (xs @ [x]) = add x (collect add start xs)"
  by (cases xs) (simp_all add: collect_def)

lemma groups_by_snoc:
  "groups_by key add start (xs @ [x]) =
     (if key x \<in> key ` set xs
      then map (\<lambda>k. if k = key x then add x (collect add start (filter (\<lambda>y. key y = k) xs))
                    else collect add start (filter (\<lambda>y. key y = k) xs)) (first_keys (map key xs))
      else groups_by key add start xs @ [start x])"
proof (cases "key x \<in> key ` set xs")
  case True
  then have "filter (\<lambda>y. key y = key x) xs \<noteq> []" by (auto simp: filter_empty_conv)
  with True show ?thesis by (auto simp: groups_by_def collect_snoc)
next
  case False
  then have "filter (\<lambda>y. key y = key x) xs = []" by (auto simp: filter_empty_conv image_iff)
  moreover have "k \<noteq> key x" if "k \<in> set (first_keys (map key xs))" for k using that False by (metis set_first_keys set_map)
  ultimately show ?thesis using False by (auto simp: groups_by_def collect_def)
qed

lemma group_fold_state:
  "\<exists>idx. fold (group_step key add start) xs (Map.empty, []) = (idx, groups_by key add start xs) \<and>
     (\<forall>k i. idx k = Some i \<longleftrightarrow> i < length (first_keys (map key xs)) \<and> first_keys (map key xs) ! i = k)"
proof (induction xs rule: rev_induct)
  case Nil
  show ?case by (simp add: groups_by_def)
next
  case (snoc x xs)
  let ?ks = "first_keys (map key xs)"
  from snoc obtain idx where idx: "fold (group_step key add start) xs (Map.empty, []) = (idx, groups_by key add start xs)"
    "\<forall>k i. idx k = Some i \<longleftrightarrow> i < length ?ks \<and> ?ks ! i = k" by blast
  show ?case
  proof (cases "key x \<in> key ` set xs")
    case True
    then obtain i where i: "i < length ?ks" "?ks ! i = key x" by (metis in_set_conv_nth image_set set_first_keys)
    have uniq: "j = i" if "j < length ?ks" "?ks ! j = key x" for j
      using that i distinct_first_keys [of "map key xs"] by (metis nth_eq_iff_index_eq)
    have "(groups_by key add start xs)[i := add x (groups_by key add start xs ! i)] = groups_by key add start (xs @ [x])"
      unfolding groups_by_snoc [of key add start xs x] if_P [OF True] unfolding groups_by_def
      using i by (intro nth_equalityI) (auto simp: nth_list_update dest: uniq)
    moreover have "idx (key x) = Some i" using idx(2) i by blast
    ultimately have "group_step key add start x (idx, groups_by key add start xs) = (idx, groups_by key add start (xs @ [x]))"
      by (simp add: group_step_def)
    moreover have "first_keys (map key (xs @ [x])) = ?ks" using True by simp
    ultimately show ?thesis using idx by (intro exI [of _ idx]) (simp only: fold_append fold.simps comp_def id_def, simp)
  next
    case False
    then have none: "idx (key x) = None" using idx(2) by (metis image_set not_Some_eq nth_mem set_first_keys)
    have len: "length (groups_by key add start xs) = length ?ks" by (simp add: groups_by_def)
    have "group_step key add start x (idx, groups_by key add start xs)
        = (idx(key x \<mapsto> length ?ks), groups_by key add start (xs @ [x]))"
      using none False len by (simp add: group_step_def groups_by_snoc)
    then have "fold (group_step key add start) (xs @ [x]) (Map.empty, [])
        = (idx(key x \<mapsto> length ?ks), groups_by key add start (xs @ [x]))" using idx(1) by simp
    moreover have "first_keys (map key (xs @ [x])) = ?ks @ [key x]" using False by simp
    moreover have "(idx(key x \<mapsto> length ?ks)) k = Some i \<longleftrightarrow> i < length (?ks @ [key x]) \<and> (?ks @ [key x]) ! i = k" for k i
      using idx(2) [rule_format, of k i] none by (auto simp: nth_append less_Suc_eq)
    ultimately show ?thesis by metis
  qed
qed

lemma group_fold: "snd (fold (group_step key add start) xs (Map.empty, [])) = groups_by key add start xs"
  using group_fold_state [of key add start xs] by auto

text \<open>A weight that joining adds up is conserved.\<close>

lemma sum_list_map_update_point:
  assumes "i < length ks" and "distinct ks" and "f (ks ! i) = g (ks ! i) + (v :: 'm :: comm_monoid_add)"
    and "\<And>k. k \<noteq> ks ! i \<Longrightarrow> f k = g k"
  shows "sum_list (map f ks) = sum_list (map g ks) + v"
proof -
  have "f k = g k" if "k \<in> set (take i ks) \<union> set (drop (Suc i) ks)" for k
    using that assms(2) by (intro assms(4)) (metis UnE assms(1) distinct_append distinct.simps(2) id_take_nth_drop
        disjoint_iff list.set_intros(1))
  then have "map f (take i ks) = map g (take i ks)" "map f (drop (Suc i) ks) = map g (drop (Suc i) ks)" by auto
  note eq = this [THEN arg_cong [where f = sum_list]]
  have "ks = take i ks @ ks ! i # drop (Suc i) ks" by (rule id_take_nth_drop [OF assms(1)])
  then have "sum_list (map h ks) = sum_list (map h (take i ks)) + (h (ks ! i) + sum_list (map h (drop (Suc i) ks)))" for h :: "_ \<Rightarrow> 'm"
    by (metis list.simps(9) map_append sum_list.Cons sum_list_append)
  from this [of f] this [of g] eq assms(3) show ?thesis by (simp add: add_ac)
qed

lemma groups_by_weight:
  assumes "\<And>x. w (start x) = v x" and "\<And>x g. w (add x g) = w g + (v x :: 'm :: comm_monoid_add)"
  shows "sum_list (map w (groups_by key add start xs)) = sum_list (map v xs)"
proof (induction xs rule: rev_induct)
  case (snoc x xs)
  let ?ks = "first_keys (map key xs)" and ?c = "\<lambda>k. collect add start (filter (\<lambda>y. key y = k) xs)"
  show ?case
  proof (cases "key x \<in> key ` set xs")
    case True
    then obtain i where i: "i < length ?ks" "?ks ! i = key x" by (metis in_set_conv_nth image_set set_first_keys)
    have "sum_list (map (\<lambda>k. w (if k = key x then add x (?c k) else ?c k)) ?ks) = sum_list (map (w \<circ> ?c) ?ks) + v x"
      by (rule sum_list_map_update_point [OF i(1) distinct_first_keys]) (use i(2) assms(2) in auto)
    then show ?thesis using True snoc by (simp add: groups_by_snoc comp_def) (simp add: groups_by_def comp_def)
  qed (use snoc assms(1) in \<open>simp add: groups_by_snoc\<close>)
qed (simp add: groups_by_def)

section \<open>Maps of lists\<close>

definition pushed :: "('k \<times> 'v list) list \<Rightarrow> 'v list \<Rightarrow> bool" where
  "pushed m vs \<longleftrightarrow> distinct (map fst m) \<and> (\<forall>l\<in>snd ` set m. l \<noteq> []) \<and> mset (concat (map snd m)) = mset vs"

lemma entry_push_pushed: "pushed m vs \<Longrightarrow> pushed (entry_push k v m) (vs @ [v])"
proof -
  assume p: "pushed m vs"
  have "mset (concat (map snd (entry_push k v m))) = add_mset v (mset (concat (map snd m)))"
    unfolding entry_push_def by (induction m) auto
  moreover have "l \<noteq> []" if "l \<in> snd ` set (entry_push k v m)" for l
    using that p set_AList_update [of k "(case map_of m k of Some vs \<Rightarrow> vs | None \<Rightarrow> []) @ [v]" m]
    by (auto simp: pushed_def entry_push_def)
  ultimately show ?thesis using p distinct_update [of m k] by (auto simp: pushed_def entry_push_def)
qed

lemma pushed_fold: "pushed (fold (\<lambda>x. entry_push (key x) (val x)) xs []) (map val xs)"
  by (induction xs rule: rev_induct) (auto simp: entry_push_pushed, simp add: pushed_def)

lemma entries_in_mset:
  assumes "distinct (map fst m)" and "mset (order (map fst m)) = mset (map fst m)"
  shows "mset (entries_in order m) = mset m"
proof -
  let ?f = "\<lambda>k. (k, the (map_of m k))"
  have "set (order (map fst m)) = fst ` set m" using assms(2) by (metis mset_eq_setD set_map)
  moreover have "set ks \<subseteq> fst ` set m \<Longrightarrow> List.map_filter (\<lambda>k. map_option (Pair k) (map_of m k)) ks = map ?f ks" for ks
    by (induction ks) (auto simp: List.map_filter_simps map_of_eq_None_iff split: option.splits)
  ultimately have "entries_in order m = map ?f (order (map fst m))" unfolding entries_in_def by blast
  then have "mset (entries_in order m) = mset (map ?f (map fst m))" using assms(2) by (simp only: mset_map)
  also have "map ?f (map fst m) = m" using assms(1) by (auto intro!: map_idI)
  finally show ?thesis .
qed

end
