(* ===== verification/Lj_Dedup_Emit.thy ===== *)
theory Lj_Dedup_Emit
  imports Lj_Dedup
begin

text \<open>
  Writing the groups (\<^verbatim>\<open>ljx/src/dedup/emit.rs\<close>) and the command \<^verbatim>\<open>ljx dedup\<close>
  (\<^verbatim>\<open>ljx/src/commands/dedup.rs\<close>): one log batch per group with the attributes of the deduplication, together with the
  records that were passed through, ordered by time and numbered afresh.
\<close>

record dedup_metadata =
  dm_effective_mode :: string
  dm_behaviour :: string
  dm_matcher :: string
  dm_scope :: string
  dm_window :: string

definition dedup_metadata_of :: "string \<Rightarrow> bool \<Rightarrow> dedup_metadata" where
  "dedup_metadata_of label used_drain3 =
     (let (behaviour, base_matcher) = (case split_once CHR ''/'' label of Some p \<Rightarrow> p | None \<Rightarrow> (label, ''exact''));
          matcher =
            (if used_drain3 \<and> base_matcher = ''full'' then ''drain3''
             else if base_matcher = ''full'' then ''canon''
             else base_matcher)
      in \<lparr>dm_effective_mode = behaviour @ ''/'' @ matcher, dm_behaviour = behaviour, dm_matcher = matcher,
          dm_scope = (if behaviour = ''distinct'' then ''global'' else if behaviour = ''collapse'' then ''bucketed''
                      else ''unknown''),
          dm_window = (if behaviour = ''distinct'' then ''whole-selection''
                       else if behaviour = ''collapse'' then ''consecutive-run'' else ''unknown'')\<rparr>)"

definition attr_str :: "string \<Rightarrow> string \<Rightarrow> key_value" where
  "attr_str key val = KeyValue key (Some (AnyValue (Some (StringValue val))))"

definition attr_i64 :: "string \<Rightarrow> i64 \<Rightarrow> key_value" where
  "attr_i64 key val = KeyValue key (Some (AnyValue (Some (IntValue val))))"

definition dedup_attributes :: "dedup_group \<Rightarrow> string \<Rightarrow> key_value list" where
  "dedup_attributes g label =
     (let meta = dedup_metadata_of label (dg_drain3_template g \<noteq> None) in
      [attr_i64 ''dedup.count'' (dg_count g),
       attr_str ''dedup.mode'' (dm_effective_mode meta),
       attr_str ''dedup.behaviour'' (dm_behaviour meta),
       attr_str ''dedup.matcher'' (dm_matcher meta),
       attr_str ''dedup.scope'' (dm_scope meta),
       attr_str ''dedup.window'' (dm_window meta),
       attr_str ''dedup.signature'' (hex_digits 16 (unat (dg_signature g))),
       attr_i64 ''dedup.first_seen_ns'' (dg_first_seen_ns g),
       attr_i64 ''dedup.last_seen_ns'' (dg_last_seen_ns g),
       attr_i64 ''dedup.time_span_ms'' (saturating_sub (dg_last_seen_ns g) (dg_first_seen_ns g) div 1000000),
       attr_str ''dedup.exemplar_trace_ids'' (join '','' (dg_exemplar_trace_ids g)),
       attr_str ''dedup.exemplar_span_ids'' (join '','' (dg_exemplar_span_ids g))] @
      (case dg_canonical_body g of Some c \<Rightarrow> [attr_str ''dedup.canonical_body'' c] | None \<Rightarrow> []) @
      (case dg_body_shape g of Some s \<Rightarrow> [attr_str ''dedup.body_shape'' s] | None \<Rightarrow> []) @
      (case dg_drain3_template g of Some t \<Rightarrow> [attr_str ''dedup.drain3_template'' t] | None \<Rightarrow> []) @
      (case dg_drain3_cluster_id g of Some cid \<Rightarrow> [attr_i64 ''dedup.drain3_cluster_id'' (of_nat cid)] | None \<Rightarrow> []))"

definition group_batch :: "dedup_group \<Rightarrow> string \<Rightarrow> otlp_logs" where
  "group_batch g label =
     (let rep = dg_representative g;
          lr = \<lparr>ol_time_unix_nano = dg_first_seen_ns g, ol_observed_time_unix_nano = dg_last_seen_ns g,
                ol_severity_number = fr_severity_number rep, ol_severity_text = fr_severity_text rep,
                ol_body = Some (AnyValue (Some (StringValue (fr_body rep)))),
                ol_attributes = fr_record_attrs rep @ dedup_attributes g label,
                ol_dropped_attributes_count = 0, ol_flags = 0,
                ol_trace_id = fr_trace_id rep, ol_span_id = fr_span_id rep, ol_event_name = fr_event_name rep\<rparr>
      in [\<lparr>orl_resource = Some \<lparr>or_attributes = fr_resource_attrs rep, or_dropped_attributes_count = 0\<rparr>,
           orl_scope_logs =
             [\<lparr>osl_scope = Some \<lparr>os_name = fr_scope_name rep, os_version = [], os_attributes = fr_scope_attrs rep,
                                 os_dropped_attributes_count = 0\<rparr>,
               osl_log_records = [lr], osl_schema_url = []\<rparr>],
           orl_schema_url = []\<rparr>])"

definition build_otlp_payload :: "otlp_codec \<Rightarrow> dedup_group \<Rightarrow> string \<Rightarrow> bytes" where
  "build_otlp_payload K g label = enc_logs K (group_batch g label)"

record dedup_stats =
  ds_total_records :: u64
  ds_group_count :: u64

definition emit_records :: "otlp_codec \<Rightarrow> dedup_group list \<Rightarrow> owned_record list \<Rightarrow> string \<Rightarrow> (u64 \<times> record_type \<times> bytes) list" where
  "emit_records K groups passthrough label =
     sort_key fst
       (map (\<lambda>g. (dg_first_seen_ns g, Logs, build_otlp_payload K g label)) groups @
        map (\<lambda>r. (ts_unix_ns r, record_type r, payload r)) passthrough)"

fun emit_loop ::
    "extern \<Rightarrow> 'w write_all \<Rightarrow> nat \<Rightarrow> (u64 \<times> record_type \<times> bytes) list \<Rightarrow> 'w writer \<Rightarrow> (ljx_error + unit) \<times> 'w writer" where
  "emit_loop X write_all n [] w = (Inr (), w)"
| "emit_loop X write_all n ((ts, rt, p) # rest) w =
     (case push X write_all rt (of_nat n) ts p w of
        (Inl e, w) \<Rightarrow> (Inl (LjxLogjet e), w)
      | (Inr _, w) \<Rightarrow> emit_loop X write_all (n + 1) rest w)"

definition emit_write ::
    "extern \<Rightarrow> otlp_codec \<Rightarrow> 'w write_all \<Rightarrow> dedup_group list \<Rightarrow> owned_record list \<Rightarrow> string \<Rightarrow> 'w writer \<Rightarrow>
     (ljx_error + dedup_stats) \<times> 'w writer" where
  "emit_write X K write_all groups passthrough label w =
     (case emit_loop X write_all 0 (emit_records K groups passthrough label) w of
        (Inl e, w) \<Rightarrow> (Inl e, w)
      | (Inr _, w) \<Rightarrow>
          (Inr \<lparr>ds_total_records = sum_list (map dg_count groups), ds_group_count = of_nat (length groups)\<rparr>, w))"

section \<open>The command\<close>

datatype dedup_error = DedupFailed ljx_error | DedupPanic

datatype dedup_match_arg = ExactArg | CanonArg | FullArg

fun match_mode_of_arg :: "dedup_match_arg \<Rightarrow> dedup_match_mode" where
  "match_mode_of_arg ExactArg = ExactMatch"
| "match_mode_of_arg CanonArg = Hash2"
| "match_mode_of_arg FullArg = FullMatch"

definition parse_bucket_by :: "string option \<Rightarrow> ljx_error + bucket_key_kind" where
  "parse_bucket_by bucket_by =
     (case bucket_by of
        None \<Rightarrow> Inr DefaultKey
      | Some val \<Rightarrow>
          let parts = map trim (split_on CHR '','' val);
              has_scope = ''scope'' \<in> set parts;
              has_source = ''source_line'' \<in> set parts
          in case List.find (\<lambda>p. p \<noteq> ''scope'' \<and> p \<noteq> ''source_line'') parts of
               Some p \<Rightarrow> Inl (Usage (''unknown --bucket-by value: '' @ debug_str p @ '' (valid: scope, source_line)''))
             | None \<Rightarrow>
                 Inr (if has_scope \<and> has_source then ScopeAndSourceLineKey
                      else if has_scope then ScopeKey
                      else if has_source then SourceLineKey
                      else DefaultKey))"

record dedup_args =
  da_mode :: dedup_mode
  da_matcher :: dedup_match_arg
  da_bucket_by :: "string option"
  da_sim_th :: "f64 option"
  da_drain_depth :: "int option"
  da_extra_delimiters :: "string option"

definition drain_opts_of :: "dedup_args \<Rightarrow> drain_opts" where
  "drain_opts_of args =
     \<lparr>do_sim_th = (case da_sim_th args of Some t \<Rightarrow> t | None \<Rightarrow> 0x3FE6666666666666),
      do_depth = (case da_drain_depth args of Some n \<Rightarrow> n | None \<Rightarrow> 3),
      do_extra_delimiters = (case da_extra_delimiters args of Some s \<Rightarrow> split_on CHR '','' s | None \<Rightarrow> [])\<rparr>"

definition dedup_opts_of :: "dedup_args \<Rightarrow> bucket_key_kind \<Rightarrow> dedup_opts" where
  "dedup_opts_of args kk =
     \<lparr>opt_mode = da_mode args, opt_match_mode = match_mode_of_arg (da_matcher args), opt_bucket_key = kk,
      opt_drain = drain_opts_of args\<rparr>"

definition dedup ::
    "extern \<Rightarrow> otlp_codec \<Rightarrow> dedup_env \<Rightarrow> 'w write_all \<Rightarrow> flat_record list \<Rightarrow> owned_record list \<Rightarrow> 'w writer \<Rightarrow> dedup_opts \<Rightarrow>
     (dedup_error + dedup_stats) \<times> 'w writer" where
  "dedup X K D write_all records passthrough w opts =
     (case dedup_groups D opts records of
        None \<Rightarrow> (Inl DedupPanic, w)
      | Some groups \<Rightarrow>
          apfst (map_sum DedupFailed id)
            (emit_write X K write_all groups passthrough (mode_label (opt_mode opts) (opt_match_mode opts)) w))"

definition dedup_run ::
    "extern \<Rightarrow> otlp_codec \<Rightarrow> dedup_env \<Rightarrow> 'w write_all \<Rightarrow> ('w \<Rightarrow> (io_error + unit) \<times> 'w) \<Rightarrow> dedup_args \<Rightarrow>
     (ljx_error + dev) \<Rightarrow> (ljx_error + 'w) \<Rightarrow> dedup_error + dedup_stats \<times> 'w" where
  "dedup_run X K D write_all flush args open_input open_output =
     and_then (map_sum DedupFailed id (parse_bucket_by (da_bucket_by args))) (\<lambda>kk.
     let opts = dedup_opts_of args kk in
     and_then (map_sum DedupFailed id open_input) (\<lambda>input.
     and_then (map_sum DedupFailed id (unpack X K (reader_new input))) (\<lambda>u.
     and_then (map_sum DedupFailed id open_output) (\<lambda>out.
     case dedup X K D write_all (ur_records u) (ur_passthrough u) (writer_new out) opts of
       (Inl e, _) \<Rightarrow> Inl e
     | (Inr stats, w) \<Rightarrow>
         (case into_inner X write_all w of
            Inl e \<Rightarrow> Inl (DedupFailed (LjxLogjet e))
          | Inr out \<Rightarrow>
              (case flush out of
                 (Inl e, _) \<Rightarrow> Inl (DedupFailed (LjxIo e))
               | (Inr _, out) \<Rightarrow> Inr (stats, out)))))))"

end
