(* ===== verification/Lj_Index.thy ===== *)
theory Lj_Index
  imports Lj_Predicate "HOL-Library.List_Lexorder" "HOL-Library.Char_ord"
begin

text \<open>
  The block index \<^verbatim>\<open>ljx\<close> keeps for a file (\<^verbatim>\<open>ljx/src/dataset_index.rs\<close>): a summary of each block and of
  the whole file, built by walking the blocks without the reader, and the test \<^verbatim>\<open>may_match\<close> by which a
  scan skips blocks and files. Arithmetic on \<^verbatim>\<open>u64\<close> wraps, as in the release profile; a slice out of
  range is a panic, the constructor \<open>Panic\<close> of \<open>index_error\<close>.
\<close>

datatype index_error = Failed ljx_error | Panic

section \<open>Summaries\<close>

definition SUMMARY_LIMIT :: nat where "SUMMARY_LIMIT = 16"

record index_summary =
  is_size :: u64
  is_modified_ns :: "u64 option"
  is_first_seq :: "u64 option"
  is_last_seq :: "u64 option"
  is_first_ts :: "u64 option"
  is_last_ts :: "u64 option"
  is_record_types :: u8
  is_services :: "string list"
  is_services_complete :: bool
  is_severities :: "string list"
  is_severities_complete :: bool

record index_block =
  ib_offset :: nat
  ib_len :: nat
  ib_first_seq :: "u64 option"
  ib_last_seq :: "u64 option"
  ib_first_ts :: "u64 option"
  ib_last_ts :: "u64 option"
  ib_record_types :: u8
  ib_services :: "string list"
  ib_services_complete :: bool
  ib_severities :: "string list"
  ib_severities_complete :: bool

record dataset_index =
  di_summary :: index_summary
  di_blocks :: "index_block list"

fun record_type_bit :: "record_type \<Rightarrow> u8" where
  "record_type_bit Logs = 1"
| "record_type_bit Metrics = 2"
| "record_type_bit Traces = 4"
| "record_type_bit Events = 8"

text \<open>A capped set of names with its flag: once a seventeenth name would come in the set is
  incomplete and stays as it is.\<close>

type_synonym capped = "string list \<times> bool"

definition insert_capped :: "string \<Rightarrow> capped \<Rightarrow> capped" where
  "insert_capped v s =
     (case s of (names, complete) \<Rightarrow>
        if \<not> complete then s
        else if length names \<ge> SUMMARY_LIMIT \<and> v \<notin> set names then (names, False)
        else (List.insert v names, True))"

fun merge_names :: "string list \<Rightarrow> string list \<Rightarrow> capped" where
  "merge_names names [] = (names, True)"
| "merge_names names (v # vs) =
     (if length names \<ge> SUMMARY_LIMIT \<and> v \<notin> set names then (names, False)
      else merge_names (List.insert v names) vs)"

definition merge_set :: "capped \<Rightarrow> string list \<Rightarrow> bool \<Rightarrow> capped" where
  "merge_set s values values_complete =
     (case s of (names, complete) \<Rightarrow>
        if \<not> complete then s
        else if \<not> values_complete then (names, False)
        else merge_names names values)"

record summary_builder =
  sb_first_seq :: "u64 option"
  sb_last_seq :: "u64 option"
  sb_first_ts :: "u64 option"
  sb_last_ts :: "u64 option"
  sb_record_types :: u8
  sb_services :: capped
  sb_severities :: capped

definition summary_builder_default :: summary_builder where
  "summary_builder_default =
     \<lparr>sb_first_seq = None, sb_last_seq = None, sb_first_ts = None, sb_last_ts = None, sb_record_types = 0,
      sb_services = ([], True), sb_severities = ([], True)\<rparr>"

text \<open>The names a batch contributes: every service name attribute holding a string, and every severity
  text that is not empty, each in the order of the loops.\<close>

definition batch_services :: "otlp_logs \<Rightarrow> string list" where
  "batch_services batch =
     concat (map (\<lambda>rl. List.map_filter
       (\<lambda>a. if kv_key a = ''service.name'' then attr_string a else None) (resource_attributes (orl_resource rl))) batch)"

definition batch_severities :: "otlp_logs \<Rightarrow> string list" where
  "batch_severities batch = filter (\<lambda>s. s \<noteq> []) (map ol_severity_text (logs_of_batch batch))"

definition collect_log_summaries :: "otlp_codec \<Rightarrow> bytes \<Rightarrow> capped \<times> capped \<Rightarrow> capped \<times> capped" where
  "collect_log_summaries K pl s =
     (case dec_logs K pl of
        Inl _ \<Rightarrow> s
      | Inr batch \<Rightarrow> (fold insert_capped (batch_services batch) (fst s), fold insert_capped (batch_severities batch) (snd s)))"

definition get_or_insert :: "'a option \<Rightarrow> 'a \<Rightarrow> 'a option" where
  "get_or_insert o' v = (case o' of None \<Rightarrow> Some v | Some x \<Rightarrow> Some x)"

definition or_else :: "'a option \<Rightarrow> 'a option \<Rightarrow> 'a option" where
  "or_else a b = (case a of None \<Rightarrow> b | Some x \<Rightarrow> Some x)"

definition builder_push :: "otlp_codec \<Rightarrow> owned_record \<Rightarrow> summary_builder \<Rightarrow> summary_builder" where
  "builder_push K rec b =
     (let (services, severities) =
        (if record_type rec = Logs then collect_log_summaries K (payload rec) (sb_services b, sb_severities b)
         else (sb_services b, sb_severities b)) in
      \<lparr>sb_first_seq = get_or_insert (sb_first_seq b) (seq rec),
       sb_last_seq = Some (seq rec),
       sb_first_ts = get_or_insert (sb_first_ts b) (ts_unix_ns rec),
       sb_last_ts = Some (ts_unix_ns rec),
       sb_record_types = sb_record_types b OR record_type_bit (record_type rec),
       sb_services = services,
       sb_severities = severities\<rparr>)"

definition builder_merge :: "index_block \<Rightarrow> summary_builder \<Rightarrow> summary_builder" where
  "builder_merge blk b =
     \<lparr>sb_first_seq = or_else (sb_first_seq b) (ib_first_seq blk),
      sb_last_seq = or_else (ib_last_seq blk) (sb_last_seq b),
      sb_first_ts = or_else (sb_first_ts b) (ib_first_ts blk),
      sb_last_ts = or_else (ib_last_ts blk) (sb_last_ts b),
      sb_record_types = sb_record_types b OR ib_record_types blk,
      sb_services = merge_set (sb_services b) (ib_services blk) (ib_services_complete blk),
      sb_severities = merge_set (sb_severities b) (ib_severities blk) (ib_severities_complete blk)\<rparr>"

definition builder_finish :: "summary_builder \<Rightarrow> u64 \<Rightarrow> u64 option \<Rightarrow> index_summary" where
  "builder_finish b sz modified_ns =
     \<lparr>is_size = sz, is_modified_ns = modified_ns,
      is_first_seq = sb_first_seq b, is_last_seq = sb_last_seq b,
      is_first_ts = sb_first_ts b, is_last_ts = sb_last_ts b,
      is_record_types = sb_record_types b,
      is_services = sort (fst (sb_services b)), is_services_complete = snd (sb_services b),
      is_severities = sort (fst (sb_severities b)), is_severities_complete = snd (sb_severities b)\<rparr>"

section \<open>Skipping\<close>

definition below :: "u64 option \<Rightarrow> u64 option \<Rightarrow> bool" where
  "below a b = (case (a, b) of (Some x, Some y) \<Rightarrow> x < y | _ \<Rightarrow> False)"

definition none_named :: "string list option \<Rightarrow> bool \<Rightarrow> string list \<Rightarrow> bool" where
  "none_named wanted complete names =
     (case wanted of
        None \<Rightarrow> False
      | Some ws \<Rightarrow> complete \<and> \<not> list_ex (\<lambda>w. list_ex (\<lambda>v. v = w) names) ws)"

definition summary_may_match :: "index_summary \<Rightarrow> ('r, 'p) record_predicate \<Rightarrow> bool" where
  "summary_may_match s p =
     (if (case rp_record_type p of Some k \<Rightarrow> is_record_types s AND record_type_bit k = 0 | None \<Rightarrow> False) then False
      else if below (is_last_seq s) (rp_seq_min p) then False
      else if below (rp_seq_max p) (is_first_seq s) then False
      else if below (is_last_ts s) (rp_ts_min p) then False
      else if below (rp_ts_max p) (is_first_ts s) then False
      else if none_named (ff_services (rp_field_filter p)) (is_services_complete s) (is_services s) then False
      else if none_named (ff_severities (rp_field_filter p)) (is_severities_complete s) (is_severities s) then False
      else True)"

definition block_may_match :: "index_block \<Rightarrow> ('r, 'p) record_predicate \<Rightarrow> bool" where
  "block_may_match b p =
     summary_may_match
       \<lparr>is_size = of_nat (ib_len b), is_modified_ns = None,
        is_first_seq = ib_first_seq b, is_last_seq = ib_last_seq b,
        is_first_ts = ib_first_ts b, is_last_ts = ib_last_ts b,
        is_record_types = ib_record_types b,
        is_services = ib_services b, is_services_complete = ib_services_complete b,
        is_severities = ib_severities b, is_severities_complete = ib_severities_complete b\<rparr> p"

section \<open>Decoding a block without the reader\<close>

text \<open>Unlike the reader's decoder this one has no limit on the length: the shift wraps at 64.\<close>

function index_varint_loop :: "bytes \<Rightarrow> nat \<Rightarrow> u64 \<Rightarrow> nat \<Rightarrow> (error + u64) \<times> nat" where
  "index_varint_loop bs cursor v shift =
     (if cursor < length bs then
        let byte = bs ! cursor; cursor = cursor + 1;
            v = v OR push_bit (shift mod 64) (ucast (byte AND 0x7f))
        in if byte AND 0x80 = 0 then (Inr v, cursor) else index_varint_loop bs cursor v (shift + 7)
      else (Inl (Truncated ''varint''), cursor))"
  by pat_completeness auto
termination by (relation "measure (\<lambda>(bs, cursor, v, shift). length bs - cursor)") auto

declare index_varint_loop.simps [simp del]

definition index_decode_varint :: "bytes \<Rightarrow> nat \<Rightarrow> (error + u64) \<times> nat" where
  "index_decode_varint bs cursor = index_varint_loop bs cursor 0 0"

definition logjet_fail :: "error \<Rightarrow> index_error" where
  "logjet_fail e = Failed (LjxLogjet e)"

definition io_fail :: "io_error \<Rightarrow> index_error" where
  "io_fail e = Failed (LjxIo e)"

definition index_parse_record :: "bytes \<Rightarrow> block_header_ext \<Rightarrow> nat \<Rightarrow> (index_error + owned_record) \<times> nat" where
  "index_parse_record pl ext cursor =
     try_r (map_sum logjet_fail id (record_type_from_u8 (pl ! cursor))) cursor (\<lambda>ty.
     try_from logjet_fail (index_decode_varint pl (cursor + 1)) (\<lambda>sd cursor.
     try_from logjet_fail (index_decode_varint pl cursor) (\<lambda>td cursor.
     try_from logjet_fail (index_decode_varint pl cursor) (\<lambda>payload_len cursor.
     try_r (map_sum logjet_fail id (ok_or (usize_checked_add cursor (unat payload_len)) (NumericOverflow ''record payload end'')))
       cursor (\<lambda>rec_end.
     if rec_end > length pl then (Inl Panic, cursor) else
     (Inr \<lparr>record_type = ty, seq = base_seq ext + sd, ts_unix_ns = base_ts_unix_ns ext + td,
           payload = slice cursor (rec_end - cursor) pl\<rparr>, rec_end))))))"


lemma index_varint_loop_progress:
  "index_varint_loop bs cursor v shift = (Inr x, c) \<Longrightarrow> cursor < c \<and> c \<le> length bs"
proof (induction bs cursor v shift rule: index_varint_loop.induct)
  case (1 bs cursor v shift)
  then show ?case
    by (subst (asm) (2) index_varint_loop.simps) (fastforce simp: Let_def split: if_splits)
qed

lemma index_decode_varint_progress:
  "index_decode_varint bs cursor = (Inr x, c) \<Longrightarrow> cursor < c \<and> c \<le> length bs"
  unfolding index_decode_varint_def by (rule index_varint_loop_progress)

lemma index_parse_record_progress:
  assumes "index_parse_record pl ext cursor = (Inr x, c)"
  shows "cursor < c \<and> c \<le> length pl"
  using assms unfolding index_parse_record_def
  by (fastforce simp: try_Inr usize_checked_add_def dest!: index_decode_varint_progress split: if_splits)

function parse_block_payload :: "bytes \<Rightarrow> block_header_ext \<Rightarrow> nat \<Rightarrow> owned_record list \<Rightarrow> index_error + owned_record list" where
  "parse_block_payload pl ext cursor out =
     (if cursor < length pl then
        (case index_parse_record pl ext cursor of
           (Inl e, _) \<Rightarrow> Inl e
         | (Inr rec, cursor) \<Rightarrow> parse_block_payload pl ext cursor (out @ [rec]))
      else Inr out)"
  by pat_completeness auto
termination
proof (relation "measure (\<lambda>(pl, ext, cursor, out). length pl - cursor)", goal_cases)
  case (2 pl ext cursor out res c x)
  then show ?case using index_parse_record_progress [of pl ext cursor x c] by auto
qed simp

declare parse_block_payload.simps [simp del]

text \<open>The part of \<^verbatim>\<open>read_block_summary\<close> and \<^verbatim>\<open>read_block_records\<close> after the marker: the headers, the
  compressed payload and the block CRC, which is read and not compared.\<close>

definition index_read_block ::
    "extern \<Rightarrow> dev \<Rightarrow> (index_error + block_header \<times> block_header_ext \<times> bytes) \<times> dev" where
  "index_read_block X d =
     try_from io_fail (read_exact BLOCK_HEADER_FIXED_LEN d) (\<lambda>fixed d.
     try_r (map_sum logjet_fail id (header_decode fixed)) d (\<lambda>header.
     try_from io_fail (read_exact (unat (bh_header_len header) - BLOCK_HEADER_FIXED_LEN) d) (\<lambda>ext_bytes d.
     if length ext_bytes < BLOCK_HEADER_EXT_LEN then (Inl Panic, d) else
     try_r (map_sum logjet_fail id (ext_decode (take BLOCK_HEADER_EXT_LEN ext_bytes))) d (\<lambda>ext.
     try_from io_fail (read_exact (unat (bh_compressed_len header)) d) (\<lambda>compressed d.
     try_from io_fail (read_exact 4 d) (\<lambda>crc d.
     try_r (map_sum logjet_fail id (decompress X (bh_codec header) compressed (unat (bh_uncompressed_len header)))) d (\<lambda>pl.
     (Inr (header, ext, pl), d))))))))"

text \<open>\<^verbatim>\<open>File::read\<close> of a regular file: what is left, up to the length of the buffer. \<open>read_sync\<close> reads into a
  zeroed array of eight bytes and also gives the number of bytes read.\<close>

definition read_some :: "nat \<Rightarrow> dev \<Rightarrow> (io_error + bytes) \<times> dev" where
  "read_some n d =
     (let k = min n (length (data d) - pos d) in
      case first_fault (faults d) (pos d) k of
        Some e \<Rightarrow> (Inl e, d)
      | None \<Rightarrow> (Inr (slice (pos d) k (data d)), d\<lparr>pos := pos d + k\<rparr>))"

definition block_of_summary :: "nat \<Rightarrow> nat \<Rightarrow> index_summary \<Rightarrow> index_block" where
  "block_of_summary offset len s =
     \<lparr>ib_offset = offset, ib_len = len,
      ib_first_seq = is_first_seq s, ib_last_seq = is_last_seq s,
      ib_first_ts = is_first_ts s, ib_last_ts = is_last_ts s,
      ib_record_types = is_record_types s,
      ib_services = is_services s, ib_services_complete = is_services_complete s,
      ib_severities = is_severities s, ib_severities_complete = is_severities_complete s\<rparr>"

definition summarise :: "otlp_codec \<Rightarrow> owned_record list \<Rightarrow> u64 \<Rightarrow> u64 option \<Rightarrow> index_summary" where
  "summarise K rs len m = builder_finish (fold (builder_push K) rs summary_builder_default) len m"

definition read_block_summary ::
    "extern \<Rightarrow> otlp_codec \<Rightarrow> nat \<Rightarrow> dev \<Rightarrow> (index_error + index_block option) \<times> dev" where
  "read_block_summary X K offset d =
     try_from io_fail (read_some 8 (seek offset d)) (\<lambda>got d.
     if got = [] then (Inr None, d)
     else if got @ replicate (8 - length got) 0 \<noteq> DEFAULT_SYNC_MARKER then (Inr None, d)
     else try_st (index_read_block X d) (\<lambda>(header, ext, pl) d.
     let len = 8 + unat (bh_header_len header) + unat (bh_compressed_len header) + 4 in
     try_r (parse_block_payload pl ext 0 []) d (\<lambda>rs.
     (Inr (Some (block_of_summary offset len (summarise K rs (of_nat len) None))), d))))"

definition read_block_records :: "extern \<Rightarrow> (ljx_error + dev) \<Rightarrow> index_block \<Rightarrow> index_error + owned_record list" where
  "read_block_records X open_file b =
     (case open_file of
        Inl e \<Rightarrow> Inl (Failed e)
      | Inr d \<Rightarrow>
          fst (try_from io_fail (read_exact 8 (seek (ib_offset b) d)) (\<lambda>sync d.
               try_st (index_read_block X d) (\<lambda>(header, ext, pl) d.
               try_r (parse_block_payload pl ext 0 []) d (\<lambda>rs. (Inr rs, d))))))"

section \<open>Resynchronising\<close>

text \<open>\<^verbatim>\<open>find_next_sync_marker\<close> reads chunks of 4096 bytes and carries the number of matched marker bytes from
  one to the next. \<open>scan_chunk\<close> is its inner loop: the index just after a complete marker, or the
  number of bytes matched at the end of the chunk.\<close>

fun scan_chunk :: "nat \<Rightarrow> nat \<Rightarrow> bytes \<Rightarrow> nat + nat" where
  "scan_chunk matched idx [] = Inr matched"
| "scan_chunk matched idx (byte # bs) =
     (if byte = DEFAULT_SYNC_MARKER ! matched then
        if matched + 1 = length DEFAULT_SYNC_MARKER then Inl (idx + 1) else scan_chunk (matched + 1) (idx + 1) bs
      else scan_chunk (if byte = DEFAULT_SYNC_MARKER ! 0 then 1 else 0) (idx + 1) bs)"

function find_marker_loop :: "nat \<Rightarrow> nat \<Rightarrow> nat \<Rightarrow> dev \<Rightarrow> (index_error + nat option) \<times> dev" where
  "find_marker_loop sz matched scan_pos d =
     (if scan_pos < sz then
        try_from io_fail (read_some (min 4096 (sz - scan_pos)) d) (\<lambda>buf d.
        if buf = [] then (Inr None, d) else
        case scan_chunk matched 0 buf of
          Inl k \<Rightarrow> (Inr (Some (scan_pos + k - length DEFAULT_SYNC_MARKER)), d)
        | Inr matched \<Rightarrow> find_marker_loop sz matched (scan_pos + length buf) d)
      else (Inr None, d))"
  by pat_completeness auto
termination
  by (relation "measure (\<lambda>(sz, matched, scan_pos, d). sz - scan_pos)") (auto simp: neq_Nil_conv)

declare find_marker_loop.simps [simp del]

definition find_next_sync_marker :: "nat \<Rightarrow> nat \<Rightarrow> dev \<Rightarrow> (index_error + nat option) \<times> dev" where
  "find_next_sync_marker start sz d = find_marker_loop sz 0 start (seek start d)"

text \<open>What the search returns is an occurrence of the marker at or after its start.\<close>

definition marker_at :: "dev \<Rightarrow> nat \<Rightarrow> bool" where
  "marker_at d p \<longleftrightarrow> slice p 8 (data d) = DEFAULT_SYNC_MARKER"

definition matched_at :: "bytes \<Rightarrow> nat \<Rightarrow> nat \<Rightarrow> nat \<Rightarrow> bool" where
  "matched_at bs start q m \<longleftrightarrow>
     m < length DEFAULT_SYNC_MARKER \<and> start + m \<le> q \<and> slice (q - m) m bs = take m DEFAULT_SYNC_MARKER"

lemma length_marker [simp]: "length DEFAULT_SYNC_MARKER = 8"
  by (simp add: DEFAULT_SYNC_MARKER_def)

lemma slice_Suc: "q < length bs \<Longrightarrow> m \<le> q \<Longrightarrow> slice (q - m) (Suc m) bs = slice (q - m) m bs @ [bs ! q]"
  by (simp add: slice_def take_Suc_conv_app_nth)

lemma matched_at_0 [simp]: "matched_at bs start q 0 \<longleftrightarrow> start \<le> q"
  by (simp add: matched_at_def slice_def)

lemma matched_at_step:
  assumes "matched_at bs start q m" and "q < length bs"
  shows "bs ! q = DEFAULT_SYNC_MARKER ! m \<Longrightarrow> m + 1 = 8 \<Longrightarrow>
      start + 8 \<le> q + 1 \<and> slice (q + 1 - 8) 8 bs = DEFAULT_SYNC_MARKER"
    and "bs ! q = DEFAULT_SYNC_MARKER ! m \<Longrightarrow> m + 1 \<noteq> 8 \<Longrightarrow> matched_at bs start (q + 1) (m + 1)"
    and "matched_at bs start (q + 1) (if bs ! q = DEFAULT_SYNC_MARKER ! 0 then 1 else 0)"
proof -
  have m: "m < 8" "start + m \<le> q" "slice (q - m) m bs = take m DEFAULT_SYNC_MARKER"
    using assms(1) by (auto simp: matched_at_def)
  have step: "slice (q - m) (Suc m) bs = take (Suc m) DEFAULT_SYNC_MARKER" if "bs ! q = DEFAULT_SYNC_MARKER ! m"
    using that m assms(2) by (simp add: slice_Suc take_Suc_conv_app_nth)
  show "start + 8 \<le> q + 1 \<and> slice (q + 1 - 8) 8 bs = DEFAULT_SYNC_MARKER"
    if "bs ! q = DEFAULT_SYNC_MARKER ! m" "m + 1 = 8"
  proof -
    from that(2) have "m = 7" by simp
    then show ?thesis using step [OF that(1)] m(2) by simp
  qed
  show "matched_at bs start (q + 1) (m + 1)" if "bs ! q = DEFAULT_SYNC_MARKER ! m" "m + 1 \<noteq> 8"
    using step [OF that(1)] m that(2) by (simp add: matched_at_def)
  have "slice q 1 bs = [bs ! q]" using slice_Suc [of q bs 0] assms(2) by (simp add: slice_def)
  then show "matched_at bs start (q + 1) (if bs ! q = DEFAULT_SYNC_MARKER ! 0 then 1 else 0)"
    using m(2) by (auto simp: matched_at_def slice_def DEFAULT_SYNC_MARKER_def)
qed

lemma scan_chunk_sound:
  assumes "matched_at bs start q m" and "chunk = slice q (length chunk) bs" and "q + length chunk \<le> length bs"
  shows "(\<forall>k. scan_chunk m i chunk = Inl k \<longrightarrow> i \<le> k \<and> k \<le> i + length chunk \<and> start + 8 \<le> q + (k - i) \<and>
            slice (q + (k - i) - 8) 8 bs = DEFAULT_SYNC_MARKER) \<and>
         (\<forall>m'. scan_chunk m i chunk = Inr m' \<longrightarrow> matched_at bs start (q + length chunk) m')"
  using assms
proof (induction chunk arbitrary: q m i)
  case (Cons b chunk)
  have bd: "q + 1 + length chunk \<le> length bs" using Cons.prems(3) by simp
  have "slice q (length (b # chunk)) bs = bs ! q # slice (q + 1) (length chunk) bs"
    using bd by (simp add: slice_def Cons_nth_drop_Suc [symmetric])
  with Cons.prems(2) have "b # chunk = bs ! q # slice (q + 1) (length chunk) bs" by (rule trans)
  then have "b = bs ! q" "chunk = slice (q + 1) (length chunk) bs" by blast+
  with bd have q: "q < length bs" "b = bs ! q" "chunk = slice (q + 1) (length chunk) bs" "q + 1 + length chunk \<le> length bs"
    by linarith+
  note st = matched_at_step [OF Cons.prems(1) q(1)]
  have ih: "matched_at bs start (q + 1) n \<Longrightarrow>
     (\<forall>k. scan_chunk n (i + 1) chunk = Inl k \<longrightarrow> i + 1 \<le> k \<and> k \<le> i + 1 + length chunk \<and> start + 8 \<le> q + 1 + (k - (i + 1)) \<and>
        slice (q + 1 + (k - (i + 1)) - 8) 8 bs = DEFAULT_SYNC_MARKER) \<and>
     (\<forall>m'. scan_chunk n (i + 1) chunk = Inr m' \<longrightarrow> matched_at bs start (q + 1 + length chunk) m')" for n
    by (rule Cons.IH [OF _ q(3,4)])
  have shift: "q + 1 + (k - (i + 1)) = q + (k - i)" if "i + 1 \<le> k" for k using that by simp
  show ?case
  proof (cases "b = DEFAULT_SYNC_MARKER ! m")
    case eq: True
    show ?thesis
    proof (cases "m + 1 = 8")
      case True
      then show ?thesis using st(1) eq q(2) by simp
    next
      case False
      then show ?thesis using ih [OF st(2)] eq q(2) shift by (auto simp: add.commute [of 8 i])
    qed
  next
    case False
    then show ?thesis using ih [OF st(3)] q(2) shift by (auto simp: add.commute [of 8 i])
  qed
qed simp

lemma read_some_Inr:
  assumes "read_some n d = (Inr buf, d')"
  shows "buf = slice (pos d) (length buf) (data d)" "pos d' = pos d + length buf" "same_file d d'"
    "buf \<noteq> [] \<Longrightarrow> pos d + length buf \<le> length (data d)" "length buf = min n (length (data d) - pos d)"
  using assms by (auto simp: read_some_def Let_def slice_def same_file_def split: option.splits)

lemma find_marker_loop_sound:
  assumes "find_marker_loop sz m q d = (Inr (Some p), d')" and "matched_at (data d) start q m" and "pos d = q"
  shows "start \<le> p \<and> marker_at d p"
  using assms
proof (induction sz m q d rule: find_marker_loop.induct)
  case (1 sz m q d)
  from 1(2) obtain buf d1 where lt: "q < sz" and buf: "read_some (min 4096 (sz - q)) d = (Inr buf, d1)" "buf \<noteq> []"
    and run: "(case scan_chunk m 0 buf of
          Inl k \<Rightarrow> (Inr (Some (q + k - length DEFAULT_SYNC_MARKER)), d1)
        | Inr matched \<Rightarrow> find_marker_loop sz matched (q + length buf) d1) = (Inr (Some p), d')"
    by (subst (asm) find_marker_loop.simps) (auto simp: try_Inr split: if_splits)
  note b = read_some_Inr [OF buf(1)]
  have le: "q + length buf \<le> length (data d)" using b(4) [OF buf(2)] 1(4) by simp
  note sc = scan_chunk_sound [OF 1(3) b(1) [unfolded 1(4)] le, of 0]
  show ?case
  proof (cases "scan_chunk m 0 buf")
    case (Inl k)
    then have "p = q + k - 8" using run by simp
    then show ?thesis using sc Inl by (auto simp: marker_at_def)
  next
    case (Inr m')
    have "data d1 = data d" using b(3) by (simp add: same_file_def)
    moreover have "start \<le> p \<and> marker_at d1 p"
      using 1(1) [OF lt buf(2) Inr, of d1] run Inr sc calculation b(2) 1(4) buf(1) by simp
    ultimately show ?thesis by (simp add: marker_at_def)
  qed
qed

lemma find_next_sync_marker_sound:
  "find_next_sync_marker start sz d = (Inr (Some p), d') \<Longrightarrow> start \<le> p \<and> marker_at d p"
  using find_marker_loop_sound [of sz 0 start "seek start d" p d' start]
  by (simp add: find_next_sync_marker_def seek_def marker_at_def)

lemma read_block_summary_None:
  assumes "read_block_summary X K offset d = (Inr None, d')"
  shows "\<not> marker_at d offset \<and> same_file d d'"
proof -
  from assms obtain got where got: "read_some 8 (seek offset d) = (Inr got, d')"
      "got = [] \<or> got @ replicate (8 - length got) 0 \<noteq> DEFAULT_SYNC_MARKER"
    unfolding read_block_summary_def Let_def by (auto simp: try_Inr split: if_splits prod.splits)
  note r = read_some_Inr [OF got(1)]
  have "got = DEFAULT_SYNC_MARKER" if m: "marker_at d offset"
  proof -
    have "length (slice offset 8 (data d)) = 8" using m by (simp add: marker_at_def)
    then have "length got = 8" using r(5) by (simp add: slice_def seek_def)
    then show ?thesis using r(1) m by (simp add: marker_at_def seek_def)
  qed
  moreover have "DEFAULT_SYNC_MARKER \<noteq> []" "same_file d d'"
    using r(3) by (simp_all add: DEFAULT_SYNC_MARKER_def same_file_def seek_def)
  ultimately show ?thesis using got(2) by auto
qed

lemma read_block_summary_Some:
  assumes "read_block_summary X K offset d = (Inr (Some b), d')"
  shows "ib_offset b = offset \<and> 12 \<le> ib_len b"
  using assms unfolding read_block_summary_def Let_def
  by (auto simp: try_Inr block_of_summary_def split: if_splits prod.splits)

section \<open>Building the index\<close>

function build_loop ::
    "extern \<Rightarrow> otlp_codec \<Rightarrow> nat \<Rightarrow> nat \<Rightarrow> dev \<Rightarrow> summary_builder \<Rightarrow> index_block list \<Rightarrow>
     index_error + summary_builder \<times> index_block list" where
  "build_loop X K sz offset d summary blocks =
     (if offset < sz then
        (case read_block_summary X K offset d of
           (Inl e, d) \<Rightarrow> Inl e
         | (Inr (Some b), d) \<Rightarrow>
             build_loop X K sz (ib_offset b + ib_len b) d (builder_merge b summary) (blocks @ [b])
         | (Inr None, d) \<Rightarrow>
             (case find_next_sync_marker offset sz d of
                (Inl e, d) \<Rightarrow> Inl e
              | (Inr (Some next_offset), d) \<Rightarrow> build_loop X K sz next_offset d summary blocks
              | (Inr None, d) \<Rightarrow> Inr (summary, blocks)))
      else Inr (summary, blocks))"
  by pat_completeness auto
termination
proof (relation "measure (\<lambda>(X, K, sz, offset, d, summary, blocks). sz - offset)", goal_cases)
  case (2 X K sz offset d summary blocks res d1 ob res2 d2 ob2 p)
  then have "\<not> marker_at d offset \<and> same_file d d1" by (intro read_block_summary_None) auto
  moreover have "offset \<le> p \<and> marker_at d1 p" 
    by (rule find_next_sync_marker_sound [of offset sz d1 p d2]) (use 2 in auto)
  ultimately have "offset < p" by (cases "p = offset") (auto simp: marker_at_def same_file_def)
  then show ?case using 2(1) by auto
next
  case (3 X K sz offset d summary blocks res d' ob b)
  then show ?case using read_block_summary_Some [of X K offset d b d'] by auto
qed simp

declare build_loop.simps [simp del]

definition index_build ::
    "extern \<Rightarrow> otlp_codec \<Rightarrow> (ljx_error + dev) \<Rightarrow> nat \<Rightarrow> u64 option \<Rightarrow> index_error + dataset_index" where
  "index_build X K open_file sz modified_ns =
     (case open_file of
        Inl e \<Rightarrow> Inl (Failed e)
      | Inr d \<Rightarrow>
          and_then (build_loop X K sz 0 d summary_builder_default []) (\<lambda>(summary, blocks).
          if blocks = [] then Inl (logjet_fail (InvalidHeader ''missing block sync''))
          else Inr \<lparr>di_summary = builder_finish summary (of_nat sz) modified_ns, di_blocks = blocks\<rparr>))"

section \<open>The sidecar cache\<close>

text \<open>An index is kept as JSON in a cache directory, under a name made of the hash of the path. The JSON
  encoding, the hash function and the directory are parameters; a cache is a map from file names to
  contents.\<close>

definition INDEX_VERSION :: u32 where "INDEX_VERSION = 1"

record disk_summary =
  ds_first_seq :: "u64 option"
  ds_last_seq :: "u64 option"
  ds_first_ts :: "u64 option"
  ds_last_ts :: "u64 option"
  ds_record_types :: u8
  ds_services :: "string list"
  ds_services_complete :: bool
  ds_severities :: "string list"
  ds_severities_complete :: bool

record disk_index =
  dx_version :: u32
  dx_source_path :: string
  dx_source_size :: u64
  dx_source_modified_ns :: "u64 option"
  dx_summary :: disk_summary
  dx_blocks :: "index_block list"

record index_json =
  ix_to_json :: "disk_index \<Rightarrow> bytes"
  ix_from_json :: "bytes \<Rightarrow> string + disk_index"

definition sidecar_path :: "(string \<Rightarrow> u64) \<Rightarrow> string option \<Rightarrow> string \<Rightarrow> string" where
  "sidecar_path xxh3 cache_dir path =
     (case cache_dir of None \<Rightarrow> ''.'' | Some c \<Rightarrow> c) @ ''/'' @ hex_digits 16 (unat (xxh3 path)) @ ''.ljxidx''"

definition from_disk :: "disk_index \<Rightarrow> dataset_index" where
  "from_disk disk =
     (let s = dx_summary disk in
      \<lparr>di_summary =
         \<lparr>is_size = dx_source_size disk, is_modified_ns = dx_source_modified_ns disk,
          is_first_seq = ds_first_seq s, is_last_seq = ds_last_seq s,
          is_first_ts = ds_first_ts s, is_last_ts = ds_last_ts s,
          is_record_types = ds_record_types s,
          is_services = ds_services s, is_services_complete = ds_services_complete s,
          is_severities = ds_severities s, is_severities_complete = ds_severities_complete s\<rparr>,
       di_blocks = dx_blocks disk\<rparr>)"

definition to_disk :: "string \<Rightarrow> dataset_index \<Rightarrow> disk_index" where
  "to_disk path index =
     (let s = di_summary index in
      \<lparr>dx_version = INDEX_VERSION, dx_source_path = path, dx_source_size = is_size s,
       dx_source_modified_ns = is_modified_ns s,
       dx_summary =
         \<lparr>ds_first_seq = is_first_seq s, ds_last_seq = is_last_seq s,
          ds_first_ts = is_first_ts s, ds_last_ts = is_last_ts s,
          ds_record_types = is_record_types s,
          ds_services = is_services s, ds_services_complete = is_services_complete s,
          ds_severities = is_severities s, ds_severities_complete = is_severities_complete s\<rparr>,
       dx_blocks = di_blocks index\<rparr>)"

definition load_fresh ::
    "index_json \<Rightarrow> (string \<rightharpoonup> bytes) \<Rightarrow> string \<Rightarrow> u64 \<Rightarrow> u64 option \<Rightarrow> string \<Rightarrow> dataset_index option" where
  "load_fresh J cache path sz modified_ns sidecar =
     (case cache sidecar of
        None \<Rightarrow> None
      | Some contents \<Rightarrow>
          (case ix_from_json J contents of
             Inl _ \<Rightarrow> None
           | Inr disk \<Rightarrow>
               if dx_version disk \<noteq> INDEX_VERSION \<or> dx_source_path disk \<noteq> path \<or> dx_source_size disk \<noteq> sz \<or>
                  dx_source_modified_ns disk \<noteq> modified_ns
               then None else Some (from_disk disk)))"

definition persist :: "index_json \<Rightarrow> bool \<Rightarrow> string \<Rightarrow> string \<Rightarrow> dataset_index \<Rightarrow> (string \<rightharpoonup> bytes) \<Rightarrow> (string \<rightharpoonup> bytes)" where
  "persist J writable path sidecar index cache =
     (if writable then cache(sidecar \<mapsto> ix_to_json J (to_disk path index)) else cache)"

text \<open>The result is \<open>None\<close> when no index can be had, and \<open>Inl Panic\<close> when decoding a block panics.\<close>

definition load_or_build ::
    "extern \<Rightarrow> otlp_codec \<Rightarrow> index_json \<Rightarrow> (string \<Rightarrow> u64) \<Rightarrow> string option \<Rightarrow> bool \<Rightarrow> string \<Rightarrow> (ljx_error + dev) \<Rightarrow> nat \<Rightarrow>
     u64 option \<Rightarrow> (string \<rightharpoonup> bytes) \<Rightarrow> (index_error + dataset_index option) \<times> (string \<rightharpoonup> bytes)" where
  "load_or_build X K J xxh3 cache_dir writable path open_file sz modified_ns cache =
     (let sidecar = sidecar_path xxh3 cache_dir path in
      case load_fresh J cache path (of_nat sz) modified_ns sidecar of
        Some index \<Rightarrow> (Inr (Some index), cache)
      | None \<Rightarrow>
          (case index_build X K open_file sz modified_ns of
             Inl Panic \<Rightarrow> (Inl Panic, cache)
           | Inl (Failed e) \<Rightarrow> (Inr None, cache)
           | Inr index \<Rightarrow> (Inr (Some index), persist J writable path sidecar index cache)))"

lemma from_to_disk: "from_disk (to_disk path index) = index"
  by (cases index, cases "di_summary index") (simp add: from_disk_def to_disk_def Let_def)

text \<open>An index that was persisted is the one found the next time, as long as size and modification time of
  the file are the same.\<close>

lemma persist_then_load:
  assumes "ix_from_json J (ix_to_json J (to_disk path index)) = Inr (to_disk path index)"
    and "is_size (di_summary index) = sz" and "is_modified_ns (di_summary index) = m"
  shows "load_fresh J (persist J True path sidecar index cache) path sz m sidecar = Some index"
  using assms by (simp add: load_fresh_def persist_def from_to_disk) (simp add: to_disk_def Let_def)

lemma index_build_metadata:
  assumes "index_build X K open_file sz m = Inr index"
  shows "is_size (di_summary index) = of_nat sz" "is_modified_ns (di_summary index) = m" "di_blocks index \<noteq> []"
  using assms by (auto simp: index_build_def try_Inr builder_finish_def split: sum.splits if_splits prod.splits)

end
