(* ===== verification/Lj_Index_Sound.thy ===== *)
theory Lj_Index_Sound
  imports Lj_Index
begin

text \<open>
  What the block index promises: a block the reader accepts is indexed with the very records the reader
  returns, and a summary of records in sequence and timestamp order never rules out a record that
  matches.
\<close>

section \<open>The index decoder against the reader\<close>

lemma index_varint_loop_eq:
  "decode_varint_loop bs c v s = (Inr x, c') \<Longrightarrow> s < 64 \<Longrightarrow> index_varint_loop bs c v s = (Inr x, c')"
proof (induction bs c v s rule: decode_varint_loop.induct)
  case (1 bs c v s)
  then show ?case
    by (subst index_varint_loop.simps, subst (asm) (2) decode_varint_loop.simps)
      (auto simp: Let_def split: if_splits)
qed

lemma index_decode_varint_eq:
  "decode_varint bs c = (Inr x, c') \<Longrightarrow> index_decode_varint bs c = (Inr x, c')"
  unfolding decode_varint_def index_decode_varint_def by (rule index_varint_loop_eq) auto

lemma index_parse_record_eq:
  assumes "parse_record pl ext c = (Inr r, c')"
  shows "index_parse_record pl ext c = (Inr r, c') \<and> c < length pl"
proof -
  from assms obtain ty sd c1 td c2 n c3 where
    "c < length pl" "record_type_from_u8 (pl ! c) = Inr ty" "decode_varint pl (c + 1) = (Inr sd, c1)"
    "decode_varint pl c1 = (Inr td, c2)" "decode_varint pl c2 = (Inr n, c3)"
    "c3 + unat n < usize_bound" "c3 + unat n \<le> length pl" "c' = c3 + unat n"
    "r = \<lparr>record_type = ty, seq = base_seq ext + sd, ts_unix_ns = base_ts_unix_ns ext + td,
          payload = slice c3 (unat n) pl\<rparr>"
    unfolding parse_record_def by (auto simp: try_Inr usize_checked_add_def num_simps split: if_splits)
  then show ?thesis
    by (simp add: index_parse_record_def index_decode_varint_eq usize_checked_add_def)
qed

lemma parse_block_payload_eq:
  "parse_records_loop n pl ext c acc = Inr rs \<Longrightarrow> parse_block_payload pl ext c acc = Inr rs"
proof (induction n arbitrary: c acc)
  case 0
  then show ?case by (simp add: parse_block_payload.simps split: if_splits)
next
  case (Suc n)
  then obtain r c1 where r: "parse_record pl ext c = (Inr r, c1)" "parse_records_loop n pl ext c1 (acc @ [r]) = Inr rs"
    by (auto split: prod.splits sum.splits)
  then show ?case
    using index_parse_record_eq [OF r(1)] Suc.IH [OF r(2)]
    by (subst parse_block_payload.simps) simp
qed

lemma read_some_exact:
  "read_exact n d = (Inr bs, d') \<Longrightarrow> read_some n d = (Inr bs, d') \<and> length bs = n"
  by (auto simp: read_exact_Inr_iff read_some_def Let_def min_def)

lemma index_read_block_eq:
  assumes "read_frame X cfg s d = (Inr (h, e, c), d')"
    and "decompress X (bh_codec h) c (unat (bh_uncompressed_len h)) = Inr pl"
  shows "\<exists>d1. read_exact 8 (seek s d) = (Inr (rc_sync_marker cfg), d1) \<and>
    index_read_block X d1 = (Inr (h, e, pl), d')"
proof -
  from assms(1) obtain d1 fixed d2 eb d3 d4 crc where f:
    "read_exact 8 (seek s d) = (Inr (rc_sync_marker cfg), d1)" "read_exact BLOCK_HEADER_FIXED_LEN d1 = (Inr fixed, d2)"
    "header_decode fixed = Inr h" "BLOCK_HEADER_TOTAL_LEN \<le> unat (bh_header_len h)"
    "read_exact (unat (bh_header_len h) - BLOCK_HEADER_FIXED_LEN) d2 = (Inr eb, d3)"
    "ext_decode (take BLOCK_HEADER_EXT_LEN eb) = Inr e" "read_exact (unat (bh_compressed_len h)) d3 = (Inr c, d4)"
    "read_exact 4 d4 = (Inr crc, d')"
    unfolding read_frame_def Let_def by (auto simp: try_Inr simp del: len_consts split: if_splits)
  have "BLOCK_HEADER_EXT_LEN \<le> length eb" using read_some_exact [OF f(5)] f(4) by simp
  then show ?thesis using f assms(2) by (simp add: index_read_block_def del: len_consts)
qed

text \<open>The block at an offset where the reader accepts one.\<close>

lemma read_block_summary_block:
  assumes "block_at X cfg (data d) q = Some (e, rs)" and "rc_sync_marker cfg = DEFAULT_SYNC_MARKER" and "no_faults d"
  shows "\<exists>d'. read_block_summary X K q d
      = (Inr (Some (block_of_summary q (e - q) (summarise K rs (of_nat (e - q)) None))), d') \<and> same_file d d'"
    and "ib_offset b = q \<Longrightarrow> read_block_records X (Inr d) b = Inr rs"
proof -
  let ?d = "dev_of (data d)"
  from assms(1) obtain h ext c d0 pl where f: "read_frame X cfg q ?d = (Inr (h, ext, c), d0)"
    and z: "decompress X (bh_codec h) c (unat (bh_uncompressed_len h)) = Inr pl"
    and r: "parse_records pl (bh_record_count h) ext = Inr rs" and e: "e = pos d0"
    by (auto simp: block_at_def and_then_def split: prod.splits sum.splits)
  from index_read_block_eq [OF f z] obtain d1 where
    d1: "read_exact 8 (seek q ?d) = (Inr (rc_sync_marker cfg), d1)" "index_read_block X d1 = (Inr (h, ext, pl), d0)"
    by blast
  have p: "parse_block_payload pl ext 0 [] = Inr rs"
    using r by (intro parse_block_payload_eq) (simp add: parse_records_def)
  have sk: "seek q d = seek q ?d"
    using assms(3) by (cases d) (simp add: seek_def dev_of_def no_faults_def)
  have len: "8 + unat (bh_header_len h) + unat (bh_compressed_len h) + 4 = e - q"
    using read_frame_pos(1) [OF f] e by simp
  have "same_file ?d d0" using read_frame_frame [of ?d X cfg q] f by simp
  then have same: "same_file d d0" using assms(3) by (simp add: same_file_def dev_of_def no_faults_def)
  have ne: "DEFAULT_SYNC_MARKER \<noteq> []" by (simp add: DEFAULT_SYNC_MARKER_def)
  show "\<exists>d'. read_block_summary X K q d
      = (Inr (Some (block_of_summary q (e - q) (summarise K rs (of_nat (e - q)) None))), d') \<and> same_file d d'"
    using read_some_exact [OF d1(1)] d1(2) p len same ne
    by (simp add: read_block_summary_def sk assms(2) Let_def del: of_nat_add of_nat_diff split: prod.splits)
  show "read_block_records X (Inr d) b = Inr rs" if "ib_offset b = q"
    using d1 p that by (simp add: read_block_records_def sk)
qed

section \<open>Zeros between blocks\<close>

text \<open>An aligning writer fills the room after a block with zeros. The index finds the next block behind them.\<close>

lemma marker_first_nonzero: "DEFAULT_SYNC_MARKER ! 0 \<noteq> 0"
  by (simp add: DEFAULT_SYNC_MARKER_def)

lemma scan_chunk_zeros: "scan_chunk 0 i (replicate k 0 @ bs) = scan_chunk 0 (i + k) bs"
  using marker_first_nonzero by (induction k arbitrary: i) auto

lemma scan_chunk_marker:
  assumes "m < 8"
  shows "scan_chunk m i (take j (drop m DEFAULT_SYNC_MARKER @ bs)) = (if m + j < 8 then Inr (m + j) else Inl (i + (8 - m)))"
  using assms
proof (induction j arbitrary: m i)
  case (Suc j)
  have "drop m DEFAULT_SYNC_MARKER = DEFAULT_SYNC_MARKER ! m # drop (Suc m) DEFAULT_SYNC_MARKER"
    using Suc.prems by (simp add: Cons_nth_drop_Suc)
  then show ?case using Suc.IH [of "Suc m" "Suc i"] Suc.prems by (cases "Suc m = 8") auto
qed simp

text \<open>What is left of the gap and of the marker behind it when the search stands at \<open>q\<close>.\<close>

definition before_marker :: "bytes \<Rightarrow> nat \<Rightarrow> nat \<Rightarrow> nat \<Rightarrow> bool" where
  "before_marker bs q m s \<longleftrightarrow>
     (\<exists>k tl. m < 8 \<and> (k = 0 \<or> m = 0) \<and> q + k = s + m \<and> q \<le> length bs \<and>
        drop q bs = replicate k 0 @ drop m DEFAULT_SYNC_MARKER @ tl)"

lemma scan_chunk_before_marker:
  assumes "before_marker bs q m s" and "0 < n" and "q + n \<le> length bs"
  shows "scan_chunk m 0 (slice q n bs) = Inl (s + 8 - q) \<and> q \<le> s + 8 \<or>
    (\<exists>m'. scan_chunk m 0 (slice q n bs) = Inr m' \<and> before_marker bs (q + n) m' s)"
proof -
  from assms(1) obtain k tl where k: "m < 8" "k = 0 \<or> m = 0" "q + k = s + m"
      "drop q bs = replicate k 0 @ drop m DEFAULT_SYNC_MARKER @ tl"
    by (auto simp: before_marker_def)
  have sl: "slice q n bs = take n (replicate k 0) @ take (n - k) (drop m DEFAULT_SYNC_MARKER @ tl)"
    by (simp add: slice_def k(4))
  have dr: "drop (q + n) bs = drop n (replicate k 0) @ drop (n - k) (drop m DEFAULT_SYNC_MARKER @ tl)"
    by (simp add: k(4) add.commute [of q] flip: drop_drop)
  show ?thesis
  proof (cases "n \<le> k")
    case True
    then have m: "m = 0" using k(2) assms(2) by auto
    then have "scan_chunk m 0 (slice q n bs) = Inr 0" using True scan_chunk_zeros [of 0 n "[]"] by (simp add: sl)
    moreover have "before_marker bs (q + n) 0 s"
      unfolding before_marker_def using True dr m k(3) assms(3)
      by (intro exI [of _ "k - n"] exI [of _ tl]) (simp add: m)
    ultimately show ?thesis by blast
  next
    case False
    have sc: "scan_chunk m 0 (slice q n bs) = scan_chunk m k (take (n - k) (drop m DEFAULT_SYNC_MARKER @ tl))"
      using False k(2) scan_chunk_zeros [of 0 k] by (auto simp: sl)
    show ?thesis
    proof (cases "m + (n - k) < 8")
      case True
      have "before_marker bs (q + n) (m + (n - k)) s"
        unfolding before_marker_def using True False dr k(3) assms(3)
        by (intro exI [of _ 0] exI [of _ tl]) (simp add: add.commute [of m])
      then show ?thesis using True sc scan_chunk_marker [OF k(1), of k "n - k" tl] by auto
    next
      case nf: False
      then have "scan_chunk m 0 (slice q n bs) = Inl (k + (8 - m))"
        using sc scan_chunk_marker [OF k(1), of k "n - k" tl] by simp
      then show ?thesis using k(1,3) by auto
    qed
  qed
qed

lemma before_marker_room: "before_marker bs q m s \<Longrightarrow> q < length bs"
  unfolding before_marker_def
  by (metis (no_types, lifting) add_is_0 append_is_Nil_conv drop_eq_Nil2 length_drop length_marker less_nat_zero_code
      list.size(3) not_le_imp_less zero_less_diff)

lemma read_some_no_faults:
  assumes "no_faults d" and "0 < n" and "pos d < length (data d)"
  obtains buf d' where "read_some n d = (Inr buf, d')" "buf \<noteq> []"
  using assms by (auto simp: read_some_def Let_def no_faults_def slice_def)

lemma find_marker_loop_found:
  assumes "before_marker (data d) q m s" and "pos d = q" and "no_faults d" and "sz = length (data d)"
  shows "\<exists>d'. find_marker_loop sz m q d = (Inr (Some s), d') \<and> same_file d d'"
  using assms
proof (induction sz m q d rule: find_marker_loop.induct)
  case (1 sz m q d)
  have q: "q < sz" using before_marker_room [OF 1(2)] 1(5) by simp
  obtain buf d1 where buf: "read_some (min 4096 (sz - q)) d = (Inr buf, d1)" "buf \<noteq> []"
    by (rule read_some_no_faults [OF 1(4), of "min 4096 (sz - q)"]) (use q 1(3,5) in auto)
  note b = read_some_Inr [OF buf(1)]
  have le: "q + length buf \<le> length (data d)" using b(4) [OF buf(2)] 1(3) by simp
  from scan_chunk_before_marker [OF 1(2) _ le] buf(2) b(1) 1(3)
  consider "scan_chunk m 0 buf = Inl (s + 8 - q)" "q \<le> s + 8"
    | m' where "scan_chunk m 0 buf = Inr m'" "before_marker (data d) (q + length buf) m' s" by auto
  then show ?case
  proof cases
    case 1
    then show ?thesis using q buf b(3) by (subst find_marker_loop.simps) simp
  next
    case 2
    have "\<exists>d'. find_marker_loop sz m' (q + length buf) d1 = (Inr (Some s), d') \<and> same_file d1 d'"
      by (rule 1(1) [OF q buf(2) 2(1)]) (use 2(2) b(2,3) 1(3-5) in \<open>auto simp: same_file_def no_faults_def\<close>)
    then show ?thesis using q buf 2(1) b(3) by (subst find_marker_loop.simps) (auto dest: same_file_trans)
  qed
qed

lemma find_marker_loop_none:
  assumes "drop q (data d) = replicate k 0" and "pos d = q" and "no_faults d" and "sz = length (data d)"
  shows "\<exists>d'. find_marker_loop sz 0 q d = (Inr None, d')"
  using assms
proof (induction sz "0 :: nat" q d arbitrary: k rule: find_marker_loop.induct)
  case (1 sz q d)
  show ?case
  proof (cases "q < sz")
    case q: True
    obtain buf d1 where buf: "read_some (min 4096 (sz - q)) d = (Inr buf, d1)" "buf \<noteq> []"
      by (rule read_some_no_faults [OF 1(4), of "min 4096 (sz - q)"]) (use q 1(3,5) in auto)
    note b = read_some_Inr [OF buf(1)]
    let ?n = "length buf"
    have "buf = slice q ?n (data d)" using b(1) 1(3) by simp
    then have z: "buf = replicate (min ?n k) 0" by (simp add: slice_def 1(2))
    then have sc: "scan_chunk 0 0 buf = Inr 0" using scan_chunk_zeros [of 0 "min ?n k" "[]"] by simp
    have "drop (q + ?n) (data d) = replicate (k - ?n) 0"
      using 1(2) by (simp add: add.commute [of q] flip: drop_drop)
    then have "\<exists>d'. find_marker_loop sz 0 (q + ?n) d1 = (Inr None, d')"
      by (intro 1(1) [OF q buf(2) sc]) (use b(2,3) 1(3-5) in \<open>auto simp: same_file_def no_faults_def\<close>)
    then show ?thesis using q buf sc by (subst find_marker_loop.simps) simp
  qed (simp add: find_marker_loop.simps)
qed

lemma read_block_summary_zero:
  assumes "p < length (data d)" and "data d ! p = 0" and "no_faults d"
  shows "\<exists>d'. read_block_summary X K p d = (Inr None, d') \<and> same_file d d'"
proof -
  obtain got d1 where got: "read_some 8 (seek p d) = (Inr got, d1)" "got \<noteq> []"
    by (rule read_some_no_faults [of "seek p d" 8]) (use assms in \<open>auto simp: seek_def no_faults_def\<close>)
  note b = read_some_Inr [OF got(1)]
  have "got = slice p (length got) (data d)" using b(1) by (simp add: seek_def)
  then have "hd got = 0"
    using assms(1,2) got(2) by (metis (no_types, lifting) hd_drop_conv_nth hd_take length_greater_0_conv slice_def)
  then have "got @ replicate (8 - length got) 0 \<noteq> DEFAULT_SYNC_MARKER"
    using got(2) by (cases got) (auto simp: DEFAULT_SYNC_MARKER_def)
  moreover have "same_file d d1" using b(3) by (simp add: same_file_def seek_def)
  ultimately show ?thesis using got by (simp add: read_block_summary_def Let_def)
qed

text \<open>A file that is a sequence of blocks with nothing but zeros between and after them.\<close>

fun spaced :: "extern \<Rightarrow> reader_config \<Rightarrow> bytes \<Rightarrow> nat \<Rightarrow> owned_record list list \<Rightarrow> bool" where
  "spaced X cfg bs p [] \<longleftrightarrow> (\<exists>k. drop p bs = replicate k 0)"
| "spaced X cfg bs p (rs # rss) \<longleftrightarrow>
     (\<exists>k e. slice p k bs = replicate k 0 \<and> block_at X cfg bs (p + k) = Some (e, rs) \<and> spaced X cfg bs e rss)"

definition indexes_block :: "extern \<Rightarrow> otlp_codec \<Rightarrow> bytes \<Rightarrow> index_block \<Rightarrow> owned_record list \<Rightarrow> bool" where
  "indexes_block X K bs b rs \<longleftrightarrow>
     (\<exists>off len. b = block_of_summary off len (summarise K rs (of_nat len) None)) \<and>
     read_block_records X (Inr (dev_of bs)) b = Inr rs"

lemma build_loop_gap:
  assumes "slice p k (data d) = replicate k 0" and "marker_at d (p + k)" and "no_faults d"
  shows "\<exists>d'. build_loop X K (length (data d)) p d s acc = build_loop X K (length (data d)) (p + k) d' s acc \<and> same_file d d'"
proof (cases "k = 0")
  case False
  have len: "p + k + 8 \<le> length (data d)"
    using arg_cong [OF assms(2) [unfolded marker_at_def], of length] by (simp add: slice_def)
  have "data d ! p = slice p k (data d) ! 0" using False len by (simp add: slice_def)
  then have z: "data d ! p = 0" using False assms(1) by simp
  obtain d1 where d1: "read_block_summary X K p d = (Inr None, d1)" "same_file d d1"
    using read_block_summary_zero [OF _ z assms(3)] len by auto
  have split: "drop p (data d) = slice p k (data d) @ slice (p + k) 8 (data d) @ drop (p + k + 8) (data d)"
    unfolding slice_def by (metis add.commute append_take_drop_id drop_drop)
  have "before_marker (data d) p 0 (p + k)"
    unfolding before_marker_def using split assms(1,2) len
    by (intro exI [of _ k] exI [of _ "drop (p + k + 8) (data d)"]) (simp add: marker_at_def)
  then obtain d2 where d2: "find_next_sync_marker p (length (data d)) d1 = (Inr (Some (p + k)), d2)" "same_file (seek p d1) d2"
    using find_marker_loop_found [of "seek p d1" p 0 "p + k" "length (data d)"] d1(2) assms(3)
    by (auto simp: find_next_sync_marker_def same_file_def seek_def no_faults_def)
  then have "same_file d d2" using d1(2) by (simp add: same_file_def seek_def)
  then show ?thesis using d1(1) d2(1) len by (intro exI [of _ d2]) (simp add: build_loop.simps [of X K _ p])
qed auto

lemma build_loop_trailing:
  assumes "drop p (data d) = replicate k 0" and "no_faults d"
  shows "build_loop X K (length (data d)) p d s acc = Inr (s, acc)"
proof (cases "p < length (data d)")
  case True
  then have "data d ! p = 0" using assms(1) by (metis hd_drop_conv_nth hd_replicate drop_eq_Nil2 leD replicate_empty)
  then obtain d1 where d1: "read_block_summary X K p d = (Inr None, d1)" "same_file d d1"
    using read_block_summary_zero [OF True _ assms(2)] by auto
  then obtain d2 where "find_next_sync_marker p (length (data d)) d1 = (Inr None, d2)"
    using find_marker_loop_none [of p "seek p d1" k "length (data d)"] assms
    by (auto simp: find_next_sync_marker_def same_file_def seek_def no_faults_def)
  then show ?thesis using True d1(1) by (simp add: build_loop.simps [of X K _ p])
qed (simp add: build_loop.simps)

lemma block_at_has_marker:
  assumes "block_at X cfg (data d) q = Some (e, rs)" and "rc_sync_marker cfg = DEFAULT_SYNC_MARKER"
  shows "marker_at d q"
proof -
  obtain h ext c d0 where "read_frame X cfg q (dev_of (data d)) = (Inr (h, ext, c), d0)"
    using assms(1) by (auto simp: block_at_def and_then_def split: prod.splits sum.splits)
  then obtain d1 where "read_exact 8 (seek q (dev_of (data d))) = (Inr (rc_sync_marker cfg), d1)"
    unfolding read_frame_def Let_def by (auto simp: try_Inr simp del: len_consts split: if_splits)
  then show ?thesis using assms(2) by (auto simp: read_exact_Inr_iff marker_at_def seek_def dev_of_def)
qed

lemma build_loop_spaced:
  assumes "spaced X cfg (data d) p rss" and "rc_sync_marker cfg = DEFAULT_SYNC_MARKER" and "no_faults d"
  shows "\<exists>bl. build_loop X K (length (data d)) p d s acc = Inr (fold builder_merge bl s, acc @ bl) \<and>
    list_all2 (indexes_block X K (data d)) bl rss"
  using assms(1,3)
proof (induction rss arbitrary: p d s acc)
  case Nil
  then show ?case using build_loop_trailing by fastforce
next
  case (Cons rs rss)
  from Cons.prems(1) obtain k e where e: "slice p k (data d) = replicate k 0" "block_at X cfg (data d) (p + k) = Some (e, rs)"
      "spaced X cfg (data d) e rss" by auto
  let ?q = "p + k"
  let ?b = "block_of_summary ?q (e - ?q) (summarise K rs (of_nat (e - ?q)) None)"
  note bd = block_at_bounds [OF e(2)]
  obtain d0 where d0: "build_loop X K (length (data d)) p d s acc = build_loop X K (length (data d)) ?q d0 s acc" "same_file d d0"
    using build_loop_gap [OF e(1) block_at_has_marker [OF e(2) assms(2)] Cons.prems(2)] by blast
  have s0: "data d0 = data d" "no_faults d0" using d0(2) Cons.prems(2) by (auto simp: same_file_def no_faults_def)
  obtain d1 where d1: "read_block_summary X K ?q d0 = (Inr (Some ?b), d1)" "same_file d0 d1"
    using read_block_summary_block(1) [OF e(2) [folded s0(1)] assms(2) s0(2)] by blast
  have same: "data d1 = data d" "no_faults d1" using d1(2) s0 by (auto simp: same_file_def no_faults_def)
  have nx: "ib_offset ?b + ib_len ?b = e" using bd by (simp add: block_of_summary_def)
  obtain bl where bl: "build_loop X K (length (data d)) e d1 (builder_merge ?b s) (acc @ [?b])
      = Inr (fold builder_merge bl (builder_merge ?b s), (acc @ [?b]) @ bl)" "list_all2 (indexes_block X K (data d)) bl rss"
    using Cons.IH [of d1 e "builder_merge ?b s" "acc @ [?b]"] e(3) same by auto
  have "read_block_records X (Inr (dev_of (data d))) ?b = Inr rs"
    by (rule read_block_summary_block(2) [OF _ assms(2)]) (use e(2) in \<open>auto simp: dev_of_def no_faults_def block_of_summary_def\<close>)
  then have "indexes_block X K (data d) ?b rs" by (auto simp: indexes_block_def)
  moreover have "?q < length (data d)" using bd by simp
  ultimately show ?case
    using d0(1) d1(1) nx bl by (intro exI [of _ "?b # bl"]) (simp add: build_loop.simps [of X K _ ?q])
qed

lemma spaced_images:
  assumes "codecs_ok X" and "compatible wc L cfg"
  shows "list_all2 (is_block X wc L) rss imgs \<Longrightarrow> (\<forall>img\<in>set imgs. length img \<le> 52 + max_compressed_len cfg) \<Longrightarrow>
    spaced X cfg (pre @ replicate k 0 @ file_image wc imgs) (length pre) rss"
proof (induction rss imgs arbitrary: pre k rule: list_all2_induct)
  case Nil
  then show ?case by (simp add: file_image_def)
next
  case (Cons rs rss img imgs)
  define j where "j = length (padding wc (length img))"
  let ?p = "pre @ replicate k 0" and ?t = "replicate j 0 @ file_image wc imgs"
  have eq: "pre @ replicate k 0 @ file_image wc (img # imgs) = ?p @ img @ ?t"
    using padding_zeros [of wc "length img"] by (simp add: file_image_def j_def)
  have "block_at X cfg (?p @ img @ ?t) (length ?p) = Some (length ?p + length img, rs)"
    by (rule block_at_image [OF assms(1) Cons.hyps(1) refl]) (use assms(2) Cons.prems in \<open>auto simp: compatible_def\<close>)
  moreover have "spaced X cfg ((?p @ img) @ ?t) (length (?p @ img)) rss"
    by (rule Cons.IH) (use Cons.prems in simp)
  moreover have "slice (length pre) k (?p @ img @ ?t) = replicate k 0" by (simp add: slice_def)
  ultimately show ?case by (simp only: eq spaced.simps) (intro exI [of _ k] exI [of _ "length (?p @ img)"], simp)
qed

section \<open>What a summary covers\<close>

definition record_services :: "otlp_codec \<Rightarrow> owned_record \<Rightarrow> string list" where
  "record_services K r =
     (if record_type r = Logs then (case dec_logs K (payload r) of Inl _ \<Rightarrow> [] | Inr b \<Rightarrow> batch_services b) else [])"

definition record_severities :: "otlp_codec \<Rightarrow> owned_record \<Rightarrow> string list" where
  "record_severities K r =
     (if record_type r = Logs then (case dec_logs K (payload r) of Inl _ \<Rightarrow> [] | Inr b \<Rightarrow> batch_severities b) else [])"

definition capped_covers :: "capped \<Rightarrow> string set \<Rightarrow> bool" where
  "capped_covers s V \<longleftrightarrow> (snd s \<longrightarrow> V \<subseteq> set (fst s))"

definition ends :: "('a \<Rightarrow> 'b) \<Rightarrow> 'a list \<Rightarrow> 'b option \<Rightarrow> 'b option \<Rightarrow> bool" where
  "ends f rs lo hi \<longleftrightarrow> (if rs = [] then lo = None \<and> hi = None else lo = Some (f (hd rs)) \<and> hi = Some (f (last rs)))"

definition builder_of :: "otlp_codec \<Rightarrow> summary_builder \<Rightarrow> owned_record list \<Rightarrow> bool" where
  "builder_of K b rs \<longleftrightarrow>
     ends seq rs (sb_first_seq b) (sb_last_seq b) \<and> ends ts_unix_ns rs (sb_first_ts b) (sb_last_ts b) \<and>
     (\<forall>r\<in>set rs. sb_record_types b AND record_type_bit (record_type r) \<noteq> 0) \<and>
     capped_covers (sb_services b) (\<Union>r\<in>set rs. set (record_services K r)) \<and>
     capped_covers (sb_severities b) (\<Union>r\<in>set rs. set (record_severities K r))"

lemma ends_snoc: "ends f rs lo hi \<Longrightarrow> ends f (rs @ [r]) (get_or_insert lo (f r)) (Some (f r))"
  by (cases rs) (auto simp: ends_def get_or_insert_def)

lemma ends_append:
  "ends f rs lo hi \<Longrightarrow> ends f rs' lo' hi' \<Longrightarrow> ends f (rs @ rs') (or_else lo lo') (or_else hi' hi)"
  by (cases rs; cases rs') (auto simp: ends_def or_else_def)

lemma fold_insert_capped:
  "capped_covers s V \<Longrightarrow> capped_covers (fold insert_capped vs s) (V \<union> set vs)"
proof (induction vs arbitrary: s V)
  case (Cons v vs)
  have "capped_covers (insert_capped v s) (insert v V)"
    using Cons.prems by (cases s) (auto simp: insert_capped_def capped_covers_def split: if_splits)
  from Cons.IH [OF this] show ?case by simp
qed simp

lemma merge_names_covers: "merge_names names vs = (names', True) \<Longrightarrow> set names' = set names \<union> set vs"
  by (induction names vs rule: merge_names.induct) (auto split: if_splits)

lemma merge_set_covers:
  assumes "capped_covers s V" and "c \<longrightarrow> V' \<subseteq> set vs"
  shows "capped_covers (merge_set s vs c) (V \<union> V')"
proof (cases s)
  case (Pair names complete)
  obtain n b where m: "merge_names names vs = (n, b)" by (metis surj_pair)
  show ?thesis
    using assms Pair m merge_names_covers [of names vs n]
    by (cases b) (auto simp: merge_set_def capped_covers_def)
qed

lemma types_or:
  "a AND c \<noteq> 0 \<Longrightarrow> (a OR b) AND c \<noteq> (0 :: u8)" "b AND c \<noteq> 0 \<Longrightarrow> (a OR b) AND c \<noteq> (0 :: u8)"
  by (auto simp: word_ao_dist or_eq_0_iff)

lemma builder_of_default: "builder_of K summary_builder_default []"
  by (simp add: builder_of_def summary_builder_default_def ends_def capped_covers_def)

lemma builder_of_push:
  assumes "builder_of K b rs"
  shows "builder_of K (builder_push K r b) (rs @ [r])"
proof -
  have own: "record_type_bit t AND record_type_bit t \<noteq> 0" for t by (cases t) auto
  have push: "sb_services (builder_push K r b) = fold insert_capped (record_services K r) (sb_services b)"
      "sb_severities (builder_push K r b) = fold insert_capped (record_severities K r) (sb_severities b)"
    by (auto simp: builder_push_def collect_log_summaries_def record_services_def record_severities_def split: sum.splits)
  have "capped_covers (sb_services b) (\<Union>x\<in>set rs. set (record_services K x))"
      "capped_covers (sb_severities b) (\<Union>x\<in>set rs. set (record_severities K x))"
    using assms by (auto simp: builder_of_def)
  from this [THEN fold_insert_capped]
  have sv: "capped_covers (sb_services (builder_push K r b)) (\<Union>x\<in>set (rs @ [r]). set (record_services K x))"
    and sev: "capped_covers (sb_severities (builder_push K r b)) (\<Union>x\<in>set (rs @ [r]). set (record_severities K x))"
    by (simp_all add: push Un_commute)
  have "sb_record_types (builder_push K r b) = sb_record_types b OR record_type_bit (record_type r)"
    by (simp add: builder_push_def split: prod.splits)
  then show ?thesis
    using assms sv sev types_or(1) [of "sb_record_types b"] types_or(2) [OF own]
    by (auto simp: builder_of_def builder_push_def ends_snoc split: prod.splits)
qed

lemma builder_of_fold: "builder_of K b rs0 \<Longrightarrow> builder_of K (fold (builder_push K) rs b) (rs0 @ rs)"
proof (induction rs arbitrary: b rs0)
  case (Cons r rs)
  from Cons.IH [OF builder_of_push [OF Cons.prems]] show ?case by simp
qed simp

lemma builder_of_merge:
  assumes "builder_of K b rs" and "builder_of K b' rs'"
    and blk: "blk = block_of_summary off len (builder_finish b' x y)"
  shows "builder_of K (builder_merge blk b) (rs @ rs')"
proof -
  have "capped_covers (merge_set (sb_services b) (ib_services blk) (ib_services_complete blk))
      ((\<Union>r\<in>set rs. set (record_services K r)) \<union> (\<Union>r\<in>set rs'. set (record_services K r)))"
    by (rule merge_set_covers) (use assms in \<open>auto simp: builder_of_def capped_covers_def block_of_summary_def builder_finish_def\<close>)
  moreover have "capped_covers (merge_set (sb_severities b) (ib_severities blk) (ib_severities_complete blk))
      ((\<Union>r\<in>set rs. set (record_severities K r)) \<union> (\<Union>r\<in>set rs'. set (record_severities K r)))"
    by (rule merge_set_covers) (use assms in \<open>auto simp: builder_of_def capped_covers_def block_of_summary_def builder_finish_def\<close>)
  ultimately show ?thesis
    using assms types_or
    by (simp add: builder_of_def builder_merge_def ends_append block_of_summary_def builder_finish_def) blast
qed

section \<open>A summary never rules out a match\<close>

text \<open>A filter on services or severities is decided by the index only from log records that name one.\<close>

definition names_service :: "otlp_codec \<Rightarrow> owned_record \<Rightarrow> bool" where
  "names_service K r \<longleftrightarrow>
     record_type r = Logs \<and>
     (case dec_logs K (payload r) of
        Inl _ \<Rightarrow> False
      | Inr b \<Rightarrow> list_ex (\<lambda>rl. service_name_of (resource_attributes (orl_resource rl)) \<noteq> None) b)"

definition named_as_filtered :: "otlp_codec \<Rightarrow> field_filter \<Rightarrow> owned_record \<Rightarrow> bool" where
  "named_as_filtered K f r \<longleftrightarrow>
     (ff_services f = None \<or> names_service K r) \<and> (ff_severities f = None \<or> record_severities K r \<noteq> [])"

lemma service_name_of_member:
  "service_name_of attrs = Some v \<Longrightarrow>
   v \<in> set (List.map_filter (\<lambda>a. if kv_key a = ''service.name'' then attr_string a else None) attrs)"
  by (induction attrs) (auto simp: service_name_of_def map_filter_simps split: option.splits if_splits bind_splits)

lemma matching_service:
  assumes "field_matches_payload K f (payload r)" and "names_service K r" and "ff_services f = Some ws"
  shows "\<exists>w\<in>set ws. w \<in> set (record_services K r)"
proof -
  from assms(2) obtain b rl v where b: "record_type r = Logs" "dec_logs K (payload r) = Inr b" "rl \<in> set b"
      "service_name_of (resource_attributes (orl_resource rl)) = Some v"
    by (auto simp: names_service_def list_ex_iff split: sum.splits)
  have "service_allowed f rl"
    using assms(1,3) b(2,3) by (auto simp: field_matches_payload_def field_filter_is_empty_def list_all_iff)
  then have "v \<in> set ws" using b(4) assms(3) by (simp add: service_allowed_def)
  moreover have "v \<in> set (record_services K r)"
    using service_name_of_member [OF b(4)] b(1,2,3) by (auto simp: record_services_def batch_services_def)
  ultimately show ?thesis by blast
qed

lemma matching_severity:
  assumes "field_matches_payload K f (payload r)" and "record_severities K r \<noteq> []" and "ff_severities f = Some ws"
  shows "\<exists>w\<in>set ws. w \<in> set (record_severities K r)"
proof -
  from assms(2) obtain v where v: "v \<in> set (record_severities K r)" by (cases "record_severities K r") auto
  then obtain b lr where b: "dec_logs K (payload r) = Inr b" "lr \<in> set (logs_of_batch b)" "v = ol_severity_text lr"
    by (cases "dec_logs K (payload r)"; cases "record_type r = Logs") (auto simp: record_severities_def batch_severities_def)
  then obtain rl sl where "rl \<in> set b" "sl \<in> set (orl_scope_logs rl)" "lr \<in> set (osl_log_records sl)"
    by (auto simp: logs_of_batch_def)
  then have "severity_allowed f lr"
    using assms(1,3) b(1) by (auto simp: field_matches_payload_def field_filter_is_empty_def list_all_iff)
  then have "v \<in> set ws" using b(3) assms(3) by (simp add: severity_allowed_def)
  with v show ?thesis by blast
qed

lemma sorted_ends:
  assumes "sorted_wrt record_le rs" and "r \<in> set rs"
  shows "record_le (hd rs) r" "record_le r (last rs)"
proof -
  have refl: "record_le r r" by (simp add: record_le_def)
  show "record_le (hd rs) r" using assms refl by (cases rs) auto
  show "record_le r (last rs)"
    using assms refl by (cases rs rule: rev_cases) (auto simp: sorted_wrt_append)
qed

lemma not_none_named:
  assumes "ws \<noteq> None \<longrightarrow> (\<exists>w\<in>set (the ws). w \<in> V)" and "c \<longrightarrow> V \<subseteq> set names"
  shows "\<not> none_named ws c names"
  using assms by (auto simp: none_named_def list_ex_iff split: option.splits)

lemma summary_may_match_sound:
  assumes b: "builder_of K b rs" and so: "sorted_wrt record_le rs" and r: "r \<in> set rs"
    and m: "predicate_matches R C K p r" and n: "named_as_filtered K (rp_field_filter p) r"
  shows "summary_may_match (builder_finish b x y) p"
proof -
  from r have ne: "rs \<noteq> []" by auto
  note e = sorted_ends [OF so r, unfolded record_le_def]
  have fm: "field_matches_payload K (rp_field_filter p) (payload r)" using m by (simp add: predicate_matches_def)
  have ends: "sb_first_seq b = Some (seq (hd rs))" "sb_last_seq b = Some (seq (last rs))"
      "sb_first_ts b = Some (ts_unix_ns (hd rs))" "sb_last_ts b = Some (ts_unix_ns (last rs))"
    and ty: "sb_record_types b AND record_type_bit (record_type r) \<noteq> 0"
    and sv: "snd (sb_services b) \<longrightarrow> set (record_services K r) \<subseteq> set (sort (fst (sb_services b)))"
    and sev: "snd (sb_severities b) \<longrightarrow> set (record_severities K r) \<subseteq> set (sort (fst (sb_severities b)))"
    using b r ne by (auto simp: builder_of_def ends_def capped_covers_def)
  have "\<not> none_named (ff_services (rp_field_filter p)) (snd (sb_services b)) (sort (fst (sb_services b)))"
    by (rule not_none_named [OF _ sv]) (use matching_service [OF fm] n in \<open>auto simp: named_as_filtered_def\<close>)
  moreover have "\<not> none_named (ff_severities (rp_field_filter p)) (snd (sb_severities b)) (sort (fst (sb_severities b)))"
    by (rule not_none_named [OF _ sev]) (use matching_severity [OF fm] n in \<open>auto simp: named_as_filtered_def\<close>)
  moreover have "in_range (rp_seq_min p) (rp_seq_max p) (seq r)" "in_range (rp_ts_min p) (rp_ts_max p) (ts_unix_ns r)"
      "\<forall>k. rp_record_type p = Some k \<longrightarrow> record_type r = k"
    using m by (auto simp: predicate_matches_def)
  ultimately show ?thesis
    using ends ty e
    by (auto simp: summary_may_match_def builder_finish_def below_def in_range_def not_less split: option.splits)
qed

lemma block_may_match_finish:
  "block_may_match (block_of_summary off len (builder_finish b x y)) p = summary_may_match (builder_finish b x y) p"
  by (cases "rp_record_type p") (simp_all add: block_may_match_def block_of_summary_def builder_finish_def summary_may_match_def)

end
