(* ===== verification/Lj_View_Scan.thy ===== *)
theory Lj_View_Scan
  imports Lj_Index_Sound
begin

text \<open>
  The background scan of \<^verbatim>\<open>ljx view\<close> (\<^verbatim>\<open>ljx/src/commands/view/scan.rs\<close>): the matching records of a
  dataset are written to a temporary spool file and announced to the user interface in batches. With
  files taken one after the other the scan uses the block index; merged by sequence number or timestamp
  it runs one reader for each file and a heap.

  The cancellation flag is read at many places: \<open>cancel k\<close> is its value at the \<open>k\<close>-th read. Sending to
  the user interface fails when its end is closed: \<open>tx_ok k\<close> says whether the \<open>k\<close>-th send succeeds.
\<close>

section \<open>The spool\<close>

definition SCAN_BATCH_SIZE :: nat where "SCAN_BATCH_SIZE = 128"
definition SUMMARY_CACHE_LIMIT :: nat where "SUMMARY_CACHE_LIMIT = 256"

record entry_meta =
  em_offset :: nat
  em_record_type :: record_type
  em_seq :: u64
  em_ts_unix_ns :: u64
  em_payload_len :: u64
  em_source_path :: string

text \<open>The spool is a file that only grows; the sink writes at its end.\<close>

definition write_spool_record ::
    "bytes write_all \<Rightarrow> owned_record \<Rightarrow> string \<Rightarrow> bytes \<Rightarrow> (ljx_error + entry_meta) \<times> bytes" where
  "write_spool_record wr rec source_path spool =
     (let offset = length spool; payload_len = of_nat (length (payload rec)) in
      try_from LjxIo (wr [record_type_u8 (record_type rec)] spool) (\<lambda>_ spool.
      try_from LjxIo (wr (u64_le (seq rec)) spool) (\<lambda>_ spool.
      try_from LjxIo (wr (u64_le (ts_unix_ns rec)) spool) (\<lambda>_ spool.
      if length (payload rec) \<ge> 2 ^ 64 then (Inl (LjxLogjet (NumericOverflow ''view payload_len'')), spool) else
      try_from LjxIo (wr (u64_le payload_len) spool) (\<lambda>_ spool.
      try_from LjxIo (wr (payload rec) spool) (\<lambda>_ spool.
      (Inr \<lparr>em_offset = offset, em_record_type = record_type rec, em_seq = seq rec,
            em_ts_unix_ns = ts_unix_ns rec, em_payload_len = payload_len, em_source_path = source_path\<rparr>, spool)))))))"

definition read_spool_record :: "dev \<Rightarrow> entry_meta \<Rightarrow> ljx_error + entry_meta \<times> bytes" where
  "read_spool_record d meta =
     (case read_exact (unat (em_payload_len meta)) (seek (em_offset meta + 1 + 8 + 8 + 8) d) of
        (Inl e, _) \<Rightarrow> Inl (LjxIo e)
      | (Inr pl, _) \<Rightarrow> Inr (meta, pl))"

section \<open>The state of a scan\<close>

record scan_state =
  sc_spool :: bytes
  sc_batch :: "entry_meta list"
  sc_sent :: "entry_meta list list"
  sc_scanned :: u64
  sc_matched :: u64
  sc_loads :: nat

definition scan_start :: scan_state where
  "scan_start = \<lparr>sc_spool = [], sc_batch = [], sc_sent = [], sc_scanned = 0, sc_matched = 0, sc_loads = 0\<rparr>"

definition view_overflow :: "string \<Rightarrow> index_error" where
  "view_overflow what = Failed (LjxLogjet (NumericOverflow what))"

definition send_batch :: "(nat \<Rightarrow> bool) \<Rightarrow> scan_state \<Rightarrow> (index_error + unit) \<times> scan_state" where
  "send_batch tx_ok s =
     (if tx_ok (length (sc_sent s)) then (Inr (), s\<lparr>sc_sent := sc_sent s @ [sc_batch s], sc_batch := []\<rparr>)
      else (Inl (Failed (Usage ''sending on a closed channel'')), s\<lparr>sc_batch := []\<rparr>))"

definition load_cancel :: "(nat \<Rightarrow> bool) \<Rightarrow> scan_state \<Rightarrow> bool \<times> scan_state" where
  "load_cancel cancel s = (cancel (sc_loads s), s\<lparr>sc_loads := sc_loads s + 1\<rparr>)"

definition count_scanned :: "scan_state \<Rightarrow> (index_error + unit) \<times> scan_state" where
  "count_scanned s =
     (case checked_add (sc_scanned s) 1 of
        None \<Rightarrow> (Inl (view_overflow ''view scanned''), s)
      | Some n \<Rightarrow> (Inr (), s\<lparr>sc_scanned := n\<rparr>))"

text \<open>What happens to a matching record: it goes to the spool and into the batch, the counter goes up, and
  a full batch is sent.\<close>

definition emit_match ::
    "bytes write_all \<Rightarrow> (nat \<Rightarrow> bool) \<Rightarrow> string \<Rightarrow> owned_record \<Rightarrow> scan_state \<Rightarrow> (index_error + unit) \<times> scan_state" where
  "emit_match wr tx_ok path rec s =
     (case write_spool_record wr rec path (sc_spool s) of
        (Inl e, spool) \<Rightarrow> (Inl (Failed e), s\<lparr>sc_spool := spool\<rparr>)
      | (Inr meta, spool) \<Rightarrow>
          let s = s\<lparr>sc_spool := spool, sc_batch := sc_batch s @ [meta]\<rparr> in
          (case checked_add (sc_matched s) 1 of
             None \<Rightarrow> (Inl (view_overflow ''view matched''), s)
           | Some n \<Rightarrow>
               let s = s\<lparr>sc_matched := n\<rparr> in
               if length (sc_batch s) \<ge> SCAN_BATCH_SIZE then send_batch tx_ok s else (Inr (), s)))"

definition scan_record ::
    "(owned_record \<Rightarrow> bool) \<Rightarrow> bytes write_all \<Rightarrow> (nat \<Rightarrow> bool) \<Rightarrow> string \<Rightarrow> owned_record \<Rightarrow> scan_state \<Rightarrow>
     (index_error + unit) \<times> scan_state" where
  "scan_record matches wr tx_ok path rec s =
     try_st (count_scanned s) (\<lambda>_ s.
     if matches rec then emit_match wr tx_ok path rec s else (Inr (), s))"

section \<open>File after file\<close>

record dataset_entry =
  de_path :: string
  de_open :: "ljx_error + dev"
  de_index :: "dataset_index option"

fun scan_indexed_blocks ::
    "extern \<Rightarrow> (owned_record \<Rightarrow> bool) \<Rightarrow> (index_block \<Rightarrow> bool) \<Rightarrow> bytes write_all \<Rightarrow> (nat \<Rightarrow> bool) \<Rightarrow> (nat \<Rightarrow> bool) \<Rightarrow>
     dataset_entry \<Rightarrow> index_block list \<Rightarrow> scan_state \<Rightarrow> (index_error + unit) \<times> scan_state" where
  "scan_indexed_blocks X matches may_match wr tx_ok cancel entry [] s = (Inr (), s)"
| "scan_indexed_blocks X matches may_match wr tx_ok cancel entry (b # bs) s =
     (case load_cancel cancel s of (stop, s) \<Rightarrow>
      if stop then (Inr (), s)
      else if \<not> may_match b then scan_indexed_blocks X matches may_match wr tx_ok cancel entry bs s
      else
        try_r (read_block_records X (de_open entry) b) s (\<lambda>rs.
        try_st (for_each (scan_record matches wr tx_ok (de_path entry)) rs s) (\<lambda>_ s.
        scan_indexed_blocks X matches may_match wr tx_ok cancel entry bs s)))"

function scan_reader ::
    "extern \<Rightarrow> (owned_record \<Rightarrow> bool) \<Rightarrow> bytes write_all \<Rightarrow> (nat \<Rightarrow> bool) \<Rightarrow> (nat \<Rightarrow> bool) \<Rightarrow> string \<Rightarrow> reader \<Rightarrow> scan_state \<Rightarrow>
     (index_error + unit) \<times> scan_state" where
  "scan_reader X matches wr tx_ok cancel path r s =
     (case load_cancel cancel s of (stop, s) \<Rightarrow>
      if stop then (Inr (), s) else
      case next_record X r of
        (Inl e, r) \<Rightarrow> (Inl (logjet_fail e), s)
      | (Inr None, r) \<Rightarrow> (Inr (), s)
      | (Inr (Some rec), r) \<Rightarrow>
          (case scan_record matches wr tx_ok path rec s of
             (Inl e, s) \<Rightarrow> (Inl e, s)
           | (Inr _, s) \<Rightarrow> scan_reader X matches wr tx_ok cancel path r s))"
  by pat_completeness auto
termination
proof (relation "measures [\<lambda>(X, m, w, t, c, p, r, s). length (data (r_inner r)) - pos (r_inner r),
    \<lambda>(X, m, w, t, c, p, r, s). length (pending r)]", goal_cases)
  case (2 X m w t c p r s a b res r' v x)
  from 2 next_record_progress [of X r res r'] show ?case by (auto simp: same_file_def)
qed simp

declare scan_reader.simps [simp del]

definition scan_entry_concat ::
    "extern \<Rightarrow> 'r regex_crate \<Rightarrow> ('p, 'c) cel_crate \<Rightarrow> otlp_codec \<Rightarrow> ('r, 'p) record_predicate \<Rightarrow> bytes write_all \<Rightarrow>
     (nat \<Rightarrow> bool) \<Rightarrow> (nat \<Rightarrow> bool) \<Rightarrow> dataset_entry \<Rightarrow> scan_state \<Rightarrow> (index_error + unit) \<times> scan_state" where
  "scan_entry_concat X R C K p wr tx_ok cancel entry s =
     (let matches = predicate_matches R C K p in
      case de_index entry of
        Some index \<Rightarrow>
          if \<not> summary_may_match (di_summary index) p then (Inr (), s)
          else scan_indexed_blocks X matches (\<lambda>b. block_may_match b p) wr tx_ok cancel entry (di_blocks index) s
      | None \<Rightarrow>
          (case de_open entry of
             Inl e \<Rightarrow> (Inl (Failed e), s)
           | Inr input \<Rightarrow> scan_reader X matches wr tx_ok cancel (de_path entry) (reader_new input) s))"

definition finish_scan :: "(nat \<Rightarrow> bool) \<Rightarrow> scan_state \<Rightarrow> (index_error + u64 \<times> u64) \<times> scan_state" where
  "finish_scan tx_ok s =
     (if sc_batch s \<noteq> [] then try_st (send_batch tx_ok s) (\<lambda>_ s. (Inr (sc_scanned s, sc_matched s), s))
      else (Inr (sc_scanned s, sc_matched s), s))"

definition scan_matches_concat ::
    "extern \<Rightarrow> 'r regex_crate \<Rightarrow> ('p, 'c) cel_crate \<Rightarrow> otlp_codec \<Rightarrow> ('r, 'p) record_predicate \<Rightarrow> bytes write_all \<Rightarrow>
     (nat \<Rightarrow> bool) \<Rightarrow> (nat \<Rightarrow> bool) \<Rightarrow> dataset_entry list \<Rightarrow> (index_error + u64 \<times> u64) \<times> scan_state" where
  "scan_matches_concat X R C K p wr tx_ok cancel entries =
     try_st (for_each (scan_entry_concat X R C K p wr tx_ok cancel) entries scan_start) (\<lambda>_ s. finish_scan tx_ok s)"

section \<open>The summaries kept for the list\<close>

fun evict :: "nat list \<Rightarrow> (nat \<rightharpoonup> 'v) \<Rightarrow> nat list \<times> (nat \<rightharpoonup> 'v)" where
  "evict [] cache = ([], cache)"
| "evict (old # order) cache =
     (if Suc (length order) > SUMMARY_CACHE_LIMIT then evict order (cache(old := None)) else (old # order, cache))"

definition remember_summary :: "nat \<Rightarrow> 'v \<Rightarrow> (nat \<rightharpoonup> 'v) \<Rightarrow> nat list \<Rightarrow> nat list \<times> (nat \<rightharpoonup> 'v)" where
  "remember_summary index summary cache order = evict (order @ [index]) (cache(index \<mapsto> summary))"

section \<open>Saving a selection in the order of the view\<close>

text \<open>A block is closed before a record that steps back, so that the writer accepts every order.\<close>

definition push_preserving_view_order ::
    "extern \<Rightarrow> 'w write_all \<Rightarrow> owned_record \<Rightarrow> (u64 \<times> u64) option \<times> 'w writer \<Rightarrow>
     (ljx_error + unit) \<times> (u64 \<times> u64) option \<times> 'w writer" where
  "push_preserving_view_order X write_all rec st =
     (case st of (block_last, w) \<Rightarrow>
      let steps_back = (case block_last of None \<Rightarrow> False | Some (last_seq, last_ts) \<Rightarrow> seq rec < last_seq \<or> ts_unix_ns rec < last_ts);
          (res, block_last, w) =
            (if pending_bytes w > 0 \<and> steps_back
             then (case flush_block X write_all w of (Inl e, w) \<Rightarrow> (Inl e, block_last, w) | (Inr _, w) \<Rightarrow> (Inr (), None, w))
             else (Inr (), block_last, w))
      in case res of
           Inl e \<Rightarrow> (Inl (LjxLogjet e), block_last, w)
         | Inr _ \<Rightarrow>
             (case push X write_all (record_type rec) (seq rec) (ts_unix_ns rec) (payload rec) w of
                (Inl e, w) \<Rightarrow> (Inl (LjxLogjet e), block_last, w)
              | (Inr _, w) \<Rightarrow>
                  (Inr (), if pending_bytes w = 0 then None else Some (seq rec, ts_unix_ns rec), w)))"

definition selection_record :: "dev \<Rightarrow> entry_meta \<Rightarrow> ljx_error + owned_record" where
  "selection_record spool meta =
     and_then (read_spool_record spool meta) (\<lambda>(meta, pl).
     Inr \<lparr>record_type = em_record_type meta, seq = em_seq meta, ts_unix_ns = em_ts_unix_ns meta, payload = pl\<rparr>)"

definition export_step ::
    "extern \<Rightarrow> 'w write_all \<Rightarrow> dev \<Rightarrow> entry_meta \<Rightarrow> (u64 \<times> u64) option \<times> 'w writer \<Rightarrow>
     (ljx_error + unit) \<times> (u64 \<times> u64) option \<times> 'w writer" where
  "export_step X write_all spool meta st =
     (case selection_record spool meta of
        Inl e \<Rightarrow> (Inl e, st)
      | Inr rec \<Rightarrow> push_preserving_view_order X write_all rec st)"

definition write_export_selection ::
    "extern \<Rightarrow> 'w write_all \<Rightarrow> ('w \<Rightarrow> (io_error + unit) \<times> 'w) \<Rightarrow> dev \<Rightarrow> entry_meta list \<Rightarrow> 'w \<Rightarrow> ljx_error + 'w" where
  "write_export_selection X write_all flush spool entries out =
     (case for_each (export_step X write_all spool) entries (None, writer_with_config out writer_config_default) of
        (Inl e, _) \<Rightarrow> Inl e
      | (Inr _, _, w) \<Rightarrow>
          (case into_inner X write_all w of
             Inl e \<Rightarrow> Inl (LjxLogjet e)
           | Inr out \<Rightarrow> (case flush out of (Inl e, _) \<Rightarrow> Inl (LjxIo e) | (Inr _, out) \<Rightarrow> Inr out)))"

end
