(* ===== verification/Lj_View_Proofs.thy ===== *)
theory Lj_View_Proofs
  imports Lj_View_Scan
begin

text \<open>
  The scan of the viewer shows exactly the records that match, with or without an index, and a saved
  selection is read back in the order of the view. The library part: what the spool holds, and how a
  scan state relates to the list of records shown so far.
\<close>

section \<open>The spool holds what was written\<close>

definition spool_bytes :: "owned_record \<Rightarrow> bytes" where
  "spool_bytes r = [record_type_u8 (record_type r)] @ u64_le (seq r) @ u64_le (ts_unix_ns r)
     @ u64_le (of_nat (length (payload r))) @ payload r"

definition meta_of :: "nat \<Rightarrow> string \<Rightarrow> owned_record \<Rightarrow> entry_meta" where
  "meta_of off path r =
     \<lparr>em_offset = off, em_record_type = record_type r, em_seq = seq r, em_ts_unix_ns = ts_unix_ns r,
      em_payload_len = of_nat (length (payload r)), em_source_path = path\<rparr>"

lemma write_spool_record_vec:
  assumes "length (payload r) < 2 ^ 64"
  shows "write_spool_record vec_write_all r path sp = (Inr (meta_of (length sp) path r), sp @ spool_bytes r)"
  using assms by (simp add: write_spool_record_def Let_def vec_write_all_def meta_of_def spool_bytes_def)

lemma read_exact_grow:
  assumes "read_exact n (seek p (dev_of sp)) = (Inr bs, d)"
  shows "fst (read_exact n (seek p (dev_of (sp @ x)))) = Inr bs"
  using assms by (auto simp: read_exact_def dev_of_def seek_def split: option.splits if_splits)

lemma selection_record_grow:
  assumes "selection_record (dev_of sp) m = Inr r"
  shows "selection_record (dev_of (sp @ x)) m = Inr r"
proof -
  let ?n = "unat (em_payload_len m)" and ?p = "em_offset m + 1 + 8 + 8 + 8"
  obtain bs d where b: "read_exact ?n (seek ?p (dev_of sp)) = (Inr bs, d)"
    using assms by (auto simp: selection_record_def read_spool_record_def and_then_Inr_iff split: prod.splits sum.splits)
  then have "fst (read_exact ?n (seek ?p (dev_of (sp @ x)))) = Inr bs" by (rule read_exact_grow)
  then obtain d' where "read_exact ?n (seek ?p (dev_of (sp @ x))) = (Inr bs, d')" by (metis prod.collapse)
  then show ?thesis using assms b by (simp add: selection_record_def read_spool_record_def)
qed

lemma selection_record_written:
  assumes "length (payload r) < 2 ^ 64"
  shows "selection_record (dev_of (sp @ spool_bytes r)) (meta_of (length sp) path r) = Inr r"
proof -
  have n: "unat (of_nat (length (payload r)) :: u64) = length (payload r)" using assms by (simp add: unat_of_nat)
  have "slice (25 + length sp) (length (payload r)) (sp @ spool_bytes r) = payload r"
    by (simp add: slice_def spool_bytes_def)
  moreover have "first_fault (\<lambda>_. None) q k = None" for q k by (induction k arbitrary: q) auto
  ultimately have "read_exact (length (payload r)) (seek (25 + length sp) (dev_of (sp @ spool_bytes r)))
      = (Inr (payload r), (dev_of (sp @ spool_bytes r))\<lparr>pos := 25 + length sp + length (payload r)\<rparr>)"
    by (simp add: read_exact_def dev_of_def seek_def spool_bytes_def)
  then show ?thesis by (simp add: selection_record_def read_spool_record_def meta_of_def n)
qed

section \<open>What a scan has shown\<close>

definition shown :: "scan_state \<Rightarrow> entry_meta list" where
  "shown s = concat (sc_sent s) @ sc_batch s"

definition scan_shows :: "scan_state \<Rightarrow> owned_record list \<Rightarrow> bool" where
  "scan_shows s rs \<longleftrightarrow>
     list_all2 (\<lambda>m r. selection_record (dev_of (sc_spool s)) m = Inr r) (shown s) rs \<and> unat (sc_matched s) = length rs"

lemma scan_shows_start: "scan_shows scan_start []"
  by (simp add: scan_shows_def scan_start_def shown_def)

lemma send_batch_shown: "send_batch (\<lambda>_. True) s = (Inr (), s\<lparr>sc_sent := sc_sent s @ [sc_batch s], sc_batch := []\<rparr>)"
  by (simp add: send_batch_def)

lemma unat_Suc_word: "unat w + 1 < 2 ^ 64 \<Longrightarrow> unat (w + 1 :: u64) = unat w + 1"
  by (simp add: unat_word_ariths)

lemma emit_match_shows:
  assumes "scan_shows s rs" and "length (payload r) < 2 ^ 64" and "length rs + 1 < 2 ^ 64"
  shows "\<exists>s'. emit_match vec_write_all (\<lambda>_. True) path r s = (Inr (), s') \<and> scan_shows s' (rs @ [r]) \<and>
    sc_scanned s' = sc_scanned s"
proof -
  let ?m = "meta_of (length (sc_spool s)) path r" and ?sp = "sc_spool s @ spool_bytes r"
  let ?s = "s\<lparr>sc_spool := ?sp, sc_batch := sc_batch s @ [?m], sc_matched := sc_matched s + 1\<rparr>"
  have c: "checked_add (sc_matched s) 1 = Some (sc_matched s + 1)"
    using assms(1,3) by (simp add: checked_add_def scan_shows_def)
  have g: "list_all2 (\<lambda>m r. selection_record (dev_of ?sp) m = Inr r) (shown s @ [?m]) (rs @ [r])"
  proof (rule list_all2_appendI)
    show "list_all2 (\<lambda>m r. selection_record (dev_of ?sp) m = Inr r) (shown s) rs"
      by (rule list_all2_mono [of "\<lambda>m r. selection_record (dev_of (sc_spool s)) m = Inr r"])
        (use assms(1) in \<open>auto simp: scan_shows_def intro: selection_record_grow\<close>)
  qed (simp add: selection_record_written [OF assms(2)])
  have u: "unat (sc_matched s + 1) = length (rs @ [r])"
    using assms(1,3) unat_Suc_word [of "sc_matched s"] by (simp add: scan_shows_def)
  show ?thesis
  proof (cases "length (sc_batch ?s) \<ge> SCAN_BATCH_SIZE")
    case True
    then have "emit_match vec_write_all (\<lambda>_. True) path r s
        = (Inr (), ?s\<lparr>sc_sent := sc_sent s @ [sc_batch s @ [?m]], sc_batch := []\<rparr>)"
      using c by (simp add: emit_match_def write_spool_record_vec [OF assms(2)] Let_def send_batch_shown)
    then show ?thesis using g u by (simp add: scan_shows_def shown_def)
  next
    case False
    then have "emit_match vec_write_all (\<lambda>_. True) path r s = (Inr (), ?s)"
      using c by (simp add: emit_match_def write_spool_record_vec [OF assms(2)] Let_def)
    then show ?thesis using g u by (simp add: scan_shows_def shown_def)
  qed
qed

lemma scan_record_shows:
  assumes "scan_shows s rs" and "length (payload r) < 2 ^ 64" and "length rs + 1 < 2 ^ 64"
    and "unat (sc_scanned s) + 1 < 2 ^ 64"
  shows "\<exists>s'. scan_record matches vec_write_all (\<lambda>_. True) path r s = (Inr (), s') \<and>
    scan_shows s' (rs @ filter matches [r]) \<and> unat (sc_scanned s') = unat (sc_scanned s) + 1"
proof -
  let ?s = "s\<lparr>sc_scanned := sc_scanned s + 1\<rparr>"
  have c: "count_scanned s = (Inr (), ?s)" using assms(4) by (simp add: count_scanned_def checked_add_def)
  have sh: "scan_shows ?s rs" using assms(1) by (simp add: scan_shows_def shown_def)
  have u: "unat (sc_scanned ?s) = unat (sc_scanned s) + 1" using unat_Suc_word [OF assms(4)] by simp
  show ?thesis
  proof (cases "matches r")
    case True
    from emit_match_shows [OF sh assms(2,3), of path] obtain s' where
      "emit_match vec_write_all (\<lambda>_. True) path r ?s = (Inr (), s')" "scan_shows s' (rs @ [r])" "sc_scanned s' = sc_scanned ?s"
      by blast
    then show ?thesis using True c u by (simp add: scan_record_def)
  next
    case False
    then show ?thesis using c sh u by (simp add: scan_record_def)
  qed
qed

lemma for_each_scan:
  assumes "scan_shows s rs" and "\<forall>r\<in>set xs. length (payload r) < 2 ^ 64"
    and "length rs + length xs < 2 ^ 64" and "unat (sc_scanned s) + length xs < 2 ^ 64"
  shows "\<exists>s'. for_each (scan_record matches vec_write_all (\<lambda>_. True) path) xs s = (Inr (), s') \<and>
    scan_shows s' (rs @ filter matches xs) \<and> unat (sc_scanned s') = unat (sc_scanned s) + length xs"
  using assms
proof (induction xs arbitrary: s rs)
  case (Cons x xs)
  obtain s1 where s1: "scan_record matches vec_write_all (\<lambda>_. True) path x s = (Inr (), s1)"
      "scan_shows s1 (rs @ filter matches [x])" "unat (sc_scanned s1) = unat (sc_scanned s) + 1"
    using scan_record_shows [OF Cons.prems(1), of x matches path] Cons.prems by auto
  have "\<exists>s2. for_each (scan_record matches vec_write_all (\<lambda>_. True) path) xs s1 = (Inr (), s2) \<and>
      scan_shows s2 ((rs @ filter matches [x]) @ filter matches xs) \<and>
      unat (sc_scanned s2) = unat (sc_scanned s1) + length xs"
    by (rule Cons.IH [OF s1(2)]) (use Cons.prems s1(3) in simp_all)
  then show ?case using s1 by (cases "matches x") auto
qed auto

section \<open>Scanning one file\<close>

definition scan_ok :: "scan_state \<Rightarrow> owned_record list \<Rightarrow> nat \<Rightarrow> bool" where
  "scan_ok s rs n \<longleftrightarrow> scan_shows s rs \<and> length rs + n < 2 ^ 64 \<and> unat (sc_scanned s) + n < 2 ^ 64"

lemma scan_ok_loads [simp]: "scan_ok (s\<lparr>sc_loads := k\<rparr>) rs n = scan_ok s rs n"
  by (simp add: scan_ok_def scan_shows_def shown_def)

lemma scan_ok_mono: "scan_ok s rs n \<Longrightarrow> m \<le> n \<Longrightarrow> scan_ok s rs m"
  by (simp add: scan_ok_def)

lemma for_each_scan_ok:
  assumes "scan_ok s rs (length xs + n)" and "\<forall>r\<in>set xs. length (payload r) < 2 ^ 64"
  shows "\<exists>s'. for_each (scan_record matches vec_write_all (\<lambda>_. True) path) xs s = (Inr (), s') \<and>
    scan_ok s' (rs @ filter matches xs) n"
proof -
  obtain s' where "for_each (scan_record matches vec_write_all (\<lambda>_. True) path) xs s = (Inr (), s')"
      "scan_shows s' (rs @ filter matches xs)" "unat (sc_scanned s') = unat (sc_scanned s) + length xs"
    using for_each_scan [of s rs xs matches path] assms by (auto simp: scan_ok_def)
  then show ?thesis
    using assms(1) length_filter_le [of matches xs] by (auto simp: scan_ok_def simp del: length_filter_le)
qed

text \<open>Blocks that are skipped hold no match.\<close>

lemma scan_indexed_blocks_ok:
  assumes "list_all2 (indexes_block X K bs) bl rss" and "de_open entry = Inr (dev_of bs)"
    and "\<forall>(b, xs)\<in>set (zip bl rss). \<not> may_match b \<longrightarrow> filter matches xs = []"
    and "\<forall>r\<in>set (concat rss). length (payload r) < 2 ^ 64" and "scan_ok s rs (length (concat rss) + n)"
  shows "\<exists>s'. scan_indexed_blocks X matches may_match vec_write_all (\<lambda>_. True) (\<lambda>_. False) entry bl s = (Inr (), s') \<and>
    scan_ok s' (rs @ filter matches (concat rss)) n"
  using assms(1,3-5)
proof (induction bl rss arbitrary: s rs rule: list_all2_induct)
  case (Cons b bl xs rss)
  let ?s = "s\<lparr>sc_loads := sc_loads s + 1\<rparr>"
  have rd: "read_block_records X (de_open entry) b = Inr xs" using Cons.hyps(1) assms(2) by (simp add: indexes_block_def)
  have ok: "scan_ok ?s rs (length xs + (length (concat rss) + n))" using Cons.prems(3) by (simp add: add.assoc)
  show ?case
  proof (cases "may_match b")
    case True
    obtain s1 where s1: "for_each (scan_record matches vec_write_all (\<lambda>_. True) (de_path entry)) xs ?s = (Inr (), s1)"
        "scan_ok s1 (rs @ filter matches xs) (length (concat rss) + n)"
      using for_each_scan_ok [OF ok, of matches "de_path entry"] Cons.prems(2) by auto
    have "\<exists>s'. scan_indexed_blocks X matches may_match vec_write_all (\<lambda>_. True) (\<lambda>_. False) entry bl s1 = (Inr (), s') \<and>
        scan_ok s' ((rs @ filter matches xs) @ filter matches (concat rss)) n"
      by (rule Cons.IH) (use Cons.prems s1(2) in auto)
    then show ?thesis using True rd s1(1) by (auto simp: load_cancel_def)
  next
    case False
    have "\<exists>s'. scan_indexed_blocks X matches may_match vec_write_all (\<lambda>_. True) (\<lambda>_. False) entry bl ?s = (Inr (), s') \<and>
        scan_ok s' (rs @ filter matches (concat rss)) n"
      by (rule Cons.IH) (use Cons.prems scan_ok_mono [OF ok] in auto)
    moreover have "filter matches xs = []" using Cons.prems(1) False by auto
    ultimately show ?thesis using False by (auto simp: load_cancel_def)
  qed
qed simp

lemma scan_reader_ok:
  assumes "read_records X r = (Inr xs, r')" and "\<forall>x\<in>set xs. length (payload x) < 2 ^ 64" and "scan_ok s rs (length xs + n)"
  shows "\<exists>s'. scan_reader X matches vec_write_all (\<lambda>_. True) (\<lambda>_. False) path r s = (Inr (), s') \<and>
    scan_ok s' (rs @ filter matches xs) n"
  using assms
proof (induction xs arbitrary: r s rs)
  case Nil
  then have "\<exists>r2. next_record X r = (Inr None, r2)" by (cases rule: read_records_Cons_cases) auto
  then show ?case using Nil.prems(3) by (auto simp: scan_reader.simps [of X _ _ _ _ _ r] load_cancel_def)
next
  case (Cons x xs)
  let ?s = "s\<lparr>sc_loads := sc_loads s + 1\<rparr>"
  from Cons.prems(1) obtain r1 where r1: "next_record X r = (Inr (Some x), r1)" "read_records X r1 = (Inr xs, r')"
    by (cases rule: read_records_Cons_cases) auto
  have "scan_ok ?s rs (length [x] + (length xs + n))" using Cons.prems(3) by (simp add: add.assoc)
  from for_each_scan_ok [OF this, of matches path] Cons.prems(2) obtain s1 where
    s1: "scan_record matches vec_write_all (\<lambda>_. True) path x ?s = (Inr (), s1)"
      "scan_ok s1 (rs @ filter matches [x]) (length xs + n)"
    by (auto split: prod.splits sum.splits)
  have "\<exists>s'. scan_reader X matches vec_write_all (\<lambda>_. True) (\<lambda>_. False) path r1 s1 = (Inr (), s') \<and>
      scan_ok s' ((rs @ filter matches [x]) @ filter matches xs) n"
    by (rule Cons.IH [OF r1(2) _ s1(2)]) (use Cons.prems(2) in simp)
  moreover have "scan_reader X matches vec_write_all (\<lambda>_. True) (\<lambda>_. False) path r s
      = scan_reader X matches vec_write_all (\<lambda>_. True) (\<lambda>_. False) path r1 s1"
    using r1(1) s1(1) by (simp add: scan_reader.simps [of X _ _ _ _ _ r] load_cancel_def)
  moreover have "(rs @ filter matches [x]) @ filter matches xs = rs @ filter matches (x # xs)" by simp
  ultimately show ?case by metis
qed

section \<open>Files with their index\<close>

lemma indexes_block_builder:
  assumes "indexes_block X K bs b rs"
  shows "\<exists>c off len x y. b = block_of_summary off len (builder_finish c x y) \<and> builder_of K c rs"
proof -
  have "builder_of K (fold (builder_push K) rs summary_builder_default) rs"
    using builder_of_fold [OF builder_of_default, of K rs] by simp
  then show ?thesis using assms unfolding indexes_block_def summarise_def by blast
qed

lemma fold_merge_builder:
  assumes "list_all2 (indexes_block X K bs) bl rss" and "builder_of K b rs0"
  shows "builder_of K (fold builder_merge bl b) (rs0 @ concat rss)"
  using assms
proof (induction bl rss arbitrary: b rs0 rule: list_all2_induct)
  case (Cons x bl rs rss)
  obtain c off len u v where "x = block_of_summary off len (builder_finish c u v)" "builder_of K c rs"
    using indexes_block_builder [OF Cons.hyps(1)] by blast
  then have "builder_of K (builder_merge x b) (rs0 @ rs)" using builder_of_merge [OF Cons.prems] by blast
  from Cons.IH [OF this] show ?case by simp
qed simp

lemma index_build_log:
  assumes "codecs_ok X" and "codec_total X (wc_codec wc) L M" and "compatible wc L reader_config_default"
    and "M \<le> max_compressed_len reader_config_default" and "log_file X wc L rss out"
  shows "\<exists>bl. list_all2 (indexes_block X K out) bl rss \<and>
    index_build X K (Inr (dev_of out)) (length out) m =
      (if rss = [] then Inl (logjet_fail (InvalidHeader ''missing block sync''))
       else Inr \<lparr>di_summary = builder_finish (fold builder_merge bl summary_builder_default) (of_nat (length out)) m,
                 di_blocks = bl\<rparr>)"
proof -
  obtain imgs where l: "list_all2 (is_block X wc L) rss imgs" "out = file_image wc imgs"
    using assms(5) by (auto simp: log_file_def)
  have mark: "rc_sync_marker reader_config_default = DEFAULT_SYNC_MARKER" by (simp add: reader_config_default_def)
  have "\<forall>img\<in>set imgs. length img \<le> 52 + max_compressed_len reader_config_default"
    by (rule images_bounded [OF l(1) assms(2-4)])
  then have sp: "spaced X reader_config_default (data (dev_of out)) 0 rss"
    using spaced_images [OF assms(1,3) l(1), of "[]" 0] l(2) by (simp add: dev_of_def)
  obtain bl where bl: "build_loop X K (length out) 0 (dev_of out) summary_builder_default []
        = Inr (fold builder_merge bl summary_builder_default, bl)" "list_all2 (indexes_block X K out) bl rss"
    using build_loop_spaced [OF sp mark, of K summary_builder_default "[]"]
    by (auto simp: dev_of_def no_faults_def)
  then have "bl = [] \<longleftrightarrow> rss = []" by auto
  then show ?thesis using bl by (intro exI [of _ bl]) (simp add: index_build_def)
qed

lemma log_file_payloads:
  assumes "log_file X wc L rss out" and "r \<in> set (concat rss)"
  shows "length (payload r) < 2 ^ 32"
proof -
  obtain rs imgs where i: "list_all2 (is_block X wc L) rss imgs" "rs \<in> set rss" "r \<in> set rs"
    using assms by (auto simp: log_file_def)
  obtain img where "(rs, img) \<in> set (zip rss imgs)"
    using i(2) list_all2_lengthD [OF i(1)] by (metis in_set_impl_in_set_zip1)
  then have b: "is_block X wc L rs img" "r \<in> set rs" using i(1,3) by (auto simp: list_all2_iff)
  then obtain b t where "length (records_bytes b t rs) < 2 ^ 32" by (auto simp: is_block_def)
  moreover have "length (record_bytes b t r) \<le> length (records_bytes b t rs)"
    using b(2) by (auto simp: records_bytes_def length_concat comp_def intro!: member_le_sum_list)
  ultimately show ?thesis by (simp add: record_bytes_def)
qed

text \<open>An entry of a dataset over a file of blocks as the writer writes them, at any alignment, with the index built
  from it or without.\<close>

definition written_entry ::
    "extern \<Rightarrow> otlp_codec \<Rightarrow> writer_config \<Rightarrow> nat \<Rightarrow> owned_record list \<Rightarrow> dataset_entry \<Rightarrow> bool" where
  "written_entry X K wc L rs e \<longleftrightarrow>
     (\<exists>rss out. log_file X wc L rss out \<and> concat rss = rs \<and> length out < 2 ^ 32 \<and> de_open e = Inr (dev_of out) \<and>
        (\<forall>idx. de_index e = Some idx \<longrightarrow> (\<exists>m. index_build X K (Inr (dev_of out)) (length out) m = Inr idx)))"

lemma no_match_skipped:
  assumes "indexes_block X K bs b xs" and "sorted_wrt record_le xs"
    and "\<forall>r\<in>set xs. predicate_matches R C K p r \<longrightarrow> named_as_filtered K (rp_field_filter p) r" and "\<not> block_may_match b p"
  shows "filter (predicate_matches R C K p) xs = []"
proof -
  obtain c off len x y where c: "b = block_of_summary off len (builder_finish c x y)" "builder_of K c xs"
    using indexes_block_builder [OF assms(1)] by blast
  have "\<not> predicate_matches R C K p r" if "r \<in> set xs" for r
    using summary_may_match_sound [OF c(2) assms(2) that, where R = R and C = C and p = p] assms(3,4) that c(1) by (auto simp: block_may_match_finish)
  then show ?thesis by (simp add: filter_empty_conv)
qed

lemma sorted_wrt_concat: "sorted_wrt P (concat xss) \<Longrightarrow> xs \<in> set xss \<Longrightarrow> sorted_wrt P xs"
  by (induction xss) (auto simp: sorted_wrt_append)

lemma scan_entry_ok:
  assumes X: "codecs_ok X" "codec_total X (wc_codec wc) L M" "compatible wc L reader_config_default"
      "M \<le> max_compressed_len reader_config_default" and so: "sorted_wrt record_le xs"
    and nm: "\<forall>r\<in>set xs. predicate_matches R C K p r \<longrightarrow> named_as_filtered K (rp_field_filter p) r"
    and e: "written_entry X K wc L xs e" and ok: "scan_ok s rs (length xs + n)"
  shows "\<exists>s'. scan_entry_concat X R C K p vec_write_all (\<lambda>_. True) (\<lambda>_. False) e s = (Inr (), s') \<and>
    scan_ok s' (rs @ filter (predicate_matches R C K p) xs) n"
proof -
  let ?m = "predicate_matches R C K p"
  from e obtain rss out where out: "log_file X wc L rss out" "length out < 2 ^ 32" "de_open e = Inr (dev_of out)"
      "\<And>idx. de_index e = Some idx \<Longrightarrow> \<exists>m. index_build X K (Inr (dev_of out)) (length out) m = Inr idx"
    and xs: "concat rss = xs"
    by (auto simp: written_entry_def)
  have small: "\<forall>r\<in>set xs. length (payload r) < 2 ^ 64" using log_file_payloads [OF out(1)] xs by fastforce
  show ?thesis
  proof (cases "de_index e")
    case None
    obtain r' where "read_records X (reader_new (dev_of out)) = (Inr xs, r')"
      using log_file_reads [OF X out(1,2)] xs by (auto simp: reader_new_def)
    from scan_reader_ok [OF this small ok] show ?thesis using None out(3) by (simp add: scan_entry_concat_def)
  next
    case (Some idx)
    then obtain m where m: "index_build X K (Inr (dev_of out)) (length out) m = Inr idx" using out(4) by blast
    obtain bl where b: "list_all2 (indexes_block X K out) bl rss" "di_blocks idx = bl"
        "di_summary idx = builder_finish (fold builder_merge bl summary_builder_default) (of_nat (length out)) m"
      using index_build_log [OF X out(1), of K m] m by (auto split: if_splits)
    have sum: "builder_of K (fold builder_merge bl summary_builder_default) xs"
      using fold_merge_builder [OF b(1) builder_of_default] xs by simp
    show ?thesis
    proof (cases "summary_may_match (di_summary idx) p")
      case False
      then have "\<not> ?m r" if "r \<in> set xs" for r
        using summary_may_match_sound [OF sum so that, where R = R and C = C and p = p] nm that b(3) by auto
      then have "filter ?m xs = []" by (simp add: filter_empty_conv)
      then show ?thesis using False Some scan_ok_mono [OF ok, of n] by (simp add: scan_entry_concat_def)
    next
      case True
      have sk: "\<forall>(b, ys)\<in>set (zip bl rss). \<not> block_may_match b p \<longrightarrow> filter ?m ys = []"
      proof (clarify)
        fix b' ys assume z: "(b', ys) \<in> set (zip bl rss)" "\<not> block_may_match b' p"
        then have "indexes_block X K out b' ys" "ys \<in> set rss"
          using b(1) by (auto simp: list_all2_iff dest: set_zip_rightD)
        then show "filter ?m ys = []"
          using no_match_skipped [of X K out b' ys R C p] sorted_wrt_concat [of record_le rss ys] so nm xs z(2) by auto
      qed
      from scan_indexed_blocks_ok [OF b(1) out(3) sk] small ok xs show ?thesis
        using True Some b(2) by (simp add: scan_entry_concat_def)
    qed
  qed
qed

end
