(* ===== verification/Lj_View.thy ===== *)
theory Lj_View
  imports Lj_View_Proofs
begin

text \<open>
  The properties of selecting records in \<^verbatim>\<open>ljx\<close>: what the viewer shows, what the filter command writes, and
  how a selection is saved.
\<close>

section \<open>Instances of the parameters\<close>

text \<open>Crates on which the theorems are exercised: no pattern and no expression compiles, and no payload
  decodes.\<close>

definition no_regex :: "unit regex_crate" where
  "no_regex = \<lparr>rx_escape = (\<lambda>s. s), rx_build = (\<lambda>_ _. Inl ''''), rx_is_match = (\<lambda>_ _. False)\<rparr>"

definition no_cel :: "(unit, unit) cel_crate" where
  "no_cel =
     \<lparr>cel_compile = (\<lambda>_. Inl ''''), cel_default = (), cel_add = (\<lambda>_ _ _. Inr ()), cel_execute = (\<lambda>_ _. Inl ''''),
      cel_debug = (\<lambda>_. '''')\<rparr>"

definition no_otlp :: otlp_codec where
  "no_otlp = \<lparr>dec_logs = (\<lambda>_. Inl ''''), enc_logs = (\<lambda>_. []), dec_metrics = (\<lambda>_. Inl ''''), dec_traces = (\<lambda>_. Inl '''')\<rparr>"

definition from_seq :: "u64 \<Rightarrow> (unit, unit) record_predicate" where
  "from_seq n =
     \<lparr>rp_record_type = None, rp_seq_min = Some n, rp_seq_max = None, rp_ts_min = None, rp_ts_max = None,
      rp_payload_matchers = [], rp_cel_queries = [], rp_field_filter = field_filter_default\<rparr>"

lemma from_seq_matches: "predicate_matches no_regex no_cel no_otlp (from_seq n) r \<longleftrightarrow> n \<le> seq r"
  by (auto simp: predicate_matches_def from_seq_def in_range_def field_matches_payload_def field_filter_is_empty_def
      field_filter_default_def not_less)

lemma from_seq_named [simp]: "named_as_filtered K (rp_field_filter (from_seq n)) r"
  by (simp add: named_as_filtered_def from_seq_def field_filter_default_def)

section \<open>Scanning a dataset\<close>

lemma for_each_entries:
  assumes X: "codecs_ok X" "codec_total X (wc_codec wc) L M" "compatible wc L reader_config_default"
      "M \<le> max_compressed_len reader_config_default"
    and es: "list_all2 (written_entry X K wc L) rss es"
    and ok: "\<forall>rs\<in>set rss. sorted_wrt record_le rs"
      "\<forall>r\<in>set (concat rss). predicate_matches R C K p r \<longrightarrow> named_as_filtered K (rp_field_filter p) r"
      "scan_ok s rs0 (length (concat rss))"
  shows "\<exists>s'. for_each (scan_entry_concat X R C K p vec_write_all (\<lambda>_. True) (\<lambda>_. False)) es s = (Inr (), s') \<and>
    scan_ok s' (rs0 @ filter (predicate_matches R C K p) (concat rss)) 0"
  using es ok
proof (induction rss es arbitrary: s rs0 rule: list_all2_induct)
  case (Cons rs rss e es)
  let ?m = "predicate_matches R C K p" and ?f = "scan_entry_concat X R C K p vec_write_all (\<lambda>_. True) (\<lambda>_. False)"
  obtain s1 where s1: "?f e s = (Inr (), s1)" "scan_ok s1 (rs0 @ filter ?m rs) (length (concat rss))"
    using scan_entry_ok [OF X _ _ Cons.hyps(1), of R C p s rs0 "length (concat rss)"] Cons.prems by auto
  have "\<exists>s'. for_each ?f es s1 = (Inr (), s') \<and> scan_ok s' ((rs0 @ filter ?m rs) @ filter ?m (concat rss)) 0"
    by (rule Cons.IH) (use Cons.prems s1(2) in auto)
  then show ?case using s1(1) by auto
qed simp

lemma finish_scan_ok:
  assumes "scan_ok s rs 0"
  shows "\<exists>s'. finish_scan (\<lambda>_. True) s = (Inr (sc_scanned s, sc_matched s), s') \<and> scan_ok s' rs 0 \<and> sc_batch s' = []"
  using assms by (auto simp: finish_scan_def send_batch_def scan_ok_def scan_shows_def shown_def)

lemma list_all2_try_map: "list_all2 (\<lambda>m r. f m = Inr r) ms rs \<Longrightarrow> try_map f ms = Inr rs"
  by (induction ms rs rule: list_all2_induct) auto

text \<open>C30. The viewer shows exactly the matching records of an ordered dataset, with and without an index. The
  dataset consists of undamaged files of blocks as the writer writes them, at any block alignment, whose
  records are in order of sequence number and timestamp within each file; each file comes with the index built
  from it or with none. Where the predicate filters on services or severities, every matching record must be
  a log record that names one. Then the scan ends without error, and reading the announced entries back from
  the spool gives the matching records of all files, in the order of the files.\<close>

theorem view_shows_exactly_the_matches:
  assumes "codecs_ok X" and "codec_total X (wc_codec wc) L M" and "compatible wc L reader_config_default"
    and "M \<le> max_compressed_len reader_config_default"
    and "list_all2 (written_entry X K wc L) rss es" and "\<forall>rs\<in>set rss. sorted_wrt record_le rs"
    and "length (concat rss) < 2 ^ 64"
    and "\<forall>r\<in>set (concat rss). predicate_matches R C K p r \<longrightarrow> named_as_filtered K (rp_field_filter p) r"
  shows "\<exists>scanned s. let shown = filter (predicate_matches R C K p) (concat rss) in
    scan_matches_concat X R C K p vec_write_all (\<lambda>_. True) (\<lambda>_. False) es = (Inr (scanned, of_nat (length shown)), s) \<and>
    try_map (selection_record (dev_of (sc_spool s))) (concat (sc_sent s)) = Inr shown"
proof -
  let ?m = "predicate_matches R C K p"
  have "scan_ok scan_start [] (length (concat rss))"
    using assms(7) scan_shows_start by (simp add: scan_ok_def scan_start_def)
  from for_each_entries [OF assms(1-6,8) this] obtain s where
    s: "for_each (scan_entry_concat X R C K p vec_write_all (\<lambda>_. True) (\<lambda>_. False)) es scan_start = (Inr (), s)"
      "scan_ok s (filter ?m (concat rss)) 0" by auto
  obtain s' where s': "finish_scan (\<lambda>_. True) s = (Inr (sc_scanned s, sc_matched s), s')"
      "scan_ok s' (filter ?m (concat rss)) 0" "sc_batch s' = []"
    using finish_scan_ok [OF s(2)] by blast
  have "sc_matched s = of_nat (length (filter ?m (concat rss)))"
    using s(2) by (simp add: scan_ok_def scan_shows_def word_unat_eq_iff unat_of_nat)
  moreover have "try_map (selection_record (dev_of (sc_spool s'))) (concat (sc_sent s')) = Inr (filter ?m (concat rss))"
    using s'(2,3) by (intro list_all2_try_map) (simp add: scan_ok_def scan_shows_def shown_def)
  ultimately show ?thesis
    using s(1) s'(1) by (intro exI [of _ "sc_scanned s"] exI [of _ s']) (simp add: scan_matches_concat_def Let_def)
qed

lemma file_image_length:
  assumes "codec_total X (wc_codec wc) L M" and "length (wc_sync_marker wc) = 8"
  shows "list_all2 (is_block X wc L) rss imgs \<Longrightarrow>
    length (file_image wc imgs) \<le> length (concat rss) * (52 + M + block_alignment wc)"
proof (induction rss imgs rule: list_all2_induct)
  case (Cons rs rss img imgs)
  have "length img \<le> 52 + M" by (rule is_block_length [OF Cons.hyps(1) assms])
  moreover have "length (padding wc (length img)) \<le> block_alignment wc" by (simp add: padding_def Let_def)
  moreover have "1 \<le> length rs" using Cons.hyps(1) by (cases rs) (auto simp: is_block_def)
  then have "1 * (52 + M + block_alignment wc) \<le> length rs * (52 + M + block_alignment wc)" by (rule mult_le_mono1)
  ultimately show ?case using Cons.IH by (simp add: file_image_def algebra_simps)
qed (simp add: file_image_def)

text \<open>The writer of a spool segment, whose blocks are aligned to 4096 bytes.\<close>

definition aligned_config :: writer_config where
  "aligned_config = writer_config_default\<lparr>block_alignment := 4096\<rparr>"

lemma aligned_config_simps [simp]:
  "compatible aligned_config 65536 reader_config_default" "block_target_size aligned_config = 65536"
  "length (wc_sync_marker aligned_config) = 8" "block_alignment aligned_config = 4096"
  by (simp_all add: aligned_config_def compatible_def writer_config_default_def reader_config_default_def
      DEFAULT_SYNC_MARKER_def first_unique_def DEFAULT_MAX_BLOCK_SIZE_def DEFAULT_BLOCK_TARGET_SIZE_def)

lemma sample_entry:
  "\<exists>e. written_entry identity_extern no_otlp aligned_config 65536 sample_records e \<and> de_index e \<noteq> None"
proof -
  obtain out where "write_log identity_extern aligned_config sample_records = Inr out"
    using write_log_total [of identity_extern aligned_config 65536 65536 sample_records] sample_records_simps by auto
  then obtain rss where l: "log_file identity_extern aligned_config 65536 rss out" "concat rss = sample_records"
    using write_log_log [of identity_extern aligned_config sample_records out 65536] sample_records_simps by auto
  then obtain imgs where i: "list_all2 (is_block identity_extern aligned_config 65536) rss imgs" "out = file_image aligned_config imgs"
    by (auto simp: log_file_def)
  have "length out \<le> 2 * (52 + 65536 + 4096)"
    using file_image_length [OF identity_total _ i(1)] i(2) l(2) sample_records_simps(1) by simp
  then have len: "length out < 2 ^ 32" by simp
  have "\<exists>idx. index_build identity_extern no_otlp (Inr (dev_of out)) (length out) None = Inr idx"
    using index_build_log [OF identity_codecs identity_total _ _ l(1), of no_otlp None] l(2)
    by (cases "rss = []") (auto simp: default_config_simps sample_records_def)
  then obtain idx where "index_build identity_extern no_otlp (Inr (dev_of out)) (length out) None = Inr idx" ..
  then show ?thesis
    using l len by (intro exI [of _ "\<lparr>de_path = ''a.logjet'', de_open = Inr (dev_of out), de_index = Some idx\<rparr>"])
      (auto simp: written_entry_def)
qed

theorem view_shows_exactly_the_matches_witness:
  "\<exists>e scanned s. de_index e \<noteq> None \<and> written_entry identity_extern no_otlp aligned_config 65536 sample_records e \<and>
    scan_matches_concat identity_extern no_regex no_cel no_otlp (from_seq 2) vec_write_all (\<lambda>_. True) (\<lambda>_. False) [e]
      = (Inr (scanned, 1), s) \<and>
    try_map (selection_record (dev_of (sc_spool s))) (concat (sc_sent s)) = Inr [sample_records ! 1]"
proof -
  obtain e where e: "written_entry identity_extern no_otlp aligned_config 65536 sample_records e" "de_index e \<noteq> None"
    using sample_entry by blast
  have f: "filter (predicate_matches no_regex no_cel no_otlp (from_seq 2)) sample_records = [sample_records ! 1]"
    by (simp add: sample_records_def from_seq_matches word_le_nat_alt)
  show ?thesis
    using view_shows_exactly_the_matches [of identity_extern aligned_config 65536 65536 no_otlp "[sample_records]"
        "[e]" no_regex no_cel "from_seq 2"] e f
    by (auto simp: default_config_simps sample_records_simps)
qed

section \<open>Records out of order\<close>

text \<open>The writer asks of a record only that it is not below the first record of its block.\<close>

lemma push_in_open_block:
  fixes r :: owned_record
  assumes "block_base_seq w = Some b" and "block_base_ts_unix_ns w = Some t" and "b \<le> seq r" and "t \<le> ts_unix_ns r"
    and "length (payload_buf w) + (31 + length (payload r)) < block_target_size (config w)"
    and "block_target_size (config w) < 2 ^ 32" and "unat (record_count w) \<le> length (payload_buf w)"
  shows "\<exists>w'. push X wr (record_type r) (seq r) (ts_unix_ns r) (payload r) w = (Inr (), w') \<and>
    block_base_seq w' = Some b \<and> block_base_ts_unix_ns w' = Some t \<and> config w' = config w \<and>
    length (payload_buf w') \<le> length (payload_buf w) + (31 + length (payload r)) \<and>
    unat (record_count w') \<le> length (payload_buf w')"
proof -
  let ?e = "record_bytes b t r"
  have e: "length ?e \<le> 31 + length (payload r)" by (rule length_record_bytes)
  have enc: "encode_record (record_type r) (seq r - b) (ts_unix_ns r - t) (payload r) = Inr ?e"
    using assms(5,6) by (subst encode_record_eq) (simp_all add: record_bytes_def)
  have c: "checked_add (record_count w) 1 = Some (record_count w + 1)" "unat (record_count w + 1) = unat (record_count w) + 1"
    using assms(5-7) by (simp_all add: checked_add_def unat_word_ariths)
  have u: "usize_checked_add (length (payload_buf w)) (length ?e) = Some (length (payload_buf w) + length ?e)"
    using assms(5,6) e by (simp add: usize_checked_add_def usize_bound_def)
  have s: "checked_sub (seq r) b = Some (seq r - b)" "checked_sub (ts_unix_ns r) t = Some (ts_unix_ns r - t)"
    using assms(3,4) by (simp_all add: num_simps)
  have "push X wr (record_type r) (seq r) (ts_unix_ns r) (payload r) w
      = (Inr (), w\<lparr>encoded_record_buf := ?e, payload_buf := payload_buf w @ ?e, record_count := record_count w + 1\<rparr>)"
    using assms(1,2,5) e s enc u c(1) by (simp add: push_def open_block_def push_append_def Let_def)
  moreover have "unat (record_count w) + 1 \<le> length (payload_buf w) + length ?e"
    using add_le_mono [OF assms(7), of 1 "length ?e"] by (simp add: Suc_le_eq)
  ultimately show ?thesis using assms(1,2) c(2) e by simp
qed

lemma push_all_in_open_block:
  assumes "block_base_seq w = Some b" and "block_base_ts_unix_ns w = Some t" and "\<forall>r\<in>set rs. b \<le> seq r \<and> t \<le> ts_unix_ns r"
    and "length (payload_buf w) + (\<Sum>r\<leftarrow>rs. 31 + length (payload r)) < block_target_size (config w)"
    and "block_target_size (config w) < 2 ^ 32" and "unat (record_count w) \<le> length (payload_buf w)"
  shows "\<exists>w'. push_all X wr rs w = (Inr (), w') \<and> block_base_seq w' = Some b \<and> block_base_ts_unix_ns w' = Some t \<and>
    config w' = config w \<and> length (payload_buf w') < block_target_size (config w) \<and>
    unat (record_count w') \<le> length (payload_buf w')"
  using assms
proof (induction rs arbitrary: w)
  case (Cons r rs)
  obtain w1 where w1: "push X wr (record_type r) (seq r) (ts_unix_ns r) (payload r) w = (Inr (), w1)"
      "block_base_seq w1 = Some b" "block_base_ts_unix_ns w1 = Some t" "config w1 = config w"
      "length (payload_buf w1) \<le> length (payload_buf w) + (31 + length (payload r))"
      "unat (record_count w1) \<le> length (payload_buf w1)"
    using push_in_open_block [of w b t r X wr] Cons.prems by auto
  have "\<exists>w'. push_all X wr rs w1 = (Inr (), w') \<and> block_base_seq w' = Some b \<and> block_base_ts_unix_ns w' = Some t \<and>
      config w' = config w1 \<and> length (payload_buf w') < block_target_size (config w1) \<and>
      unat (record_count w') \<le> length (payload_buf w')"
    by (rule Cons.IH [OF w1(2,3) _ _ _ w1(6)]) (use Cons.prems w1(4,5) in auto)
  then show ?case using w1(1,4) by simp
qed auto

lemma write_log_one_block:
  assumes "\<forall>x\<in>set (r # rs). record_le r x" and "(\<Sum>x\<leftarrow>r # rs. 31 + length (payload x)) < block_target_size wc"
    and "block_target_size wc < 2 ^ 32" and "codec_total X (wc_codec wc) (block_target_size wc) M" and "M < 2 ^ 32"
  shows "\<exists>out. write_log X wc (r # rs) = Inr out"
proof -
  let ?w = "writer_with_config [] wc :: bytes writer"
  let ?w1 = "?w\<lparr>block_base_seq := Some (seq r), block_base_ts_unix_ns := Some (ts_unix_ns r)\<rparr>"
  have eq: "push_all X vec_write_all (r # rs) ?w = push_all X vec_write_all (r # rs) ?w1"
    by (simp add: push_def open_block_def writer_with_config_def)
  obtain w where w: "push_all X vec_write_all (r # rs) ?w1 = (Inr (), w)" "block_base_seq w = Some (seq r)"
      "block_base_ts_unix_ns w = Some (ts_unix_ns r)" "config w = wc" "length (payload_buf w) < block_target_size wc"
      "unat (record_count w) \<le> length (payload_buf w)"
    using push_all_in_open_block [of ?w1 "seq r" "ts_unix_ns r" "r # rs" X vec_write_all] assms(1-3)
    by (auto simp: writer_with_config_def record_le_def)
  have "ready (block_target_size wc) w" using w by (simp add: ready_def)
  then obtain w' where "flush_block X vec_write_all w = (Inr (), w')"
    using vecr.flush_block_total [of "block_target_size wc" w X M] assms(3-5) w(4) by auto
  then show ?thesis using w(1) eq by (simp add: write_log_def into_inner_def del: push_all.simps)
qed

definition out_of_order :: "owned_record list" where
  "out_of_order =
     map (\<lambda>n. \<lparr>record_type = Metrics, seq = n, ts_unix_ns = 10, payload = []\<rparr>) [1, 9, 5]"

lemma out_of_order_log:
  obtains out rss where "write_log identity_extern writer_config_default out_of_order = Inr out" "length out < 2 ^ 32"
    "log_file identity_extern writer_config_default 65536 rss out" "concat rss = out_of_order"
proof -
  have small: "\<forall>r\<in>set out_of_order. 31 + length (payload r) \<le> 65536" by (simp add: out_of_order_def)
  obtain out where out: "write_log identity_extern writer_config_default out_of_order = Inr out"
    using write_log_one_block [of "out_of_order ! 0" "tl out_of_order" writer_config_default identity_extern 65536]
    by (auto simp: out_of_order_def record_le_def default_config_simps word_le_nat_alt)
  obtain rss where l: "log_file identity_extern writer_config_default 65536 rss out" "concat rss = out_of_order"
    using write_log_log [OF out, of 65536] small by (auto simp: default_config_simps)
  then obtain imgs where i: "list_all2 (is_block identity_extern writer_config_default 65536) rss imgs"
      "out = file_image writer_config_default imgs" by (auto simp: log_file_def)
  have "length (wc_sync_marker writer_config_default) = 8" using default_compatible by (simp add: compatible_def)
  from file_image_length [OF identity_total this i(1)] have "length out < 2 ^ 32"
    by (simp add: i(2) l(2) out_of_order_def default_config_simps)
  with out show thesis using l by (rule that)
qed

lemma scan_start_sent [simp]: "sc_sent scan_start = []"
  by (simp add: scan_start_def)

lemma scan_without_index:
  assumes "read_records X (reader_new d) = (Inr xs, r')" and "\<forall>x\<in>set xs. length (payload x) < 2 ^ 64"
    and "length xs < 2 ^ 64"
  shows "\<exists>s. scan_matches_concat X R C K p vec_write_all (\<lambda>_. True) (\<lambda>_. False)
      [\<lparr>de_path = path, de_open = Inr d, de_index = None\<rparr>]
        = (Inr (sc_scanned s, of_nat (length (filter (predicate_matches R C K p) xs))), s) \<and>
    try_map (selection_record (dev_of (sc_spool s))) (concat (sc_sent s)) = Inr (filter (predicate_matches R C K p) xs)"
proof -
  let ?ys = "filter (predicate_matches R C K p) xs"
  have "scan_ok scan_start [] (length xs + 0)" using assms(3) scan_shows_start by (simp add: scan_ok_def scan_start_def)
  from scan_reader_ok [OF assms(1,2) this] obtain s where
    s: "scan_reader X (predicate_matches R C K p) vec_write_all (\<lambda>_. True) (\<lambda>_. False) path (reader_new d) scan_start = (Inr (), s)"
      "scan_ok s ?ys 0" by auto
  obtain s' where s': "finish_scan (\<lambda>_. True) s = (Inr (sc_scanned s, sc_matched s), s')" "scan_ok s' ?ys 0" "sc_batch s' = []"
    using finish_scan_ok [OF s(2)] by blast
  have "sc_matched s = of_nat (length ?ys)"
    using s(2) by (simp add: scan_ok_def scan_shows_def word_unat_eq_iff unat_of_nat)
  moreover have "sc_scanned s' = sc_scanned s" using s'(1) by (auto simp: finish_scan_def send_batch_def split: if_splits)
  moreover have "try_map (selection_record (dev_of (sc_spool s'))) (concat (sc_sent s')) = Inr ?ys"
    using s'(2,3) by (intro list_all2_try_map) (simp add: scan_ok_def scan_shows_def shown_def)
  ultimately show ?thesis
    using s(1) s'(1) by (intro exI [of _ s']) (simp add: scan_matches_concat_def scan_entry_concat_def)
qed

text \<open>C31. The index hides records that are out of order within a block: the writer accepts the sequence
  numbers 1, 9, 5 and a reader returns all three. A search from sequence number 8 on the file without an
  index shows the record 9. The same search with the index built from the file ends without error and
  shows nothing.\<close>

theorem index_hides_an_out_of_order_record:
  "\<exists>out r' idx s s'. write_log identity_extern writer_config_default out_of_order = Inr out \<and>
    read_records identity_extern (reader_new (dev_of out)) = (Inr out_of_order, r') \<and>
    index_build identity_extern no_otlp (Inr (dev_of out)) (length out) None = Inr idx \<and>
    scan_matches_concat identity_extern no_regex no_cel no_otlp (from_seq 8) vec_write_all (\<lambda>_. True) (\<lambda>_. False)
      [\<lparr>de_path = ''a.logjet'', de_open = Inr (dev_of out), de_index = None\<rparr>] = (Inr (sc_scanned s, 1), s) \<and>
    try_map (selection_record (dev_of (sc_spool s))) (concat (sc_sent s)) = Inr [out_of_order ! 1] \<and>
    scan_matches_concat identity_extern no_regex no_cel no_otlp (from_seq 8) vec_write_all (\<lambda>_. True) (\<lambda>_. False)
      [\<lparr>de_path = ''a.logjet'', de_open = Inr (dev_of out), de_index = Some idx\<rparr>] = (Inr (0, 0), s') \<and>
    sc_sent s' = []"
proof -
  let ?rs = out_of_order and ?m = "predicate_matches no_regex no_cel no_otlp (from_seq 8)"
  obtain out rss where out: "write_log identity_extern writer_config_default ?rs = Inr out" "length out < 2 ^ 32"
    and l: "log_file identity_extern writer_config_default 65536 rss out" "concat rss = ?rs"
    by (rule out_of_order_log)
  obtain r' where rd: "read_records identity_extern (reader_new (dev_of out)) = (Inr ?rs, r')"
    using log_file_reads [OF identity_codecs identity_total default_compatible _ l(1) out(2)] l(2)
    by (auto simp: default_config_simps reader_new_def)
  obtain idx bl where b: "index_build identity_extern no_otlp (Inr (dev_of out)) (length out) None = Inr idx"
      "list_all2 (indexes_block identity_extern no_otlp out) bl rss"
      "di_summary idx = builder_finish (fold builder_merge bl summary_builder_default) (of_nat (length out)) None"
    using index_build_log [OF identity_codecs identity_total default_compatible _ l(1), of no_otlp None] l(2)
    by (auto simp: default_config_simps out_of_order_def split: if_splits)
  have "sb_last_seq (fold builder_merge bl summary_builder_default) = Some 5"
    using fold_merge_builder [OF b(2) builder_of_default] l(2) by (simp add: builder_of_def ends_def out_of_order_def)
  then have no: "\<not> summary_may_match (di_summary idx) (from_seq 8)"
    by (simp add: b(3) summary_may_match_def builder_finish_def from_seq_def below_def word_less_nat_alt)
  let ?e = "\<lambda>i. \<lparr>de_path = ''a.logjet'', de_open = Inr (dev_of out), de_index = i\<rparr>"
  have hid: "scan_matches_concat identity_extern no_regex no_cel no_otlp (from_seq 8) vec_write_all (\<lambda>_. True) (\<lambda>_. False)
      [?e (Some idx)] = (Inr (0, 0), scan_start)"
    using no by (simp add: scan_matches_concat_def scan_entry_concat_def finish_scan_def scan_start_def)
  obtain s where "scan_matches_concat identity_extern no_regex no_cel no_otlp (from_seq 8) vec_write_all (\<lambda>_. True) (\<lambda>_. False)
      [?e None] = (Inr (sc_scanned s, 1), s)"
    "try_map (selection_record (dev_of (sc_spool s))) (concat (sc_sent s)) = Inr [?rs ! 1]"
    using scan_without_index [OF rd, of no_regex no_cel no_otlp "from_seq 8" "''a.logjet''"]
    by (auto simp: out_of_order_def from_seq_matches word_le_nat_alt)
  then show ?thesis using out(1) rd b(1) hid by (metis scan_start_sent)
qed

section \<open>Saving a selection\<close>

text \<open>The writer is always in one of two situations: no open block and no base, or an open block whose base
  is not above the last record pushed.\<close>

definition view_order_ok :: "nat \<Rightarrow> (u64 \<times> u64) option \<Rightarrow> 'w writer \<Rightarrow> bool" where
  "view_order_ok L block_last w \<longleftrightarrow>
     ready L w \<and> (payload_buf w = [] \<longrightarrow> block_base_seq w = None) \<and>
     (payload_buf w \<noteq> [] \<longrightarrow> (\<exists>r :: owned_record. block_last = Some (seq r, ts_unix_ns r) \<and> bases_le w r))"

lemma flush_block_closes:
  assumes "flush_block X wr w = (Inr u, w')" and "payload_buf w \<noteq> []"
  shows "payload_buf w' = [] \<and> block_base_seq w' = None"
  using assms
  by (auto simp: flush_block_def Let_def reset_block_state_def split: option.splits sum.splits if_splits prod.splits)

lemma push_append_closes:
  assumes "push_append X wr w = (Inr u, w')" and "encoded_record_buf w \<noteq> []" and "payload_buf w' = []"
  shows "block_base_seq w' = None"
  using assms by (auto simp: push_append_def Let_def dest!: flush_block_closes split: option.splits if_splits)

lemma push_closes:
  fixes r :: owned_record
  assumes "push X wr (record_type r) (seq r) (ts_unix_ns r) (payload r) w = (Inr u, w')" and "payload_buf w' = []"
  shows "block_base_seq w' = None"
proof -
  obtain w1 b t where op: "open_block (seq r) (ts_unix_ns r) (w\<lparr>encoded_record_buf := []\<rparr>) = (w1, b, t)" by (metis surj_pair)
  from push_accepted [OF op assms(1)] obtain v where "push_append X wr v = (Inr u, w')" "encoded_record_buf v \<noteq> []"
    by (auto simp: rebase_def split: if_splits prod.splits sum.splits)
  then show ?thesis using assms(2) by (rule push_append_closes)
qed

lemma no_base_accepts: "block_base_seq w = None \<Longrightarrow> bases_le w r"
  by (simp add: bases_le_def)

definition steps_back :: "(u64 \<times> u64) option \<Rightarrow> owned_record \<Rightarrow> bool" where
  "steps_back bl r = (case bl of None \<Rightarrow> False | Some (ls, lt) \<Rightarrow> seq r < ls \<or> ts_unix_ns r < lt)"

lemma prepare_block:
  assumes ok: "view_order_ok L bl w" and L: "L < 2 ^ 32" and C: "codec_total X (wc_codec (config w)) L M" "M < 2 ^ 32"
    and wl: "writer_log X L id c0 w rs"
  shows "\<exists>bl1 w1. (if pending_bytes w > 0 \<and> steps_back bl r
        then (case flush_block X vec_write_all w of (Inl e, w) \<Rightarrow> (Inl e, bl, w) | (Inr _, w) \<Rightarrow> (Inr (), None, w))
        else (Inr (), bl, w)) = (Inr (), bl1, w1) \<and>
      ready L w1 \<and> bases_le w1 r \<and> config w1 = config w \<and> writer_log X L id c0 w1 rs"
proof (cases "pending_bytes w > 0 \<and> steps_back bl r")
  case True
  then have ne: "payload_buf w \<noteq> []" by (simp add: pending_bytes_def)
  have rdy: "ready L w" using ok by (simp add: view_order_ok_def)
  obtain w1 where w1: "flush_block X vec_write_all w = (Inr (), w1)" "payload_buf w1 = []" "record_count w1 = 0" "config w1 = config w"
    using vecr.flush_block_total [OF rdy L C] by blast
  have "bases_le w1 r" using flush_block_closes [OF w1(1) ne] by (simp add: no_base_accepts)
  moreover have "ready L w1" using w1(2,3) by (simp add: ready_def)
  ultimately show ?thesis using True w1 vec.flush_block_log [OF wl w1(1)] by auto
next
  case False
  have "bases_le w r"
  proof (cases "payload_buf w = []")
    case True
    then show ?thesis using ok by (simp add: view_order_ok_def no_base_accepts)
  next
    case ne: False
    then obtain r0 :: owned_record where r0: "bl = Some (seq r0, ts_unix_ns r0)" "bases_le w r0"
      using ok by (auto simp: view_order_ok_def)
    then have "record_le r0 r" using False ne by (auto simp: record_le_def steps_back_def pending_bytes_def not_less)
    then show ?thesis by (rule bases_le_trans [OF r0(2)])
  qed
  then show ?thesis using False ok wl by (auto simp: view_order_ok_def)
qed

lemma push_preserving_total:
  assumes ok: "view_order_ok L bl w" and L: "L < 2 ^ 32" "31 + length (payload r) \<le> L" "block_target_size (config w) \<le> L"
    and C: "codec_total X (wc_codec (config w)) L M" "M < 2 ^ 32" and wl: "writer_log X L id c0 w rs"
  shows "\<exists>bl' w'. push_preserving_view_order X vec_write_all r (bl, w) = (Inr (), bl', w') \<and>
    view_order_ok L bl' w' \<and> config w' = config w \<and> writer_log X L id c0 w' (rs @ [r])"
proof -
  obtain bl1 w1 where b: "(if pending_bytes w > 0 \<and> steps_back bl r
        then (case flush_block X vec_write_all w of (Inl e, w) \<Rightarrow> (Inl e, bl, w) | (Inr _, w) \<Rightarrow> (Inr (), None, w))
        else (Inr (), bl, w)) = (Inr (), bl1, w1)"
      and w1: "ready L w1" "bases_le w1 r" "config w1 = config w" "writer_log X L id c0 w1 rs"
    using prepare_block [OF ok L(1) C wl] by blast
  obtain w2 where w2: "push X vec_write_all (record_type r) (seq r) (ts_unix_ns r) (payload r) w1 = (Inr (), w2)"
      "ready L w2" "config w2 = config w1" "bases_le w2 r"
    using vecr.push_total [OF w1(1,2) L(1,2), of X M] L(3) C w1(3) by auto
  have "push_preserving_view_order X vec_write_all r (bl, w)
      = (Inr (), if pending_bytes w2 = 0 then None else Some (seq r, ts_unix_ns r), w2)"
    using b w2(1) by (simp add: push_preserving_view_order_def steps_back_def Let_def)
  moreover have "view_order_ok L (if pending_bytes w2 = 0 then None else Some (seq r, ts_unix_ns r)) w2"
    using w2(2,4) push_closes [OF w2(1)] by (auto simp: view_order_ok_def pending_bytes_def)
  ultimately show ?thesis
    using vec.push_log [OF w1(4) _ L(2) w2(1)] L(3) w1(3) w2(3) by auto
qed

lemma export_all_total:
  assumes "try_map (selection_record spool) entries = Inr rs" and "\<forall>r\<in>set rs. 31 + length (payload r) \<le> L"
    and "view_order_ok L bl w" and L: "L < 2 ^ 32" "block_target_size (config w) \<le> L"
    and C: "codec_total X (wc_codec (config w)) L M" "M < 2 ^ 32" and "writer_log X L id c0 w rs0"
  shows "\<exists>bl' w'. for_each (export_step X vec_write_all spool) entries (bl, w) = (Inr (), bl', w') \<and>
    view_order_ok L bl' w' \<and> config w' = config w \<and> writer_log X L id c0 w' (rs0 @ rs)"
  using assms
proof (induction entries arbitrary: bl w rs rs0)
  case (Cons m entries)
  from Cons.prems(1) obtain r rs1 where r: "selection_record spool m = Inr r" "try_map (selection_record spool) entries = Inr rs1"
    "rs = r # rs1" by (auto simp: and_then_Inr_iff)
  obtain bl1 w1 where w1: "push_preserving_view_order X vec_write_all r (bl, w) = (Inr (), bl1, w1)" "view_order_ok L bl1 w1"
      "config w1 = config w" "writer_log X L id c0 w1 (rs0 @ [r])"
    using push_preserving_total [OF Cons.prems(3,4) _ Cons.prems(5-8), of r] Cons.prems(2) r(3) by auto
  have "\<exists>bl' w'. for_each (export_step X vec_write_all spool) entries (bl1, w1) = (Inr (), bl', w') \<and>
      view_order_ok L bl' w' \<and> config w' = config w1 \<and> writer_log X L id c0 w' ((rs0 @ [r]) @ rs1)"
    by (rule Cons.IH [OF r(2) _ w1(2) Cons.prems(4) _ _ Cons.prems(7) w1(4)]) (use Cons.prems(2,5,6) r(3) w1(3) in simp_all)
  moreover have "export_step X vec_write_all spool m (bl, w) = (Inr (), bl1, w1)"
    using w1(1) r(1) by (simp add: export_step_def)
  ultimately show ?case using w1(3) r(3) by (simp add: id_def)
qed simp

text \<open>C32. A saved selection keeps the order of the view. Whatever the order of the entries, merged by
  timestamp or by sequence number or taken from several files, writing them to a file succeeds and reading the
  file gives the selected records in that order.\<close>

theorem saved_selection_reads_back:
  assumes "codecs_ok X" and "codec_total X Lz4 L M" and "65536 \<le> L" and "L \<le> 16777216" and "M \<le> 16777216"
    and "try_map (selection_record spool) entries = Inr rs" and "\<forall>r\<in>set rs. 31 + length (payload r) \<le> L"
  shows "\<exists>out. write_export_selection X vec_write_all (\<lambda>w. (Inr (), w)) spool entries [] = Inr out \<and>
    (length out < 2 ^ 32 \<longrightarrow> (\<exists>r'. read_records X (reader_new (dev_of out)) = (Inr rs, r')))"
proof -
  let ?w = "writer_with_config [] writer_config_default :: bytes writer"
  have com: "compatible writer_config_default L reader_config_default"
    using assms(4) by (simp add: compatible_def writer_config_default_def reader_config_default_def DEFAULT_SYNC_MARKER_def
      first_unique_def DEFAULT_MAX_BLOCK_SIZE_def)
  have cfg: "config ?w = writer_config_default" by (simp add: writer_with_config_def)
  have C: "codec_total X (wc_codec (config ?w)) L M" using assms(2) by (simp add: cfg default_config_simps)
  have "view_order_ok L None ?w" by (simp add: view_order_ok_def ready_def writer_with_config_def)
  from export_all_total [OF assms(6,7) this _ _ C _ writer_log_new [OF refl]] obtain bl w where
    w: "for_each (export_step X vec_write_all spool) entries (None, ?w) = (Inr (), bl, w)" "view_order_ok L bl w"
      "config w = writer_config_default" "writer_log X L id [] w rs"
    using assms(3-5) cfg by (auto simp: default_config_simps)
  obtain w' where w': "flush_block X vec_write_all w = (Inr (), w')"
    using vecr.flush_block_total [of L w X M] w(2,3) C cfg assms(4,5) by (auto simp: view_order_ok_def)
  obtain rss where l: "log_file X writer_config_default L rss (inner w')" "concat rss = rs"
    using vec.flush_block_log [OF w(4) w'] w(3) by (auto simp: writer_log_def holds_def split: if_splits)
  have "write_export_selection X vec_write_all (\<lambda>w. (Inr (), w)) spool entries [] = Inr (inner w')"
    using w(1) w' by (simp add: write_export_selection_def into_inner_def)
  then show ?thesis
    using log_file_reads [OF assms(1) _ com _ l(1), of M] C cfg assms(5) l(2) by (auto simp: reader_new_def default_config_simps)
qed

theorem saved_selection_reads_back_witness:
  "\<exists>spool entries out. try_map (selection_record (dev_of spool)) entries = Inr (rev sample_records) \<and>
    write_export_selection identity_extern vec_write_all (\<lambda>w. (Inr (), w)) (dev_of spool) entries [] = Inr out \<and>
    (length out < 2 ^ 32 \<longrightarrow> (\<exists>r'. read_records identity_extern (reader_new (dev_of out)) = (Inr (rev sample_records), r')))"
proof -
  let ?a = "sample_records ! 0" and ?b = "sample_records ! 1"
  let ?spool = "spool_bytes ?b @ spool_bytes ?a" and ?e = "[meta_of 0 ''a'' ?b, meta_of (length (spool_bytes ?b)) ''b'' ?a]"
  have len: "length (payload ?a) < 2 ^ 64" "length (payload ?b) < 2 ^ 64" by (simp_all add: sample_records_def)
  have "selection_record (dev_of ?spool) (meta_of 0 ''a'' ?b) = Inr ?b"
    using selection_record_grow [of "[] @ spool_bytes ?b"] selection_record_written [OF len(2), of "[]" "''a''"] by simp
  moreover have "selection_record (dev_of ?spool) (meta_of (length (spool_bytes ?b)) ''b'' ?a) = Inr ?a"
    by (rule selection_record_written [OF len(1)])
  ultimately have "try_map (selection_record (dev_of ?spool)) ?e = Inr [?b, ?a]" by simp
  moreover have "[?b, ?a] = rev sample_records" by (simp add: sample_records_def)
  ultimately have t: "try_map (selection_record (dev_of ?spool)) ?e = Inr (rev sample_records)" by metis
  have "\<forall>r\<in>set (rev sample_records). 31 + length (payload r) \<le> 65536" using sample_records_simps(4) by simp
  from saved_selection_reads_back [OF identity_codecs identity_total _ _ _ t this] t show ?thesis by fastforce
qed

section \<open>The filter command\<close>

definition file_log :: "extern \<Rightarrow> bytes \<Rightarrow> owned_record list" where
  "file_log X bs = block_records (blocks_from X reader_config_default bs 0)"

lemma read_file_log:
  assumes "length bs < 2 ^ 32"
  shows "\<exists>r'. read_records X (reader_new (dev_of bs)) = (Inr (file_log X bs), r')"
  using read_file_spec [of reader_config_default bs X] assms default_compatible
  by (auto simp: file_log_def reader_new_def compatible_def)

text \<open>C33. The filter command keeps exactly the matching records. For any input file, damaged or not, whose
  matching records are in sequence and timestamp order, the command succeeds and its output reads as the
  matching records of the input in their order.\<close>

theorem filter_keeps_exactly_the_matches:
  assumes "codecs_ok X" and "codec_total X cdc L M" and "target \<le> L" and "L \<le> 16777216" and "M \<le> 16777216"
    and "predicate_build R C args = Inr p" and "length bs < 2 ^ 32"
    and "matching = filter (predicate_matches R C K p) (file_log X bs)"
    and "sorted_wrt record_le matching" and "\<forall>r\<in>set matching. 31 + length (payload r) \<le> L"
  shows "\<exists>out. filter_run X R C K vec_write_all (\<lambda>w. (Inr (), w)) args target cdc (Inr (dev_of bs)) (Inr []) = Inr out \<and>
    (length out < 2 ^ 32 \<longrightarrow> (\<exists>r'. read_records X (reader_new (dev_of out)) = (Inr matching, r')))"
proof -
  let ?wc = "writer_config_default\<lparr>block_target_size := target, wc_codec := cdc\<rparr>"
  have com: "compatible ?wc L reader_config_default"
    using assms(4) by (simp add: compatible_def writer_config_default_def reader_config_default_def DEFAULT_SYNC_MARKER_def
      first_unique_def DEFAULT_MAX_BLOCK_SIZE_def)
  have M: "M \<le> max_compressed_len reader_config_default" using assms(5) by (simp add: default_config_simps)
  obtain r' where r': "read_records X (reader_new (dev_of bs)) = (Inr (file_log X bs), r')"
    using read_file_log [OF assms(7)] by blast
  obtain out where out: "write_log X ?wc matching = Inr out"
    using write_log_total [of X ?wc L M matching] assms by auto
  have "filter_run X R C K vec_write_all (\<lambda>w. (Inr (), w)) args target cdc (Inr (dev_of bs)) (Inr []) = Inr out"
    using out assms(6) unfolding filter_run_def write_log_def Let_def
    by (auto simp: for_each_record_eq [OF r'] for_each_filter assms(8) [symmetric] split: prod.splits sum.splits)
  moreover obtain rss where "log_file X ?wc L rss out" "concat rss = matching"
    using write_log_log [OF out, of L] assms(3,10) by auto
  ultimately show ?thesis
    using log_file_reads [OF assms(1) _ com M, of rss out] assms(2) by (auto simp: reader_new_def)
qed

lemma file_log_append:
  assumes "sorted_wrt record_le rs1" and "sorted_wrt record_le rs2" and "\<forall>r\<in>set (rs1 @ rs2). 31 + length (payload r) \<le> 65536"
  obtains bs where "file_log identity_extern bs = rs1 @ rs2" "length bs \<le> length (rs1 @ rs2) * 65588"
proof -
  obtain o1 where o1: "write_log identity_extern writer_config_default rs1 = Inr o1" "length o1 \<le> length rs1 * 65588"
    by (rule default_log [OF assms(1)]) (use assms(3) in auto)
  obtain o2 where o2: "write_log identity_extern writer_config_default rs2 = Inr o2" "length o2 \<le> length rs2 * 65588"
    by (rule default_log [OF assms(2)]) (use assms(3) in auto)
  note bl = blocks_from_log [OF identity_codecs identity_total default_compatible]
  have "file_log identity_extern (o1 @ o2) = rs1 @ rs2"
    using bl [OF _ _ _ o1(1), of "[]" o2] bl [OF _ _ _ o2(1), of o1 "[]"] assms(3)
      blocks_from_end [of identity_extern reader_config_default "o1 @ o2"]
    by (auto simp: default_config_simps file_log_def block_records_def)
  then show thesis using that [of "o1 @ o2"] o1(2) o2(2) by (simp add: algebra_simps)
qed

lemma match_all:
  obtains p where "predicate_build no_regex no_cel predicate_args_default = Inr p"
    "\<forall>rs. filter (predicate_matches no_regex no_cel K p) rs = rs"
proof -
  obtain p where "predicate_build no_regex no_cel predicate_args_default = Inr p"
    by (simp add: predicate_build_def predicate_args_default_def)
  then show thesis using that predicate_build_default by (metis filter_True)
qed

theorem filter_keeps_exactly_the_matches_witness:
  "\<exists>bs out. filter_run identity_extern no_regex no_cel no_otlp vec_write_all (\<lambda>w. (Inr (), w)) predicate_args_default 65536 Lz4
      (Inr (dev_of bs)) (Inr []) = Inr out \<and>
    (length out < 2 ^ 32 \<longrightarrow> (\<exists>r'. read_records identity_extern (reader_new (dev_of out)) = (Inr sample_records, r')))"
proof -
  obtain bs where bs: "file_log identity_extern bs = sample_records" "length bs \<le> length sample_records * 65588"
    using file_log_append [of sample_records "[]"] sample_records_simps by auto
  obtain p where p: "predicate_build no_regex no_cel predicate_args_default = Inr p"
    "\<forall>rs. filter (predicate_matches no_regex no_cel no_otlp p) rs = rs" by (rule match_all [of no_otlp])
  from filter_keeps_exactly_the_matches [OF identity_codecs identity_total _ _ _ p(1), of 65536 65536 bs sample_records no_otlp Lz4]
  show ?thesis using bs p(2) sample_records_simps by fastforce
qed

text \<open>C34. The filter command refuses a step back. When the first two matching records of a file fit in one
  block of the output and the second is below the first in sequence number or timestamp, as at the start of a new
  run of the daemon, the command fails although both records are intact.\<close>

theorem filter_refuses_a_step_back:
  assumes "predicate_build R C args = Inr p" and "length bs < 2 ^ 32"
    and "filter (predicate_matches R C K p) (file_log X bs) = a # b # rest"
    and "seq b < seq a \<or> ts_unix_ns b < ts_unix_ns a" and "31 + length (payload a) < target" and "target < 2 ^ 32"
  shows "\<exists>m. filter_run X R C K vec_write_all (\<lambda>w. (Inr (), w)) args target cdc (Inr (dev_of bs)) (Inr [])
    = Inl (LjxLogjet (InvalidHeader m))"
proof -
  let ?wc = "writer_config_default\<lparr>block_target_size := target, wc_codec := cdc\<rparr>"
  let ?w = "writer_with_config [] ?wc :: bytes writer"
  let ?w1 = "?w\<lparr>block_base_seq := Some (seq a), block_base_ts_unix_ns := Some (ts_unix_ns a)\<rparr>"
  obtain r' where r': "read_records X (reader_new (dev_of bs)) = (Inr (file_log X bs), r')"
    using read_file_log [OF assms(2)] by blast
  have "push X vec_write_all (record_type a) (seq a) (ts_unix_ns a) (payload a) ?w
      = push X vec_write_all (record_type a) (seq a) (ts_unix_ns a) (payload a) ?w1"
    by (simp add: push_def open_block_def writer_with_config_def)
  then obtain w where w: "push X vec_write_all (record_type a) (seq a) (ts_unix_ns a) (payload a) ?w = (Inr (), w)"
      "block_base_seq w = Some (seq a)" "block_base_ts_unix_ns w = Some (ts_unix_ns a)"
    using push_in_open_block [of ?w1 "seq a" "ts_unix_ns a" a X vec_write_all] assms(5,6)
    by (auto simp: writer_with_config_def)
  have "\<exists>m. push_all X vec_write_all (a # b # rest) ?w = (Inl (InvalidHeader m), w\<lparr>encoded_record_buf := []\<rparr>)"
    using w(1) push_refuses [OF w(2,3) assms(4), of X vec_write_all "record_type b" "payload b"] by simp
  then show ?thesis
    using assms(1,3) unfolding filter_run_def Let_def
    by (auto simp: for_each_record_eq [OF r'] for_each_filter simp del: push_all.simps)
qed

theorem filter_refuses_a_step_back_witness:
  "\<exists>bs m. file_log identity_extern bs = rev sample_records \<and>
    filter_run identity_extern no_regex no_cel no_otlp vec_write_all (\<lambda>w. (Inr (), w)) predicate_args_default 65536 Lz4
      (Inr (dev_of bs)) (Inr []) = Inl (LjxLogjet (InvalidHeader m))"
proof -
  let ?a = "sample_records ! 1" and ?b = "sample_records ! 0"
  obtain bs where bs: "file_log identity_extern bs = [?a] @ [?b]" "length bs \<le> length ([?a] @ [?b]) * 65588"
    using file_log_append [of "[?a]" "[?b]"] by (auto simp: sample_records_def)
  obtain p where p: "predicate_build no_regex no_cel predicate_args_default = Inr p"
    "\<forall>rs. filter (predicate_matches no_regex no_cel no_otlp p) rs = rs" by (rule match_all [of no_otlp])
  have f: "filter (predicate_matches no_regex no_cel no_otlp p) (file_log identity_extern bs) = ?a # ?b # []"
    using spec [OF p(2), of "file_log identity_extern bs"] by (simp only: bs(1)) simp
  have "\<exists>m. filter_run identity_extern no_regex no_cel no_otlp vec_write_all (\<lambda>w. (Inr (), w)) predicate_args_default 65536 Lz4
      (Inr (dev_of bs)) (Inr []) = Inl (LjxLogjet (InvalidHeader m))"
    by (rule filter_refuses_a_step_back [OF p(1) _ f])
      (use bs(2) in \<open>auto simp: sample_records_def word_less_nat_alt\<close>)
  moreover have "[?a] @ [?b] = rev sample_records" by (simp add: sample_records_def)
  ultimately show ?thesis using bs(1) by metis
qed

end
