(* ===== verification/Lj_Dedup_Counts.thy ===== *)
theory Lj_Dedup_Counts
  imports Lj_Dedup_Groups Lj_Dedup_Emit Lj_View
begin

text \<open>
  The deduplicator accounts for every record: in every mode the counts of the groups add up to the number of records, no
  stage fails, and the file it writes reads back as the groups and the records passed through.
\<close>

section \<open>Counts\<close>

lemma exact_step_group_step:
  "exact_step D key = group_step (\<lambda>r. dx_hash D (fr_body r)) absorb (\<lambda>r. group_new key (dx_hash D (fr_body r)) r)"
  by (simp add: fun_eq_iff exact_step_def group_step_def Let_def)

lemma dedup_bucket_groups:
  "dedup_bucket D key = groups_by (\<lambda>r. dx_hash D (fr_body r)) absorb (\<lambda>r. group_new key (dx_hash D (fr_body r)) r)"
  by (simp add: fun_eq_iff dedup_bucket_def exact_step_group_step group_fold)

definition canon_key :: "dedup_env \<Rightarrow> dedup_group \<Rightarrow> bucket_key \<times> u64" where
  "canon_key D g = (dg_bucket_key g, dx_hash D (case dg_canonical_body g of Some c \<Rightarrow> c | None \<Rightarrow> []))"

lemma canon_step_group_step:
  "canon_step D = group_step (canon_key D) merge_group (\<lambda>g. g\<lparr>dg_signature := snd (canon_key D g)\<rparr>)"
  by (simp add: fun_eq_iff canon_step_def group_step_def canon_key_def Let_def split: option.split)

lemma canon_dedup_groups:
  "canon_dedup D gs
     = groups_by (canon_key D) merge_group (\<lambda>g. g\<lparr>dg_signature := snd (canon_key D g)\<rparr>) (map (annotate D) gs)"
  by (simp add: canon_dedup_def canon_step_group_step group_fold)

abbreviation total :: "dedup_group list \<Rightarrow> u64" where
  "total gs \<equiv> sum_list (map dg_count gs)"

lemma dg_count_simps [simp]:
  "dg_count (group_new key h r) = 1" "dg_count (absorb r g) = dg_count g + 1"
  "dg_count (merge_group other g) = dg_count g + dg_count other" "dg_count (annotate D g) = dg_count g"
  "dg_count (candidate_into_group c) = 1"
  by (simp_all add: group_new_def absorb_def merge_group_def annotate_def candidate_into_group_def Let_def split: prod.splits)

lemma total_dedup_bucket: "total (dedup_bucket D key rs) = of_nat (length rs)"
proof -
  have "total (dedup_bucket D key rs) = sum_list (map (\<lambda>_. 1) rs)"
    unfolding dedup_bucket_groups by (rule groups_by_weight) simp_all
  then show ?thesis by (simp add: sum_list_triv)
qed

lemma total_canon_dedup: "total (canon_dedup D gs) = total gs"
proof -
  have "total (canon_dedup D gs) = sum_list (map dg_count (map (annotate D) gs))"
    unfolding canon_dedup_groups by (rule groups_by_weight) simp_all
  then show ?thesis by (simp add: comp_def)
qed

lemma sum_list_mset_eq: "mset xs = mset ys \<Longrightarrow> sum_list (map f xs) = sum_list (map f (ys :: 'a list) :: u64 list)"
  by (metis mset_map sum_mset_sum_list)

lemma sum_list_concat: "sum_list (map f (concat xss)) = sum_list (map (\<lambda>xs. sum_list (map f xs :: u64 list)) xss)"
  by (induction xss) auto

text \<open>A map of pushed lists, iterated in any order, sums up to what was pushed.\<close>

lemma pushed_sum:
  assumes "pushed m vs" and "\<And>ks. mset (order ks) = mset ks"
  shows "sum_list (map (\<lambda>(k, l). sum_list (map f l)) (entries_in order m)) = (sum_list (map f vs) :: u64)"
proof -
  have "sum_list (map (\<lambda>(k, l). sum_list (map f l)) (entries_in order m)) = sum_list (map (\<lambda>(k, l). sum_list (map f l)) m)"
    using assms by (intro sum_list_mset_eq entries_in_mset) (auto simp: pushed_def)
  also have "\<dots> = sum_list (map f (concat (map snd m)))"
    by (simp add: sum_list_concat comp_def case_prod_beta')
  also have "\<dots> = sum_list (map f vs)"
    using assms(1) by (intro sum_list_mset_eq) (simp add: pushed_def)
  finally show ?thesis .
qed

lemma total_exact_dedup:
  assumes "orders_ok D"
  shows "total (exact_dedup D (bucket_group rs kk)) = of_nat (length rs)"
proof -
  have "pushed (bucket_group rs kk) rs"
    using pushed_fold [of "\<lambda>r. bucket_key_from_record r kk" "\<lambda>r. r" rs] by (simp add: bucket_group_def)
  from pushed_sum [OF this, of "dx_buckets D" "\<lambda>_. 1"] assms show ?thesis
    by (simp add: orders_ok_def exact_dedup_def sum_list_concat comp_def case_prod_beta' total_dedup_bucket sum_list_triv)
qed

section \<open>Templates of the rest\<close>

lemma cluster_group_count:
  assumes "snd entry \<noteq> []"
  shows "dg_count (cluster_group D d rs entry) = sum_list (map (\<lambda>i. dg_count (rs ! i)) (snd entry))"
proof -
  obtain cid i js where e: "entry = (cid, i # js)" using assms by (cases entry; cases "snd entry") auto
  have "dg_count (fold (\<lambda>idx. merge_group (rs ! idx)) js g) = dg_count g + sum_list (map (\<lambda>i. dg_count (rs ! i)) js)" for g
    by (induction js arbitrary: g) auto
  then show ?thesis by (simp add: e cluster_group_def Let_def)
qed

lemma add_log_messages_total:
  "\<exists>ids d. add_log_messages order (drain_new (residual_config o' n)) ms = Some (ids, d) \<and> length ids = length ms"
  using add_log_messages_ok [of "drain_new (residual_config o' n)" "[]" order ms] drain_new_ok [of "residual_config o' n"]
  by (auto simp: residual_config_def)

lemma residual_bucket_total:
  assumes "orders_ok D"
  shows "\<exists>gs'. residual_bucket D eid o' gs = Some gs' \<and> total gs' = total gs"
proof -
  let ?m = "filter (\<lambda>g. dg_count g > 1) gs" and ?r = "filter (\<lambda>g. \<not> dg_count g > 1) gs"
  have part: "total ?m + total ?r = total gs" by (induction gs) (auto simp: add_ac)
  obtain cids d where run: "add_log_messages (dx_children D eid) (drain_new (residual_config o' (length ?r div 2)))
      (map group_text ?r) = Some (cids, d)" "length cids = length ?r"
    using add_log_messages_total by fastforce
  let ?g = "fold (\<lambda>(i, cid). entry_push cid i) (enumerate 0 cids) []"
  have p: "pushed ?g [0..<length ?r]"
    using pushed_fold [of snd fst "enumerate 0 cids"] run(2) by (simp add: case_prod_beta')
  have ne: "snd e \<noteq> []" if "e \<in> set (entries_in (dx_clusters D) ?g)" for e
  proof -
    have "mset (entries_in (dx_clusters D) ?g) = mset ?g"
      using p assms by (intro entries_in_mset) (auto simp: pushed_def orders_ok_def)
    then have "e \<in> set ?g" using that by (metis set_mset_mset)
    then show ?thesis using p by (auto simp: pushed_def)
  qed
  have "total (map (cluster_group D d ?r) (entries_in (dx_clusters D) ?g))
      = sum_list (map (\<lambda>(k, l). sum_list (map (\<lambda>i. dg_count (?r ! i)) l)) (entries_in (dx_clusters D) ?g))"
    using ne cluster_group_count by (auto intro!: arg_cong [where f = sum_list] simp: case_prod_beta)
  also have "\<dots> = sum_list (map (\<lambda>i. dg_count (?r ! i)) [0..<length ?r])"
    by (rule pushed_sum [OF p]) (use assms in \<open>simp add: orders_ok_def\<close>)
  also have "\<dots> = total ?r" by (rule arg_cong [where f = sum_list], rule nth_equalityI) simp_all
  finally show ?thesis using part run(1) by (auto simp: residual_bucket_def Let_def add_ac)
qed

lemma residual_buckets_total:
  assumes "orders_ok D"
  shows "\<exists>gs. residual_buckets D eid o' bs = Some gs \<and> total gs = sum_list (map (\<lambda>(k, l). total l) bs)"
proof (induction bs arbitrary: eid)
  case (Cons b bs)
  then show ?case
    using residual_bucket_total [OF assms, of eid o' "snd b"] by (cases b) fastforce
qed simp

lemma dedup_residuals_total:
  assumes "orders_ok D"
  shows "\<exists>gs'. dedup_residuals D o' gs = Some gs' \<and> total gs' = total gs"
proof -
  have "pushed (fold (\<lambda>g. entry_push (dg_bucket_key g) g) gs []) gs"
    using pushed_fold [of dg_bucket_key "\<lambda>g. g" gs] by simp
  from pushed_sum [OF this, of "dx_buckets D" dg_count] assms residual_buckets_total [OF assms] show ?thesis
    by (fastforce simp: dedup_residuals_def orders_ok_def)
qed

section \<open>Bursts\<close>

lemma joins_last_total: "\<exists>b g'. joins_last D eid opts g c = Some (b, g') \<and> dg_count g' = dg_count g"
proof -
  let ?d = "drain_new (residual_config (opt_drain opts) 4)"
  have "\<exists>b g'. drain_matches D eid opts g c = Some (b, g') \<and> dg_count g' = dg_count g"
  proof -
    let ?l = "case dg_drain3_template g of Some t \<Rightarrow> t | None \<Rightarrow> group_text g"
    let ?r = "case cc_canonical_body c of Some b \<Rightarrow> b | None \<Rightarrow> fr_body (cc_record c)"
    have ok: "tree_ok ?d" "clusters_ok ?d []" using drain_new_ok [of "residual_config (opt_drain opts) 4"]
      by (simp_all add: residual_config_def)
    obtain c1 n1 d1 where 1: "add_log_message (dx_children D eid) ?d ?l = Some ((c1, n1), d1)" "tree_ok d1"
      "clusters_ok d1 ([] @ [(c1, tokenise ?d ?l)])" using add_log_message_ok [OF ok] by blast
    obtain c2 n2 d2 where 2: "add_log_message (dx_children D eid) d1 ?r = Some ((c2, n2), d2)"
      using add_log_message_ok [OF 1(2,3)] by blast
    show ?thesis using 1(1) 2 by (auto simp: drain_matches_def Let_def)
  qed
  then show ?thesis by (auto simp: joins_last_def)
qed

lemma collapse_loop_total:
  "\<exists>gs'. collapse_loop D eid opts rs gs = Some gs' \<and> total gs' = total gs + of_nat (length rs)"
proof (induction rs arbitrary: eid gs)
  case (Cons r rs)
  let ?c = "candidate_from_record D r (bucket_key_from_record r (opt_bucket_key opts)) (opt_match_mode opts)"
  show ?case
  proof (cases "gs = []")
    case True
    then show ?thesis using Cons [of "eid + 1" "[candidate_into_group ?c]"] by (simp add: Let_def)
  next
    case False
    then obtain hs h where gs: "gs = hs @ [h]" by (metis append_butlast_last_id)
    obtain b g' where j: "joins_last D eid opts h ?c = Some (b, g')" "dg_count g' = dg_count h"
      using joins_last_total by blast
    show ?thesis
      using j gs Cons [of "eid + 1" "hs @ [absorb (cc_record ?c) g']"] Cons [of "eid + 1" "hs @ [g'] @ [candidate_into_group ?c]"]
      by (cases b) (auto simp: Let_def add_ac)
  qed
qed simp

lemma dedup_groups_total:
  assumes "orders_ok D"
  shows "\<exists>gs. dedup_groups D opts rs = Some gs \<and> total gs = of_nat (length rs)"
proof (cases "opt_mode opts")
  case Distinct
  let ?e = "exact_dedup D (bucket_group rs GlobalKey)"
  show ?thesis
    using Distinct total_exact_dedup [OF assms, of rs GlobalKey] total_canon_dedup [of D ?e]
      dedup_residuals_total [OF assms, of "opt_drain opts" "canon_dedup D ?e"]
    by (cases "opt_match_mode opts") (simp_all add: dedup_groups_def distinct_dedup_def Let_def)
next
  case Collapse
  then show ?thesis using collapse_loop_total [of D 0 opts rs "[]"] by (simp add: dedup_groups_def collapse_dedup_def)
qed

end
