(* ===== verification/Lj_Dedup_Stable.thy ===== *)
theory Lj_Dedup_Stable
  imports Lj_Dedup_Text
begin

text \<open>
  Canonical text is stable: canonicalising it again changes nothing, so that a log that was deduplicated once and is
  deduplicated again keeps its groups. The placeholders are classified as words to keep, and the output of the lexer
  for mixed tokens is a fixed point of the lexer and of the classification.
\<close>

section \<open>Characters\<close>

lemma char_classes:
  "is_frame_char c \<Longrightarrow> \<not> is_ascii_hexdigit c" "is_frame_char c \<Longrightarrow> \<not> is_ascii_alphabetic c"
  "is_hex_alpha c \<Longrightarrow> is_ascii_alphabetic c" "is_ascii_digit c \<Longrightarrow> \<not> is_ascii_alphabetic c"
  "is_ascii_hexdigit c \<Longrightarrow> \<not> is_ascii_digit c \<Longrightarrow> is_hex_alpha c"
  "is_hex_alpha c \<Longrightarrow> is_ascii_hexdigit c" "is_ascii_digit c \<Longrightarrow> is_ascii_hexdigit c"
  "is_hex_alpha c \<Longrightarrow> \<not> is_ascii_digit c"
  by (auto simp: is_frame_char_def is_ascii_hexdigit_def is_ascii_alphabetic_def is_hex_alpha_def is_ascii_digit_def
      Let_def)

lemma char_samples:
  "is_frame_char CHR ''_''" "\<not> is_ascii_hexdigit CHR ''_''" "\<not> is_ascii_alphabetic CHR ''_''" "\<not> is_ascii_digit CHR ''_''"
  "\<not> is_frame_char CHR ''H''" "\<not> is_ascii_hexdigit CHR ''H''" "is_ascii_alphabetic CHR ''H''"
  "\<not> is_frame_char CHR ''N''" "\<not> is_ascii_hexdigit CHR ''N''" "is_ascii_alphabetic CHR ''N''"
  "is_ascii_alphabetic CHR ''E''" "is_ascii_alphabetic CHR ''X''" "\<not> is_trailing_punct CHR ''_''"
  "\<not> is_ascii_digit CHR ''H''" "\<not> is_ascii_digit CHR ''N''" "\<not> is_ascii_digit CHR ''E''" "\<not> is_ascii_digit CHR ''X''"
  by (simp_all add: is_frame_char_def is_ascii_hexdigit_def is_ascii_alphabetic_def is_hex_alpha_def is_ascii_digit_def
      is_trailing_punct_def)

section \<open>The lexer for mixed tokens\<close>

text \<open>The steps of the lexer, for a token of ASCII characters.\<close>

definition run_of :: "(char \<Rightarrow> bool) \<Rightarrow> string \<Rightarrow> string \<Rightarrow> bool" where
  "run_of p run rest \<longleftrightarrow> run \<noteq> [] \<and> list_all p run \<and> (rest = [] \<or> \<not> p (hd rest))"

lemma run_of_takeWhile: "p b \<Longrightarrow> run_of p (takeWhile p (b # bs)) (dropWhile p (b # bs))"
  unfolding run_of_def by (metis hd_dropWhile list_all_iff set_takeWhileD takeWhile.simps(2) list.discI)

definition looks_like_id :: "string \<Rightarrow> bool" where
  "looks_like_id s \<longleftrightarrow>
     (let run = takeWhile is_ascii_hexdigit s in list_ex is_hex_alpha run \<and> list_ex is_ascii_digit run \<and> 8 \<le> length run)"

lemma mini_lexer_step:
  assumes "is_ascii b"
  obtains (Char) "\<not> is_ascii_hexdigit b" "\<not> is_ascii_alphabetic b" "mini_lexer (b # bs) = b # mini_lexer bs"
  | (Alpha) a rest where "b # bs = a @ rest" "run_of is_ascii_alphabetic a rest"
      "is_ascii_hexdigit (hd a) \<longrightarrow> \<not> looks_like_id (a @ rest)" "mini_lexer (b # bs) = a @ mini_lexer rest"
  | (Hex) run rest where "b # bs = run @ rest" "run_of is_ascii_hexdigit run rest"
      "mini_lexer (b # bs) = ''_HEX_'' @ mini_lexer rest"
  | (Number) run rest where "b # bs = run @ rest" "run_of is_ascii_hexdigit run rest"
      "mini_lexer (b # bs) = ''_N_'' @ mini_lexer rest"
  | (Short) run rest where "b # bs = run @ rest" "run_of is_ascii_hexdigit run rest" "is_ascii_digit (hd run)"
      "length run \<le> 2" "mini_lexer (b # bs) = run @ mini_lexer rest"
proof -
  let ?s = "b # bs"
  let ?run = "takeWhile is_ascii_hexdigit ?s" and ?hr = "dropWhile is_ascii_hexdigit ?s"
  let ?al = "takeWhile is_ascii_alphabetic ?s" and ?ar = "dropWhile is_ascii_alphabetic ?s"
  have split: "?s = ?run @ ?hr" "?s = ?al @ ?ar" by (simp_all only: takeWhile_dropWhile_id)
  consider (H) "is_ascii_hexdigit b" "looks_like_id ?s"
    | (A) "is_ascii_alphabetic b" "is_ascii_hexdigit b \<longrightarrow> \<not> looks_like_id ?s"
    | (D) "is_ascii_hexdigit b" "\<not> is_ascii_alphabetic b" "\<not> looks_like_id ?s"
    | (N) "\<not> is_ascii_hexdigit b" "\<not> is_ascii_alphabetic b" by blast
  then show thesis
  proof cases
    case H
    then have "mini_lexer ?s = ''_HEX_'' @ mini_lexer ?hr"
      using char_classes(1) by (auto simp: mini_lexer.simps looks_like_id_def Let_def)
    then show ?thesis using Hex [OF split(1) run_of_takeWhile [of is_ascii_hexdigit, OF H(1)]] by blast
  next
    case A
    then have "mini_lexer ?s = ?al @ mini_lexer ?ar"
      using char_classes(2) by (auto simp: mini_lexer.simps looks_like_id_def Let_def)
    moreover have "hd ?al = b" using A(1) by simp
    ultimately show ?thesis using Alpha [OF split(2) run_of_takeWhile [of is_ascii_alphabetic, OF A(1)]] A(2) split(2) by metis
  next
    case D
    have dg: "is_ascii_digit (hd ?run)" using D char_classes(3,5) by auto
    have "mini_lexer ?s = (if 3 \<le> length ?run then ''_N_'' else ?run) @ mini_lexer ?hr"
      using D char_classes(1) by (auto simp: mini_lexer.simps looks_like_id_def Let_def)
    then show ?thesis
      using Number [OF split(1) run_of_takeWhile [of is_ascii_hexdigit, OF D(1)]] Short [OF split(1) run_of_takeWhile [of is_ascii_hexdigit, OF D(1)] dg]
      by (cases "3 \<le> length ?run") auto
  next
    case N
    then show ?thesis using Char assms by (auto simp: mini_lexer.simps push_byte_as_char_def)
  qed
qed

lemma mini_lexer_induct [consumes 1, case_names Nil Char Alpha Hex Number Short]:
  assumes "list_all is_ascii s"
    and "P []"
    and "\<And>b bs. is_ascii b \<Longrightarrow> \<not> is_ascii_hexdigit b \<Longrightarrow> \<not> is_ascii_alphabetic b \<Longrightarrow>
      mini_lexer (b # bs) = b # mini_lexer bs \<Longrightarrow> P bs \<Longrightarrow> P (b # bs)"
    and "\<And>a rest. run_of is_ascii_alphabetic a rest \<Longrightarrow> is_ascii_hexdigit (hd a) \<longrightarrow> \<not> looks_like_id (a @ rest) \<Longrightarrow>
      mini_lexer (a @ rest) = a @ mini_lexer rest \<Longrightarrow> list_all is_ascii rest \<Longrightarrow> P rest \<Longrightarrow> P (a @ rest)"
    and "\<And>run rest. run_of is_ascii_hexdigit run rest \<Longrightarrow>
      mini_lexer (run @ rest) = ''_HEX_'' @ mini_lexer rest \<Longrightarrow> P rest \<Longrightarrow> P (run @ rest)"
    and "\<And>run rest. run_of is_ascii_hexdigit run rest \<Longrightarrow>
      mini_lexer (run @ rest) = ''_N_'' @ mini_lexer rest \<Longrightarrow> P rest \<Longrightarrow> P (run @ rest)"
    and "\<And>run rest. run_of is_ascii_hexdigit run rest \<Longrightarrow> is_ascii_digit (hd run) \<Longrightarrow> length run \<le> 2 \<Longrightarrow>
      mini_lexer (run @ rest) = run @ mini_lexer rest \<Longrightarrow> list_all is_ascii rest \<Longrightarrow> P rest \<Longrightarrow> P (run @ rest)"
  shows "P s"
  using assms(1)
proof (induction "length s" arbitrary: s rule: less_induct)
  case less
  have P: "P rest \<and> list_all is_ascii rest" if "s = run @ rest" "run \<noteq> []" for run rest
    using less.hyps [of rest] less.prems that by auto
  show ?case
  proof (cases s)
    case (Cons b bs)
    then have "is_ascii b" using less.prems by simp
    then show ?thesis
    proof (cases rule: mini_lexer_step [of b bs])
      case Char
      then show ?thesis using assms(3) P [of "[b]" bs] Cons less.prems by simp
    next
      case (Alpha a rest)
      then show ?thesis using assms(4) [of a rest] P [of a rest] Cons by (simp add: run_of_def)
    next
      case (Hex run rest)
      then show ?thesis using assms(5) [of run rest] P [of run rest] Cons by (simp add: run_of_def)
    next
      case (Number run rest)
      then show ?thesis using assms(6) [of run rest] P [of run rest] Cons by (simp add: run_of_def)
    next
      case (Short run rest)
      then show ?thesis using assms(7) [of run rest] P [of run rest] Cons by (simp add: run_of_def)
    qed
  qed (use assms(2) in simp)
qed

text \<open>The first and the last character of the output are those of the token or an underscore.\<close>

lemma mini_lexer_hd:
  assumes "list_all is_ascii s" and "s \<noteq> []"
  shows "mini_lexer s \<noteq> [] \<and> hd (mini_lexer s) \<in> {hd s, CHR ''_''}"
proof -
  have "s \<noteq> [] \<longrightarrow> mini_lexer s \<noteq> [] \<and> hd (mini_lexer s) \<in> {hd s, CHR ''_''}"
    using assms(1) by (induction rule: mini_lexer_induct) (auto simp: run_of_def)
  with assms(2) show ?thesis by blast
qed

lemma mini_lexer_Nil [simp]: "mini_lexer [] = []" by (simp add: mini_lexer.simps)

lemma mini_lexer_last:
  assumes "list_all is_ascii s" and "s \<noteq> []"
  shows "last (mini_lexer s) \<in> {last s, CHR ''_''}"
proof -
  have "s \<noteq> [] \<longrightarrow> mini_lexer s \<noteq> [] \<and> last (mini_lexer s) \<in> {last s, CHR ''_''}"
    using assms(1)
  proof (induction rule: mini_lexer_induct)
    case (Char b bs)
    then show ?case by (cases "bs = []") auto
  next
    case (Alpha a rest)
    then show ?case by (cases "rest = []") (auto simp: run_of_def)
  next
    case (Hex run rest)
    then show ?case by (cases "rest = []") auto
  next
    case (Number run rest)
    then show ?case by (cases "rest = []") auto
  next
    case (Short run rest)
    then show ?case by (cases "rest = []") (auto simp: run_of_def)
  qed simp
  with assms(2) show ?thesis by blast
qed

lemma mini_lexer_chars:
  assumes "list_all is_ascii s"
  shows "set (mini_lexer s) \<subseteq> set s \<union> set ''_HEX_'' \<union> set ''_N_''"
  using assms by (induction rule: mini_lexer_induct) auto

lemma mini_lexer_slashes:
  assumes "list_all is_ascii s"
  shows "filter (\<lambda>c. c = CHR ''/'') (mini_lexer s) = filter (\<lambda>c. c = CHR ''/'') s"
proof -
  have no: "filter (\<lambda>c. c = CHR ''/'') run = []" if "list_all is_ascii_hexdigit run" for run
    using that by (auto simp: filter_empty_conv list_all_iff is_ascii_hexdigit_def is_ascii_digit_def is_hex_alpha_def)
  show ?thesis using assms by (induction rule: mini_lexer_induct) (auto simp: run_of_def no)
qed

text \<open>A token is unchanged or has a placeholder in it.\<close>

lemma mini_lexer_changed:
  assumes "list_all is_ascii s"
  shows "mini_lexer s = s \<or> CHR ''_'' \<in> set (mini_lexer s) \<and> list_ex is_ascii_alphabetic (mini_lexer s)"
  using assms by (induction rule: mini_lexer_induct) (auto simp: char_samples)

text \<open>What the lexer does with a prefix of each kind.\<close>

lemma mini_lexer_prefix:
  "is_ascii b \<Longrightarrow> \<not> is_ascii_hexdigit b \<Longrightarrow> \<not> is_ascii_alphabetic b \<Longrightarrow> mini_lexer (b # xs) = b # mini_lexer xs"
  "mini_lexer (''_HEX_'' @ xs) = ''_HEX_'' @ mini_lexer xs"
  "mini_lexer (''_N_'' @ xs) = ''_N_'' @ mini_lexer xs"
  by (simp_all add: mini_lexer.simps push_byte_as_char_def char_samples)

lemma run_of_split:
  assumes "run_of p run rest"
  shows "takeWhile p (run @ rest) = run" "dropWhile p (run @ rest) = rest"
  using assms by (cases rest; auto simp: run_of_def list_all_iff takeWhile_append dropWhile_append)+

lemma mini_lexer_alpha:
  assumes "run_of is_ascii_alphabetic a xs" and "is_ascii_hexdigit (hd a) \<longrightarrow> \<not> looks_like_id (a @ xs)"
  shows "mini_lexer (a @ xs) = a @ mini_lexer xs"
proof -
  obtain c cs where a: "a = c # cs" "is_ascii_alphabetic c" using assms(1) by (cases a) (auto simp: run_of_def)
  have "takeWhile is_ascii_alphabetic (c # cs @ xs) = a" "dropWhile is_ascii_alphabetic (c # cs @ xs) = xs"
    using run_of_split [OF assms(1)] a by simp_all
  then show ?thesis
    using a assms(2) char_classes(2) by (auto simp: mini_lexer.simps looks_like_id_def Let_def simp del: takeWhile.simps dropWhile.simps)
qed

lemma mini_lexer_short:
  assumes "run_of is_ascii_hexdigit run xs" and "is_ascii_digit (hd run)" and "length run \<le> 2"
  shows "mini_lexer (run @ xs) = run @ mini_lexer xs"
proof -
  obtain c cs where r: "run = c # cs" "is_ascii_hexdigit c" using assms(1) by (cases run) (auto simp: run_of_def)
  have "takeWhile is_ascii_hexdigit (c # cs @ xs) = run" "dropWhile is_ascii_hexdigit (c # cs @ xs) = xs"
    using run_of_split [OF assms(1)] r by simp_all
  then show ?thesis
    using r assms(2,3) char_classes(1,4) by (auto simp: mini_lexer.simps Let_def simp del: takeWhile.simps dropWhile.simps)
qed

text \<open>A boundary of a run stays a boundary.\<close>

lemma run_of_mini_lexer:
  assumes "run_of p run rest" and "list_all is_ascii rest" and "\<not> p CHR ''_''"
  shows "run_of p run (mini_lexer rest)"
  using assms mini_lexer_hd [of rest] by (cases "rest = []") (auto simp: run_of_def)

lemma mini_lexer_hex_prefix:
  assumes "list_all is_ascii s" and "s = [] \<or> \<not> is_ascii_alphabetic (hd s)"
  shows "takeWhile is_ascii_hexdigit (mini_lexer s) \<in> {[], takeWhile is_ascii_hexdigit s}"
proof (cases s)
  case (Cons b bs)
  then have "is_ascii b" "list_all is_ascii bs" using assms(1) by simp_all
  from this(1) show ?thesis
  proof (cases rule: mini_lexer_step [of b bs])
    case (Alpha a rest)
    then have "is_ascii_alphabetic (hd s)" using Cons by (cases a) (auto simp: run_of_def)
    then show ?thesis using assms(2) Cons by simp
  next
    case (Short run rest)
    have "list_all is_ascii rest" using assms(1) Cons Short(1) by (metis list_all_append)
    from run_of_split(1) [OF run_of_mini_lexer [OF Short(2) this char_samples(2)]] run_of_split(1) [OF Short(2)]
    show ?thesis using Short(1,5) Cons by simp
  qed (use Cons in \<open>simp_all add: char_samples\<close>)
qed simp

lemma mini_lexer_idem:
  assumes "list_all is_ascii s"
  shows "mini_lexer (mini_lexer s) = mini_lexer s"
  using assms
proof (induction rule: mini_lexer_induct)
  case (Char b bs)
  then show ?case by (simp add: mini_lexer_prefix(1))
next
  case (Alpha a rest)
  have nd: "\<not> list_ex is_ascii_digit a" using Alpha(1) char_classes(4) by (auto simp: run_of_def list_all_iff list_ex_iff)
  have tw: "takeWhile is_ascii_hexdigit (a @ xs)
      = (if list_all is_ascii_hexdigit a then a @ takeWhile is_ascii_hexdigit xs else takeWhile is_ascii_hexdigit a)" for xs
    by (auto simp: takeWhile_append list_all_iff)
  have "list_ex is_ascii_digit (takeWhile is_ascii_hexdigit a) \<longrightarrow> list_ex is_ascii_digit a"
    by (auto simp: list_ex_iff dest: set_takeWhileD)
  with mini_lexer_hex_prefix [OF Alpha(4)] Alpha(1) nd have "looks_like_id (a @ mini_lexer rest) \<longrightarrow> looks_like_id (a @ rest)"
    by (auto simp: looks_like_id_def tw run_of_def)
  with Alpha(2) have "is_ascii_hexdigit (hd a) \<longrightarrow> \<not> looks_like_id (a @ mini_lexer rest)" by blast
  from mini_lexer_alpha [OF run_of_mini_lexer [OF Alpha(1,4) char_samples(3)] this] show ?case using Alpha by simp
next
  case (Short run rest)
  then show ?case using mini_lexer_short [OF run_of_mini_lexer [OF Short(1,5) char_samples(2)]] by simp
qed (simp_all only: mini_lexer_prefix mini_lexer_Nil)

lemma mini_lexer_no_number:
  assumes "list_all is_ascii s" and "3 \<le> length (mini_lexer s)"
  shows "\<not> list_all is_ascii_digit (take 3 (mini_lexer s))"
proof (cases s)
  case (Cons b bs)
  then have "is_ascii b" using assms(1) by simp
  then show ?thesis
  proof (cases rule: mini_lexer_step [of b bs])
    case Char
    then show ?thesis using Cons char_classes(7) by auto
  next
    case (Alpha a rest)
    then show ?thesis using Cons char_classes(4) by (cases a) (auto simp: run_of_def)
  next
    case (Short run rest)
    have "list_all is_ascii rest" using assms(1) Cons Short(1) by (metis list_all_append)
    from run_of_mini_lexer [OF Short(2) this char_samples(2)] have "run_of is_ascii_hexdigit run (mini_lexer rest)" .
    moreover have "mini_lexer rest \<noteq> []" using assms(2) Short(4,5) Cons by auto
    ultimately obtain z zs where z: "mini_lexer rest = z # zs" "\<not> is_ascii_digit z"
      using char_classes(7) by (cases "mini_lexer rest") (auto simp: run_of_def)
    have "z \<in> set (take 3 (run @ z # zs))" using Short(4) by (auto simp: take_Cons')
    with z Short(5) Cons show ?thesis by (auto simp: list_all_iff)
  qed (use Cons in \<open>simp_all add: char_samples\<close>)
qed (use assms(2) in simp)

section \<open>Classification\<close>

lemma split_on_chars: "c \<in> set s \<Longrightarrow> c = d \<or> (\<exists>g\<in>set (split_on d s). c \<in> set g)"
  by (induction d s rule: split_on.induct) (auto split: list.splits)

text \<open>The characters a token of each kind can have; an underscore is in none of them.\<close>

lemma is_uuid_chars: "is_uuid s \<Longrightarrow> CHR ''_'' \<notin> set s"
proof
  assume u: "is_uuid s" and "CHR ''_'' \<in> set s"
  then obtain i where i: "i < length s" "s ! i = CHR ''_''" by (auto simp: in_set_conv_nth)
  then have "(i, CHR ''_'') \<in> set (enumerate 0 s)" by (auto simp: in_set_enumerate_eq)
  then have "i \<in> {8, 13, 18, 23}" using u by (auto simp: is_uuid_def list_all_iff char_samples)
  then show False using u i(2) by (auto simp: is_uuid_def)
qed

lemma is_ipv6_chars: "is_ipv6 s \<Longrightarrow> CHR ''_'' \<notin> set s"
  using split_on_chars [of "CHR ''_''" s "CHR '':''"] char_samples(2)
  by (fastforce simp: is_ipv6_def Let_def list_all_iff)

lemma is_mac_chars: "is_mac s \<Longrightarrow> CHR ''_'' \<notin> set s"
proof
  assume u: "is_mac s" and "CHR ''_'' \<in> set s"
  then obtain i where i: "i < 17" "s ! i = CHR ''_''" by (auto simp: in_set_conv_nth is_mac_def)
  define q where "q = i div 3"
  have q: "q < 6" and cases: "i = 3 * q \<or> i = 3 * q + 1 \<or> (i = 3 * q + 2 \<and> q < 5)"
    using i(1) by (auto simp: q_def)
  from q have "is_ascii_hexdigit (s ! (3 * q)) \<and> is_ascii_hexdigit (s ! (3 * q + 1)) \<and> (q < 5 \<longrightarrow> s ! (3 * q + 2) = CHR '':'')"
    using u by (auto simp: is_mac_def list_all_iff)
  with cases i(2) show False using char_samples(2) by auto
qed

lemma float_scan_chars: "float_scan i dot s = Some r \<Longrightarrow> \<not> list_ex is_ascii_alphabetic s"
proof (induction i dot s rule: float_scan.induct)
  case (2 i dot c cs)
  then show ?case using char_classes(4) [of c] by (auto simp: is_ascii_alphabetic_def split: if_splits)
qed simp

lemma is_float_chars: "is_float s \<Longrightarrow> \<not> list_ex is_ascii_alphabetic s"
  using float_scan_chars by (auto simp: is_float_def split: option.splits)

definition rx_ok :: "dedup_rx \<Rightarrow> bool" where
  "rx_ok rx \<longleftrightarrow> (\<forall>s. rx_iso8601 rx s \<longrightarrow> list_all is_ascii s \<longrightarrow> 4 \<le> length s \<and> list_all is_ascii_digit (take 4 s))"

lemma iso8601_digits: "rx_ok rx \<Longrightarrow> rx_iso8601 rx s \<Longrightarrow> list_all is_ascii s \<Longrightarrow> 3 \<le> length s \<and> list_all is_ascii_digit (take 3 s)"
proof -
  assume "rx_ok rx" "rx_iso8601 rx s" "list_all is_ascii s"
  then have "4 \<le> length s" "list_all is_ascii_digit (take 4 s)" by (auto simp: rx_ok_def)
  moreover have "set (take 3 s) \<subseteq> set (take 4 s)" by (rule set_take_subset_set_take) simp
  ultimately show ?thesis by (auto simp: list_all_iff)
qed

lemma placeholders_kept:
  "classify_token rx ''_UUID_'' = Preserve" "classify_token rx ''_MAC_'' = Preserve" "classify_token rx ''_HEX_'' = Preserve"
  "classify_token rx ''_TS_'' = Preserve" "classify_token rx ''_PATH_'' = Preserve" "classify_token rx ''_N_'' = Preserve"
  "classify_token rx ''_F_'' = Preserve" "classify_token rx [CHR 0x22, CHR ''_'', CHR 0x22] = Preserve"
  "classify_token rx ''_IPV4_'' = CompoundTok ''_IPV4_''" "classify_token rx ''_IPV6_'' = CompoundTok ''_IPV6_''"
  by (simp_all add: classify_token_def compound_mini_lexer_def mini_lexer.simps is_ascii_alphabetic_def is_ascii_digit_def
      is_ascii_hexdigit_def is_hex_alpha_def is_quoted_def is_frame_char_def strip_prefix.simps)

lemma classify_replace:
  assumes "classify_token rx s = Replace r"
  shows "class_text r (classify_token rx r) = r" "r \<noteq> []" "\<not> is_trailing_punct (last r)" "list_all (\<lambda>c. \<not> is_ws c) r"
proof -
  have "r \<in> {''_UUID_'', ''_IPV6_'', ''_MAC_'', ''_IPV4_'', ''_HEX_'', ''_TS_'', ''_PATH_'', [CHR 0x22, CHR ''_'', CHR 0x22],
      ''_N_'', ''_F_''}"
    using assms by (auto simp: classify_token_def compound_mini_lexer_def Let_def split: if_splits)
  then show "class_text r (classify_token rx r) = r" "r \<noteq> []" "\<not> is_trailing_punct (last r)" "list_all (\<lambda>c. \<not> is_ws c) r"
    by (auto simp: placeholders_kept class_text_def is_trailing_punct_def is_ws_def)
qed

text \<open>What is known of a token that is handed to the lexer.\<close>

lemma classify_compound:
  assumes "classify_token rx s = CompoundTok t"
  shows "t = mini_lexer s" "s \<noteq> []" "\<not> is_quoted s" "\<not> (hd s = CHR ''/'' \<and> length (filter (\<lambda>c. c = CHR ''/'') s) \<ge> 2)"
  using assms by (auto simp: classify_token_def compound_mini_lexer_def Let_def split: if_splits)

lemma classify_lexed:
  assumes "rx_ok rx" and "list_all is_ascii s" and "classify_token rx s = CompoundTok t"
  shows "class_text t (classify_token rx t) = t"
proof (cases "t = s")
  case True
  with assms(3) show ?thesis by (simp add: class_text_def)
next
  case False
  note c = classify_compound [OF assms(3)]
  have u: "CHR ''_'' \<in> set t" "list_ex is_ascii_alphabetic t" using mini_lexer_changed [OF assms(2)] False c(1) by auto
  have ascii: "list_all is_ascii t"
    using mini_lexer_chars [OF assms(2)] assms(2) c(1) by (auto simp: list_all_iff is_ascii_def)
  have hd: "hd t \<in> {hd s, CHR ''_''}" "last t \<in> {last s, CHR ''_''}"
    using mini_lexer_hd [OF assms(2) c(2)] mini_lexer_last [OF assms(2) c(2)] c(1) by auto
  have nq: "\<not> is_quoted t"
  proof
    assume "is_quoted t"
    then have "hd s = hd t" "last s = last t" using hd by (auto simp: is_quoted_def)
    moreover from \<open>is_quoted t\<close> False have "2 \<le> length s"
      using c(1,2) \<open>hd s = hd t\<close> assms(2)
      by (cases s rule: remdups_adj.cases) (auto simp: is_quoted_def mini_lexer.simps is_frame_char_def is_ascii_hexdigit_def
          is_ascii_digit_def is_hex_alpha_def is_ascii_alphabetic_def push_byte_as_char_def)
    ultimately show False using \<open>is_quoted t\<close> c(3) by (auto simp: is_quoted_def)
  qed
  have np: "\<not> (hd t = CHR ''/'' \<and> length (filter (\<lambda>c. c = CHR ''/'') t) \<ge> 2)"
    using hd(1) c(4) mini_lexer_slashes [OF assms(2)] c(1) by auto
  have nx: "\<not> (length t > 2 \<and> t ! 0 = CHR ''0'' \<and> (t ! 1 = CHR ''x'' \<or> t ! 1 = CHR ''X'') \<and> list_all is_ascii_hexdigit (drop 2 t))"
    using u(1) char_samples(2) by (cases t rule: remdups_adj.cases) (auto simp: list_all_iff)
  have nh: "\<not> list_all is_ascii_hexdigit t" using u(1) char_samples(2) by (auto simp: list_all_iff)
  have nt: "\<not> rx_iso8601 rx t" using iso8601_digits [OF assms(1) _ ascii] mini_lexer_no_number [OF assms(2)] c(1) by blast
  have nd: "\<not> list_all is_ascii_digit t" using u(1) char_samples(4) by (auto simp: list_all_iff)
  have n: "\<not> is_uuid t" "\<not> is_ipv6 t" "\<not> is_mac t" "\<not> is_float t"
    using u is_uuid_chars is_ipv6_chars is_mac_chars is_float_chars by blast+
  have "classify_token rx t \<in> {Preserve, CompoundTok (mini_lexer t)}"
    unfolding classify_token_def Let_def compound_mini_lexer_def
    by (simp only: n nq np nx nh nt nd u(2) simp_thms if_False if_True) simp
  then show ?thesis using mini_lexer_idem [OF assms(2)] c(1) by (auto simp: class_text_def)
qed

section \<open>Tokens and bodies\<close>

definition is_token :: "string \<Rightarrow> bool" where
  "is_token t \<longleftrightarrow> t \<noteq> [] \<and> list_all (\<lambda>c. \<not> is_ws c) t"

lemma split_whitespace_tokens: "t \<in> set (split_whitespace s) \<Longrightarrow> is_token t \<and> set t \<subseteq> set s"
proof (induction s rule: split_whitespace.induct)
  case (1 s)
  let ?d = "dropWhile is_ws s"
  show ?case
  proof (cases "?d = []")
    case False
    have sub: "set ?d \<subseteq> set s" by (auto dest: set_dropWhileD)
    from 1(2) False consider "t = takeWhile (\<lambda>c. \<not> is_ws c) ?d"
      | "t \<in> set (split_whitespace (dropWhile (\<lambda>c. \<not> is_ws c) ?d))"
      by (auto simp: split_whitespace.simps [of s] Let_def simp del: dropWhile_eq_Nil_conv)
    then show ?thesis
    proof cases
      case 1
      have "takeWhile (\<lambda>c. \<not> is_ws c) ?d \<noteq> []"
        using hd_dropWhile [OF False] False by (cases ?d) auto
      then show ?thesis using 1 sub by (auto simp: is_token_def list_all_iff dest: set_takeWhileD)
    next
      case 2
      from 1(1) [OF refl False 2] show ?thesis using sub by (auto dest: set_dropWhileD)
    qed
  qed (use 1(2) in \<open>simp add: split_whitespace.simps [of s]\<close>)
qed

lemma split_whitespace_space: "split_whitespace (CHR '' '' # s) = split_whitespace s"
  by (simp add: split_whitespace.simps [of "CHR '' '' # s"] split_whitespace.simps [of s] is_ws_def)

lemma split_whitespace_token:
  assumes "is_token t" and "s = [] \<or> is_ws (hd s)"
  shows "split_whitespace (t @ s) = t # split_whitespace s"
proof -
  have "dropWhile is_ws (t @ s) = t @ s" using assms(1) by (cases t) (auto simp: is_token_def)
  moreover have "takeWhile (\<lambda>c. \<not> is_ws c) (t @ s) = t" "dropWhile (\<lambda>c. \<not> is_ws c) (t @ s) = s"
    using assms by (cases s; auto simp: is_token_def list_all_iff takeWhile_append dropWhile_append)+
  ultimately show ?thesis using assms(1) by (simp add: split_whitespace.simps [of "t @ s"] is_token_def)
qed

lemma split_whitespace_join: "list_all is_token ts \<Longrightarrow> split_whitespace (join '' '' ts) = ts"
proof (induction "'' '' :: string" ts rule: join.induct)
  case (3 s t ts)
  then show ?case
    using split_whitespace_token [of s "CHR '' '' # join '' '' (t # ts)"] by (simp add: split_whitespace_space is_ws_def)
qed (auto simp: split_whitespace.simps [of "[]"] split_whitespace_token [of _ "[]", simplified])

lemma split_trailing_punct_append:
  assumes "core = [] \<or> \<not> is_trailing_punct (last core)" and "list_all is_trailing_punct suffix"
  shows "split_trailing_punct (core @ suffix) = (core, suffix)"
proof -
  have "takeWhile is_trailing_punct (rev suffix @ rev core) = rev suffix"
    "dropWhile is_trailing_punct (rev suffix @ rev core) = rev core"
    using assms by (cases core rule: rev_cases; auto simp: takeWhile_append dropWhile_append list_all_iff)+
  then show ?thesis by (simp add: split_trailing_punct_def)
qed

lemma split_trailing_punct_parts:
  assumes "split_trailing_punct t = (core, suffix)"
  shows "t = core @ suffix" "core = [] \<or> \<not> is_trailing_punct (last core)" "list_all is_trailing_punct suffix"
proof -
  have core: "core = rev (dropWhile is_trailing_punct (rev t))" and suffix: "suffix = rev (takeWhile is_trailing_punct (rev t))"
    using assms by (simp_all add: split_trailing_punct_def)
  show "t = core @ suffix" unfolding core suffix by (metis rev_append rev_rev_ident takeWhile_dropWhile_id)
  show "list_all is_trailing_punct suffix" unfolding suffix by (auto simp: list_all_iff dest: set_takeWhileD)
  show "core = [] \<or> \<not> is_trailing_punct (last core)"
    unfolding core by (metis hd_dropWhile last_rev rev.simps(1))
qed

text \<open>The text of a class is its own text, and it ends neither in punctuation nor contains white space.\<close>

lemma class_text_stable:
  assumes "rx_ok rx" and "list_all is_ascii s" and "is_token s" and "\<not> is_trailing_punct (last s)"
    and "t = class_text s (classify_token rx s)"
  shows "class_text t (classify_token rx t) = t" "is_token t" "\<not> is_trailing_punct (last t)"
proof -
  have "class_text t (classify_token rx t) = t \<and> is_token t \<and> \<not> is_trailing_punct (last t)"
  proof (cases "classify_token rx s")
    case Preserve
    then show ?thesis using assms(3-5) by (simp add: class_text_def)
  next
    case (Replace r)
    then show ?thesis using classify_replace [OF Replace] assms(5) by (simp add: class_text_def is_token_def)
  next
    case (CompoundTok r)
    note c = classify_compound [OF CompoundTok]
    have t: "t = mini_lexer s" using assms(5) CompoundTok c(1) by (simp add: class_text_def)
    have "is_token t"
      using mini_lexer_hd [OF assms(2) c(2)] mini_lexer_chars [OF assms(2)] assms(3) t
      by (auto simp: is_token_def list_all_iff is_ws_def)
    then show ?thesis
      using classify_lexed [OF assms(1,2) CompoundTok] t c(1) mini_lexer_last [OF assms(2) c(2)] assms(4) char_samples(13) by auto
  qed
  then show "class_text t (classify_token rx t) = t" "is_token t" "\<not> is_trailing_punct (last t)" by blast+
qed

lemma render_token_stable:
  assumes "rx_ok rx" and "list_all is_ascii s" and "is_token s"
  shows "is_token (render_token rx s)" "render_token rx (render_token rx s) = render_token rx s"
proof -
  obtain core suffix where sp: "split_trailing_punct s = (core, suffix)" by (metis surj_pair)
  note p = split_trailing_punct_parts [OF sp]
  let ?t = "class_text core (classify_token rx core)"
  have r: "render_token rx s = ?t @ suffix" using sp by (simp add: render_token_def)
  have "is_token (?t @ suffix) \<and> render_token rx (?t @ suffix) = ?t @ suffix"
  proof (cases "core = []")
    case True
    then have "?t = []" by (simp add: classify_token_def class_text_def)
    then show ?thesis using True p assms(3) r sp by (simp add: render_token_def)
  next
    case False
    have "list_all is_ascii core" "is_token core" "list_all (\<lambda>c. \<not> is_ws c) suffix"
      using assms(2,3) p(1) False by (auto simp: is_token_def)
    note k = class_text_stable [OF assms(1) this(1,2) _ refl] and this(3)
    have "split_trailing_punct (?t @ suffix) = (?t, suffix)"
      using split_trailing_punct_append k(3) p(2,3) False by blast
    then show ?thesis using k(1,2) p(2) False \<open>list_all (\<lambda>c. \<not> is_ws c) suffix\<close> by (simp add: render_token_def is_token_def)
  qed
  then show "is_token (render_token rx s)" "render_token rx (render_token rx s) = render_token rx s"
    by (simp_all only: r)
qed

text \<open>C35. Canonical text is stable: canonicalising the canonical form of a body again gives the same text, for bodies of
  ASCII characters. Of the one regular expression it is assumed that what it matches starts with four digits.\<close>

theorem canonical_text_is_stable:
  assumes "rx_ok rx" and "list_all is_ascii body"
  shows "canonicalise_freetext rx (canonicalise_freetext rx body) = canonicalise_freetext rx body"
proof -
  let ?ts = "split_whitespace body"
  have t: "is_token t \<and> list_all is_ascii t" if "t \<in> set ?ts" for t
    using split_whitespace_tokens [OF that] assms(2) by (auto simp: list_all_iff)
  have "split_whitespace (join '' '' (map (render_token rx) ?ts)) = map (render_token rx) ?ts"
    by (rule split_whitespace_join) (use t render_token_stable(1) [OF assms(1)] in \<open>auto simp: list_all_iff\<close>)
  moreover have "map (render_token rx \<circ> render_token rx) ?ts = map (render_token rx) ?ts"
    using t render_token_stable(2) [OF assms(1)] by simp
  ultimately show ?thesis unfolding canonicalise_freetext_def by (simp only: map_map)
qed

definition digit_rx :: dedup_rx where
  "digit_rx = \<lparr>rx_iso8601 = (\<lambda>s. 4 \<le> length s \<and> list_all is_ascii_digit (take 4 s)), rx_kv_pairs = (\<lambda>s. 0),
     rx_source_prefix = (\<lambda>s. None)\<rparr>"

theorem canonical_text_is_stable_witness:
  "canonicalise_freetext digit_rx ''job 12345, ab1'' = ''job _N_, ab1'' \<and>
   canonicalise_freetext digit_rx (canonicalise_freetext digit_rx ''job 12345, ab1'')
     = canonicalise_freetext digit_rx ''job 12345, ab1''"
proof -
  have "canonicalise_freetext digit_rx ''job 12345, ab1'' = ''job _N_, ab1''" by code_simp
  moreover have "rx_ok digit_rx" by (simp add: rx_ok_def digit_rx_def)
  moreover have "list_all is_ascii ''job 12345, ab1''" by (simp add: is_ascii_def)
  ultimately show ?thesis using canonical_text_is_stable by blast
qed

end
