(* ===== verification/Lj_Dedup_Output.thy ===== *)
theory Lj_Dedup_Output
  imports Lj_Dedup_Counts Lj_Dedup_Stable
begin

text \<open>
  The file the deduplicator writes, and the groups of the canonical mode.
\<close>

section \<open>Unpacking and writing\<close>

definition log_batch :: "otlp_codec \<Rightarrow> owned_record \<Rightarrow> otlp_logs option" where
  "log_batch K r = (if record_type r = Logs then case dec_logs K (payload r) of Inr b \<Rightarrow> Some b | Inl _ \<Rightarrow> None else None)"

definition logs_in :: "otlp_codec \<Rightarrow> owned_record list \<Rightarrow> flat_record list" where
  "logs_in K rs = concat (map (\<lambda>r. case log_batch K r of Some b \<Rightarrow> flatten_batch b | None \<Rightarrow> []) rs)"

definition others_in :: "otlp_codec \<Rightarrow> owned_record list \<Rightarrow> owned_record list" where
  "others_in K rs = filter (\<lambda>r. log_batch K r = None) rs"

lemma unpack_for_each:
  "for_each (unpack_step K) rs u
     = (Inr (), \<lparr>ur_records = ur_records u @ logs_in K rs, ur_passthrough = ur_passthrough u @ others_in K rs\<rparr>)"
proof (induction rs arbitrary: u)
  case (Cons r rs)
  have "unpack_step K r u = (Inr (), \<lparr>ur_records = ur_records u @ logs_in K [r], ur_passthrough = ur_passthrough u @ others_in K [r]\<rparr>)"
    by (cases "dec_logs K (payload r)") (auto simp: unpack_step_def logs_in_def others_in_def log_batch_def)
  then show ?case using Cons by (simp add: logs_in_def others_in_def)
qed (simp add: logs_in_def others_in_def)

lemma unpack_file:
  "read_records X r = (Inr rs, r') \<Longrightarrow> unpack X K r = Inr \<lparr>ur_records = logs_in K rs, ur_passthrough = others_in K rs\<rparr>"
  by (simp add: unpack_def for_each_record_eq unpack_for_each)

definition numbered :: "nat \<Rightarrow> (u64 \<times> record_type \<times> bytes) list \<Rightarrow> owned_record list" where
  "numbered n xs = map (\<lambda>(i, ts, rt, p). \<lparr>record_type = rt, seq = of_nat i, ts_unix_ns = ts, payload = p\<rparr>) (enumerate n xs)"

lemma emit_loop_push_all:
  "emit_loop X write_all n xs w = apfst (map_sum LjxLogjet id) (push_all X write_all (numbered n xs) w)"
proof (induction xs arbitrary: n w)
  case (Cons x xs)
  obtain ts rt p where x: "x = (ts, rt, p)" by (cases x)
  obtain res w' where "push X write_all rt (of_nat n) ts p w = (res, w')" by (metis surj_pair)
  then show ?case using Cons [of "n + 1"] by (cases res) (simp_all add: x numbered_def)
qed (simp add: numbered_def)

lemma numbered_facts:
  "map seq (numbered n xs) = map of_nat [n..<n + length xs]" "map ts_unix_ns (numbered n xs) = map fst xs"
  "map (\<lambda>r. (ts_unix_ns r, record_type r, payload r)) (numbered n xs) = xs" "length (numbered n xs) = length xs"
  by (auto simp: numbered_def nth_enumerate_eq case_prod_beta intro!: nth_equalityI)

lemma in_numbered: "r \<in> set (numbered n xs) \<Longrightarrow> (ts_unix_ns r, record_type r, payload r) \<in> set xs"
  by (subst numbered_facts(3) [of n xs, symmetric]) auto

lemma numbered_sorted:
  assumes "sorted (map fst xs)" and "n + length xs < 2 ^ 64"
  shows "sorted_wrt record_le (numbered n xs)"
proof -
  have "(of_nat i :: u64) \<le> of_nat j" if "i \<le> j" "j < 2 ^ 64" for i j
    using that by (simp add: word_of_nat_less_eq_iff take_bit_nat_eq_self)
  then show ?thesis
    using assms by (auto simp: sorted_wrt_iff_nth_less numbered_def record_le_def nth_enumerate_eq case_prod_beta
        simp del: of_nat_add)
qed

lemma default_compatible_up_to: "L \<le> 16777216 \<Longrightarrow> compatible writer_config_default L reader_config_default"
  by (simp add: compatible_def writer_config_default_def reader_config_default_def DEFAULT_SYNC_MARKER_def first_unique_def
      DEFAULT_MAX_BLOCK_SIZE_def)

text \<open>The command on an input that reads as \<open>rs\<close>, when what it writes fits in a block.\<close>

lemma dedup_run_writes:
  assumes "codecs_ok X" and "codec_total X Lz4 L M" and "65536 \<le> L" and "L \<le> 16777216" and "M \<le> 16777216"
    and "read_records X (reader_new (dev_of bs)) = (Inr rs, r0)" and "parse_bucket_by (da_bucket_by args) = Inr kk"
    and "opts = dedup_opts_of args kk" and "dedup_groups D opts (logs_in K rs) = Some gs"
    and "ys = emit_records K gs (others_in K rs) (mode_label (opt_mode opts) (opt_match_mode opts))"
    and "\<forall>(ts, rt, p)\<in>set ys. 31 + length p \<le> L" and "length ys < 2 ^ 64"
  shows "\<exists>out. dedup_run X K D vec_write_all (\<lambda>w. (Inr (), w)) args (Inr (dev_of bs)) (Inr [])
      = Inr (\<lparr>ds_total_records = sum_list (map dg_count gs), ds_group_count = of_nat (length gs)\<rparr>, out) \<and>
    (length out < 2 ^ 32 \<longrightarrow> (\<exists>r'. read_records X (reader_new (dev_of out)) = (Inr (numbered 0 ys), r')))"
proof -
  let ?wc = writer_config_default
  have len: "\<forall>r\<in>set (numbered 0 ys). 31 + length (payload r) \<le> L" using in_numbered [of _ 0 ys] assms(11) by fastforce
  have srt: "sorted_wrt record_le (numbered 0 ys)"
    by (rule numbered_sorted) (use assms(10,12) in \<open>simp_all add: emit_records_def\<close>)
  obtain out where out: "write_log X ?wc (numbered 0 ys) = Inr out"
    using write_log_total [of X ?wc L M, OF _ _ _ _ len srt] assms(2-5) by (auto simp: default_config_simps)
  have "dedup_run X K D vec_write_all (\<lambda>w. (Inr (), w)) args (Inr (dev_of bs)) (Inr [])
      = Inr (\<lparr>ds_total_records = sum_list (map dg_count gs), ds_group_count = of_nat (length gs)\<rparr>, out)"
    using out assms(7-10) unfolding dedup_run_def dedup_def emit_write_def write_log_def writer_new_def
    by (auto simp: unpack_file [OF assms(6)] emit_loop_push_all Let_def split: prod.splits sum.splits)
  moreover obtain rss where "log_file X ?wc L rss out" "concat rss = numbered 0 ys"
    using write_log_log [OF out, of L] assms(3) len by (auto simp: default_config_simps)
  ultimately show ?thesis
    using log_file_reads [OF assms(1), of ?wc L M reader_config_default rss out] assms(2,5) default_compatible_up_to [OF assms(4)]
    by (auto simp: reader_new_def default_config_simps)
qed

text \<open>C37. Deduplication accounts for every record. In every mode the pipeline does not fail and the counts of its groups add
  up to the number of log records of the input, and so does the total it reports. When the records to write fit in a block, the
  command succeeds, and its output reads back as one record per group and the other records of the input with type, time and
  payload unchanged, ordered by time and numbered from 0. \<^verbatim>\<open>doc/ljx.md\<close> promises that records other than logs are
  preserved in original order; the code sorts them by time, among the groups, and renumbers them.\<close>

theorem dedup_output_reads_back:
  assumes "codecs_ok X" and "codec_total X Lz4 L M" and "65536 \<le> L" and "L \<le> 16777216" and "M \<le> 16777216"
    and "orders_ok D" and "length bs < 2 ^ 32" and "parse_bucket_by (da_bucket_by args) = Inr kk"
    and "logs = logs_in K (file_log X bs)" and "others = others_in K (file_log X bs)" and "opts = dedup_opts_of args kk"
  shows "\<exists>gs. dedup_groups D opts logs = Some gs \<and> sum_list (map dg_count gs) = of_nat (length logs) \<and>
    (let xs = map (\<lambda>g. (dg_first_seen_ns g, Logs, build_otlp_payload K g (mode_label (opt_mode opts) (opt_match_mode opts)))) gs @
              map (\<lambda>r. (ts_unix_ns r, record_type r, payload r)) others in
     (\<forall>(ts, rt, p)\<in>set xs. 31 + length p \<le> L) \<and> length xs < 2 ^ 64 \<longrightarrow>
     (\<exists>out. dedup_run X K D vec_write_all (\<lambda>w. (Inr (), w)) args (Inr (dev_of bs)) (Inr [])
         = Inr (\<lparr>ds_total_records = of_nat (length logs), ds_group_count = of_nat (length gs)\<rparr>, out) \<and>
       (length out < 2 ^ 32 \<longrightarrow>
         (\<exists>rs r'. read_records X (reader_new (dev_of out)) = (Inr rs, r') \<and>
           map seq rs = map of_nat [0..<length rs] \<and> sorted (map ts_unix_ns rs) \<and>
           mset (map (\<lambda>r. (ts_unix_ns r, record_type r, payload r)) rs) = mset xs))))"
proof -
  obtain gs where gs: "dedup_groups D opts logs = Some gs" "sum_list (map dg_count gs) = of_nat (length logs)"
    using dedup_groups_total [OF assms(6)] by blast
  let ?label = "mode_label (opt_mode opts) (opt_match_mode opts)"
  let ?xs = "map (\<lambda>g. (dg_first_seen_ns g, Logs, build_otlp_payload K g ?label)) gs @
      map (\<lambda>r. (ts_unix_ns r, record_type r, payload r)) others"
  let ?ys = "emit_records K gs others ?label"
  have ys: "set ?ys = set ?xs" "length ?ys = length ?xs" "mset ?ys = mset ?xs" "sorted (map fst ?ys)"
    by (simp_all add: emit_records_def)
  obtain r0 where r0: "read_records X (reader_new (dev_of bs)) = (Inr (file_log X bs), r0)"
    using read_file_log [OF assms(7)] by blast
  have out: "map seq (numbered 0 ?ys) = map of_nat [0..<length (numbered 0 ?ys)]" "sorted (map ts_unix_ns (numbered 0 ?ys))"
    "mset (map (\<lambda>r. (ts_unix_ns r, record_type r, payload r)) (numbered 0 ?ys)) = mset ?xs"
    using ys(3,4) by (simp_all only: numbered_facts add_0)
  show ?thesis
    unfolding Let_def
  proof (intro exI [of _ gs] conjI impI gs)
    assume fits: "(\<forall>(ts, rt, p)\<in>set ?xs. 31 + length p \<le> L) \<and> length ?xs < 2 ^ 64"
    have "\<forall>(ts, rt, p)\<in>set ?ys. 31 + length p \<le> L" "length ?ys < 2 ^ 64"
      unfolding ys(1,2) using fits by blast+
    note run = dedup_run_writes [OF assms(1-5) r0 assms(8,11) gs(1) [unfolded assms(9)] refl
        this [unfolded assms(10)], unfolded gs(2)]
    from run out show "\<exists>out. dedup_run X K D vec_write_all (\<lambda>w. (Inr (), w)) args
        (Inr (dev_of bs)) (Inr []) = Inr (\<lparr>ds_total_records = of_nat (length logs), ds_group_count = of_nat (length gs)\<rparr>, out) \<and>
      (length out < 2 ^ 32 \<longrightarrow> (\<exists>rs r'. read_records X (reader_new (dev_of out)) = (Inr rs, r') \<and>
         map seq rs = map of_nat [0..<length rs] \<and> sorted (map ts_unix_ns rs) \<and>
         mset (map (\<lambda>r. (ts_unix_ns r, record_type r, payload r)) rs) = mset ?xs))" unfolding assms(10) by blast
  qed
qed

definition twin_codec :: otlp_codec where
  "twin_codec =
     (let lr = \<lparr>ol_time_unix_nano = 5, ol_observed_time_unix_nano = 0, ol_severity_number = 0, ol_severity_text = [],
                ol_body = Some (AnyValue (Some (StringValue ''up''))), ol_attributes = [], ol_dropped_attributes_count = 0,
                ol_flags = 0, ol_trace_id = [], ol_span_id = [], ol_event_name = []\<rparr>
      in no_otlp\<lparr>dec_logs := (\<lambda>_. Inr [\<lparr>orl_resource = None,
           orl_scope_logs = [\<lparr>osl_scope = None, osl_log_records = [lr, lr], osl_schema_url = []\<rparr>], orl_schema_url = []\<rparr>])\<rparr>)"

definition sample_env :: dedup_env where
  "sample_env =
     \<lparr>dx_rx = digit_rx, dx_json = \<lparr>jc_from_str = (\<lambda>_. None), jc_to_string = (\<lambda>_. [])\<rparr>,
      dx_hash = (\<lambda>s. of_nat (horner_sum of_char 256 s)), dx_buckets = id, dx_clusters = id, dx_children = (\<lambda>_ _ _ ks. ks)\<rparr>"

definition sample_args :: dedup_args where
  "sample_args =
     \<lparr>da_mode = Distinct, da_matcher = ExactArg, da_bucket_by = None, da_sim_th = None, da_drain_depth = None,
      da_extra_delimiters = None\<rparr>"

lemma sample_logs:
  "\<exists>f. logs_in twin_codec sample_records = [f, f]" "others_in twin_codec sample_records = [sample_records ! 1]"
  by (auto simp: logs_in_def others_in_def sample_records_def log_batch_def twin_codec_def flatten_batch_def Let_def)

lemma sample_group: "\<exists>g. dedup_groups sample_env (dedup_opts_of sample_args DefaultKey) [f, f] = Some [g]"
  by (simp add: dedup_groups_def distinct_dedup_def dedup_opts_of_def sample_args_def exact_dedup_def bucket_group_def entry_push_def
      bucket_key_from_record_def entries_in_def sample_env_def dedup_bucket_def exact_step_def List.map_filter_simps Let_def)

theorem dedup_output_reads_back_witness:
  "\<exists>bs out. dedup_run identity_extern twin_codec sample_env vec_write_all (\<lambda>w. (Inr (), w)) sample_args (Inr (dev_of bs)) (Inr [])
      = Inr (\<lparr>ds_total_records = 2, ds_group_count = 1\<rparr>, out) \<and> file_log identity_extern bs = sample_records"
proof -
  obtain bs where bs: "file_log identity_extern bs = sample_records" "length bs \<le> length sample_records * 65588"
    using file_log_append [of sample_records "[]"] sample_records_simps by auto
  have "orders_ok sample_env" by (simp add: orders_ok_def sample_env_def)
  moreover have "parse_bucket_by (da_bucket_by sample_args) = Inr DefaultKey" by (simp add: parse_bucket_by_def sample_args_def)
  moreover have "length bs < 2 ^ 32" using bs(2) by (simp add: sample_records_simps)
  moreover have "length (payload (sample_records ! 1)) = 0" "build_otlp_payload twin_codec g l = []" for g l
    by (simp_all add: sample_records_def build_otlp_payload_def twin_codec_def no_otlp_def Let_def)
  moreover obtain f g where "logs_in twin_codec sample_records = [f, f]"
    "dedup_groups sample_env (dedup_opts_of sample_args DefaultKey) [f, f] = Some [g]"
    using sample_logs(1) sample_group by blast
  ultimately have "\<exists>out. dedup_run identity_extern twin_codec sample_env vec_write_all (\<lambda>w. (Inr (), w)) sample_args
      (Inr (dev_of bs)) (Inr []) = Inr (\<lparr>ds_total_records = 2, ds_group_count = 1\<rparr>, out)"
    using dedup_output_reads_back [OF identity_codecs identity_total _ _ _ _ _ _ refl refl refl,
        of 65536 sample_env bs sample_args DefaultKey twin_codec] bs(1) sample_logs(2) by (auto simp: Let_def)
  with bs(1) show ?thesis by blast
qed

end
