(* ===== verification/Lj_Dedup_Distinct.thy ===== *)
theory Lj_Dedup_Distinct
  imports Lj_Dedup_Output
begin

text \<open>
  The groups of the distinct mode: one per canonical body, in the order of first appearance, with the first record as its
  representative, its number of records and the times of the earliest and the latest. The two stages, equal bodies and then
  equal canonical bodies, together are a grouping by canonical body, as far as the hash function tells the bodies apart.
\<close>

section \<open>Grouping in two stages\<close>

lemma first_keys_filter: "filter P (first_keys ks) = first_keys (filter P ks)"
  by (induction ks rule: rev_induct) auto

lemma first_keys_map: "first_keys (map f (first_keys ks)) = first_keys (map f ks)"
  by (induction ks rule: rev_induct) auto

lemma first_keys_inj: "inj_on h (set ks) \<Longrightarrow> first_keys (map h ks) = map h (first_keys ks)"
  by (induction ks rule: rev_induct) (auto simp: inj_on_def)

lemma hd_first_keys: "ks \<noteq> [] \<Longrightarrow> first_keys ks \<noteq> [] \<and> hd (first_keys ks) = hd ks"
proof (induction ks rule: rev_induct)
  case (snoc k ks)
  then show ?case using first_keys_simps(2) [of "[]" k] by (cases "ks = []") auto
qed simp

lemma groups_by_inj:
  assumes "\<And>x. x \<in> set xs \<Longrightarrow> key x = h (key' x)" and "inj_on h (key' ` set xs)"
  shows "groups_by key add start xs = groups_by key' add start xs"
proof -
  have "map key xs = map h (map key' xs)" using assms(1) by simp
  then have ks: "first_keys (map key xs) = map h (first_keys (map key' xs))"
    using first_keys_inj [of h "map key' xs"] assms(2) by (simp only: set_map)
  have "filter (\<lambda>x. key x = h k) xs = filter (\<lambda>x. key' x = k) xs" if "k \<in> set (first_keys (map key' xs))" for k
    using that assms by (intro filter_cong) (auto simp: inj_on_eq_iff)
  then show ?thesis unfolding groups_by_def ks by simp
qed

lemma mset_filter_disjoint: "(\<And>x. \<not> (A x \<and> B x)) \<Longrightarrow> mset (filter A xs) + mset (filter B xs) = mset (filter (\<lambda>x. A x \<or> B x) xs)"
  by (induction xs) auto

lemma mset_regroup: "distinct ks \<Longrightarrow> mset (concat (map (\<lambda>k. filter (\<lambda>x. key x = k) xs) ks)) = mset (filter (\<lambda>x. key x \<in> set ks) xs)"
proof (induction ks)
  case (Cons k ks)
  then show ?case using mset_filter_disjoint [of "\<lambda>x. key x = k" "\<lambda>x. key x \<in> set ks" xs] by auto
qed simp

definition regroup :: "('x \<Rightarrow> 'k) \<Rightarrow> ('k \<Rightarrow> bool) \<Rightarrow> 'x list \<Rightarrow> 'x list" where
  "regroup key P xs = concat (map (\<lambda>k. filter (\<lambda>x. key x = k) xs) (filter P (first_keys (map key xs))))"

lemma regroup_mset: "mset (regroup key P xs) = mset (filter (P \<circ> key) xs)"
proof -
  have "mset (regroup key P xs) = mset (filter (\<lambda>x. key x \<in> set (filter P (first_keys (map key xs)))) xs)"
    unfolding regroup_def by (rule mset_regroup) (simp add: distinct_first_keys)
  also have "filter (\<lambda>x. key x \<in> set (filter P (first_keys (map key xs)))) xs = filter (P \<circ> key) xs"
    by (rule filter_cong) auto
  finally show ?thesis .
qed

lemma regroup_hd:
  assumes "filter (P \<circ> key) xs \<noteq> []"
  shows "hd (regroup key P xs) = hd (filter (P \<circ> key) xs)"
proof -
  let ?ys = "filter (P \<circ> key) xs" and ?ks = "filter P (first_keys (map key xs))"
  have ks: "?ks = first_keys (map key ?ys)" by (simp add: first_keys_filter filter_map)
  define x where "x = hd ?ys"
  have k: "?ks \<noteq> []" "hd ?ks = key x" using hd_first_keys [of "map key ?ys"] assms by (simp_all add: ks x_def hd_map)
  have x: "x \<in> set ?ys" using assms unfolding x_def by (rule hd_in_set)
  have "filter (\<lambda>y. key y = key x) xs = filter (\<lambda>y. key y = key x) ?ys" using x by (auto simp: filter_filter intro!: filter_cong)
  also have "\<dots> = x # filter (\<lambda>y. key y = key x) (tl ?ys)" using assms by (cases ?ys) (simp_all add: x_def)
  finally have "hd (concat (map (\<lambda>k. filter (\<lambda>y. key y = k) xs) (hd ?ks # tl ?ks))) = x" using k(2) by simp
  then show ?thesis using k(1) by (simp add: regroup_def x_def)
qed

section \<open>What a group says of its records\<close>

definition summarises :: "dedup_group \<Rightarrow> flat_record list \<Rightarrow> bool" where
  "summarises g ms \<longleftrightarrow> ms \<noteq> [] \<and> dg_representative g = hd ms \<and> dg_count g = of_nat (length ms) \<and>
     dg_first_seen_ns g = Min (effective_timestamp ` set ms) \<and> dg_last_seen_ns g = Max (effective_timestamp ` set ms)"

lemma merge_group_simps:
  "dg_representative (merge_group h g) = dg_representative g"
  "dg_first_seen_ns (merge_group h g) = min (dg_first_seen_ns g) (dg_first_seen_ns h)"
  "dg_last_seen_ns (merge_group h g) = max (dg_last_seen_ns g) (dg_last_seen_ns h)"
  by (auto simp: merge_group_def min_def max_def)

lemma absorb_simps:
  "dg_representative (absorb r g) = dg_representative g"
  "dg_first_seen_ns (absorb r g) = min (dg_first_seen_ns g) (effective_timestamp r)"
  "dg_last_seen_ns (absorb r g) = max (dg_last_seen_ns g) (effective_timestamp r)"
  by (auto simp: absorb_def Let_def min_def max_def)

lemma summarises_new: "summarises (group_new key h r) [r]"
  by (simp add: summarises_def group_new_def)

lemma summarises_merge:
  assumes "summarises g ms" and "summarises h ns"
  shows "summarises (merge_group h g) (ms @ ns)"
proof -
  have "effective_timestamp ` set ms \<noteq> {}" "effective_timestamp ` set ns \<noteq> {}" using assms by (simp_all add: summarises_def)
  then show ?thesis
    using assms Min_Un [of "effective_timestamp ` set ms" "effective_timestamp ` set ns"]
      Max_Un [of "effective_timestamp ` set ms" "effective_timestamp ` set ns"]
    by (simp add: summarises_def merge_group_simps image_Un)
qed

lemma summarises_absorb: "summarises g ms \<Longrightarrow> summarises (absorb r g) (ms @ [r])"
  by (simp add: summarises_def absorb_simps min.commute max.commute add.commute)

lemma summarises_annotate: "summarises g ms \<Longrightarrow> summarises (annotate D g) ms"
  by (simp add: summarises_def annotate_def split: prod.splits)

lemma summarises_mset:
  assumes "summarises g ms" and "mset ms = mset ns" and "hd ms = hd ns"
  shows "summarises g ns"
proof -
  have "length ms = length ns" "set ms = set ns" using assms(2) mset_eq_length mset_eq_setD by blast+
  then show ?thesis using assms(1,3) by (auto simp: summarises_def)
qed

lemma summarises_collect:
  assumes "xs \<noteq> []" and "\<And>x. x \<in> set xs \<Longrightarrow> summarises (start x) (f x)"
    and "\<And>x g ms. x \<in> set xs \<Longrightarrow> summarises g ms \<Longrightarrow> summarises (add x g) (ms @ f x)"
  shows "summarises (collect add start xs) (concat (map f xs))"
  using assms
proof (induction xs rule: rev_nonempty_induct)
  case (single x)
  then show ?case by (simp add: collect_def)
next
  case (snoc x xs)
  then show ?case by (simp add: collect_snoc)
qed

section \<open>The two stages\<close>

abbreviation canonical_body :: "dedup_env \<Rightarrow> string \<Rightarrow> string" where
  "canonical_body D body \<equiv> fst (canonicalise_body (dx_rx D) (dx_json D) body)"

definition global_key :: bucket_key where
  "global_key = \<lparr>bk_service_name = [], bk_severity_number = 0, bk_scope_name = None, bk_code_filepath = None,
     bk_code_lineno = None\<rparr>"

lemma bucket_group_global: "bucket_group rs GlobalKey = (if rs = [] then [] else [(global_key, rs)])"
proof -
  have "bucket_key_from_record r GlobalKey = global_key" for r by (simp add: bucket_key_from_record_def global_key_def)
  then show ?thesis
    by (induction rs rule: rev_induct) (auto simp: bucket_group_def entry_push_def)
qed

text \<open>Equal bodies: one group for each body, which summarises the records that have it.\<close>

definition body_group :: "dedup_env \<Rightarrow> flat_record list \<Rightarrow> string \<Rightarrow> dedup_group" where
  "body_group D rs body = collect absorb (\<lambda>r. group_new global_key (dx_hash D (fr_body r)) r) (filter (\<lambda>r. fr_body r = body) rs)"

lemma exact_groups:
  assumes "orders_ok D" and "inj_on (dx_hash D) (fr_body ` set rs)"
  shows "exact_dedup D (bucket_group rs GlobalKey) = map (body_group D rs) (first_keys (map fr_body rs))"
proof -
  have "mset (dx_buckets D [global_key]) = {#global_key#}" "mset (dx_buckets D []) = {#}"
    using assms(1) by (simp_all add: orders_ok_def)
  then have "dx_buckets D [global_key] = [global_key]" "dx_buckets D [] = []" by (simp_all only: mset_single_iff mset_zero_iff)
  then have "exact_dedup D (bucket_group rs GlobalKey) = dedup_bucket D global_key rs"
    by (auto simp: bucket_group_global exact_dedup_def entries_in_def List.map_filter_simps dedup_bucket_groups groups_by_def)
  also have "\<dots> = map (body_group D rs) (first_keys (map fr_body rs))"
    unfolding dedup_bucket_groups by (subst groups_by_inj [where h = "dx_hash D" and key' = fr_body])
      (use assms(2) in \<open>auto simp: groups_by_def body_group_def\<close>)
  finally show ?thesis .
qed

lemma body_group_summarises:
  assumes "body \<in> fr_body ` set rs"
  shows "summarises (body_group D rs body) (filter (\<lambda>r. fr_body r = body) rs)"
proof -
  have "filter (\<lambda>r. fr_body r = body) rs \<noteq> []" using assms by (auto simp: filter_empty_conv)
  from summarises_collect [where f = "\<lambda>r. [r]", OF this] show ?thesis
    by (simp add: body_group_def summarises_new summarises_absorb)
qed

lemma body_group_facts:
  assumes "body \<in> fr_body ` set rs"
  shows "dg_bucket_key (body_group D rs body) = global_key" "fr_body (dg_representative (body_group D rs body)) = body"
proof -
  have "dg_bucket_key (fold absorb ms g) = dg_bucket_key g" for ms g
    by (induction ms arbitrary: g) (simp_all add: absorb_def Let_def)
  then show "dg_bucket_key (body_group D rs body) = global_key" by (simp add: body_group_def collect_def group_new_def)
  from body_group_summarises [OF assms] show "fr_body (dg_representative (body_group D rs body)) = body"
    by (metis (mono_tags, lifting) hd_in_set mem_Collect_eq set_filter summarises_def)
qed

text \<open>Equal canonical bodies.\<close>

definition canonical_group :: "dedup_env \<Rightarrow> flat_record list \<Rightarrow> string \<Rightarrow> dedup_group" where
  "canonical_group D rs c =
     collect merge_group (\<lambda>g. g\<lparr>dg_signature := snd (canon_key D g)\<rparr>)
       (map (annotate D \<circ> body_group D rs) (filter (\<lambda>b. canonical_body D b = c) (first_keys (map fr_body rs))))"

lemma annotate_rep: "dg_representative (annotate D g) = dg_representative g"
  by (simp add: annotate_def split: prod.splits)

lemma annotate_body: "dg_canonical_body (annotate D g) = Some (canonical_body D (fr_body (dg_representative g)))"
  by (simp add: annotate_def split: prod.splits)

lemma canon_groups:
  assumes "inj_on (dx_hash D) ((\<lambda>r. canonical_body D (fr_body r)) ` set rs)"
  shows "canon_dedup D (map (body_group D rs) (first_keys (map fr_body rs)))
    = map (canonical_group D rs) (first_keys (map (\<lambda>r. canonical_body D (fr_body r)) rs))"
proof -
  let ?bs = "first_keys (map fr_body rs)" and ?g = "annotate D \<circ> body_group D rs"
  let ?key = "\<lambda>g. the (dg_canonical_body g)" and ?h = "\<lambda>c. (global_key, dx_hash D c)"
  have cb: "?key (?g b) = canonical_body D b" "canon_key D (?g b) = ?h (canonical_body D b)" if "b \<in> set ?bs" for b
    using that body_group_facts [of b rs D] by (auto simp: annotate_body canon_key_def annotate_def split: prod.splits)
  have "canon_dedup D (map (body_group D rs) ?bs)
      = groups_by ?key merge_group (\<lambda>g. g\<lparr>dg_signature := snd (canon_key D g)\<rparr>) (map ?g ?bs)"
    unfolding canon_dedup_groups map_map
  proof (rule groups_by_inj [where h = ?h])
    have "?key ` set (map ?g ?bs) = (\<lambda>r. canonical_body D (fr_body r)) ` set rs" using cb(1) by (auto simp: image_iff)
    then show "inj_on ?h (?key ` set (map ?g ?bs))" using assms by (auto simp: inj_on_def)
  qed (use cb in auto)
  also have "\<dots> = map (canonical_group D rs) (first_keys (map (canonical_body D) ?bs))"
  proof -
    have "map ?key (map ?g ?bs) = map (canonical_body D) ?bs" using cb(1) by simp
    moreover have "filter (\<lambda>g. ?key g = c) (map ?g ?bs) = map ?g (filter (\<lambda>b. canonical_body D b = c) ?bs)" for c
      using cb(1) by (auto simp: filter_map intro!: map_cong filter_cong)
    ultimately show ?thesis unfolding groups_by_def canonical_group_def by (simp only:)
  qed
  finally show ?thesis by (simp add: first_keys_map comp_def)
qed

lemma canonical_group_facts:
  assumes "c \<in> (\<lambda>r. canonical_body D (fr_body r)) ` set rs"
  shows "summarises (canonical_group D rs c) (filter (\<lambda>r. canonical_body D (fr_body r) = c) rs)"
    "dg_canonical_body (canonical_group D rs c) = Some c"
proof -
  let ?bs = "filter (\<lambda>b. canonical_body D b = c) (first_keys (map fr_body rs))"
  let ?f = "\<lambda>g. filter (\<lambda>r. fr_body r = fr_body (dg_representative g)) rs" and ?g = "annotate D \<circ> body_group D rs"
  have ne: "?bs \<noteq> []" using assms by (auto simp: filter_empty_conv)
  have rep: "fr_body (dg_representative (?g b)) = b" if "b \<in> set ?bs" for b
    using that body_group_facts(2) [of b rs D] by (auto simp: annotate_rep)
  have sm: "summarises (?g b) (?f (?g b))" if "b \<in> set ?bs" for b
    using that body_group_summarises [of b rs D] rep [OF that] summarises_annotate by auto
  have "summarises (canonical_group D rs c) (concat (map ?f (map ?g ?bs)))"
    unfolding canonical_group_def
  proof (rule summarises_collect)
    fix x assume "x \<in> set (map ?g ?bs)"
    then have x: "summarises x (?f x)" using sm by auto
    then show "summarises (x\<lparr>dg_signature := snd (canon_key D x)\<rparr>) (?f x)" by (simp add: summarises_def)
    show "summarises (merge_group x g) (ms @ ?f x)" if "summarises g ms" for g ms by (rule summarises_merge [OF that x])
  qed (use ne in simp)
  moreover have "concat (map ?f (map ?g ?bs)) = regroup fr_body (\<lambda>b. canonical_body D b = c) rs"
    unfolding regroup_def by (rule arg_cong [where f = concat]) (use rep in simp)
  moreover have "filter ((\<lambda>b. canonical_body D b = c) \<circ> fr_body) rs \<noteq> []" using assms by (auto simp: filter_empty_conv)
  ultimately show "summarises (canonical_group D rs c) (filter (\<lambda>r. canonical_body D (fr_body r) = c) rs)"
    using summarises_mset regroup_mset [of fr_body "\<lambda>b. canonical_body D b = c" rs]
      regroup_hd [of "\<lambda>b. canonical_body D b = c" fr_body rs] by (simp add: comp_def)
  have "dg_canonical_body (fold merge_group gs g) = dg_canonical_body g" for gs g
    by (induction gs arbitrary: g) (simp_all add: merge_group_def)
  then show "dg_canonical_body (canonical_group D rs c) = Some c"
    using ne rep [of "hd ?bs"] hd_in_set [OF ne] by (simp add: canonical_group_def collect_def hd_map annotate_body annotate_rep)
qed

text \<open>C38. Distinct groups are the canonical bodies. Provided the hash tells the bodies and the canonical bodies of the input
  apart, the groups of the distinct mode with canonicalisation are exactly the distinct canonical bodies in the order of their
  first appearance; the representative of a group is the first record with that canonical body, its count is their number, and
  its times are the earliest and the latest of them. Service and severity of a record do not matter: contrary to
  \<^verbatim>\<open>doc/ljx.md\<close>, where no stage merges records across buckets of service and severity, the distinct mode has one
  bucket for all records.\<close>

theorem distinct_groups_are_the_canonical_bodies:
  assumes "orders_ok D" and "opt_mode opts = Distinct" and "opt_match_mode opts = Hash2"
    and "inj_on (dx_hash D) (fr_body ` set rs)"
    and "inj_on (dx_hash D) ((\<lambda>r. fst (canonicalise_body (dx_rx D) (dx_json D) (fr_body r))) ` set rs)"
  shows "\<exists>gs. dedup_groups D opts rs = Some gs \<and>
    map dg_canonical_body gs
      = map Some (first_keys (map (\<lambda>r. fst (canonicalise_body (dx_rx D) (dx_json D) (fr_body r))) rs)) \<and>
    (\<forall>g\<in>set gs. summarises g
      (filter (\<lambda>r. Some (fst (canonicalise_body (dx_rx D) (dx_json D) (fr_body r))) = dg_canonical_body g) rs))"
proof -
  let ?cs = "first_keys (map (\<lambda>r. canonical_body D (fr_body r)) rs)"
  have "dedup_groups D opts rs = Some (map (canonical_group D rs) ?cs)"
    using assms(2,3) exact_groups [OF assms(1,4)] canon_groups [OF assms(5)]
    by (simp add: dedup_groups_def distinct_dedup_def Let_def)
  moreover have "map dg_canonical_body (map (canonical_group D rs) ?cs) = map Some ?cs"
    using canonical_group_facts(2) [of _ D rs] by simp
  moreover have "summarises (canonical_group D rs c)
      (filter (\<lambda>r. Some (canonical_body D (fr_body r)) = dg_canonical_body (canonical_group D rs c)) rs)" if "c \<in> set ?cs" for c
    using canonical_group_facts [of c D rs] that by simp
  ultimately show ?thesis by (intro exI [of _ "map (canonical_group D rs) ?cs"]) auto
qed

definition sample_flat :: "u64 \<Rightarrow> string \<Rightarrow> flat_record" where
  "sample_flat t body =
     \<lparr>fr_service_name = [], fr_severity_number = 0, fr_severity_text = [], fr_scope_name = [], fr_event_name = [],
      fr_code_filepath = None, fr_code_lineno = None, fr_trace_id = [], fr_span_id = [], fr_time_unix_nano = t,
      fr_observed_time_unix_nano = 0, fr_body = body, fr_resource_attrs = [], fr_scope_attrs = [], fr_record_attrs = []\<rparr>"

definition length_env :: dedup_env where
  "length_env = sample_env\<lparr>dx_hash := (\<lambda>s. of_nat (length s))\<rparr>"

lemma sample_bodies:
  "fst (canonicalise_body (dx_rx length_env) (dx_json length_env) ''job 123'') = ''job _N_''"
  "fst (canonicalise_body (dx_rx length_env) (dx_json length_env) ''job 4567'') = ''job _N_''"
  "fst (canonicalise_body (dx_rx length_env) (dx_json length_env) ''up'') = ''up''"
  by code_simp+

theorem distinct_groups_are_the_canonical_bodies_witness:
  "\<exists>g h. dedup_groups length_env dedup_opts_default [sample_flat 9 ''job 123'', sample_flat 7 ''up'', sample_flat 8 ''job 4567'']
      = Some [g, h] \<and> dg_canonical_body g = Some ''job _N_'' \<and> dg_count g = 2 \<and> dg_first_seen_ns g = 8 \<and>
    dg_canonical_body h = Some ''up'' \<and> dg_count h = 1"
proof -
  let ?rs = "[sample_flat 9 ''job 123'', sample_flat 7 ''up'', sample_flat 8 ''job 4567'']"
  have "orders_ok length_env" by (simp add: orders_ok_def length_env_def sample_env_def)
  moreover have "inj_on (dx_hash length_env) (fr_body ` set ?rs)" by (simp add: length_env_def sample_flat_def)
  moreover have "inj_on (dx_hash length_env)
      ((\<lambda>r. fst (canonicalise_body (dx_rx length_env) (dx_json length_env) (fr_body r))) ` set ?rs)"
    by (auto simp: sample_flat_def sample_bodies inj_on_def) (simp_all add: length_env_def)
  ultimately obtain gs where gs: "dedup_groups length_env dedup_opts_default ?rs = Some gs"
    "map dg_canonical_body gs
      = map Some (first_keys (map (\<lambda>r. fst (canonicalise_body (dx_rx length_env) (dx_json length_env) (fr_body r))) ?rs))"
    "\<forall>g\<in>set gs. summarises g (filter (\<lambda>r. Some (fst (canonicalise_body (dx_rx length_env) (dx_json length_env) (fr_body r)))
       = dg_canonical_body g) ?rs)"
    using distinct_groups_are_the_canonical_bodies [of length_env dedup_opts_default ?rs] by (auto simp: dedup_opts_default_def)
  from gs(2) obtain g h where "gs = [g, h]" "dg_canonical_body g = Some ''job _N_''" "dg_canonical_body h = Some ''up''"
    by (auto simp: sample_flat_def sample_bodies first_keys_def)
  with gs(1,3) show ?thesis
    by (auto simp: summarises_def sample_flat_def sample_bodies effective_timestamp_def)
qed

end
