(* ===== verification/Lj_Plugin.thy ===== *)
theory Lj_Plugin
  imports Lj_Utf8 Lj_Ingest Lj_Dedup_Text
begin

text \<open>
  Ingest plugins seen from the daemon (\<^verbatim>\<open>logjetd/src/plugin.rs\<close>): the records of the C interface, the
  callbacks that turn them into records of the spool, the loop that feeds a connection to a plugin, active plugins, the
  environment of a plugin, and the checks of a plugin's descriptor and name.

  A pointer to a C string is \<open>None\<close> when it is null, and the bytes before the terminator otherwise; an array with its
  length is \<open>None\<close> when its pointer is null. A loaded plugin is a record of functions over a state of its own; a call
  returns the callbacks it makes, in order. The host reads its clock in some callbacks: \<open>clock k\<close> is the reading in the
  \<open>k\<close>-th callback. The contract of a plugin that gets its input in pieces is the locale \<open>chunked_plugin\<close>.
\<close>

section \<open>The C interface\<close>

type_synonym c_str = "string option"

record lj_attribute =
  la_key :: c_str
  la_value :: c_str
  la_value_type :: i32

record lj_log_record =
  lr_timestamp_unix_ns :: u64
  lr_severity_number :: i32
  lr_severity_text :: c_str
  lr_body :: c_str
  lr_attributes :: "lj_attribute list option"
  lr_event_name :: c_str
  lr_service_name :: c_str
  lr_scope_name :: c_str
  lr_resource_attrs :: "lj_attribute list option"
  lr_scope_attrs :: "lj_attribute list option"

record lj_ingest_record =
  ir_record_type :: u32
  ir_timestamp_unix_ns :: u64
  ir_payload :: "bytes option"

datatype plugin_call = RecordCall lj_log_record | GenericCall lj_ingest_record

record 'c plugin_handle =
  ph_create :: "'c option"
  ph_set_callback :: "'c \<Rightarrow> 'c"
  ph_feed :: "bytes \<Rightarrow> 'c \<Rightarrow> plugin_call list \<times> i32 \<times> 'c"
  ph_fetch :: "('c \<Rightarrow> plugin_call list \<times> i32 \<times> 'c) option"
  ph_set_generic_callback :: "('c \<Rightarrow> 'c) option"

definition ph_is_active :: "'c plugin_handle \<Rightarrow> bool" where
  "ph_is_active h \<longleftrightarrow> ph_fetch h \<noteq> None"

definition LJ_ATTR_STRING :: i32 where "LJ_ATTR_STRING = 0"
definition LJ_ATTR_INT :: i32 where "LJ_ATTR_INT = 1"
definition LJ_ATTR_ARRAY :: i32 where "LJ_ATTR_ARRAY = 2"

section \<open>From a plugin's record to a message\<close>

definition read_optional_str :: "c_str \<Rightarrow> string option" where
  "read_optional_str p = map_option from_utf8_lossy p"

type_synonym attr_triple = "string \<times> string \<times> i32"

definition plugin_read_attrs :: "lj_attribute list option \<Rightarrow> attr_triple list" where
  "plugin_read_attrs p =
     (case p of
        None \<Rightarrow> []
      | Some attrs \<Rightarrow>
          List.map_filter
            (\<lambda>a. case (la_key a, la_value a) of
                   (Some k, Some v) \<Rightarrow> Some (from_utf8_lossy k, from_utf8_lossy v, la_value_type a)
                 | _ \<Rightarrow> None) attrs)"

text \<open>\<^verbatim>\<open>str::parse::<i64>\<close>.\<close>

definition parse_i64 :: "string \<Rightarrow> i64 option" where
  "parse_i64 s =
     (case s of
        [] \<Rightarrow> None
      | c # cs \<Rightarrow>
          if c = CHR ''-'' \<and> cs \<noteq> []
          then (case parse_digits (2 ^ 63 + 1) 0 cs of Inr n \<Rightarrow> Some (- of_nat n) | Inl _ \<Rightarrow> None)
          else (case parse_nat_below (2 ^ 63) s of Inr n \<Rightarrow> Some (of_nat n) | Inl _ \<Rightarrow> None))"

definition string_value :: "string \<Rightarrow> any_value" where
  "string_value s = AnyValue (Some (StringValue s))"

definition to_kv :: "attr_triple \<Rightarrow> key_value" where
  "to_kv a =
     (case a of (k, v, t) \<Rightarrow>
      KeyValue k (Some
        (if t = LJ_ATTR_INT then AnyValue (Some (IntValue (case parse_i64 v of Some n \<Rightarrow> n | None \<Rightarrow> 0)))
         else if t = LJ_ATTR_ARRAY then AnyValue (Some (ArrayValue (map string_value (split_on CHR '','' v))))
         else string_value v)))"

record otlp_record =
  pr_ts :: u64
  pr_severity :: i32
  pr_severity_text :: "string option"
  pr_body :: string
  pr_attrs :: "attr_triple list"
  pr_event_name :: "string option"
  pr_service_name :: "string option"
  pr_scope_name :: "string option"
  pr_resource_attrs :: "attr_triple list"
  pr_scope_attrs :: "attr_triple list"

definition unwrap_or_default :: "string option \<Rightarrow> string" where
  "unwrap_or_default s = (case s of Some s \<Rightarrow> s | None \<Rightarrow> [])"

definition plugin_request :: "otlp_record \<Rightarrow> otlp_logs" where
  "plugin_request rec =
     (let log = \<lparr>ol_time_unix_nano = pr_ts rec, ol_observed_time_unix_nano = pr_ts rec,
                 ol_severity_number = pr_severity rec, ol_severity_text = unwrap_or_default (pr_severity_text rec),
                 ol_body = Some (string_value (pr_body rec)), ol_attributes = map to_kv (pr_attrs rec),
                 ol_dropped_attributes_count = 0, ol_flags = 0, ol_trace_id = [], ol_span_id = [],
                 ol_event_name = unwrap_or_default (pr_event_name rec)\<rparr>;
          has_extended = (pr_service_name rec \<noteq> None \<or> pr_scope_name rec \<noteq> None);
          resource_kv = (case pr_service_name rec of
             Some svc \<Rightarrow> KeyValue ''service.name'' (Some (string_value svc)) # map to_kv (pr_resource_attrs rec)
           | None \<Rightarrow> map to_kv (pr_resource_attrs rec));
          scope = \<lparr>os_name = (if has_extended then unwrap_or_default (pr_scope_name rec) else ''lj-ingest-plugin''),
                   os_version = [], os_attributes = map to_kv (pr_scope_attrs rec), os_dropped_attributes_count = 0\<rparr>
      in [\<lparr>orl_resource = Some \<lparr>or_attributes = resource_kv, or_dropped_attributes_count = 0\<rparr>,
           orl_scope_logs = [\<lparr>osl_scope = Some scope, osl_log_records = [log], osl_schema_url = []\<rparr>],
           orl_schema_url = []\<rparr>])"

definition plugin_otlp_payload :: "otlp_codec \<Rightarrow> otlp_record \<Rightarrow> bytes" where
  "plugin_otlp_payload K rec = enc_logs K (plugin_request rec)"

section \<open>Callbacks\<close>

text \<open>A spool error is only printed.\<close>

definition record_fields :: "u64 \<Rightarrow> lj_log_record \<Rightarrow> otlp_record" where
  "record_fields now r =
     \<lparr>pr_ts = (if lr_timestamp_unix_ns r \<noteq> 0 then lr_timestamp_unix_ns r else now),
      pr_severity = lr_severity_number r, pr_severity_text = read_optional_str (lr_severity_text r),
      pr_body = unwrap_or_default (read_optional_str (lr_body r)), pr_attrs = plugin_read_attrs (lr_attributes r),
      pr_event_name = read_optional_str (lr_event_name r), pr_service_name = read_optional_str (lr_service_name r),
      pr_scope_name = read_optional_str (lr_scope_name r), pr_resource_attrs = plugin_read_attrs (lr_resource_attrs r),
      pr_scope_attrs = plugin_read_attrs (lr_scope_attrs r)\<rparr>"

definition append_to_spool :: "extern \<Rightarrow> wire_record \<Rightarrow> daemon \<Rightarrow> (io_error + unit) \<times> daemon" where
  "append_to_spool X record d = append_batch_record X record d"

definition on_record :: "extern \<Rightarrow> otlp_codec \<Rightarrow> u64 \<Rightarrow> lj_log_record \<Rightarrow> daemon \<Rightarrow> daemon" where
  "on_record X K now r d =
     (let rec = record_fields now r;
          pl = plugin_otlp_payload K rec;
          (n, d) = fetch_seq d
      in snd (append_to_spool X \<lparr>record_type = Logs, seq = n, ts_unix_ns = pr_ts rec, payload = pl\<rparr> d))"

definition generic_record_type :: "u32 \<Rightarrow> record_type" where
  "generic_record_type t = (if t = 1 then Logs else if t = 2 then Metrics else if t = 3 then Traces else if t = 4 then Events else Logs)"

definition on_generic_record :: "extern \<Rightarrow> u64 \<Rightarrow> lj_ingest_record \<Rightarrow> daemon \<Rightarrow> daemon" where
  "on_generic_record X now r d =
     (let pl = (case ir_payload r of None \<Rightarrow> [] | Some bs \<Rightarrow> bs);
          ts = (if ir_timestamp_unix_ns r \<noteq> 0 then ir_timestamp_unix_ns r else now);
          (n, d) = fetch_seq d
      in snd (append_to_spool X \<lparr>record_type = generic_record_type (ir_record_type r), seq = n, ts_unix_ns = ts, payload = pl\<rparr> d))"

definition on_call :: "extern \<Rightarrow> otlp_codec \<Rightarrow> (nat \<Rightarrow> u64) \<Rightarrow> plugin_call \<Rightarrow> nat \<times> daemon \<Rightarrow> nat \<times> daemon" where
  "on_call X K clock c st =
     (case st of (k, d) \<Rightarrow>
      (k + 1, case c of RecordCall r \<Rightarrow> on_record X K (clock k) r d | GenericCall r \<Rightarrow> on_generic_record X (clock k) r d))"

section \<open>Running a plugin\<close>

definition other_error :: "string \<Rightarrow> io_error" where
  "other_error m = IoError OtherKind m"

definition register_callbacks :: "'c plugin_handle \<Rightarrow> 'c \<Rightarrow> 'c" where
  "register_callbacks h c =
     (let c = ph_set_callback h c in
      case ph_set_generic_callback h of Some set_generic \<Rightarrow> set_generic c | None \<Rightarrow> c)"

text \<open>The reads of a connection: an error or the bytes received, none at its end.\<close>

fun client_loop ::
    "extern \<Rightarrow> otlp_codec \<Rightarrow> (nat \<Rightarrow> u64) \<Rightarrow> 'c plugin_handle \<Rightarrow> (io_error + bytes) list \<Rightarrow> 'c \<Rightarrow> nat \<times> daemon \<Rightarrow>
     (io_error + unit) \<times> nat \<times> daemon" where
  "client_loop X K clock h [] c st = (Inr (), st)"
| "client_loop X K clock h (Inl e # reads) c st = (Inl e, st)"
| "client_loop X K clock h (Inr bs # reads) c st =
     (if bs = [] then (Inr (), st) else
      case ph_feed h bs c of (calls, rc, c) \<Rightarrow>
        let st = fold (on_call X K clock) calls st in
        if rc \<noteq> 0 then (Inl (other_error (''lj_ingest_feed returned error code '' @ show_int (sint rc))), st)
        else client_loop X K clock h reads c st)"

text \<open>One client, alone: the threads of other clients, which take numbers from the same counter, are not running.\<close>

definition handle_plugin_client ::
    "extern \<Rightarrow> otlp_codec \<Rightarrow> (nat \<Rightarrow> u64) \<Rightarrow> 'c plugin_handle \<Rightarrow> (io_error + bytes) list \<Rightarrow> nat \<times> daemon \<Rightarrow>
     (io_error + unit) \<times> nat \<times> daemon" where
  "handle_plugin_client X K clock h reads st =
     (case ph_create h of
        None \<Rightarrow> (Inl (other_error ''lj_ingest_create returned NULL''), st)
      | Some c \<Rightarrow> client_loop X K clock h reads (register_callbacks h c) st)"

definition run_active_plugin ::
    "extern \<Rightarrow> otlp_codec \<Rightarrow> (nat \<Rightarrow> u64) \<Rightarrow> 'c plugin_handle \<Rightarrow> nat \<times> daemon \<Rightarrow> (io_error + unit) \<times> nat \<times> daemon" where
  "run_active_plugin X K clock h st =
     (case ph_fetch h of
        None \<Rightarrow> (Inl (other_error ''plugin has no lj_ingest_fetch''), st)
      | Some fetch \<Rightarrow>
          (case ph_create h of
             None \<Rightarrow> (Inl (other_error ''lj_ingest_create returned NULL''), st)
           | Some c \<Rightarrow>
               (case fetch (register_callbacks h c) of (calls, rc, _) \<Rightarrow>
                let st = fold (on_call X K clock) calls st in
                if rc \<noteq> 0 then (Inl (other_error (''lj_ingest_fetch returned error code '' @ show_int (sint rc))), st)
                else (Inr (), st))))"

section \<open>A plugin that gets its input in pieces\<close>

text \<open>How a connection cuts the stream into reads makes no difference to a plugin that keeps an unfinished rest between
  two calls. \<open>fits bs c\<close> says that the plugin in state \<open>c\<close> can keep every rest while it is fed \<open>bs\<close>.\<close>

locale chunked_plugin =
  fixes h :: "'c plugin_handle" and fits :: "bytes \<Rightarrow> 'c \<Rightarrow> bool"
  assumes feed_Nil: "fits [] c \<Longrightarrow> ph_feed h [] c = ([], 0, c)"
    and feed_append: "fits (bs @ cs) c \<Longrightarrow> ph_feed h bs c = (calls1, rc1, c1) \<Longrightarrow> ph_feed h cs c1 = (calls2, rc2, c2) \<Longrightarrow>
      ph_feed h (bs @ cs) c = (calls1 @ calls2, rc2, c2) \<and> rc1 = 0 \<and> fits cs c1"
begin

lemma client_feeds_the_stream:
  assumes "\<forall>bs\<in>set chunks. bs \<noteq> []" and "fits (concat chunks) c" and "ph_feed h (concat chunks) c = (calls, 0, c')"
  shows "client_loop X K clock h (map Inr chunks) c st = (Inr (), fold (on_call X K clock) calls st)"
  using assms
proof (induction chunks arbitrary: c st calls)
  case Nil
  then show ?case using feed_Nil by auto
next
  case (Cons bs chunks)
  obtain k1 r1 c1 where f1: "ph_feed h bs c = (k1, r1, c1)" by (metis surj_pair)
  obtain k2 r2 c2 where f2: "ph_feed h (concat chunks) c1 = (k2, r2, c2)" by (metis surj_pair)
  from Cons.prems have "fits (bs @ concat chunks) c" by simp
  note app = feed_append [OF this f1 f2]
  with Cons.prems have "r1 = 0" "fits (concat chunks) c1" "calls = k1 @ k2" "r2 = 0" "c2 = c'" by auto
  with Cons.IH [of c1 k2] Cons.prems f1 f2 show ?case by simp
qed

end

section \<open>What the callbacks store\<close>

lemma append_batch_record_fields [simp]:
  "dm_spool (snd (append_batch_record X r d)) = snd (spool_append X r (dm_spool d))"
  "dm_next_seq (snd (append_batch_record X r d)) = dm_next_seq d"
  by (simp_all add: append_batch_record_def notify_change_def split: prod.split sum.split)

text \<open>The record a callback stores.\<close>

definition wire_of_call :: "otlp_codec \<Rightarrow> u64 \<Rightarrow> u64 \<Rightarrow> plugin_call \<Rightarrow> wire_record" where
  "wire_of_call K n now c =
     (case c of
        RecordCall r \<Rightarrow>
          \<lparr>record_type = Logs, seq = n, ts_unix_ns = pr_ts (record_fields now r), payload = plugin_otlp_payload K (record_fields now r)\<rparr>
      | GenericCall r \<Rightarrow>
          \<lparr>record_type = generic_record_type (ir_record_type r), seq = n,
           ts_unix_ns = (if ir_timestamp_unix_ns r \<noteq> 0 then ir_timestamp_unix_ns r else now),
           payload = (case ir_payload r of None \<Rightarrow> [] | Some bs \<Rightarrow> bs)\<rparr>)"

fun wires_of_calls :: "otlp_codec \<Rightarrow> (nat \<Rightarrow> u64) \<Rightarrow> u64 \<Rightarrow> nat \<Rightarrow> plugin_call list \<Rightarrow> wire_record list" where
  "wires_of_calls K clock n k [] = []"
| "wires_of_calls K clock n k (c # cs) = wire_of_call K n (clock k) c # wires_of_calls K clock (n + 1) (k + 1) cs"

lemma on_call_stores:
  "on_call X K clock c (k, d) = (k', d') \<Longrightarrow>
   k' = k + 1 \<and> dm_next_seq d' = dm_next_seq d + 1 \<and>
   dm_spool d' = snd (spool_append X (wire_of_call K (dm_next_seq d) (clock k) c) (dm_spool d))"
  by (cases c)
    (auto simp: on_call_def on_record_def on_generic_record_def fetch_seq_def append_to_spool_def wire_of_call_def Let_def)

lemma calls_store:
  "fold (on_call X K clock) cs (k, d) = (k', d') \<Longrightarrow>
   dm_next_seq d' = dm_next_seq d + of_nat (length cs) \<and>
   dm_spool d' = fold (\<lambda>r s. snd (spool_append X r s)) (wires_of_calls K clock (dm_next_seq d) k cs) (dm_spool d)"
proof (induction cs arbitrary: k d)
  case (Cons c cs)
  obtain k1 d1 where s: "on_call X K clock c (k, d) = (k1, d1)" by (metis surj_pair)
  from Cons.prems s have "fold (on_call X K clock) cs (k1, d1) = (k', d')" by simp
  from Cons.IH [OF this] on_call_stores [OF s] show ?case by (simp add: algebra_simps)
qed simp

end
