(* ===== verification/Lj_Path.thy ===== *)
theory Lj_Path
  imports Lj_Dedup_Text
begin

text \<open>
  \<^verbatim>\<open>std::path::Path\<close> on Unix as far as the sources use it. A path is its text; its components are the
  pieces between slashes without empty pieces and without \<^verbatim>\<open>.\<close>, except for a leading one. Two paths are equal
  when their components are.
\<close>

definition path_absolute :: "string \<Rightarrow> bool" where
  "path_absolute p \<longleftrightarrow> (case p of c # _ \<Rightarrow> c = CHR ''/'' | [] \<Rightarrow> False)"

definition path_components :: "string \<Rightarrow> string list" where
  "path_components p =
     (let pieces = split_on CHR ''/'' p; kept = filter (\<lambda>c. c \<noteq> [] \<and> c \<noteq> ''.'') pieces in
      if hd pieces = ''.'' then ''.'' # kept else kept)"

definition path_eq :: "string \<Rightarrow> string \<Rightarrow> bool" where
  "path_eq p q \<longleftrightarrow> path_absolute p = path_absolute q \<and> path_components p = path_components q"

definition path_parent :: "string \<Rightarrow> string option" where
  "path_parent p =
     (let cs = path_components p in
      if cs = [] then None
      else Some ((if path_absolute p then ''/'' else []) @ join ''/'' (butlast cs)))"

definition path_file_name :: "string \<Rightarrow> string option" where
  "path_file_name p =
     (let cs = path_components p in
      if cs = [] \<or> last cs = ''..'' \<or> last cs = ''.'' then None else Some (last cs))"

text \<open>The last dot splits a file name, unless it is the first character.\<close>

definition split_at_dot :: "string \<Rightarrow> string option \<times> string option" where
  "split_at_dot name =
     (case split_once CHR ''.'' (rev name) of
        None \<Rightarrow> (None, Some name)
      | Some (after, before) \<Rightarrow> if before = [] then (Some name, None) else (Some (rev before), Some (rev after)))"

definition path_file_stem :: "string \<Rightarrow> string option" where
  "path_file_stem p =
     Option.bind (path_file_name p)
       (\<lambda>name. case split_at_dot name of (before, after) \<Rightarrow> if before \<noteq> None then before else after)"

definition path_extension :: "string \<Rightarrow> string option" where
  "path_extension p =
     Option.bind (path_file_name p)
       (\<lambda>name. case split_at_dot name of (before, after) \<Rightarrow> if before \<noteq> None then after else None)"

definition path_join :: "string \<Rightarrow> string \<Rightarrow> string" where
  "path_join a b =
     (if path_absolute b then b
      else if a = [] \<or> last a = CHR ''/'' then a @ b
      else a @ ''/'' @ b)"

section \<open>Splitting\<close>

lemma split_on_nonempty [simp]: "split_on d s \<noteq> []"
  by (induction s) (auto split: list.splits)

lemma split_on_free: "d \<notin> set s \<Longrightarrow> split_on d s = [s]"
  by (induction s) auto

lemma split_on_append: "d \<notin> set a \<Longrightarrow> split_on d (a @ d # b) = a # split_on d b"
  by (induction a) auto

lemma split_once_free: "d \<notin> set s \<Longrightarrow> split_once d s = None"
  by (induction s) auto

lemma split_once_append: "d \<notin> set a \<Longrightarrow> split_once d (a @ d # b) = Some (a, b)"
  by (induction a) auto

lemma split_once_Some: "split_once d s = Some (a, b) \<Longrightarrow> s = a @ d # b \<and> d \<notin> set a"
proof (induction s arbitrary: a)
  case (Cons c s)
  show ?case
  proof (cases "c = d")
    case True
    with Cons.prems show ?thesis by simp
  next
    case False
    with Cons.prems obtain a' where "split_once d s = Some (a', b)" "a = c # a'" by auto
    with Cons.IH [of a'] False show ?thesis by simp
  qed
qed simp

end
