(* ===== verification/Lj_Syslog.thy ===== *)
theory Lj_Syslog
  imports Lj_Plugin Lj_Path
begin

text \<open>
  The syslog ingest plugin (\<^verbatim>\<open>plugins/syslog-ingest/src/lib.rs\<close>): a byte stream is cut at newlines and
  each line is parsed into severity, facility, host, application and text.

  The plugin reads the clock once for each record: \<open>clock k\<close> is the \<open>k\<close>-th reading, and the number of readings is kept
  in the context. A callback that has been registered is the flag \<open>sy_callback\<close>.
\<close>

section \<open>Parsing a line\<close>

record syslog_parsed =
  sp_severity :: i32
  sp_severity_text :: string
  sp_facility_text :: string
  sp_hostname :: string
  sp_app_name :: string
  sp_body :: string

definition map_syslog_severity :: "u32 \<Rightarrow> i32 \<times> string" where
  "map_syslog_severity s =
     (if s = 0 \<or> s = 1 \<or> s = 2 then (21, ''FATAL'')
      else if s = 3 then (17, ''ERROR'')
      else if s = 4 then (13, ''WARN'')
      else if s = 5 \<or> s = 6 then (9, ''INFO'')
      else if s = 7 then (5, ''DEBUG'')
      else (1, ''TRACE''))"

definition facility_table :: "string list" where
  "facility_table =
     [''kern'', ''user'', ''mail'', ''daemon'', ''auth'', ''syslog'', ''lpr'', ''news'', ''uucp'', ''cron'', ''authpriv'', ''ftp'',
      ''ntp'', ''audit'', ''console'', ''clock'', ''local0'', ''local1'', ''local2'', ''local3'', ''local4'', ''local5'', ''local6'',
      ''local7'']"

definition facility_name :: "u32 \<Rightarrow> string" where
  "facility_name f = (if unat f < length facility_table then facility_table ! unat f else ''unknown'')"

definition looks_like_month :: "string \<Rightarrow> bool" where
  "looks_like_month s \<longleftrightarrow>
     s \<in> {''Jan'', ''Feb'', ''Mar'', ''Apr'', ''May'', ''Jun'', ''Jul'', ''Aug'', ''Sep'', ''Oct'', ''Nov'', ''Dec''}"

definition split_app_body :: "string \<Rightarrow> string \<times> string" where
  "split_app_body s =
     (case split_once CHR '':'' s of
        Some (app_raw, rest) \<Rightarrow> (trim (hd (split_on CHR ''['' app_raw)), trim_start rest)
      | None \<Rightarrow> ([], s))"

text \<open>\<^verbatim>\<open>str::splitn\<close>.\<close>

fun splitn :: "nat \<Rightarrow> char \<Rightarrow> string \<Rightarrow> string list" where
  "splitn 0 d s = []"
| "splitn (Suc 0) d s = [s]"
| "splitn (Suc (Suc n)) d s = (case split_once d s of None \<Rightarrow> [s] | Some (a, b) \<Rightarrow> a # splitn (Suc n) d b)"

definition extract_header_fields :: "string \<Rightarrow> string \<times> string \<times> string" where
  "extract_header_fields m =
     (let parts = splitn 4 CHR '' '' m in
      if length parts \<ge> 4 \<and> looks_like_month (parts ! 0) then
        let (hostname, after_host) = (case split_once CHR '' '' (parts ! 3) of Some p \<Rightarrow> p | None \<Rightarrow> (parts ! 3, []));
            (app_name, body) = split_app_body after_host
        in (hostname, app_name, body)
      else if length parts \<ge> 3 then
        let parts3 = splitn 3 CHR '' '' m;
            rest = (if 2 < length parts3 then parts3 ! 2 else []);
            (app_name, body) = split_app_body rest
        in (parts ! 0, app_name, body)
      else ([], [], m))"

definition parse_u32 :: "string \<Rightarrow> u32 option" where
  "parse_u32 s = (case parse_nat_below (2 ^ 32) s of Inr n \<Rightarrow> Some (of_nat n) | Inl _ \<Rightarrow> None)"

definition skip_version :: "string \<Rightarrow> string" where
  "skip_version s =
     (if (case s of c # _ \<Rightarrow> is_ascii_digit c | [] \<Rightarrow> False)
      then (case str_get_from 2 s of Some t \<Rightarrow> t | None \<Rightarrow> s) else s)"

definition raw_line :: "string \<Rightarrow> syslog_parsed" where
  "raw_line line =
     \<lparr>sp_severity = 9, sp_severity_text = ''INFO'', sp_facility_text = ''user'', sp_hostname = [], sp_app_name = [],
      sp_body = line\<rparr>"

definition parse_syslog :: "string \<Rightarrow> syslog_parsed" where
  "parse_syslog line =
     (case Option.bind (strip_prefix ''<'' line) (split_once CHR ''>'') of
        None \<Rightarrow> raw_line line
      | Some (digits, after_pri) \<Rightarrow>
          (case parse_u32 digits of
             None \<Rightarrow> raw_line line
           | Some pri \<Rightarrow>
               let (severity, text) = map_syslog_severity (pri AND 0x07);
                   (hostname, app_name, body) = extract_header_fields (skip_version after_pri)
               in \<lparr>sp_severity = severity, sp_severity_text = text, sp_facility_text = facility_name (drop_bit 3 pri),
                   sp_hostname = hostname, sp_app_name = app_name, sp_body = body\<rparr>))"

section \<open>The stream\<close>

record syslog_plugin =
  sy_buf :: bytes
  sy_callback :: bool
  sy_ticks :: nat

definition syslog_create :: "syslog_plugin option" where
  "syslog_create = Some \<lparr>sy_buf = [], sy_callback = False, sy_ticks = 0\<rparr>"

definition syslog_set_callback :: "syslog_plugin \<Rightarrow> syslog_plugin" where
  "syslog_set_callback ctx = ctx\<lparr>sy_callback := True\<rparr>"

definition is_ascii_whitespace :: "u8 \<Rightarrow> bool" where
  "is_ascii_whitespace b \<longleftrightarrow> b = 0x20 \<or> b = 0x09 \<or> b = 0x0A \<or> b = 0x0C \<or> b = 0x0D"

definition strip_trailing_whitespace :: "bytes \<Rightarrow> bytes" where
  "strip_trailing_whitespace bs = rev (dropWhile is_ascii_whitespace (rev bs))"

definition cstring_lossy :: "string \<Rightarrow> string" where
  "cstring_lossy s = map (\<lambda>c. if of_char c = (0 :: nat) then CHR '' '' else c) s"

definition string_attribute :: "string \<Rightarrow> string \<Rightarrow> lj_attribute" where
  "string_attribute k v = \<lparr>la_key = Some (cstring_lossy k), la_value = Some (cstring_lossy v), la_value_type = LJ_ATTR_STRING\<rparr>"

definition syslog_record :: "u64 \<Rightarrow> bytes \<Rightarrow> lj_log_record" where
  "syslog_record ts line =
     (let parsed = parse_syslog (from_utf8_lossy (of_text line)) in
      \<lparr>lr_timestamp_unix_ns = ts, lr_severity_number = sp_severity parsed,
       lr_severity_text = Some (cstring_lossy (sp_severity_text parsed)), lr_body = Some (cstring_lossy (sp_body parsed)),
       lr_attributes = Some
         [string_attribute ''syslog.facility'' (sp_facility_text parsed),
          string_attribute ''syslog.hostname'' (sp_hostname parsed),
          string_attribute ''syslog.appname'' (sp_app_name parsed)],
       lr_event_name = None, lr_service_name = None, lr_scope_name = None, lr_resource_attrs = None, lr_scope_attrs = None\<rparr>)"

definition syslog_emit_record :: "(nat \<Rightarrow> u64) \<Rightarrow> bytes \<Rightarrow> syslog_plugin \<Rightarrow> plugin_call list \<times> syslog_plugin" where
  "syslog_emit_record clock line ctx =
     (if sy_callback ctx
      then ([RecordCall (syslog_record (clock (sy_ticks ctx)) line)], ctx\<lparr>sy_ticks := sy_ticks ctx + 1\<rparr>)
      else ([], ctx))"

text \<open>The buffer up to and including the first newline, and what follows.\<close>

fun take_line :: "bytes \<Rightarrow> (bytes \<times> bytes) option" where
  "take_line [] = None"
| "take_line (b # bs) = (if b = 0x0A then Some ([b], bs) else map_option (apfst ((#) b)) (take_line bs))"

lemma take_line_split: "take_line bs = Some (line, rest) \<Longrightarrow> bs = line @ rest \<and> line \<noteq> []"
  by (induction bs arbitrary: line) (auto split: if_splits)

function feed_lines :: "(nat \<Rightarrow> u64) \<Rightarrow> syslog_plugin \<Rightarrow> plugin_call list \<times> syslog_plugin" where
  "feed_lines clock ctx =
     (case take_line (sy_buf ctx) of
        None \<Rightarrow> ([], ctx)
      | Some (line, rest) \<Rightarrow>
          let ctx = ctx\<lparr>sy_buf := rest\<rparr>;
              trimmed = strip_trailing_whitespace line;
              (calls, ctx) = (if trimmed \<noteq> [] then syslog_emit_record clock trimmed ctx else ([], ctx));
              (more, ctx) = feed_lines clock ctx
          in (calls @ more, ctx))"
  by pat_completeness auto
termination
proof (relation "measure (\<lambda>(clock, ctx). length (sy_buf ctx))", goal_cases)
  case (2 clock ctx p line rest ctx' trimmed q calls ctx'')
  then have "sy_buf ctx'' = rest" by (auto simp: syslog_emit_record_def split: if_splits)
  with 2 take_line_split [of "sy_buf ctx" line rest] show ?case by auto
qed simp

declare feed_lines.simps [simp del]

definition LINE_LIMIT :: nat where "LINE_LIMIT = 256 * 1024"

definition syslog_feed :: "(nat \<Rightarrow> u64) \<Rightarrow> bytes \<Rightarrow> syslog_plugin \<Rightarrow> plugin_call list \<times> i32 \<times> syslog_plugin" where
  "syslog_feed clock bs ctx =
     (case feed_lines clock (ctx\<lparr>sy_buf := sy_buf ctx @ bs\<rparr>) of (calls, ctx) \<Rightarrow>
      (calls, 0, if length (sy_buf ctx) > LINE_LIMIT then ctx\<lparr>sy_buf := []\<rparr> else ctx))"

definition syslog_handle :: "(nat \<Rightarrow> u64) \<Rightarrow> syslog_plugin plugin_handle" where
  "syslog_handle clock =
     \<lparr>ph_create = syslog_create, ph_set_callback = syslog_set_callback, ph_feed = syslog_feed clock, ph_fetch = None,
      ph_set_generic_callback = None\<rparr>"

section \<open>Lines of a stream\<close>

fun segments :: "bytes \<Rightarrow> bytes list" where
  "segments [] = [[]]"
| "segments (b # bs) = (if b = 0x0A then [] # segments bs else (b # hd (segments bs)) # tl (segments bs))"

lemma segments_nonempty [simp]: "segments bs \<noteq> []"
  by (cases bs) auto

lemma segments_free: "0x0A \<notin> set bs \<Longrightarrow> segments bs = [bs]"
  by (induction bs) auto

lemma last_segment_free: "0x0A \<notin> set (last (segments bs))"
proof (induction bs)
  case (Cons b bs)
  obtain s ss where "segments bs = s # ss" by (cases "segments bs") auto
  with Cons show ?case by (cases ss) auto
qed simp

lemma segments_cut: "segments (x @ y) = butlast (segments x) @ segments (last (segments x) @ y)"
proof (induction x)
  case (Cons b x)
  obtain s ss where s: "segments x = s # ss" by (cases "segments x") auto
  show ?case
  proof (cases "b = 0x0A")
    case True
    with Cons show ?thesis by simp
  next
    case False
    with Cons s show ?thesis by (cases ss) auto
  qed
qed simp

lemma take_line_segments:
  "take_line bs = None \<Longrightarrow> segments bs = [bs]"
  "take_line bs = Some (line, rest) \<Longrightarrow> \<exists>l. line = l @ [0x0A] \<and> segments bs = l # segments rest"
proof (induction bs arbitrary: line)
  case (Cons b bs)
  {
    case 1
    with Cons.IH(1) show ?case by (auto split: if_splits)
  next
    case 2
    then show ?case using Cons.IH(2) by (cases "b = 0x0A") auto
  }
qed auto

lemma strip_newline: "strip_trailing_whitespace (l @ [0x0A]) = strip_trailing_whitespace l"
  by (simp add: strip_trailing_whitespace_def is_ascii_whitespace_def)

definition nonblank :: "bytes list \<Rightarrow> bytes list" where
  "nonblank ls = filter (\<lambda>l. l \<noteq> []) (map strip_trailing_whitespace ls)"

fun line_calls :: "(nat \<Rightarrow> u64) \<Rightarrow> nat \<Rightarrow> bytes list \<Rightarrow> plugin_call list" where
  "line_calls clock k [] = []"
| "line_calls clock k (l # ls) = RecordCall (syslog_record (clock k) l) # line_calls clock (k + 1) ls"

lemma line_calls_append: "line_calls clock k (xs @ ys) = line_calls clock k xs @ line_calls clock (k + length xs) ys"
  by (induction xs arbitrary: k) auto

lemma length_line_calls [simp]: "length (line_calls clock k ls) = length ls"
  by (induction ls arbitrary: k) auto

text \<open>What is left after the complete lines of the buffer have been delivered.\<close>

definition after_lines :: "syslog_plugin \<Rightarrow> syslog_plugin" where
  "after_lines ctx =
     ctx\<lparr>sy_buf := last (segments (sy_buf ctx)),
         sy_ticks := sy_ticks ctx + length (nonblank (butlast (segments (sy_buf ctx))))\<rparr>"

lemma feed_lines_spec:
  "sy_callback ctx \<Longrightarrow>
   feed_lines clock ctx = (line_calls clock (sy_ticks ctx) (nonblank (butlast (segments (sy_buf ctx)))), after_lines ctx)"
proof (induction clock ctx rule: feed_lines.induct)
  case (1 clock ctx)
  show ?case
  proof (cases "take_line (sy_buf ctx)")
    case None
    with take_line_segments(1) [OF None] show ?thesis
      by (simp add: feed_lines.simps [of clock ctx] after_lines_def nonblank_def)
  next
    case (Some p)
    obtain line rest where p: "take_line (sy_buf ctx) = Some (line, rest)" using Some by (cases p) auto
    from take_line_segments(2) [OF p] obtain l where l: "line = l @ [0x0A]" "segments (sy_buf ctx) = l # segments rest" by blast
    let ?t = "strip_trailing_whitespace l"
    let ?ctx = "if ?t \<noteq> [] then ctx\<lparr>sy_buf := rest, sy_ticks := sy_ticks ctx + 1\<rparr> else ctx\<lparr>sy_buf := rest\<rparr>"
    have "feed_lines clock ?ctx = (line_calls clock (sy_ticks ?ctx) (nonblank (butlast (segments (sy_buf ?ctx)))), after_lines ?ctx)"
    proof (rule "1.IH" [OF p refl refl refl refl])
      show "(if ?t \<noteq> [] then [RecordCall (syslog_record (clock (sy_ticks ctx)) ?t)] else [], ?ctx) =
          (if strip_trailing_whitespace line \<noteq> []
           then syslog_emit_record clock (strip_trailing_whitespace line) (ctx\<lparr>sy_buf := rest\<rparr>) else ([], ctx\<lparr>sy_buf := rest\<rparr>))"
        using "1.prems" l(1) by (simp add: strip_newline syslog_emit_record_def)
    qed (use "1.prems" in simp)
    moreover have "sy_buf ?ctx = rest" by simp
    ultimately show ?thesis using p l "1.prems"
      by (cases "?t = []")
        (simp_all add: feed_lines.simps [of clock ctx] strip_newline syslog_emit_record_def nonblank_def after_lines_def)
  qed
qed

definition syslog_fits :: "bytes \<Rightarrow> syslog_plugin \<Rightarrow> bool" where
  "syslog_fits bs ctx \<longleftrightarrow>
     sy_callback ctx \<and> 0x0A \<notin> set (sy_buf ctx) \<and> (\<forall>l\<in>set (segments (sy_buf ctx @ bs)). length l \<le> LINE_LIMIT)"

lemma syslog_feed_spec:
  assumes "syslog_fits bs ctx"
  shows "syslog_feed clock bs ctx =
     (line_calls clock (sy_ticks ctx) (nonblank (butlast (segments (sy_buf ctx @ bs)))), 0,
      after_lines (ctx\<lparr>sy_buf := sy_buf ctx @ bs\<rparr>))"
proof -
  have "length (last (segments (sy_buf ctx @ bs))) \<le> LINE_LIMIT" and "sy_callback ctx"
    using assms last_in_set [OF segments_nonempty [of "sy_buf ctx @ bs"]] unfolding syslog_fits_def by blast+
  then show ?thesis by (simp add: syslog_feed_def feed_lines_spec after_lines_def)
qed

lemma hd_segments: "0x0A \<notin> set l \<Longrightarrow> hd (segments (l @ y)) = l @ hd (segments y)"
  by (induction l) auto

lemma syslog_fits_cut:
  assumes "syslog_fits (bs @ cs) ctx"
  shows "syslog_fits bs ctx" and "syslog_fits cs (after_lines (ctx\<lparr>sy_buf := sy_buf ctx @ bs\<rparr>))"
proof -
  let ?l = "last (segments (sy_buf ctx @ bs))"
  have cut: "segments (sy_buf ctx @ bs @ cs) = butlast (segments (sy_buf ctx @ bs)) @ segments (?l @ cs)"
    using segments_cut [of "sy_buf ctx @ bs" cs] by simp
  have a: "sy_callback ctx" "0x0A \<notin> set (sy_buf ctx)"
    "\<forall>l\<in>set (butlast (segments (sy_buf ctx @ bs))). length l \<le> LINE_LIMIT"
    "\<forall>l\<in>set (segments (?l @ cs)). length l \<le> LINE_LIMIT"
    using assms by (auto simp: syslog_fits_def cut)
  have "length (hd (segments (?l @ cs))) \<le> LINE_LIMIT"
    using a(4) hd_in_set [OF segments_nonempty [of "?l @ cs"]] by blast
  then have l: "length ?l \<le> LINE_LIMIT" by (simp add: hd_segments [OF last_segment_free])
  have "set (segments (sy_buf ctx @ bs)) = insert ?l (set (butlast (segments (sy_buf ctx @ bs))))"
    by (metis append_butlast_last_id list.set(2) rotate1.simps(2) segments_nonempty set_rotate1)
  with a l show "syslog_fits bs ctx" by (simp add: syslog_fits_def)
  from a show "syslog_fits cs (after_lines (ctx\<lparr>sy_buf := sy_buf ctx @ bs\<rparr>))"
    by (simp add: syslog_fits_def after_lines_def last_segment_free)
qed

lemma nonblank_append: "nonblank (xs @ ys) = nonblank xs @ nonblank ys"
  by (simp add: nonblank_def)

interpretation syslog: chunked_plugin "syslog_handle clock" syslog_fits for clock
proof (unfold_locales, goal_cases)
  case (1 c)
  then have "sy_buf c = last (segments (sy_buf c))" "butlast (segments (sy_buf c)) = []"
    by (simp_all add: syslog_fits_def segments_free)
  with 1 show ?case by (simp add: syslog_handle_def syslog_feed_spec after_lines_def nonblank_def)
next
  case (2 bs cs c k1 r1 c1 k2 r2 c2)
  have cut: "segments (sy_buf c @ bs @ cs) =
      butlast (segments (sy_buf c @ bs)) @ segments (last (segments (sy_buf c @ bs)) @ cs)"
    using segments_cut [of "sy_buf c @ bs" cs] by simp
  note fits = syslog_fits_cut [OF 2(1)]
  from 2(2) have k1: "k1 = line_calls clock (sy_ticks c) (nonblank (butlast (segments (sy_buf c @ bs))))" "r1 = 0"
      "c1 = after_lines (c\<lparr>sy_buf := sy_buf c @ bs\<rparr>)"
    by (simp_all add: syslog_handle_def syslog_feed_spec [OF fits(1)])
  with fits(2) 2(3) show ?case
    by (simp add: syslog_handle_def syslog_feed_spec 2(1))
      (simp add: cut after_lines_def butlast_append nonblank_append line_calls_append add.assoc)
qed

section \<open>What a connection stores\<close>

text \<open>The records of a stream, numbered from \<open>n\<close>: one for each line that is complete and not blank.\<close>

definition stream_lines :: "bytes \<Rightarrow> bytes list" where
  "stream_lines bs = nonblank (butlast (segments bs))"

definition syslog_wires :: "otlp_codec \<Rightarrow> (nat \<Rightarrow> u64) \<Rightarrow> (nat \<Rightarrow> u64) \<Rightarrow> u64 \<Rightarrow> nat \<Rightarrow> bytes \<Rightarrow> wire_record list" where
  "syslog_wires K tick clock n k bs =
     map (\<lambda>(i, line). let rec = record_fields (clock (k + i)) (syslog_record (tick i) line) in
            \<lparr>record_type = Logs, seq = n + of_nat i, ts_unix_ns = pr_ts rec, payload = enc_logs K (plugin_request rec)\<rparr>)
         (enumerate 0 (stream_lines bs))"

lemma wires_of_line_calls:
  "wires_of_calls K clock (n + of_nat j) (k + j) (line_calls tick j ls) =
   map (\<lambda>(i, line). let rec = record_fields (clock (k + i)) (syslog_record (tick i) line) in
          \<lparr>record_type = Logs, seq = n + of_nat i, ts_unix_ns = pr_ts rec, payload = enc_logs K (plugin_request rec)\<rparr>)
       (enumerate j ls)"
proof (induction ls arbitrary: j)
  case (Cons l ls)
  from Cons [of "j + 1"] show ?case by (simp add: wire_of_call_def plugin_otlp_payload_def Let_def algebra_simps)
qed simp

lemma syslog_client_run:
  assumes "\<forall>bs\<in>set chunks. bs \<noteq> []" and "\<forall>l\<in>set (segments (concat chunks)). length l \<le> LINE_LIMIT"
  shows "handle_plugin_client X K clock (syslog_handle tick) (map Inr chunks) st =
    (Inr (), fold (on_call X K clock) (line_calls tick 0 (stream_lines (concat chunks))) st)"
proof -
  let ?c = "\<lparr>sy_buf = [], sy_callback = True, sy_ticks = 0\<rparr>"
  have f: "syslog_fits (concat chunks) ?c" using assms(2) by (simp add: syslog_fits_def)
  have feed: "ph_feed (syslog_handle tick) (concat chunks) ?c =
      (line_calls tick 0 (stream_lines (concat chunks)), 0, after_lines (?c\<lparr>sy_buf := concat chunks\<rparr>))"
    using syslog_feed_spec [OF f] by (simp add: syslog_handle_def stream_lines_def)
  have "ph_create (syslog_handle tick) = Some \<lparr>sy_buf = [], sy_callback = False, sy_ticks = 0\<rparr>"
    "register_callbacks (syslog_handle tick) \<lparr>sy_buf = [], sy_callback = False, sy_ticks = 0\<rparr> = ?c"
    by (simp_all add: register_callbacks_def syslog_handle_def syslog_set_callback_def syslog_create_def)
  with syslog.client_feeds_the_stream [OF assms(1) f feed] show ?thesis by (simp add: handle_plugin_client_def)
qed

text \<open>C40. The only TCP client of the syslog plugin: however the connection cuts the stream into reads, as long as no line is
  longer than 256 KiB the connection ends well, and the spool is the old one with one record appended for each complete
  line that is not blank, in order, with consecutive sequence numbers and one encoded log with the fields of the parsed
  line. Errors of the spool do not stop the connection.\<close>

theorem syslog_stream_is_stored:
  assumes "\<forall>bs\<in>set chunks. bs \<noteq> []" and "\<forall>l\<in>set (segments (concat chunks)). length l \<le> LINE_LIMIT"
    and "handle_plugin_client X K clock (syslog_handle tick) (map Inr chunks) (k, d) = (res, k', d')"
  shows "res = Inr () \<and>
    dm_spool d' = fold (\<lambda>r s. snd (spool_append X r s))
      (syslog_wires K tick clock (dm_next_seq d) k (concat chunks)) (dm_spool d) \<and>
    dm_next_seq d' = dm_next_seq d + of_nat (length (stream_lines (concat chunks)))"
  using assms(3) calls_store [of X K clock "line_calls tick 0 (stream_lines (concat chunks))" k d k' d']
    wires_of_line_calls [of K clock "dm_next_seq d" 0 k tick]
  by (auto simp: syslog_client_run [OF assms(1,2)] syslog_wires_def)

theorem syslog_stream_is_stored_witness:
  "\<exists>X K d k' d'. handle_plugin_client X K (\<lambda>_. 1) (syslog_handle (\<lambda>_. 7)) (map Inr [[0x68], [0x69, 0x0A, 0x0A, 0x21]]) (0, d) =
     (Inr (), k', d') \<and> dm_next_seq d = 1 \<and> dm_next_seq d' = 2"
proof -
  fix X K and cfg :: daemon_config
  let ?d = "fresh_daemon (memory_cfg cfg)" and ?chunks = "[[0x68], [0x69, 0x0A, 0x0A, 0x21 :: u8]]"
  obtain res k' d' where run:
    "handle_plugin_client X K (\<lambda>_. 1) (syslog_handle (\<lambda>_. 7)) (map Inr ?chunks) (0, ?d) = (res, k', d')" by (metis surj_pair)
  have "length (stream_lines (concat ?chunks)) = 1"
    by (simp add: stream_lines_def nonblank_def strip_trailing_whitespace_def is_ascii_whitespace_def)
  then have "res = Inr () \<and> dm_next_seq d' = dm_next_seq ?d + 1"
    using syslog_stream_is_stored [OF _ _ run] by (simp add: LINE_LIMIT_def)
  moreover have "dm_next_seq ?d = 1" by (simp add: fresh_daemon_def)
  ultimately show ?thesis using run by (intro exI [of _ X] exI [of _ K] exI [of _ ?d]) auto
qed

section \<open>The fields of a line\<close>

lemma fields_3164:
  assumes "looks_like_month mon" and "CHR '' '' \<notin> set day" "CHR '' '' \<notin> set time" "CHR '' '' \<notin> set host"
    and "CHR '':'' \<notin> set app" "CHR ''['' \<notin> set app" "trim app = app" and "trim_start body = body"
  shows "extract_header_fields (mon @ '' '' @ day @ '' '' @ time @ '' '' @ host @ '' '' @ app @ '': '' @ body) = (host, app, body)"
proof -
  have m: "CHR '' '' \<notin> set mon" using assms(1) by (auto simp: looks_like_month_def)
  have "splitn 4 CHR '' '' (mon @ '' '' @ day @ '' '' @ time @ '' '' @ host @ '' '' @ app @ '': '' @ body) =
      [mon, day, time, host @ '' '' @ app @ '': '' @ body]"
    using m assms(2-3) by (simp add: eval_nat_numeral split_once_append)
  moreover have "split_once CHR '' '' (host @ '' '' @ app @ '': '' @ body) = Some (host, app @ '': '' @ body)"
    using assms(4) by (simp add: split_once_append)
  moreover have "split_app_body (app @ '': '' @ body) = (app, body)"
    using assms(5-8)
    by (simp add: split_app_body_def split_once_append split_on_free) (simp add: trim_start_def is_ws_def)
  ultimately show ?thesis using assms(1) by (simp add: extract_header_fields_def)
qed

lemma splitn_numerals:
  "splitn 4 d s = (case split_once d s of None \<Rightarrow> [s] | Some (a, b) \<Rightarrow> a # splitn 3 d b)"
  "splitn 3 d s = (case split_once d s of None \<Rightarrow> [s] | Some (a, b) \<Rightarrow> a # splitn 2 d b)"
  "splitn 2 d s = (case split_once d s of None \<Rightarrow> [s] | Some (a, b) \<Rightarrow> [a, b])"
  by (simp_all add: eval_nat_numeral split: option.split)

lemmas syslog_eval =
  parse_syslog_def parse_u32_def parse_nat_below_def to_digit_def skip_version_def is_ascii_digit_def map_syslog_severity_def
  extract_header_fields_def splitn_numerals looks_like_month_def split_app_body_def trim_def trim_start_def trim_end_def
  is_ws_def facility_name_def facility_table_def str_get_from_def is_char_boundary_def is_cont_def

lemma sample_3164:
  "parse_syslog ''<34>Oct 11 22:14:15 box sshd[1234]: accepted key'' =
     \<lparr>sp_severity = 21, sp_severity_text = ''FATAL'', sp_facility_text = ''auth'', sp_hostname = ''box'', sp_app_name = ''sshd'',
      sp_body = ''accepted key''\<rparr>"
  by (simp add: syslog_eval)

text \<open>A day below ten is padded with a space in this format; the time is then taken for the host.\<close>

lemma padded_day_shifts_the_fields:
  "sp_hostname (parse_syslog ''<34>Oct  1 22:14:15 box sshd[1234]: accepted key'') = ''22:14:15''"
  by (simp add: syslog_eval)

text \<open>In the newer format the first field is the time stamp and the second the host; the first is taken for the host and
  the second is dropped.\<close>

lemma rfc5424_host_is_the_time:
  "sp_hostname (parse_syslog ''<165>1 2023-10-11T22:14:15Z myhost myapp - - - boom'') = ''2023-10-11T22:14:15Z''"
  by (simp add: syslog_eval)

end
