(* ===== verification/Lj_Logcat.thy ===== *)
theory Lj_Logcat
  imports Lj_Syslog
begin

text \<open>
  The Android logcat ingest plugin (\<^verbatim>\<open>plugins/logcat-ingest/src/lib.rs\<close>), an active source: it reads lines
  from its standard input and parses the formats \<^verbatim>\<open>threadtime\<close> and \<^verbatim>\<open>brief\<close>. The bytes of the
  standard input and the clock are arguments.
\<close>

section \<open>Parsing a line\<close>

record logcat_parsed =
  lp_severity :: i32
  lp_severity_text :: string
  lp_pid :: string
  lp_tid :: string
  lp_tag :: string
  lp_body :: string

definition map_logcat_level :: "char \<Rightarrow> i32 \<times> string" where
  "map_logcat_level c =
     (if c = CHR ''V'' then (1, ''TRACE'')
      else if c = CHR ''D'' then (5, ''DEBUG'')
      else if c = CHR ''I'' then (9, ''INFO'')
      else if c = CHR ''W'' then (13, ''WARN'')
      else if c = CHR ''E'' then (17, ''ERROR'')
      else if c = CHR ''F'' \<or> c = CHR ''A'' then (21, ''FATAL'')
      else if c = CHR ''S'' then (21, ''FATAL'')
      else (9, ''INFO''))"

text \<open>\<^verbatim>\<open>str::find\<close> of a text: what precedes its first occurrence and what follows it.\<close>

fun split_str :: "string \<Rightarrow> string \<Rightarrow> (string \<times> string) option" where
  "split_str p [] = (if p = [] then Some ([], []) else None)"
| "split_str p (c # cs) =
     (case strip_prefix p (c # cs) of
        Some rest \<Rightarrow> Some ([], rest)
      | None \<Rightarrow> map_option (apfst ((#) c)) (split_str p cs))"

definition split_first_token :: "string \<Rightarrow> (string \<times> string) option" where
  "split_first_token s =
     (let s = trim_start s in
      if list_ex is_ws s then Some (takeWhile (\<lambda>c. \<not> is_ws c) s, dropWhile (\<lambda>c. \<not> is_ws c) s) else None)"

definition trim_end_matches :: "char \<Rightarrow> string \<Rightarrow> string" where
  "trim_end_matches d s = rev (dropWhile (\<lambda>c. c = d) (rev s))"

definition tag_and_body :: "string \<Rightarrow> string \<times> string" where
  "tag_and_body rest =
     (case split_str '': '' rest of Some (tag, body) \<Rightarrow> (trim tag, body) | None \<Rightarrow> (trim rest, []))"

definition try_threadtime :: "string \<Rightarrow> logcat_parsed option" where
  "try_threadtime line =
     (if length line < 25 then None
      else if line ! 2 \<noteq> CHR ''-'' \<or> line ! 5 \<noteq> CHR '' '' \<or> line ! 8 \<noteq> CHR '':'' then None
      else
        Option.bind (str_get_from 18 line) (\<lambda>rest.
        Option.bind (split_first_token (trim_start rest)) (\<lambda>(pid, rest).
        Option.bind (split_first_token (trim_start rest)) (\<lambda>(tid, rest).
        case trim_start rest of
          [] \<Rightarrow> None
        | level # rem \<Rightarrow>
            Option.bind (str_get_from 1 (level # rem)) (\<lambda>rest.
            let (tag, body) = tag_and_body (trim_start rest);
                (severity, text) = map_logcat_level level
            in Some \<lparr>lp_severity = severity, lp_severity_text = text, lp_pid = pid, lp_tid = tid, lp_tag = tag, lp_body = body\<rparr>)))))"

definition try_brief :: "string \<Rightarrow> logcat_parsed option" where
  "try_brief line =
     (if length line < 4 \<or> line ! 1 \<noteq> CHR ''/'' then None
      else
        let rest = drop 2 line;
            (tag_pid, body) = (case split_str ''): '' rest of Some (a, b) \<Rightarrow> (a @ '')'', trim_start b) | None \<Rightarrow> (rest, []));
            (tag, pid) = (case split_once CHR ''('' tag_pid of
               Some (tag, paren) \<Rightarrow> (tag, trim (trim_end_matches CHR '')'' paren))
             | None \<Rightarrow> (tag_pid, []));
            (severity, text) = map_logcat_level (line ! 0)
        in Some \<lparr>lp_severity = severity, lp_severity_text = text, lp_pid = pid, lp_tid = [], lp_tag = tag, lp_body = body\<rparr>)"

definition parse_logcat :: "string \<Rightarrow> logcat_parsed" where
  "parse_logcat line =
     (case try_threadtime line of
        Some p \<Rightarrow> p
      | None \<Rightarrow>
          (case try_brief line of
             Some p \<Rightarrow> p
           | None \<Rightarrow>
               \<lparr>lp_severity = 9, lp_severity_text = ''INFO'', lp_pid = [], lp_tid = [], lp_tag = [], lp_body = line\<rparr>))"

section \<open>The plugin\<close>

record logcat_plugin =
  lc_callback :: bool
  lc_ticks :: nat

definition logcat_create :: "logcat_plugin option" where
  "logcat_create = Some \<lparr>lc_callback = False, lc_ticks = 0\<rparr>"

definition logcat_set_callback :: "logcat_plugin \<Rightarrow> logcat_plugin" where
  "logcat_set_callback ctx = ctx\<lparr>lc_callback := True\<rparr>"

definition logcat_feed :: "bytes \<Rightarrow> logcat_plugin \<Rightarrow> plugin_call list \<times> i32 \<times> logcat_plugin" where
  "logcat_feed bs ctx = ([], 0, ctx)"

definition logcat_record :: "u64 \<Rightarrow> string \<Rightarrow> lj_log_record" where
  "logcat_record ts line =
     (let parsed = parse_logcat line in
      \<lparr>lr_timestamp_unix_ns = ts, lr_severity_number = lp_severity parsed,
       lr_severity_text = Some (cstring_lossy (lp_severity_text parsed)), lr_body = Some (cstring_lossy (lp_body parsed)),
       lr_attributes = Some
         [string_attribute ''logcat.tag'' (lp_tag parsed), string_attribute ''logcat.pid'' (lp_pid parsed),
          string_attribute ''logcat.tid'' (lp_tid parsed)],
       lr_event_name = None, lr_service_name = None, lr_scope_name = None, lr_resource_attrs = None, lr_scope_attrs = None\<rparr>)"

definition logcat_emit_record :: "(nat \<Rightarrow> u64) \<Rightarrow> string \<Rightarrow> logcat_plugin \<Rightarrow> plugin_call list \<times> logcat_plugin" where
  "logcat_emit_record clock line ctx =
     (if lc_callback ctx
      then ([RecordCall (logcat_record (clock (lc_ticks ctx)) line)], ctx\<lparr>lc_ticks := lc_ticks ctx + 1\<rparr>)
      else ([], ctx))"

text \<open>\<^verbatim>\<open>BufRead::lines\<close>: a line that ends with a newline loses it and a carriage return before it; a line that
  is not UTF-8 is an error, after which the loop stops.\<close>

definition input_lines :: "bytes \<Rightarrow> string list" where
  "input_lines bs =
     (let segs = map of_text (segments bs) in
      map strip_cr (butlast segs) @ (if last segs = [] then [] else [last segs]))"

fun fetch_loop :: "(nat \<Rightarrow> u64) \<Rightarrow> string list \<Rightarrow> logcat_plugin \<Rightarrow> plugin_call list \<times> logcat_plugin" where
  "fetch_loop clock [] ctx = ([], ctx)"
| "fetch_loop clock (line # rest) ctx =
     (if \<not> utf8_valid line then ([], ctx)
      else if line = [] then fetch_loop clock rest ctx
      else
        let (calls, ctx) = logcat_emit_record clock line ctx; (more, ctx) = fetch_loop clock rest ctx
        in (calls @ more, ctx))"

definition logcat_fetch :: "(nat \<Rightarrow> u64) \<Rightarrow> bytes \<Rightarrow> logcat_plugin \<Rightarrow> plugin_call list \<times> i32 \<times> logcat_plugin" where
  "logcat_fetch clock stdin ctx = (case fetch_loop clock (input_lines stdin) ctx of (calls, ctx) \<Rightarrow> (calls, 0, ctx))"

definition logcat_handle :: "(nat \<Rightarrow> u64) \<Rightarrow> bytes \<Rightarrow> logcat_plugin plugin_handle" where
  "logcat_handle clock stdin =
     \<lparr>ph_create = logcat_create, ph_set_callback = logcat_set_callback, ph_feed = logcat_feed,
      ph_fetch = Some (logcat_fetch clock stdin), ph_set_generic_callback = None\<rparr>"

interpretation logcat: chunked_plugin "logcat_handle clock stdin" "\<lambda>_ _. True" for clock stdin
  by unfold_locales (auto simp: logcat_handle_def logcat_feed_def)

section \<open>What a run stores\<close>

definition valid_lines :: "bytes \<Rightarrow> string list" where
  "valid_lines stdin = filter (\<lambda>l. l \<noteq> []) (takeWhile utf8_valid (input_lines stdin))"

fun logcat_calls :: "(nat \<Rightarrow> u64) \<Rightarrow> nat \<Rightarrow> string list \<Rightarrow> plugin_call list" where
  "logcat_calls clock k [] = []"
| "logcat_calls clock k (l # ls) = RecordCall (logcat_record (clock k) l) # logcat_calls clock (k + 1) ls"

lemma fetch_loop_calls:
  "lc_callback ctx \<Longrightarrow> fst (fetch_loop clock ls ctx) = logcat_calls clock (lc_ticks ctx) (filter (\<lambda>l. l \<noteq> []) (takeWhile utf8_valid ls))"
  by (induction clock ls ctx rule: fetch_loop.induct)
    (auto simp: logcat_emit_record_def Let_def split: prod.splits)

text \<open>A run of the plugin delivers one record for each nonempty line up to the first one that is not UTF-8.\<close>

lemma logcat_run:
  "run_active_plugin X K clock (logcat_handle tick stdin) st =
   (Inr (), fold (on_call X K clock) (logcat_calls tick 0 (valid_lines stdin)) st)"
proof -
  have "fst (fetch_loop tick (input_lines stdin) \<lparr>lc_callback = True, lc_ticks = 0\<rparr>) = logcat_calls tick 0 (valid_lines stdin)"
    by (simp add: fetch_loop_calls valid_lines_def)
  then obtain ctx where "fetch_loop tick (input_lines stdin) \<lparr>lc_callback = True, lc_ticks = 0\<rparr> =
      (logcat_calls tick 0 (valid_lines stdin), ctx)" by (metis prod.collapse)
  then show ?thesis
    by (simp add: run_active_plugin_def logcat_handle_def logcat_create_def register_callbacks_def logcat_set_callback_def
        logcat_fetch_def)
qed

lemmas logcat_eval =
  parse_logcat_def try_threadtime_def try_brief_def str_get_from_def is_char_boundary_def is_cont_def split_first_token_def
  trim_def trim_start_def trim_end_def is_ws_def tag_and_body_def map_logcat_level_def trim_end_matches_def

lemma sample_threadtime:
  "parse_logcat ''06-11 22:14:15.123  1234  5678 I MyApp   : some message'' =
     \<lparr>lp_severity = 9, lp_severity_text = ''INFO'', lp_pid = ''1234'', lp_tid = ''5678'', lp_tag = ''MyApp'', lp_body = ''some message''\<rparr>"
  by (simp add: logcat_eval)

lemma sample_brief:
  "parse_logcat ''E/MyApp( 1234): message'' =
     \<lparr>lp_severity = 17, lp_severity_text = ''ERROR'', lp_pid = ''1234'', lp_tid = [], lp_tag = ''MyApp'', lp_body = ''message''\<rparr>"
  by (simp add: logcat_eval)

end
