(* ===== verification/Lj_Plugin_Loader.thy ===== *)
theory Lj_Plugin_Loader
  imports Lj_Plugin Lj_Path "HOL-Library.Char_ord" "HOL-Library.List_Lexorder"
begin

text \<open>
  Finding and starting an ingest plugin (\<^verbatim>\<open>logjetd/src/plugin.rs\<close>): search roots, candidates, the
  checks of a descriptor, names of plugins without one, the choice by name, and the environment variables that are set
  while a plugin runs. The file system, the dynamic linker and the process environment are the record \<open>plugin_world\<close>.
\<close>

section \<open>What the loader sees\<close>

record raw_descriptor =
  rd_struct_size :: u32
  rd_abi_major :: u32
  rd_abi_minor :: u32
  rd_name :: c_str
  rd_display_name :: c_str
  rd_reserved0 :: u64

datatype dl_result = DlopenFailed string | SymbolMissing string | DescriptorPtr "raw_descriptor option"

record plugin_world =
  pw_exists :: "string \<Rightarrow> bool"
  pw_is_file :: "string \<Rightarrow> bool"
  pw_read_dir :: "string \<Rightarrow> io_error + (io_error + string) list"
  pw_dlopen :: "string \<Rightarrow> dl_result"
  pw_search_var :: "string list option"
  pw_current_dir :: "string option"
  pw_current_exe :: "string option"

section \<open>Search roots\<close>

definition push_unique_path :: "string \<Rightarrow> string list \<Rightarrow> string list" where
  "push_unique_path p roots = (if list_ex (\<lambda>r. path_eq r p) roots then roots else roots @ [p])"

definition has_parent :: "string \<Rightarrow> bool" where
  "has_parent p \<longleftrightarrow> (case path_parent p of Some parent \<Rightarrow> parent \<noteq> [] | None \<Rightarrow> False)"

definition collect_ingest_plugin_search_roots :: "plugin_world \<Rightarrow> string list" where
  "collect_ingest_plugin_search_roots W =
     (let from_var = (case pw_search_var W of Some entries \<Rightarrow> filter (\<lambda>e. e \<noteq> []) entries | None \<Rightarrow> []);
          from_cwd = (case pw_current_dir W of Some cwd \<Rightarrow> [path_join cwd ''ingestors''] | None \<Rightarrow> []);
          from_exe = (case Option.bind (pw_current_exe W) path_parent of
                        Some dir \<Rightarrow> [path_join dir ''ingestors'', path_join dir ''../lib/logjet/ingestors'']
                      | None \<Rightarrow> [])
      in fold push_unique_path
           (from_var @ from_cwd @ from_exe @ [''/usr/lib/logjet/ingestors'', ''/usr/lib/logjet'']) [])"

definition resolve_ingest_plugin_path_from_roots :: "plugin_world \<Rightarrow> string \<Rightarrow> string list \<Rightarrow> string" where
  "resolve_ingest_plugin_path_from_roots W path roots =
     (if pw_exists W path \<or> has_parent path then path
      else case List.find (pw_exists W) (map (\<lambda>base. path_join base path) roots) of
             Some candidate \<Rightarrow> candidate
           | None \<Rightarrow> path)"

definition resolve_ingest_plugin_path :: "plugin_world \<Rightarrow> string \<Rightarrow> string" where
  "resolve_ingest_plugin_path W path =
     (if pw_exists W path \<or> has_parent path then path
      else resolve_ingest_plugin_path_from_roots W path (collect_ingest_plugin_search_roots W))"

section \<open>Candidates\<close>

definition ends_with :: "string \<Rightarrow> string \<Rightarrow> bool" where
  "ends_with suffix s \<longleftrightarrow> strip_suffix suffix s \<noteq> None"

definition is_shared_library :: "string \<Rightarrow> bool" where
  "is_shared_library path =
     (case path_file_name path of None \<Rightarrow> False | Some name \<Rightarrow> ends_with ''.so'' name)"

text \<open>The entries of one directory are sorted; they differ in their last component.\<close>

fun collect_plugin_candidates ::
    "plugin_world \<Rightarrow> string \<Rightarrow> string list \<Rightarrow> string list \<times> string list \<Rightarrow> string list \<times> string list" where
  "collect_plugin_candidates W what [] st = st"
| "collect_plugin_candidates W what (base # roots) (out, diagnostics) =
     collect_plugin_candidates W what roots
       (if pw_is_file W base then (out @ [base], diagnostics)
        else if \<not> pw_exists W base then (out, diagnostics)
        else case pw_read_dir W base of
               Inl err \<Rightarrow> (out, diagnostics @ [''cannot read '' @ what @ '' directory '' @ base @ '': '' @ msg err])
             | Inr entries \<Rightarrow>
                 (out @ sort_key path_components
                          (filter is_shared_library (List.map_filter (\<lambda>e. case e of Inr p \<Rightarrow> Some p | Inl _ \<Rightarrow> None) entries)),
                  diagnostics))"

definition collect_ingest_plugin_candidates :: "plugin_world \<Rightarrow> string list \<Rightarrow> string list \<times> string list" where
  "collect_ingest_plugin_candidates W roots = collect_plugin_candidates W ''ingest plugin'' roots ([], [])"

section \<open>Descriptors and names\<close>

definition LJ_INGEST_ABI_MAJOR :: u32 where "LJ_INGEST_ABI_MAJOR = 1"
definition LJ_INGEST_ABI_MINOR :: u32 where "LJ_INGEST_ABI_MINOR = 1"

text \<open>The size of the descriptor on a 64-bit machine: three words and a padding, two pointers, the mode
  and a padding, eight reserved numbers.\<close>

definition DESCRIPTOR_SIZE :: u32 where "DESCRIPTOR_SIZE = 104"

definition LJ_INGEST_SIGNAL_LOGS :: u32 where "LJ_INGEST_SIGNAL_LOGS = 1"

record ingest_descriptor =
  ds_name :: string
  ds_display_name :: string
  ds_supported_signals :: u32

definition is_valid_plugin_name :: "string \<Rightarrow> bool" where
  "is_valid_plugin_name s \<longleftrightarrow>
     s \<noteq> [] \<and>
     list_all (\<lambda>c. let n = of_char c :: nat in (97 \<le> n \<and> n \<le> 122) \<or> is_ascii_digit c \<or> c = CHR ''-'' \<or> c = CHR ''_'') s"

definition show_u32 :: "u32 \<Rightarrow> string" where
  "show_u32 w = show_nat (unat w)"

definition show_version :: "u32 \<Rightarrow> u32 \<Rightarrow> string" where
  "show_version major minor = show_u32 major @ ''.'' @ show_u32 minor"

definition read_ingest_descriptor :: "plugin_world \<Rightarrow> string \<Rightarrow> string + ingest_descriptor" where
  "read_ingest_descriptor W path =
     (case pw_dlopen W path of
        DlopenFailed err \<Rightarrow> Inl (''dlopen '' @ path @ '': '' @ err)
      | SymbolMissing err \<Rightarrow> Inl (''symbol lj_ingest_descriptor_v1 in '' @ path @ '': '' @ err)
      | DescriptorPtr None \<Rightarrow> Inl (''ingest plugin '' @ path @ '' returned NULL descriptor'')
      | DescriptorPtr (Some d) \<Rightarrow>
          if rd_struct_size d < DESCRIPTOR_SIZE then
            Inl (''ingest plugin '' @ path @ '' advertises descriptor size '' @ show_u32 (rd_struct_size d) @
                 '' but host needs '' @ show_u32 DESCRIPTOR_SIZE)
          else if rd_abi_major d \<noteq> LJ_INGEST_ABI_MAJOR then
            Inl (''ingest plugin '' @ path @ '' uses ABI '' @ show_version (rd_abi_major d) (rd_abi_minor d) @
                 '' but host needs '' @ show_u32 LJ_INGEST_ABI_MAJOR @ ''.x'')
          else if rd_abi_minor d > LJ_INGEST_ABI_MINOR then
            Inl (''ingest plugin '' @ path @ '' uses newer ABI minor '' @ show_version (rd_abi_major d) (rd_abi_minor d) @
                 '' than host supports '' @ show_version LJ_INGEST_ABI_MAJOR LJ_INGEST_ABI_MINOR)
          else
            case rd_name d of
              None \<Rightarrow> Inl (''ingest plugin '' @ path @ '' returned NULL name'')
            | Some raw \<Rightarrow>
                let name = map to_ascii_lowercase (trim (from_utf8_lossy raw)) in
                if \<not> is_valid_plugin_name name then
                  Inl (''ingest plugin '' @ path @ '' returned invalid name `'' @ name @ ''`'')
                else
                  let raw_signals = ucast (rd_reserved0 d) in
                  Inr \<lparr>ds_name = name,
                       ds_display_name = (case read_optional_str (rd_display_name d) of Some s \<Rightarrow> s | None \<Rightarrow> name),
                       ds_supported_signals = (if raw_signals = 0 then LJ_INGEST_SIGNAL_LOGS else raw_signals)\<rparr>)"

definition strip_any_prefix :: "string list \<Rightarrow> string \<Rightarrow> string" where
  "strip_any_prefix ps s =
     (case List.find (\<lambda>p. strip_prefix p s \<noteq> None) ps of Some p \<Rightarrow> drop (length p) s | None \<Rightarrow> s)"

definition strip_any_suffix :: "string list \<Rightarrow> string \<Rightarrow> string" where
  "strip_any_suffix ps s =
     (case List.find (\<lambda>p. strip_suffix p s \<noteq> None) ps of Some p \<Rightarrow> take (length s - length p) s | None \<Rightarrow> s)"

definition normalise_legacy_plugin_stem :: "string \<Rightarrow> string" where
  "normalise_legacy_plugin_stem stem =
     (let name = strip_any_prefix [''lib''] stem;
          name = strip_any_prefix [''lj_'', ''lj-'', ''logjet_''] name;
          name = strip_any_suffix [''_ingest'', ''-ingest''] name
      in map (\<lambda>c. if c = CHR ''_'' then CHR ''-'' else c) (map to_ascii_lowercase name))"

definition legacy_ingest_plugin_name :: "string \<Rightarrow> string option" where
  "legacy_ingest_plugin_name path =
     (case path_file_stem path of
        None \<Rightarrow> None
      | Some stem \<Rightarrow>
          if \<not> ends_with ''_ingest'' stem \<and> \<not> ends_with ''-ingest'' stem then None
          else Some (normalise_legacy_plugin_stem stem))"

definition legacy_ingest_plugin_name_matches :: "string \<Rightarrow> string \<Rightarrow> bool" where
  "legacy_ingest_plugin_name_matches path requested \<longleftrightarrow> legacy_ingest_plugin_name path = Some requested"

definition ingest_plugin_label :: "plugin_world \<Rightarrow> string \<Rightarrow> string" where
  "ingest_plugin_label W path =
     (case read_ingest_descriptor W path of
        Inr d \<Rightarrow> if ds_display_name d = ds_name d then ds_name d else ds_name d @ '' ('' @ ds_display_name d @ '')''
      | Inl _ \<Rightarrow> (case path_file_stem path of Some stem \<Rightarrow> normalise_legacy_plugin_stem stem | None \<Rightarrow> ''unknown''))"

section \<open>Choosing a plugin\<close>

fun find_candidate :: "plugin_world \<Rightarrow> string \<Rightarrow> string list \<Rightarrow> string list \<Rightarrow> string list + string" where
  "find_candidate W name [] diagnostics = Inl diagnostics"
| "find_candidate W name (candidate # rest) diagnostics =
     (case read_ingest_descriptor W candidate of
        Inr d \<Rightarrow> if ds_name d = name then Inr candidate else find_candidate W name rest diagnostics
      | Inl err \<Rightarrow> if legacy_ingest_plugin_name_matches candidate name then Inr candidate
                   else find_candidate W name rest (diagnostics @ [err]))"

definition find_ingest_plugin_by_name :: "plugin_world \<Rightarrow> string \<Rightarrow> string list \<Rightarrow> io_error + string" where
  "find_ingest_plugin_by_name W name roots =
     (case collect_ingest_plugin_candidates W roots of (candidates, diagnostics) \<Rightarrow>
      case find_candidate W name candidates diagnostics of
        Inr path \<Rightarrow> Inr path
      | Inl diagnostics \<Rightarrow>
          let searched = join '' -> '' roots in
          Inl (other_error
            (''ingest plugin `'' @ name @ ''` not found'' @
             (if searched \<noteq> [] then ''; searched: '' @ searched else []) @
             (if diagnostics \<noteq> [] then ''; loader notes: '' @ join '' | '' diagnostics else []))))"

definition resolve_ingest_plugin :: "plugin_world \<Rightarrow> string option \<Rightarrow> string option \<Rightarrow> string option \<Rightarrow> io_error + string" where
  "resolve_ingest_plugin W plugin_path plugin_dir plugin_name =
     (case (plugin_path, plugin_name) of
        (Some path, None) \<Rightarrow> Inr (resolve_ingest_plugin_path W path)
      | _ \<Rightarrow>
          let from_dir = (case plugin_dir of Some dir \<Rightarrow> [dir] | None \<Rightarrow> []);
              from_path = (case plugin_path of
                 Some path \<Rightarrow> [if has_parent path then path else resolve_ingest_plugin_path W path]
               | None \<Rightarrow> []);
              roots = fold push_unique_path (from_dir @ from_path @ collect_ingest_plugin_search_roots W) []
          in case plugin_name of
               None \<Rightarrow> Inl (other_error ''ingest.plugin-path or ingest.plugin is required for plugin protocol'')
             | Some name \<Rightarrow> find_ingest_plugin_by_name W name roots)"

record visible_plugin =
  vp_name :: string
  vp_display_name :: string
  vp_path :: string

definition list_visible_ingest_plugins :: "plugin_world \<Rightarrow> string option \<Rightarrow> string option \<Rightarrow> visible_plugin list" where
  "list_visible_ingest_plugins W dir path =
     (let given = (case dir of Some p \<Rightarrow> [p] | None \<Rightarrow> []) @ (case path of Some p \<Rightarrow> [p] | None \<Rightarrow> []);
          roots = fold push_unique_path (given @ collect_ingest_plugin_search_roots W) [];
          plugins = List.map_filter
            (\<lambda>p. case read_ingest_descriptor W p of
                   Inr d \<Rightarrow> Some \<lparr>vp_name = ds_name d, vp_display_name = ds_display_name d, vp_path = p\<rparr>
                 | Inl _ \<Rightarrow> map_option (\<lambda>n. \<lparr>vp_name = n, vp_display_name = n, vp_path = p\<rparr>) (legacy_ingest_plugin_name p))
            (fst (collect_ingest_plugin_candidates W roots))
      in sort_key vp_name (sort_key (\<lambda>p. if path_absolute (vp_path p) then 0 else 1 :: nat)
           (sort_key (\<lambda>p. path_components (vp_path p)) plugins)))"

section \<open>Loading and running\<close>

text \<open>The symbols of a library: an error text for a missing one. Four are required.\<close>

record 'c plugin_symbols =
  sym_create :: "string + 'c option"
  sym_set_callback :: "string + ('c \<Rightarrow> 'c)"
  sym_feed :: "string + (bytes \<Rightarrow> 'c \<Rightarrow> plugin_call list \<times> i32 \<times> 'c)"
  sym_fetch :: "string + ('c \<Rightarrow> plugin_call list \<times> i32 \<times> 'c)"
  sym_set_generic_callback :: "string + ('c \<Rightarrow> 'c)"
  sym_free :: "string + unit"

definition required :: "string \<Rightarrow> string + 'a \<Rightarrow> io_error + 'a" where
  "required name symbol = map_sum (\<lambda>err. other_error (''symbol '' @ name @ '': '' @ err)) id symbol"

definition optional :: "string + 'a \<Rightarrow> 'a option" where
  "optional symbol = (case symbol of Inr f \<Rightarrow> Some f | Inl _ \<Rightarrow> None)"

definition plugin_load :: "string \<Rightarrow> string + 'c plugin_symbols \<Rightarrow> io_error + 'c plugin_handle" where
  "plugin_load path lib =
     (case lib of
        Inl err \<Rightarrow> Inl (other_error (''dlopen '' @ path @ '': '' @ err))
      | Inr lib \<Rightarrow>
          and_then (required ''lj_ingest_create'' (sym_create lib)) (\<lambda>create.
          and_then (required ''lj_ingest_set_callback'' (sym_set_callback lib)) (\<lambda>set_callback.
          and_then (required ''lj_ingest_feed'' (sym_feed lib)) (\<lambda>feed.
          and_then (required ''lj_ingest_free'' (sym_free lib)) (\<lambda>_.
          Inr \<lparr>ph_create = create, ph_set_callback = set_callback, ph_feed = feed, ph_fetch = optional (sym_fetch lib),
               ph_set_generic_callback = optional (sym_set_generic_callback lib)\<rparr>)))))"

text \<open>Environment variables. Setting one with an empty name panics (\<open>None\<close>).\<close>

type_synonym process_env = "string \<rightharpoonup> string"

fun set_plugin_env :: "string list \<Rightarrow> process_env \<Rightarrow> ((string \<times> string option) list \<times> process_env) option" where
  "set_plugin_env [] env = Some ([], env)"
| "set_plugin_env (e # es) env =
     (case split_once CHR ''='' e of
        None \<Rightarrow> set_plugin_env es env
      | Some (k, v) \<Rightarrow>
          if k = [] then None
          else map_option (\<lambda>(prev, env'). ((k, env k) # prev, env')) (set_plugin_env es (env(k \<mapsto> v))))"

definition restore_env :: "(string \<times> string option) list \<Rightarrow> process_env \<Rightarrow> process_env" where
  "restore_env prev env = fold (\<lambda>(k, old) env. env(k := old)) prev env"

text \<open>A passive plugin is served by a loop that only ends with an error; \<open>serve\<close> is that error and the state it
  leaves. Both this loop and a failing load leave through \<^verbatim>\<open>?\<close>.\<close>

definition plugin_ingest_loop ::
    "extern \<Rightarrow> otlp_codec \<Rightarrow> (nat \<Rightarrow> u64) \<Rightarrow> (io_error + 'c plugin_handle) \<Rightarrow>
     ('c plugin_handle \<Rightarrow> nat \<times> daemon \<Rightarrow> io_error \<times> nat \<times> daemon) \<Rightarrow> string list \<Rightarrow> process_env \<Rightarrow> nat \<times> daemon \<Rightarrow>
     ((io_error + unit) \<times> process_env \<times> nat \<times> daemon) option" where
  "plugin_ingest_loop X K clock loaded serve plugin_env env st =
     (case set_plugin_env plugin_env env of
        None \<Rightarrow> None
      | Some (prev, env) \<Rightarrow>
          Some (case loaded of
                  Inl e \<Rightarrow> (Inl e, env, st)
                | Inr h \<Rightarrow>
                    if ph_is_active h then
                      (case run_active_plugin X K clock h st of (result, st) \<Rightarrow> (result, restore_env prev env, st))
                    else (case serve h st of (e, st) \<Rightarrow> (Inl e, env, st))))"

section \<open>The environment after a plugin\<close>

lemma restore_env_Nil: "restore_env [] env = env"
  by (simp add: restore_env_def)

lemma restore_env_Cons: "restore_env ((k, old) # prev) env = restore_env prev (env(k := old))"
  unfolding restore_env_def by simp

lemma restore_env_upd:
  "k \<notin> fst ` set prev \<Longrightarrow> restore_env prev (env(k := x)) = (restore_env prev env)(k := x)"
proof (induction prev arbitrary: env)
  case (Cons p prev)
  obtain j old where p: "p = (j, old)" by (cases p)
  with Cons.prems have k: "k \<noteq> j" "k \<notin> fst ` set prev" by auto
  from k(1) have "(env(k := x))(j := old) = (env(j := old))(k := x)" by (rule fun_upd_twist)
  then show ?case unfolding p restore_env_Cons by (simp only: Cons.IH [OF k(2)])
qed (simp add: restore_env_Nil)

lemma env_is_restored:
  "set_plugin_env es env = Some (prev, env') \<Longrightarrow> distinct (map fst prev) \<Longrightarrow> restore_env prev env' = env"
proof (induction es arbitrary: env prev)
  case (Cons e es)
  show ?case
  proof (cases "split_once CHR ''='' e")
    case None
    with Cons show ?thesis by simp
  next
    case (Some kv)
    obtain k v where kv: "kv = (k, v)" by (cases kv)
    with Some Cons.prems obtain prev' where p: "set_plugin_env es (env(k \<mapsto> v)) = Some (prev', env')" "prev = (k, env k) # prev'"
      by (auto split: if_splits)
    with Cons.prems have d: "distinct (map fst prev')" "k \<notin> fst ` set prev'" by auto
    have "restore_env prev env' = restore_env prev' (env'(k := env k))" unfolding p(2) restore_env_Cons ..
    also have "\<dots> = (env(k \<mapsto> v))(k := env k)" by (simp only: restore_env_upd [OF d(2)] Cons.IH [OF p(1) d(1)])
    finally show ?thesis by simp
  qed
qed (simp add: restore_env_Nil)

text \<open>With the same variable twice the first of the two values stays: the old values are put back in the order in
  which they were taken.\<close>

lemma env_given_twice:
  "map_option (\<lambda>(prev, env). restore_env prev env ''A'') (set_plugin_env [''A=1'', ''A=2''] Map.empty) = Some (Some ''1'')"
  by (simp add: restore_env_Cons restore_env_Nil)

end
