(* ===== verification/Spec2Isabelle.thy ===== *)
theory Spec2Isabelle
  imports Lj_Config Lj_Bridge_Run Lj_Dedup_Distinct Lj_Logcat Lj_Plugin_Loader
begin

text \<open>
  A verification library for \<^verbatim>\<open>logjet\<close>, a log transport: a block file format with a writer and a recovering
  reader, the daemon \<^verbatim>\<open>logjetd\<close> that takes telemetry in, keeps it in a spool and replays it to clients, the
  bridge that carries it to collectors, and the tool \<^verbatim>\<open>ljx\<close> that searches the files.

  \<^bold>\<open>Parts and theories.\<close>
  \<^item> File format, \<^verbatim>\<open>src/src\<close>. \<open>Lj_Format\<close> has errors, records, codecs and block headers
    (\<^verbatim>\<open>error.rs\<close>, \<^verbatim>\<open>record.rs\<close>, \<^verbatim>\<open>codec.rs\<close>, \<^verbatim>\<open>format.rs\<close>); \<open>Lj_Varint\<close> and \<open>Lj_Writer\<close>
    \<^verbatim>\<open>writer.rs\<close>; \<open>Lj_Reader\<close> \<^verbatim>\<open>reader.rs\<close>. \<open>Lj_Scan\<close> proves the reader equivalent to a
    reference scan for valid blocks, \<open>Lj_Roundtrip\<close> that written logs are read back. A writer writes to any sink
    (locale \<open>byte_sink\<close>).
  \<^item> Wire protocol, \<^verbatim>\<open>logjetd/src/protocol.rs\<close>: \<open>Lj_Protocol\<close>. Every message is read back as written (locale
    \<open>framed_message\<close>).
  \<^item> Configuration, \<^verbatim>\<open>logjetd/src/config.rs\<close>: \<open>Lj_Config\<close>.
  \<^item> Spools, \<^verbatim>\<open>logjetd/src/spool.rs\<close>. The contract of a spool towards the replay server is the locale
    \<open>replay_store\<close> in \<open>Lj_Replay_Store\<close>. \<open>Lj_Buffer_Spool\<close> is the memory spool. The file spool writes logs
    with the writer and reads them with the reader: \<open>Lj_Fs\<close> is the directory, \<open>Lj_File_Spool\<close> the operations,
    \<open>Lj_File_Replay\<close>, \<open>Lj_File_Append\<close> and \<open>Lj_File_Consume\<close> what they do to the stored records. \<open>Lj_Spool\<close> is the
    enum of both with retention, pruning and inspection.
  \<^item> Daemon, \<^verbatim>\<open>logjetd/src/daemon.rs\<close>. \<open>Lj_Otlp\<close> has the messages the code looks into, \<open>Lj_Daemon\<close> the overload
    policy, the connection limiter and the ingest handlers, \<open>Lj_Ingest\<close> what they store and how concurrent handlers
    number their records. \<open>Lj_Replay_Server\<close> is one replay connection as a machine, \<open>Lj_Replay_Session\<close> its output
    among other threads, \<open>Lj_Replay_Delivery\<close> its output when nothing else runs.
  \<^item> Bridge, \<^verbatim>\<open>logjetd/src/replay.rs\<close>. \<open>Lj_Collector\<close> has endpoints and connections, \<open>Lj_Batcher\<close> the merging of logs
    and the replay of a directory, \<open>Lj_Bridge\<close> the bridge with and without backpressure, \<open>Lj_Bridge_Run\<close> its runs, alone
    and together with a daemon.
  \<^item> Command-line tool \<^verbatim>\<open>ljx\<close> with its CEL front end \<^verbatim>\<open>ljcel\<close>. \<open>Lj_Otlp_Msg\<close> has the OTLP messages it looks into,
    \<open>Lj_Float\<close> the floating-point numbers it computes with. \<open>Lj_Cel\<close> is \<^verbatim>\<open>ljcel/src\<close>, \<open>Lj_Predicate\<close> the predicates
    and the commands \<^verbatim>\<open>count\<close> and \<^verbatim>\<open>filter\<close>, \<open>Lj_Index\<close> the block index of a file
    (\<^verbatim>\<open>dataset_index.rs\<close>), which \<open>Lj_Index_Sound\<close> relates to the reader. \<open>Lj_View_Scan\<close> is the scan of the viewer
    (\<^verbatim>\<open>commands/view/scan.rs\<close>), \<open>Lj_View_Proofs\<close> and \<open>Lj_View\<close> what it shows and saves.
  \<^item> Deduplication, \<^verbatim>\<open>ljx/src/dedup\<close> and \<^verbatim>\<open>commands/dedup.rs\<close>. \<open>Lj_Dedup_Text\<close> classifies tokens, \<open>Lj_Dedup_Canon\<close>
    detects the shape of a body and gives its canonical form, which \<open>Lj_Dedup_Stable\<close> shows to be stable. \<open>Lj_Drain\<close> is
    the template miner (\<^verbatim>\<open>drain3.rs\<close>), \<open>Lj_Drain_Proofs\<close> its invariant. \<open>Lj_Dedup\<close> unpacks a file and groups its
    records, \<open>Lj_Dedup_Emit\<close> writes the groups and is the command. \<open>Lj_Dedup_Groups\<close> is a reference for grouping by key,
    \<open>Lj_Dedup_Counts\<close> shows that no record is lost, \<open>Lj_Dedup_Output\<close> what the output reads back as, and
    \<open>Lj_Dedup_Distinct\<close> what the groups are.
  \<^item> Ingest plugins. \<open>Lj_Plugin\<close> is the host (\<^verbatim>\<open>logjetd/src/plugin.rs\<close>): callbacks, connections, active
    plugins, and the contract of a plugin that gets its input in pieces (locale \<open>chunked_plugin\<close>); \<open>Lj_Plugin_Loader\<close>
    finds and loads them. \<open>Lj_Syslog\<close> and \<open>Lj_Logcat\<close> are the plugins \<^verbatim>\<open>syslog-ingest\<close> and
    \<^verbatim>\<open>logcat-ingest\<close>.
  \<open>Lj_Base\<close> (integers, results, little-endian bytes), \<open>Lj_Text\<close> (numbers and strings as text), \<open>Lj_Utf8\<close> and \<open>Lj_Path\<close>
  are shared.

  \<^bold>\<open>Correspondence.\<close> A struct is a \<open>record\<close>, an enum a \<open>datatype\<close>, a function keeps its name where it can. Rust's
  \<^verbatim>\<open>u8\<close> to \<^verbatim>\<open>u64\<close> are words; \<^verbatim>\<open>usize\<close> is \<open>nat\<close>, bounded by \<open>usize_bound\<close> where it matters.
  \<^verbatim>\<open>Result\<close> is a sum with the error on the left; a method on \<^verbatim>\<open>&mut self\<close> returns its result and the new
  state, also on errors; \<^verbatim>\<open>?\<close> is \<open>try_st\<close>, \<open>try_r\<close> or \<open>and_then\<close>. A string is a list of
  characters, one for each byte; white space and letter case are those of ASCII. A byte source is
  \<open>dev\<close>: bytes, a position and a map of faults; a sink is a type with a \<^verbatim>\<open>write_all\<close>. Threads are step relations whose
  steps are what the code does under one lock or with one atomic operation. Clock readings are arguments.

  Third-party code is a parameter: the compression codecs and CRC-32C are the record \<open>extern\<close> with the law
  \<open>codecs_ok\<close> (decompressing a compressed block gives it back) and, where a codec must not fail, \<open>codec_total\<close>; the OTLP
  message codecs and gzip are the record \<open>otlp\<close> with the law \<open>logs_codec_ok\<close>; \<^verbatim>\<open>serde_yaml\<close> is an argument of
  \<open>load\<close>; the CEL and regular-expression crates and the OTLP decoder of \<^verbatim>\<open>ljx\<close> are the records \<open>cel_crate\<close>,
  \<open>regex_crate\<close> and \<open>otlp_codec\<close>. Deduplication takes the record \<open>dedup_env\<close>: regular expressions, with the law
  \<open>rx_ok\<close>, JSON, the hash function, and the iteration order of hash maps, with the law \<open>orders_ok\<close> (every entry once,
  in any order). Each law is instantiated concretely in the witnesses.

  \<^bold>\<open>What the theorems show.\<close> Properties are numbered C1, C2, \<dots> in the theories.
  \<^item> Files: written records are read back in order (C1), damage is skipped and only damage
    (C2), the reader returns the records of exactly the valid blocks
    (C3), what it accepts is authentic (C4), damage is never an
    error (C5), a failing flush (C6).
  \<^item> Protocol and configuration: C7, C8.
  \<^item> Spools: limits and invariant of the memory spool (C9, C10); exact
    replay (C11, C12); no record is lost by appending and rotating
    (C13); consuming (C14), with a defect (C15);
    retention (C16); numbering after a drain, with a defect
    (C17).
  \<^item> Daemon: rate limit (C18), connection limit (C19), what an
    answer means (C20), unique numbers outside the wire protocol (C21), a race
    (C22); replay in order under any interleaving (C23), liveness of
    replay (C24), draining (C25).
  \<^item> Bridge: batching keeps every log (C26), HTTP responses
    (C27), bridge and daemon together (C28), acknowledgement before
    delivery (C29).
  \<^item> Tool: the view shows exactly the matches (C30), with a defect of the index
    (C31); a saved selection reads back (C32); filtering
    (C33), with a defect (C34).
  \<^item> Deduplication: canonical text is stable (C35) and canonical JSON keeps what does not vary (C39); templates cover their messages
    (C36); no record is lost and the output reads back (C37); the groups
    are the canonical bodies (C38).
  \<^item> Plugins: a syslog stream is stored line by line (C40).

  \<^bold>\<open>Bounds.\<close> Loops are total functions: the reader, the wire loops and the HTTP reader move forward in their input. The
  theorems on file contents assume files below 4 GiB, the size the reader's counters can hold. Where a theorem iterates
  a step function it states that some number of steps gives the result.

  \<^bold>\<open>Not modelled.\<close> Sockets, TLS, threads being started, signals, and the endless accept and retry loops around the
  handlers. Disk errors other than a missing file, and the effect of a crash between two writes. Poisoned mutexes.
  Several clients of one plugin at a time, and a bridge worker that fails to connect only after records were read.
  Printing. Of \<^verbatim>\<open>ljx\<close>: the terminal interface of the viewer, the merging of several files while viewing, following a
  growing file, exports and their plugins; \<^verbatim>\<open>join\<close>, \<^verbatim>\<open>split\<close> and \<^verbatim>\<open>stats\<close> are not implemented in the source. The C
  library \<^verbatim>\<open>liblogjet\<close>, the perfetto and stress plugins, the listing of exporters, and the demos.
\<close>

section \<open>Concrete instances\<close>

lemma default_marker_unique: "first_unique (rc_sync_marker reader_config_default)"
  by (simp add: reader_config_default_def DEFAULT_SYNC_MARKER_def first_unique_def)

lemma sample_block:
  "\<exists>out q recs r'. try_read_block_at identity_extern q (reader_with_config (dev_of out) reader_config_default)
     = (Inr recs, r')"
proof -
  obtain out where out: "write_log identity_extern writer_config_default sample_records = Inr out" "length out < 200000"
    by (rule sample_log)
  let ?r = "reader_with_config (dev_of out) reader_config_default"
  obtain bl where "blocks_from identity_extern reader_config_default out 0 = bl" "block_records bl = sample_records"
    using blocks_from_log [OF identity_codecs identity_total default_compatible _ _ _ out(1), of "[]" "[]"]
      blocks_from_end [of identity_extern reader_config_default out]
    by (auto simp: default_config_simps sample_records_simps)
  then obtain q e recs where nb: "next_block identity_extern reader_config_default out 0 = Some (q, e, recs)"
    by (auto simp: blocks_from.simps [of identity_extern reader_config_default out 0] block_records_def
        sample_records_def split: option.splits)
  note b = next_block_bounds [OF nb]
  obtain res r' where run: "try_read_block_at identity_extern q ?r = (res, r')" by (metis surj_pair)
  have "res = Inr recs"
    using try_read_block_at_spec(1) [OF _ _ _ _ run] b out(2)
    by (auto simp: reader_with_config_def dev_of_def no_faults_def reader_stats_default_def)
  with run show ?thesis by blast
qed

section \<open>The log format: writer against reader\<close>

text \<open>C1. Records pushed in sequence and timestamp order to a writer over memory are all accepted, and
  reading the bytes back returns exactly those records, in order, counted in the statistics, with no
  byte skipped when blocks are not padded. The codec is assumed to decompress what it compressed and to
  compress a block of at most \<open>L\<close> bytes to at most \<open>M\<close>; the limits of the reader admit such blocks.\<close>

theorem write_read_round_trip:
  assumes "codecs_ok X" and "codec_total X (wc_codec wc) L M" and "compatible wc L cfg"
    and "M \<le> max_compressed_len cfg" and "L < 2 ^ 32" and "M < 2 ^ 32" and "block_target_size wc \<le> L"
    and "\<forall>r\<in>set rs. 31 + length (payload r) \<le> L" and "sorted_wrt record_le rs"
  shows "\<exists>out. write_log X wc rs = Inr out \<and>
    (length out < 2 ^ 32 \<longrightarrow>
      (\<exists>r'. read_records X (reader_with_config (dev_of out) cfg) = (Inr rs, r') \<and>
        unat (records_ok (r_stats r')) = length rs \<and>
        (block_alignment wc = 0 \<longrightarrow> bytes_skipped (r_stats r') = 0)))"
proof -
  obtain out where out: "write_log X wc rs = Inr out"
    using write_log_total [OF assms(2,5,6,7,8,9)] by blast
  obtain bl where bl: "blocks_from X cfg out 0 = bl" "block_records bl = rs"
      "block_alignment wc = 0 \<longrightarrow> block_span bl = length out"
    using blocks_from_log [OF assms(1-4,7,8) out, of "[]" "[]"] blocks_from_end [of X cfg out] by auto
  show ?thesis
    using out bl read_file_spec [of cfg out X] assms(3)
    by (intro exI [of _ out]) (auto simp: compatible_def unat_eq_0)
qed

theorem write_read_round_trip_witness:
  "\<exists>out. write_log identity_extern writer_config_default sample_records = Inr out \<and>
    (length out < 2 ^ 32 \<longrightarrow>
      (\<exists>r'. read_records identity_extern (reader_with_config (dev_of out) reader_config_default)
              = (Inr sample_records, r') \<and>
        unat (records_ok (r_stats r')) = 2 \<and> bytes_skipped (r_stats r') = 0))"
  using write_read_round_trip [of identity_extern writer_config_default 65536 65536 reader_config_default sample_records]
  by (simp add: default_config_simps sample_records_simps)

text \<open>C2. Resynchronisation. Two written logs with arbitrary bytes between them, at none of whose offsets
  a block validates, read as the records of both logs; without padding exactly the damaged bytes are
  counted as skipped. With no bytes between them this is the reading of a log that was reopened for
  append.\<close>

theorem damaged_region_is_skipped:
  assumes "codecs_ok X" and "codec_total X (wc_codec wc) L M" and "compatible wc L cfg"
    and "M \<le> max_compressed_len cfg" and "block_target_size wc \<le> L"
    and "\<forall>r\<in>set (rs1 @ rs2). 31 + length (payload r) \<le> L"
    and "write_log X wc rs1 = Inr out1" and "write_log X wc rs2 = Inr out2"
    and "\<forall>q<length junk. block_at X cfg (out1 @ junk @ out2) (length out1 + q) = None"
    and "length (out1 @ junk @ out2) < 2 ^ 32"
  shows "\<exists>r'. read_records X (reader_with_config (dev_of (out1 @ junk @ out2)) cfg) = (Inr (rs1 @ rs2), r') \<and>
    (block_alignment wc = 0 \<longrightarrow> unat (bytes_skipped (r_stats r')) = length junk)"
proof -
  let ?bs = "out1 @ junk @ out2"
  obtain bl1 where b1: "blocks_from X cfg ?bs 0 = bl1 @ blocks_from X cfg ?bs (length out1)"
      "block_records bl1 = rs1" "block_alignment wc = 0 \<longrightarrow> block_span bl1 = length out1"
    using blocks_from_log [OF assms(1-5) _ assms(7), of "[]" "junk @ out2"] assms(6) by auto
  have jump: "blocks_from X cfg ?bs (length out1) = blocks_from X cfg ?bs (length (out1 @ junk))"
  proof (rule blocks_from_jump)
    fix q assume "length out1 \<le> q" "q < length (out1 @ junk)"
    then show "block_at X cfg ?bs q = None" using assms(9) [rule_format, of "q - length out1"] by auto
  qed simp
  obtain bl2 where b2: "blocks_from X cfg ?bs (length (out1 @ junk)) = bl2"
      "block_records bl2 = rs2" "block_alignment wc = 0 \<longrightarrow> block_span bl2 = length out2"
    using blocks_from_log [OF assms(1-5) _ assms(8), of "out1 @ junk" "[]"] assms(6)
      blocks_from_end [of X cfg ?bs] by (auto simp: add.assoc)
  have "block_records (bl1 @ bl2) = rs1 @ rs2" "block_span (bl1 @ bl2) = block_span bl1 + block_span bl2"
    using b1 b2 by (simp_all add: block_records_def block_span_def)
  with b1 b2 jump read_file_spec [of cfg ?bs X] assms(3,10) show ?thesis
    by (auto simp: compatible_def)
qed

theorem damaged_region_is_skipped_witness:
  "\<exists>out r'. write_log identity_extern writer_config_default sample_records = Inr out \<and>
    read_records identity_extern (reader_with_config (dev_of (out @ [0, 0] @ out)) reader_config_default)
      = (Inr (sample_records @ sample_records), r') \<and> unat (bytes_skipped (r_stats r')) = 2"
proof -
  obtain out where out: "write_log identity_extern writer_config_default sample_records = Inr out" "length out < 200000"
    by (rule sample_log)
  let ?bs = "out @ [0, 0] @ out"
  have "block_at identity_extern reader_config_default ?bs (length out + q) = None" if "q < length [0, 0 :: u8]" for q
  proof (rule ccontr)
    assume "block_at identity_extern reader_config_default ?bs (length out + q) \<noteq> None"
    then have "slice (length out + q) 8 ?bs ! 0 = rc_sync_marker reader_config_default ! 0"
      using block_at_marker by fastforce
    then show False using that
      by (cases q) (simp_all add: slice_def reader_config_default_def DEFAULT_SYNC_MARKER_def)
  qed
  then have "\<exists>r'. read_records identity_extern (reader_with_config (dev_of ?bs) reader_config_default)
      = (Inr (sample_records @ sample_records), r') \<and>
      (block_alignment writer_config_default = 0 \<longrightarrow> unat (bytes_skipped (r_stats r')) = length [0, 0 :: u8])"
    using out
    by (intro damaged_region_is_skipped [where L = 65536 and M = 65536 and wc = writer_config_default])
      (auto simp: default_config_simps sample_records_simps)
  with out(1) show ?thesis by (auto simp: default_config_simps)
qed

text \<open>C3. Reading any file smaller than 4 GiB from its start ends without an error and returns the records
  of exactly the blocks of the reference scan \<^const>\<open>blocks_from\<close>: from the end of each accepted block
  on, the next block is the first marker at which a block validates. The statistics are exact: the
  accepted blocks, their records, and every byte outside an accepted block as skipped.\<close>

theorem reading_returns_the_valid_blocks:
  assumes "first_unique (rc_sync_marker cfg)" and "length bs < 2 ^ 32"
  shows "\<exists>r'. read_records X (reader_with_config (dev_of bs) cfg)
      = (Inr (block_records (blocks_from X cfg bs 0)), r') \<and>
    unat (blocks_ok (r_stats r')) = length (blocks_from X cfg bs 0) \<and>
    unat (records_ok (r_stats r')) = length (block_records (blocks_from X cfg bs 0)) \<and>
    unat (bytes_skipped (r_stats r')) + block_span (blocks_from X cfg bs 0) = length bs"
  using read_file_spec [OF assms] by blast

theorem reading_returns_the_valid_blocks_witness:
  "\<exists>r'. read_records identity_extern (reader_with_config (dev_of [1, 2, 3]) reader_config_default)
      = (Inr (block_records (blocks_from identity_extern reader_config_default [1, 2, 3] 0)), r') \<and>
    unat (bytes_skipped (r_stats r')) + block_span (blocks_from identity_extern reader_config_default [1, 2, 3] 0) = 3"
  using reading_returns_the_valid_blocks [OF default_marker_unique, of "[1, 2, 3]" identity_extern] by auto

text \<open>C4. A block that is accepted carries the marker, a header whose CRC matches the bytes on disk, a block
  CRC that matches header and compressed payload, lengths within the configured limits, and as many
  records as its header announces; the reader is left right after it.\<close>

theorem accepted_block_is_authentic:
  assumes "try_read_block_at X s r = (Inr recs, r')"
  shows "\<exists>h. slice s 8 (data (r_inner r)) = rc_sync_marker (r_config r) \<and>
    header_decode (slice (s + 8) 24 (data (r_inner r))) = Inr h \<and>
    bh_header_crc32c h = crc32c X (slice (s + 8) 20 (data (r_inner r)) @
      slice (s + 32) (unat (bh_header_len h) - 24) (data (r_inner r))) \<and>
    from_le (slice (s + 8 + unat (bh_header_len h) + unat (bh_compressed_len h)) 4 (data (r_inner r)))
      = crc32c X (slice (s + 8) (unat (bh_header_len h) + unat (bh_compressed_len h)) (data (r_inner r))) \<and>
    unat (bh_compressed_len h) \<le> max_compressed_len (r_config r) \<and>
    unat (bh_uncompressed_len h) \<le> max_uncompressed_len (r_config r) \<and>
    length recs = unat (bh_record_count h) \<and>
    pos (r_inner r') = s + 12 + unat (bh_header_len h) + unat (bh_compressed_len h)"
proof -
  from assms obtain h e c pl where
    f: "read_frame X (r_config r) s (r_inner r) = (Inr (h, e, c), r_inner r')"
    and "parse_records pl (bh_record_count h) e = Inr recs"
    by (rule try_read_block_at_Inr)
  from parse_records_length [OF this(2)] read_frame_pos [OF f] accepted_frame [OF f] show ?thesis
    by (intro exI [of _ h]) simp
qed

theorem accepted_block_is_authentic_witness:
  "\<exists>out q recs r' h. try_read_block_at identity_extern q (reader_with_config (dev_of out) reader_config_default)
     = (Inr recs, r') \<and> header_decode (slice (q + 8) 24 out) = Inr h \<and> length recs = unat (bh_record_count h)"
proof -
  obtain out q recs r' where run: "try_read_block_at identity_extern q
      (reader_with_config (dev_of out) reader_config_default) = (Inr recs, r')"
    using sample_block by blast
  from accepted_block_is_authentic [OF run] run show ?thesis
    by (auto simp: reader_with_config_def dev_of_def)
qed



text \<open>The byte-wise search for the sync marker returns the first occurrence of the marker at or after the
  current position, for a marker whose first byte does not recur in it (the default marker is one).\<close>

theorem sync_search_is_first_occurrence:
  assumes "first_unique m" and "no_faults d"
  shows "fst (find_next_sync m d) = Inr (find (occurs m (data d)) [pos d..<length (data d)])"
  using find_next_sync_spec [OF assms] by (simp add: first_sync_def)

theorem sync_search_is_first_occurrence_witness:
  "fst (find_next_sync [1, 2] (dev_of [1, 1, 2])) = Inr (Some 1)"
  using sync_search_is_first_occurrence [of "[1, 2]" "dev_of [1, 1, 2]"]
  by (simp add: first_unique_def no_faults_def dev_of_def occurs_def slice_def upt_conv_Cons)

text \<open>For a configured marker whose first byte recurs the search can run past an occurrence: after a
  mismatch it falls back to at most one matched byte.\<close>

theorem sync_search_misses_overlap:
  "fst (find_next_sync [1, 1, 2, 3, 4, 5, 6, 7] (dev_of [1, 1, 1, 2, 3, 4, 5, 6, 7])) = Inr None \<and>
   occurs [1, 1, 2, 3, 4, 5, 6, 7] [1, 1, 1, 2, 3, 4, 5, 6, 7] 1"
  by (simp add: find_next_sync_def find_sync_loop.simps read_byte_def dev_of_def occurs_def slice_def)

text \<open>A record whose sequence number or timestamp lies below the base of the open block is refused, with
  the error of the first check that fails, and the writer is unchanged apart from its scratch buffer.\<close>

theorem push_refuses_out_of_order:
  assumes "block_base_seq w = Some b" and "block_base_ts_unix_ns w = Some t"
    and "sq < b \<or> ts < t"
  shows "push X write_all ty sq ts pl w =
     (Inl (InvalidHeader (if sq < b then ''sequence must be monotonic within block''
                          else ''timestamp must be monotonic within block'')),
      w\<lparr>encoded_record_buf := []\<rparr>)"
  by (rule push_refuses [OF assms])

theorem push_refuses_out_of_order_witness:
  "push identity_extern vec_write_all Logs 1 9 [7]
     ((writer_new [])\<lparr>block_base_seq := Some 2, block_base_ts_unix_ns := Some 5\<rparr>) =
   (Inl (InvalidHeader ''sequence must be monotonic within block''),
    (writer_new [])\<lparr>block_base_seq := Some 2, block_base_ts_unix_ns := Some 5\<rparr>)"
  using push_refuses_out_of_order [of "(writer_new [])\<lparr>block_base_seq := Some 2, block_base_ts_unix_ns := Some 5\<rparr>"
      2 5 1 9 identity_extern vec_write_all Logs "[7]"]
  by (simp add: writer_new_def writer_with_config_def)

text \<open>C6. A flush that fails, in the codec, at a length limit or in the sink, keeps the buffered block with its
  base and record count, so that no accepted record is dropped and the flush can be retried.\<close>

theorem failed_flush_keeps_the_block:
  assumes "flush_block X write_all w = (Inl e, w')"
  shows "payload_buf w' = payload_buf w \<and> block_base_seq w' = block_base_seq w \<and>
    block_base_ts_unix_ns w' = block_base_ts_unix_ns w \<and> record_count w' = record_count w \<and>
    config w' = config w \<and> payload_buf w \<noteq> []"
  using assms
  by (auto simp: flush_block_def Let_def split: if_splits option.splits sum.splits prod.splits)

theorem failed_flush_keeps_the_block_witness:
  "payload_buf (snd (flush_block identity_extern (\<lambda>bs s. (Inl unexpected_eof, s))
      ((writer_new ())\<lparr>payload_buf := [1], block_base_seq := Some 2, block_base_ts_unix_ns := Some 5\<rparr>))) = [1]"
  using failed_flush_keeps_the_block [of identity_extern "\<lambda>bs s. (Inl unexpected_eof, s)"
      "(writer_new ())\<lparr>payload_buf := [1], block_base_seq := Some 2, block_base_ts_unix_ns := Some 5\<rparr>"
      "Io unexpected_eof"]
  by (simp add: flush_block_def Let_def writer_new_def writer_with_config_def writer_config_default_def
      compress_def identity_extern_def)

text \<open>Block headers round trip in both directions: decoding an encoded header gives it back, and encoding a
  decoded header gives the bytes it was read from.\<close>

theorem header_round_trip:
  "(bh_version h = FORMAT_VERSION \<longrightarrow> header_decode (header_encode h @ rest) = Inr h) \<and>
   (header_decode bs = Inr h' \<longrightarrow> header_encode h' = take 24 bs)"
  using header_decode_encode header_encode_decode by blast

theorem header_round_trip_witness:
  "header_decode (header_encode (block_header_for identity_extern Lz4 5 [1, 2] 1 []) @ [9])
     = Inr (block_header_for identity_extern Lz4 5 [1, 2] 1 [])"
  using header_round_trip [of "block_header_for identity_extern Lz4 5 [1, 2] 1 []" "[9]"]
  by (simp add: block_header_for_def Let_def)

text \<open>The writer's varint encoder never fails, produces at most ten bytes, and the reader's decoder reads
  the number back from any offset and stops after its last byte.\<close>

theorem varint_round_trip:
  "encode_varint v out = Inr (out @ uvarint v) \<and> length (uvarint v) \<le> 10 \<and>
   decode_varint (pre @ uvarint v @ rest) (length pre) = (Inr v, length pre + length (uvarint v))"
  using encode_varint_eq length_uvarint_10 decode_varint_uvarint by blast

end
